(* ===== verification/Prelude.thy ===== *)
theory Prelude
  imports Main "HOL-Library.Word" "HOL-Library.Multiset" "HOL-Library.Sublist"
begin

text \<open>
  Shared ground of the development: the machine types of the C++ sources, the two standard
  algorithms the services lean on (\<open>std::lower_bound\<close> and \<open>std::merge\<close>, written as the loops
  of the standard library), and the facts on strictly sorted key lists that every profile
  component uses.
\<close>

section \<open>Types and collections\<close>

text \<open>\<open>uint32_t\<close> fields of the plain profiles and \<open>unsigned long\<close> values of the services.\<close>

type_synonym u32 = "32 word"
type_synonym u64 = "64 word"

text \<open>
  \<open>key_simps\<close> collects the rewrite rules on keys of records, \<open>key_intros\<close> the introduction rules
  for strict sortedness.
\<close>

named_theorems key_simps
named_theorems key_intros

section \<open>Widening conversions\<close>

lemma uint_u64_of_u32 [simp]: "uint (ucast (a :: u32) :: u64) = uint a"
proof -
  have "0 \<le> uint a" "uint a < 2 ^ 64"
    using unsigned_less [of a, where ?'a = int] by (auto intro: order.strict_trans)
  then show ?thesis by (simp add: unsigned_ucast_eq take_bit_int_eq_self)
qed

lemma u64_of_u32_le [simp]: "(ucast (a :: u32) :: u64) \<le> ucast b \<longleftrightarrow> a \<le> b"
  by (simp add: word_le_def)

lemma u64_of_u32_less [simp]: "(ucast (a :: u32) :: u64) < ucast b \<longleftrightarrow> a < b"
  by (simp add: word_less_def)

lemma u64_of_u32_eq [simp]: "(ucast (a :: u32) :: u64) = ucast b \<longleftrightarrow> a = b"
  by (auto simp: word_uint_eq_iff)

lemma u32_of_u64_of_u32 [simp]: "ucast (ucast (a :: u32) :: u64) = a"
  by (rule bit_word_eqI) (simp add: bit_simps)

text \<open>An \<open>unsigned long\<close> that survives the store into a 32-bit field.\<close>

definition fits32 :: "u64 \<Rightarrow> bool" where
  "fits32 a \<longleftrightarrow> a < 2 ^ 32"

lemma fits32_ucast [simp]: "fits32 a \<Longrightarrow> ucast (ucast a :: u32) = a"
proof -
  assume "fits32 a"
  then have "uint a < 2 ^ 32" by (simp add: fits32_def word_less_def)
  then have "uint (ucast a :: u32) = uint a"
    by (simp add: unsigned_ucast_eq take_bit_int_eq_self)
  then show ?thesis by (simp only: word_uint_eq_iff uint_u64_of_u32)
qed

lemma fits32_of_u32 [simp]: "fits32 (ucast (a :: u32))"
  using unsigned_less [of a, where ?'a = int] by (simp add: fits32_def word_less_def)

lemma u64_roundtrip: "ucast (a :: u32) = b \<Longrightarrow> ucast (ucast b :: u32) = (b :: u64)"
  by (metis fits32_of_u32 fits32_ucast)

section \<open>Induction over a walk along two lists\<close>

text \<open>Every two-iterator loop of the sources advances one of the two iterators or both.\<close>

lemma two_list_walk_induct [case_names Left_end Right_end Step]:
  assumes "\<And>ys. P [] ys" "\<And>x xs. P (x # xs) []"
    "\<And>x xs y ys. P xs (y # ys) \<Longrightarrow> P (x # xs) ys \<Longrightarrow> P xs ys \<Longrightarrow> P (x # xs) (y # ys)"
  shows "P xs ys"
proof (induction xs arbitrary: ys)
  case Nil
  show ?case by (rule assms(1))
next
  case (Cons x xs)
  note outer = Cons.IH
  show ?case
  proof (induction ys)
    case Nil
    show ?case by (rule assms(2))
  next
    case (Cons y ys)
    show ?case by (rule assms(3) [OF outer Cons.IH outer])
  qed
qed

lemma u32_of_u64_add: "(ucast (ucast (a :: u32) + ucast b :: u64) :: u32) = a + b"
proof -
  have "uint (ucast (ucast a + ucast b :: u64) :: u32) = take_bit 32 (take_bit 64 (uint a + uint b))"
    by (simp add: unsigned_ucast_eq uint_word_ariths take_bit_eq_mod mod_add_eq)
  also have "\<dots> = uint (a + b)"
    by (simp add: uint_word_ariths take_bit_take_bit) (simp add: take_bit_eq_mod)
  finally show ?thesis by (rule unsigned_word_eqI)
qed

section \<open>Strictly sorted key lists\<close>

text \<open>A container that the code keeps ordered by a unique key.\<close>

definition key_sorted :: "('a \<Rightarrow> 'k::linorder) \<Rightarrow> 'a list \<Rightarrow> bool" where
  "key_sorted key xs = sorted_wrt (<) (map key xs)"

text \<open>The element stored under a key.\<close>

definition key_find :: "('a \<Rightarrow> 'k) \<Rightarrow> 'k \<Rightarrow> 'a list \<Rightarrow> 'a option" where
  "key_find key k xs = find (\<lambda>x. key x = k) xs"

lemma key_sorted_Nil [simp, key_intros]: "key_sorted key []"
  by (simp add: key_sorted_def)

lemma key_sorted_Cons [simp]:
  "key_sorted key (x # xs) \<longleftrightarrow> (\<forall>y\<in>set xs. key x < key y) \<and> key_sorted key xs"
  by (simp add: key_sorted_def)

lemma key_sorted_append [simp]:
  "key_sorted key (xs @ ys) \<longleftrightarrow>
     key_sorted key xs \<and> key_sorted key ys \<and> (\<forall>x\<in>set xs. \<forall>y\<in>set ys. key x < key y)"
  by (auto simp: key_sorted_def sorted_wrt_append)

lemma key_sorted_filter [key_intros]: "key_sorted key xs \<Longrightarrow> key_sorted key (filter P xs)"
  by (induction xs) auto

lemma key_sorted_map:
  "(\<And>x. x \<in> set xs \<Longrightarrow> key' (f x) = key x) \<Longrightarrow> key_sorted key' (map f xs) = key_sorted key xs"
  by (induction xs) auto

lemma key_sorted_distinct: "key_sorted key xs \<Longrightarrow> distinct (map key xs)"
  unfolding key_sorted_def by (simp add: strict_sorted_iff)

lemma key_find_Nil [simp]: "key_find key k [] = None"
  by (simp add: key_find_def)

lemma key_find_Cons [simp]:
  "key_find key k (x # xs) = (if key x = k then Some x else key_find key k xs)"
  by (simp add: key_find_def)

lemma key_find_append [simp]:
  "key_find key k (xs @ ys) = (case key_find key k xs of None \<Rightarrow> key_find key k ys | r \<Rightarrow> r)"
  by (induction xs) auto

lemma key_find_None_iff: "key_find key k xs = None \<longleftrightarrow> k \<notin> key ` set xs"
  by (induction xs) auto

lemma key_find_SomeD: "key_find key k xs = Some x \<Longrightarrow> x \<in> set xs \<and> key x = k"
  by (induction xs) (auto split: if_splits)

lemma key_find_eq_Some_iff:
  "key_sorted key xs \<Longrightarrow> key_find key k xs = Some x \<longleftrightarrow> x \<in> set xs \<and> key x = k"
  by (induction xs) auto

lemma key_find_filter:
  "key_sorted key xs \<Longrightarrow>
   key_find key k (filter P xs) =
     (case key_find key k xs of None \<Rightarrow> None | Some x \<Rightarrow> if P x then Some x else None)"
  by (induction xs) (auto split: option.splits simp: key_find_None_iff dest!: key_find_SomeD)

lemma key_find_map:
  "(\<And>x. x \<in> set xs \<Longrightarrow> key' (f x) = key x) \<Longrightarrow>
   key_find key' k (map f xs) = map_option f (key_find key k xs)"
  by (induction xs) auto

lemma key_find_below [simp]:
  "\<forall>y\<in>set ys. k < key y \<Longrightarrow> key_find key (k::'k::linorder) ys = None"
  by (auto simp: key_find_None_iff)

section \<open>Standard algorithms\<close>

text \<open>
  \<open>std::lower_bound\<close> over a random access range, as the halving loop of the library; \<open>p e\<close> is the
  comparator applied to an element and the searched value. The result is the index of the
  iterator that is returned.
\<close>

function lower_bound_loop :: "('a \<Rightarrow> bool) \<Rightarrow> 'a list \<Rightarrow> nat \<Rightarrow> nat \<Rightarrow> nat" where
  "lower_bound_loop p xs first len =
     (if len = 0 then first
      else if p (xs ! (first + len div 2))
           then lower_bound_loop p xs (Suc (first + len div 2)) (len - len div 2 - 1)
           else lower_bound_loop p xs first (len div 2))"
  by pat_completeness auto
termination
  by (relation "measure (\<lambda>(p, xs, first, len). len)") auto

declare lower_bound_loop.simps [simp del]

definition lower_bound :: "('a \<Rightarrow> bool) \<Rightarrow> 'a list \<Rightarrow> nat" where
  "lower_bound p xs = lower_bound_loop p xs 0 (length xs)"

lemma lower_bound_loop_le: "lower_bound_loop p xs first len \<le> first + len"
proof (induction p xs first len rule: lower_bound_loop.induct)
  case (1 p xs first len)
  then show ?case
    by (subst lower_bound_loop.simps) auto
qed

lemma lower_bound_le: "lower_bound p xs \<le> length xs"
  using lower_bound_loop_le [of p xs 0 "length xs"] by (simp add: lower_bound_def)

text \<open>The precondition of the library: the range is partitioned by the comparator.\<close>

definition partitioned :: "('a \<Rightarrow> bool) \<Rightarrow> 'a list \<Rightarrow> bool" where
  "partitioned p xs = (\<forall>i j. i < j \<longrightarrow> j < length xs \<longrightarrow> p (xs ! j) \<longrightarrow> p (xs ! i))"

lemma lower_bound_loop_split:
  assumes "partitioned p xs" "first + len \<le> length xs"
    "\<And>i. i < first \<Longrightarrow> p (xs ! i)"
    "\<And>i. first + len \<le> i \<Longrightarrow> i < length xs \<Longrightarrow> \<not> p (xs ! i)"
    "r = lower_bound_loop p xs first len"
  shows "r \<le> length xs \<and> (\<forall>i<r. p (xs ! i)) \<and> (\<forall>i. r \<le> i \<longrightarrow> i < length xs \<longrightarrow> \<not> p (xs ! i))"
  using assms
proof (induction p xs first len arbitrary: r rule: lower_bound_loop.induct)
  case (1 p xs first len)
  let ?mid = "first + len div 2"
  show ?case
  proof (cases "len = 0")
    case True
    then show ?thesis
      using "1.prems" by (auto simp: lower_bound_loop.simps [of p xs first 0])
  next
    case len: False
    then have mid: "?mid < length xs"
      using "1.prems"(2) by linarith
    show ?thesis
    proof (cases "p (xs ! ?mid)")
      case True
      have below: "\<And>i. i < Suc ?mid \<Longrightarrow> p (xs ! i)"
        using True "1.prems"(1) mid by (metis less_Suc_eq partitioned_def)
      show ?thesis
        using len True below "1.prems"
        by (intro "1.IH"(1)) (auto simp: lower_bound_loop.simps [of p xs first len])
    next
      case False
      have above: "\<And>i. ?mid \<le> i \<Longrightarrow> i < length xs \<Longrightarrow> \<not> p (xs ! i)"
        using False "1.prems"(1) by (metis le_neq_implies_less partitioned_def)
      show ?thesis
        using len False above "1.prems"
        by (intro "1.IH"(2)) (auto simp: lower_bound_loop.simps [of p xs first len])
    qed
  qed
qed

theorem lower_bound_partitioned:
  assumes "partitioned p xs"
  shows "lower_bound p xs = length (takeWhile p xs)"
proof -
  let ?r = "lower_bound p xs"
  have r: "?r \<le> length xs \<and> (\<forall>i<?r. p (xs ! i)) \<and> (\<forall>i. ?r \<le> i \<longrightarrow> i < length xs \<longrightarrow> \<not> p (xs ! i))"
    using assms by (intro lower_bound_loop_split) (auto simp: lower_bound_def)
  then have "takeWhile p xs = take ?r xs"
    by (intro takeWhile_eq_take_P_nth) auto
  with r show ?thesis by simp
qed

lemma partitioned_Nil [simp]: "partitioned p []"
  by (simp add: partitioned_def)

lemma partitioned_Cons:
  "partitioned p (x # xs) \<longleftrightarrow> (p x \<or> (\<forall>y\<in>set xs. \<not> p y)) \<and> partitioned p xs"
proof
  assume L: "partitioned p (x # xs)"
  have "p x" if "y \<in> set xs" "p y" for y
  proof -
    from that(1) obtain j where "j < length xs" "y = xs ! j"
      by (auto simp: in_set_conv_nth)
    with that(2) L show ?thesis
      unfolding partitioned_def by (metis Suc_less_eq length_Cons nth_Cons_0 nth_Cons_Suc zero_less_Suc)
  qed
  moreover have "partitioned p xs"
    using L unfolding partitioned_def by (metis Suc_less_eq length_Cons nth_Cons_Suc)
  ultimately show "(p x \<or> (\<forall>y\<in>set xs. \<not> p y)) \<and> partitioned p xs" by blast
next
  assume R: "(p x \<or> (\<forall>y\<in>set xs. \<not> p y)) \<and> partitioned p xs"
  show "partitioned p (x # xs)"
    unfolding partitioned_def
  proof (intro allI impI)
    fix i j assume ij: "i < j" "j < length (x # xs)" "p ((x # xs) ! j)"
    then obtain j' where j': "j = Suc j'" "j' < length xs" "p (xs ! j')"
      by (cases j) auto
    then have px: "p x" using R nth_mem by blast
    show "p ((x # xs) ! i)"
      using px R ij(1) j' by (cases i) (auto simp: partitioned_def)
  qed
qed

text \<open>Over a strictly sorted container the searched position splits it at the key.\<close>

lemma key_sorted_partitioned: "key_sorted key xs \<Longrightarrow> partitioned (\<lambda>e. key e < k) xs"
  by (induction xs) (auto simp: partitioned_Cons)

text \<open>\<open>std::merge\<close>: stable, the first range wins among equivalent elements.\<close>

fun std_merge :: "('a \<Rightarrow> 'a \<Rightarrow> bool) \<Rightarrow> 'a list \<Rightarrow> 'a list \<Rightarrow> 'a list" where
  "std_merge lt (x # xs) (y # ys) =
     (if lt y x then y # std_merge lt (x # xs) ys else x # std_merge lt xs (y # ys))"
| "std_merge lt xs ys = xs @ ys"

lemma mset_std_merge [simp]: "mset (std_merge lt xs ys) = mset xs + mset ys"
  by (induction lt xs ys rule: std_merge.induct) auto

lemma set_std_merge [simp]: "set (std_merge lt xs ys) = set xs \<union> set ys"
  by (induction lt xs ys rule: std_merge.induct) auto

lemma length_std_merge [simp]: "length (std_merge lt xs ys) = length xs + length ys"
  by (induction lt xs ys rule: std_merge.induct) auto

text \<open>Merging keeps any total preorder that the comparator decides.\<close>

lemma sorted_wrt_std_merge:
  assumes "\<And>x y. \<not> lt y x \<Longrightarrow> R x y" "\<And>x y. lt x y \<Longrightarrow> R x y"
    "\<And>x y z. R x y \<Longrightarrow> R y z \<Longrightarrow> R x z"
    "sorted_wrt R xs" "sorted_wrt R ys"
  shows "sorted_wrt R (std_merge lt xs ys)"
  using assms
proof (induction lt xs ys rule: std_merge.induct)
  case (1 lt x xs y ys)
  have xs: "\<forall>z\<in>set xs. R x z" and ys: "\<forall>z\<in>set ys. R y z"
    using "1.prems"(4,5) by simp_all
  have tails: "sorted_wrt R xs" "sorted_wrt R ys"
    using "1.prems"(4,5) by simp_all
  show ?case
  proof (cases "lt y x")
    case True
    then have "R y x" by (rule "1.prems"(2))
    then have "\<forall>z\<in>set (x # xs) \<union> set ys. R y z"
      using xs ys by (metis "1.prems"(3) UnE set_ConsD)
    moreover have "sorted_wrt R (std_merge lt (x # xs) ys)"
      by (rule "1.IH"(1) [OF True "1.prems"(1-4) tails(2)])
    ultimately show ?thesis
      using True by simp
  next
    case False
    then have "R x y" by (rule "1.prems"(1))
    then have "\<forall>z\<in>set xs \<union> set (y # ys). R x z"
      using xs ys by (metis "1.prems"(3) UnE set_ConsD)
    moreover have "sorted_wrt R (std_merge lt xs (y # ys))"
      by (rule "1.IH"(2) [OF False "1.prems"(1-3) tails(1) "1.prems"(5)])
    ultimately show ?thesis
      using False by simp
  qed
qed auto

end
