(* ===== verification/Algs.thy ===== *)
theory Algs
  imports Prelude
begin

text \<open>
  The generic algorithms of \<open>src/Commons/Algs.hpp\<close>: output iterators (\<open>FilterInsertIterator\<close>,
  \<open>ModifyInsertIterator\<close>), \<open>merge_unique\<close>, \<open>cross\<close> and \<open>custom_merge_n\<close>. An output iterator is the
  state transformer its assignment performs on the container behind it. The values a two-range
  algorithm assigns come from three C++ types (the two element types and the result of the
  merge functor, resolved by overloading), which \<open>emitted\<close> tags.
  The contract of \<open>merge_unique\<close> on ranges ordered by a unique key is the locale
  \<open>keyed_merge\<close>: the output is ordered again and each key is looked up in both inputs.
\<close>

section \<open>Output iterators\<close>

type_synonym ('v, 'c) output_iterator = "'v \<Rightarrow> 'c \<Rightarrow> 'c"

definition back_inserter :: "('v, 'v list) output_iterator" where
  "back_inserter v c = c @ [v]"

definition filter_inserter :: "('v, 'c) output_iterator \<Rightarrow> ('v \<Rightarrow> bool) \<Rightarrow> ('v, 'c) output_iterator" where
  "filter_inserter ins_it filter_op v c = (if filter_op v then ins_it v c else c)"

definition modify_inserter :: "('w, 'c) output_iterator \<Rightarrow> ('v \<Rightarrow> 'w) \<Rightarrow> ('v, 'c) output_iterator" where
  "modify_inserter ins_it modify_op v c = ins_it (modify_op v) c"

text \<open>\<open>std::copy\<close> of a range into an output iterator.\<close>

definition copy_to :: "('v, 'c) output_iterator \<Rightarrow> 'v list \<Rightarrow> 'c \<Rightarrow> 'c" where
  "copy_to out vs c = fold out vs c"

lemma copy_to_back_inserter [simp]: "copy_to back_inserter vs c = c @ vs"
  by (induction vs arbitrary: c) (auto simp: copy_to_def back_inserter_def)

lemma copy_to_modify_inserter [simp]:
  "copy_to (modify_inserter it f) vs c = copy_to it (map f vs) c"
  by (induction vs arbitrary: c) (auto simp: copy_to_def modify_inserter_def)

lemma copy_to_filter_inserter [simp]:
  "copy_to (filter_inserter it P) vs c = copy_to it (filter P vs) c"
  by (induction vs arbitrary: c) (auto simp: copy_to_def filter_inserter_def)

section \<open>merge_unique and cross\<close>

datatype ('a, 'b, 'c) emitted = First 'a | Second 'b | Merged 'c

fun merge_unique ::
  "('a \<Rightarrow> 'b \<Rightarrow> bool) \<Rightarrow> ('b \<Rightarrow> 'a \<Rightarrow> bool) \<Rightarrow> ('a \<Rightarrow> 'b \<Rightarrow> 'c) \<Rightarrow>
   (('a, 'b, 'c) emitted, 'o) output_iterator \<Rightarrow> 'a list \<Rightarrow> 'b list \<Rightarrow> 'o \<Rightarrow> 'o" where
  "merge_unique less_ab less_ba merge_op out (x # xs) (y # ys) c =
     (if less_ab x y then merge_unique less_ab less_ba merge_op out xs (y # ys) (out (First x) c)
      else if less_ba y x then merge_unique less_ab less_ba merge_op out (x # xs) ys (out (Second y) c)
      else merge_unique less_ab less_ba merge_op out xs ys (out (Merged (merge_op x y)) c))"
| "merge_unique less_ab less_ba merge_op out xs ys c =
     copy_to out (map First xs) (copy_to out (map Second ys) c)"

fun cross ::
  "('a \<Rightarrow> 'b \<Rightarrow> bool) \<Rightarrow> ('b \<Rightarrow> 'a \<Rightarrow> bool) \<Rightarrow> ('a \<Rightarrow> 'b \<Rightarrow> 'c) \<Rightarrow>
   ('c, 'o) output_iterator \<Rightarrow> 'a list \<Rightarrow> 'b list \<Rightarrow> 'o \<Rightarrow> 'o" where
  "cross less_ab less_ba cross_op out (x # xs) (y # ys) c =
     (if less_ab x y then cross less_ab less_ba cross_op out xs (y # ys) c
      else if less_ba y x then cross less_ab less_ba cross_op out (x # xs) ys c
      else cross less_ab less_ba cross_op out xs ys (out (cross_op x y) c))"
| "cross less_ab less_ba cross_op out xs ys c = c"

text \<open>The sequence of assignments of a run of \<open>merge_unique\<close>, apart from the output iterator.\<close>

fun merge_trace ::
  "('a \<Rightarrow> 'b \<Rightarrow> bool) \<Rightarrow> ('b \<Rightarrow> 'a \<Rightarrow> bool) \<Rightarrow> ('a \<Rightarrow> 'b \<Rightarrow> 'c) \<Rightarrow> 'a list \<Rightarrow> 'b list \<Rightarrow>
   ('a, 'b, 'c) emitted list" where
  "merge_trace less_ab less_ba merge_op (x # xs) (y # ys) =
     (if less_ab x y then First x # merge_trace less_ab less_ba merge_op xs (y # ys)
      else if less_ba y x then Second y # merge_trace less_ab less_ba merge_op (x # xs) ys
      else Merged (merge_op x y) # merge_trace less_ab less_ba merge_op xs ys)"
| "merge_trace less_ab less_ba merge_op xs ys = map Second ys @ map First xs"

lemma copy_to_Nil [simp]: "copy_to out [] c = c"
  by (simp add: copy_to_def)

lemma copy_to_Cons: "copy_to out (v # vs) c = copy_to out vs (out v c)"
  by (simp add: copy_to_def)

lemma copy_to_append: "copy_to out (vs @ ws) c = copy_to out ws (copy_to out vs c)"
  by (simp add: copy_to_def)

lemma merge_unique_trace:
  "merge_unique less_ab less_ba merge_op out xs ys c =
     copy_to out (merge_trace less_ab less_ba merge_op xs ys) c"
  by (induction less_ab less_ba merge_op out xs ys c rule: merge_unique.induct)
     (auto simp: copy_to_Cons copy_to_append)

text \<open>Reading a tagged value back with one function per C++ type.\<close>

fun emit_case :: "('a \<Rightarrow> 'd) \<Rightarrow> ('b \<Rightarrow> 'd) \<Rightarrow> ('c \<Rightarrow> 'd) \<Rightarrow> ('a, 'b, 'c) emitted \<Rightarrow> 'd" where
  "emit_case f g h (First x) = f x"
| "emit_case f g h (Second y) = g y"
| "emit_case f g h (Merged z) = h z"

fun merged_values :: "('a, 'b, 'c) emitted list \<Rightarrow> 'c list" where
  "merged_values [] = []"
| "merged_values (Merged z # es) = z # merged_values es"
| "merged_values (_ # es) = merged_values es"

lemma merged_values_append [simp]:
  "merged_values (es @ fs) = merged_values es @ merged_values fs"
  by (induction es rule: merged_values.induct) auto

lemma merged_values_First [simp]: "merged_values (map First xs) = []"
  by (induction xs) auto

lemma merged_values_Second [simp]: "merged_values (map Second ys) = []"
  by (induction ys) auto

section \<open>The contract of merge_unique on keyed ranges\<close>

locale keyed_merge =
  fixes key_a :: "'a \<Rightarrow> 'k::linorder" and key_b :: "'b \<Rightarrow> 'k"
    and less_ab :: "'a \<Rightarrow> 'b \<Rightarrow> bool" and less_ba :: "'b \<Rightarrow> 'a \<Rightarrow> bool"
    and merge_op :: "'a \<Rightarrow> 'b \<Rightarrow> 'c" and key_c :: "'c \<Rightarrow> 'k"
  assumes less_ab_key: "less_ab x y \<longleftrightarrow> key_a x < key_b y"
    and less_ba_key: "less_ba y x \<longleftrightarrow> key_b y < key_a x"
    and merge_key: "key_a x = key_b y \<Longrightarrow> key_c (merge_op x y) = key_a x"
begin

abbreviation trace :: "'a list \<Rightarrow> 'b list \<Rightarrow> ('a, 'b, 'c) emitted list" where
  "trace \<equiv> merge_trace less_ab less_ba merge_op"

abbreviation ekey :: "('a, 'b, 'c) emitted \<Rightarrow> 'k" where
  "ekey \<equiv> emit_case key_a key_b key_c"

text \<open>One step of the loop, by comparison of the two keys at the front.\<close>

lemma trace_lt: "key_a x < key_b y \<Longrightarrow> trace (x # xs) (y # ys) = First x # trace xs (y # ys)"
  by (simp add: less_ab_key [of x y])

lemma trace_gt: "key_b y < key_a x \<Longrightarrow> trace (x # xs) (y # ys) = Second y # trace (x # xs) ys"
  by (simp add: less_ab_key [of x y] less_ba_key [of y x])

lemma trace_eq:
  "key_a x = key_b y \<Longrightarrow> trace (x # xs) (y # ys) = Merged (merge_op x y) # trace xs ys"
  by (simp add: less_ab_key [of x y] less_ba_key [of y x])

lemma trace_front_cases [case_names lt gt eq]:
  assumes "key_a x < key_b y \<Longrightarrow> P" "key_b y < key_a x \<Longrightarrow> P" "key_a x = key_b y \<Longrightarrow> P"
  shows P
  using assms by fastforce

lemma trace_keys: "ekey ` set (trace xs ys) = key_a ` set xs \<union> key_b ` set ys"
proof (induction xs ys rule: two_list_walk_induct)
  case (Step x xs y ys)
  show ?case
    by (cases x y rule: trace_front_cases)
       (simp_all add: trace_lt trace_gt trace_eq merge_key Step insert_commute
         del: merge_trace.simps)
qed (simp_all add: image_image)

lemma trace_below:
  "(\<forall>e\<in>set (trace xs ys). k < ekey e) \<longleftrightarrow> (\<forall>x\<in>set xs. k < key_a x) \<and> (\<forall>y\<in>set ys. k < key_b y)"
proof -
  have "(\<forall>e\<in>set (trace xs ys). k < ekey e) \<longleftrightarrow> (\<forall>j\<in>ekey ` set (trace xs ys). k < j)"
    by simp
  then show ?thesis unfolding trace_keys by blast
qed

lemma trace_sorted:
  "key_sorted key_a xs \<Longrightarrow> key_sorted key_b ys \<Longrightarrow> key_sorted ekey (trace xs ys)"
proof (induction xs ys rule: two_list_walk_induct)
  case (Left_end ys)
  then show ?case by (simp add: key_sorted_map [where key = key_b])
next
  case (Right_end x xs)
  then show ?case by (simp add: key_sorted_map [where key = key_a])
next
  case (Step x xs y ys)
  show ?case
  proof (cases x y rule: trace_front_cases)
    case lt
    then have "\<forall>z\<in>set (y # ys). key_a x < key_b z"
      using Step.prems by (auto intro: order.strict_trans)
    with lt Step show ?thesis by (simp add: trace_lt trace_below del: merge_trace.simps)
  next
    case gt
    then have "\<forall>z\<in>set (x # xs). key_b y < key_a z"
      using Step.prems by (auto intro: order.strict_trans)
    with gt Step show ?thesis by (simp add: trace_gt trace_below del: merge_trace.simps)
  next
    case eq
    with Step show ?thesis by (simp add: trace_eq merge_key trace_below del: merge_trace.simps)
  qed
qed

text \<open>The value under a key, from the values the two ranges hold under it.\<close>

lemma trace_find:
  assumes "key_sorted key_a xs" "key_sorted key_b ys"
  shows "key_find ekey k (trace xs ys) =
    (case key_find key_a k xs of
       None \<Rightarrow> map_option Second (key_find key_b k ys)
     | Some x \<Rightarrow> (case key_find key_b k ys of
         None \<Rightarrow> Some (First x)
       | Some y \<Rightarrow> Some (Merged (merge_op x y))))"
  using assms
proof (induction xs ys rule: two_list_walk_induct)
  case (Left_end ys)
  then show ?case by (simp add: key_find_map [where key = key_b])
next
  case (Right_end x xs)
  then show ?case by (simp add: key_find_map [where key = key_a] split: option.split)
next
  case (Step x xs y ys)
  show ?case
  proof (cases x y rule: trace_front_cases)
    case lt
    then have "key_find key_b (key_a x) ys = None" "key_b y \<noteq> key_a x"
      using Step.prems by (auto intro!: key_find_below intro: order.strict_trans)
    with lt Step show ?thesis by (auto simp: trace_lt simp del: merge_trace.simps split: option.split)
  next
    case gt
    then have "key_find key_a (key_b y) xs = None" "key_a x \<noteq> key_b y"
      using Step.prems by (auto intro!: key_find_below intro: order.strict_trans)
    with gt Step show ?thesis by (auto simp: trace_gt simp del: merge_trace.simps split: option.split)
  next
    case eq
    with Step show ?thesis by (auto simp: trace_eq merge_key simp del: merge_trace.simps split: option.split)
  qed
qed

lemma merge_unique_back:
  "merge_unique less_ab less_ba merge_op back_inserter xs ys c = c @ trace xs ys"
  by (simp add: merge_unique_trace)

text \<open>\<open>cross\<close> with the same functors emits exactly the merged values of the common keys.\<close>

lemma cross_trace: "cross less_ab less_ba merge_op out xs ys c = copy_to out (merged_values (trace xs ys)) c"
proof (induction xs ys arbitrary: c rule: two_list_walk_induct)
  case (Step x xs y ys)
  show ?case
    using Step
    by (cases x y rule: trace_front_cases)
       (simp_all add: less_ab_key [of x y] less_ba_key [of y x] trace_lt trace_gt trace_eq copy_to_Cons)
qed simp_all

end

section \<open>custom_merge_n\<close>

text \<open>
  The range set is a \<open>std::multiset\<close> of non-empty ranges ordered by their front elements;
  \<open>insert\<close> puts a range behind the equivalent ones.
\<close>

fun range_insert :: "('a \<Rightarrow> 'a \<Rightarrow> bool) \<Rightarrow> 'a list \<Rightarrow> 'a list list \<Rightarrow> 'a list list" where
  "range_insert less_op r [] = [r]"
| "range_insert less_op r (s # ss) =
     (if less_op (hd r) (hd s) then r # s # ss else s # range_insert less_op r ss)"

lemma length_concat_range_insert [simp]:
  "length (concat (range_insert less_op r rs)) = length r + length (concat rs)"
  by (induction rs) auto

lemma mset_concat_range_insert [simp]:
  "mset (concat (range_insert less_op r rs)) = mset r + mset (concat rs)"
  by (induction rs) auto

lemma set_range_insert [simp]: "set (range_insert less_op r rs) = insert r (set rs)"
  by (induction rs) auto

lemma length_range_insert [simp]: "length (range_insert less_op r rs) = Suc (length rs)"
  by (induction rs) auto

function merge_n_loop ::
  "('a \<Rightarrow> 'a \<Rightarrow> bool) \<Rightarrow> ('a, 'o) output_iterator \<Rightarrow> 'a list list \<Rightarrow> 'o \<Rightarrow> 'o" where
  "merge_n_loop less_op out [] c = c"
| "merge_n_loop less_op out ([] # rs) c = merge_n_loop less_op out rs c"
| "merge_n_loop less_op out ((x # xs) # rs) c =
     merge_n_loop less_op out (if xs = [] then rs else range_insert less_op xs rs) (out x c)"
  by pat_completeness auto
termination
  by (relation "measures [\<lambda>(l, out, rs, c). length (concat rs), \<lambda>(l, out, rs, c). length rs]")
     (auto simp flip: length_concat)

definition custom_merge_n ::
  "('a \<Rightarrow> 'a \<Rightarrow> bool) \<Rightarrow> ('a, 'o) output_iterator \<Rightarrow> 'a list list \<Rightarrow> 'o \<Rightarrow> 'o" where
  "custom_merge_n less_op out ranges c =
     merge_n_loop less_op out
       (fold (\<lambda>r rs. if r \<noteq> [] then range_insert less_op r rs else rs) ranges []) c"

text \<open>Ranges ordered by their fronts, each ordered itself: the invariant of the merge loop.\<close>

definition ranges_ok :: "('a \<Rightarrow> 'a \<Rightarrow> bool) \<Rightarrow> 'a list list \<Rightarrow> bool" where
  "ranges_ok less_op rs =
     ((\<forall>r\<in>set rs. r \<noteq> [] \<and> sorted_wrt (\<lambda>x y. \<not> less_op y x) r) \<and>
      sorted_wrt (\<lambda>r s. \<not> less_op (hd s) (hd r)) rs)"

locale merge_order =
  fixes less_op :: "'a \<Rightarrow> 'a \<Rightarrow> bool"
  assumes asym: "less_op x y \<Longrightarrow> \<not> less_op y x"
    and negtrans: "\<not> less_op y x \<Longrightarrow> \<not> less_op z y \<Longrightarrow> \<not> less_op z x"
begin

lemma ranges_ok_insert:
  assumes "ranges_ok less_op rs" "r \<noteq> []" "sorted_wrt (\<lambda>x y. \<not> less_op y x) r"
  shows "ranges_ok less_op (range_insert less_op r rs)"
proof -
  have "sorted_wrt (\<lambda>r s. \<not> less_op (hd s) (hd r)) (range_insert less_op r rs)"
    if "sorted_wrt (\<lambda>r s. \<not> less_op (hd s) (hd r)) rs"
    using that
  proof (induction rs)
    case (Cons s ss)
    then show ?case
      using asym [of "hd r" "hd s"] negtrans [of "hd s" "hd r"] by auto
  qed simp
  with assms show ?thesis by (simp add: ranges_ok_def)
qed

lemma merge_n_loop_spec:
  "ranges_ok less_op rs \<Longrightarrow>
   \<exists>res. merge_n_loop less_op back_inserter rs c = c @ res \<and> mset res = mset (concat rs) \<and>
         sorted_wrt (\<lambda>x y. \<not> less_op y x) res"
proof (induction "length (concat rs)" arbitrary: rs c rule: less_induct)
  case less
  show ?case
  proof (cases rs)
    case Nil
    then show ?thesis by simp
  next
    case (Cons r rs')
    with less.prems obtain x xs where r: "r = x # xs"
      by (cases r) (auto simp: ranges_ok_def)
    let ?rs = "if xs = [] then rs' else range_insert less_op xs rs'"
    have ok': "ranges_ok less_op rs'"
      using less.prems Cons by (simp add: ranges_ok_def)
    have "sorted_wrt (\<lambda>x y. \<not> less_op y x) xs"
      using less.prems Cons r by (simp add: ranges_ok_def)
    then have ok: "ranges_ok less_op ?rs"
      using ok' ranges_ok_insert by simp
    have len: "length (concat ?rs) < length (concat rs)"
      using Cons r by (simp del: length_concat)
    obtain res where res: "merge_n_loop less_op back_inserter ?rs (c @ [x]) = (c @ [x]) @ res"
      "mset res = mset (concat ?rs)" "sorted_wrt (\<lambda>x y. \<not> less_op y x) res"
      using less.hyps [OF len ok] by blast
    have msets: "mset res = mset (xs @ concat rs')"
      using res(2) by auto
    have "\<forall>z\<in>set xs. \<not> less_op z x"
      using less.prems Cons r by (simp add: ranges_ok_def)
    moreover have "\<not> less_op z x" if "s \<in> set rs'" "z \<in> set s" for s z
    proof -
      from that(1) less.prems Cons r have s: "s \<noteq> []" "sorted_wrt (\<lambda>x y. \<not> less_op y x) s"
        "\<not> less_op (hd s) x"
        by (auto simp: ranges_ok_def)
      then show ?thesis
        using that(2) negtrans [of "hd s" x z] by (cases s) auto
    qed
    ultimately have "\<forall>z\<in>set res. \<not> less_op z x"
      using mset_eq_setD [OF msets] by auto
    then show ?thesis
      using res msets Cons r by (intro exI [of _ "x # res"]) (simp add: back_inserter_def)
  qed
qed

lemma ranges_ok_init:
  assumes "\<forall>r\<in>set ranges. sorted_wrt (\<lambda>x y. \<not> less_op y x) r" "ranges_ok less_op rs"
  defines "init \<equiv> fold (\<lambda>r rs. if r \<noteq> [] then range_insert less_op r rs else rs) ranges rs"
  shows "ranges_ok less_op init \<and> mset (concat init) = mset (concat ranges) + mset (concat rs)"
  using assms(1,2) unfolding init_def
proof (induction ranges arbitrary: rs)
  case (Cons r ranges)
  then show ?case
    using ranges_ok_insert [of rs r] Cons.IH [of rs] Cons.IH [of "range_insert less_op r rs"] by auto
qed simp

lemma custom_merge_n_sorts:
  assumes "\<forall>r\<in>set ranges. sorted_wrt (\<lambda>x y. \<not> less_op y x) r"
  shows "\<exists>res. custom_merge_n less_op back_inserter ranges c = c @ res \<and>
    mset res = mset (concat ranges) \<and> sorted_wrt (\<lambda>x y. \<not> less_op y x) res"
proof -
  have "ranges_ok less_op []" by (simp add: ranges_ok_def)
  from ranges_ok_init [OF assms this] show ?thesis
    unfolding custom_merge_n_def using merge_n_loop_spec by fastforce
qed

end

end
