(* ===== verification/FreqCap.thy ===== *)
theory FreqCap
  imports Algs
begin

unbundle bit_operations_syntax

text \<open>
  Data of the frequency-cap component: the cap settings of \<open>src/Commons/FreqCap.hpp\<close>, the
  configuration of \<open>src/UserInfoSvcs/UserInfoCommons/FreqCapConfig.hpp\<close>, the records of the stored
  profile (\<open>UserFreqCapProfileDescription.pst\<close>) and the impression timestamps of
  \<open>UserFreqCapProfile.cpp\<close>, whose top bit marks an impression that is not confirmed yet.

  \<open>Generics::Time\<close> belongs to a library outside the repository. Its type is a type variable
  \<open>'t\<close>, its arithmetic and order are the operations of \<open>'t\<close>, and the two remaining
  observations the code makes of it, the field \<open>tv_sec\<close> and the conversion from seconds, are
  the components of \<open>time_api\<close>. \<open>time_laws\<close> lists what the proofs use of it.
\<close>

section \<open>Time\<close>

record 't time_api =
  tv_sec :: "'t \<Rightarrow> int"
  of_sec :: "int \<Rightarrow> 't"

definition time_laws :: "'t::linordered_ab_group_add time_api \<Rightarrow> bool" where
  "time_laws T \<longleftrightarrow>
     mono (tv_sec T) \<and> mono (of_sec T) \<and> of_sec T 0 = 0 \<and> (\<forall>s. tv_sec T (of_sec T s) = s)"

text \<open>An instance that counts microseconds, for the witnesses.\<close>

definition usec_time :: "int time_api" where
  "usec_time = \<lparr>tv_sec = (\<lambda>t. t div 1000000), of_sec = (\<lambda>s. s * 1000000)\<rparr>"

lemma usec_time_laws [simp]: "time_laws usec_time"
  by (auto simp: time_laws_def usec_time_def mono_def intro: zdiv_mono1)

text \<open>Conversion of a \<open>time_t\<close> to the \<open>uint32_t\<close> of the profile.\<close>

definition sec32 :: "'t time_api \<Rightarrow> 't \<Rightarrow> u32" where
  "sec32 T t = word_of_int (tv_sec T t)"

section \<open>Settings\<close>

record 't freq_cap =
  cap_fc_id :: u64
  lifelimit :: u64
  period :: 't
  window_limit :: u64
  window_time :: 't

record 't freq_cap_config =
  confirm_timeout :: 't
  freq_cap_map :: "u64 \<Rightarrow> 't freq_cap option"
  config_campaign_ids :: "u64 set"

definition DEFAULT_FREQ_CAP :: "'t::zero time_api \<Rightarrow> 't freq_cap" where
  "DEFAULT_FREQ_CAP T =
     \<lparr>cap_fc_id = 0, lifelimit = 1, period = 0, window_limit = 100,
      window_time = of_sec T (365 * 24 * 3600)\<rparr>"

definition find_or_get_default ::
  "'t::zero time_api \<Rightarrow> (u64 \<Rightarrow> 't freq_cap option) \<Rightarrow> u32 \<Rightarrow> 't freq_cap" where
  "find_or_get_default T caps fc_id =
     (case caps (ucast fc_id) of Some fc \<Rightarrow> fc | None \<Rightarrow> DEFAULT_FREQ_CAP T)"

section \<open>The stored profile\<close>

record freq_cap_cell =
  fc_id :: u32
  total_impressions :: u32
  last_impressions :: "u32 list"

record uc_freq_cap =
  request_id :: string
  uc_time :: u32
  freq_cap_ids :: "u32 list"
  uc_imps :: "u32 list"

record 'w seq_order =
  ccg_id :: 'w
  set_id :: 'w
  seq_imps :: 'w

record publisher_account =
  publisher_account_id :: u32
  timestamp :: u32

record 'w campaign_freq =
  campaign_id :: 'w
  freq_imps :: 'w

record profile =
  version :: u32
  freq_caps :: "freq_cap_cell list"
  uc_freq_caps :: "uc_freq_cap list"
  virtual_freq_caps :: "freq_cap_cell list"
  seq_orders :: "u32 seq_order list"
  publisher_accounts :: "publisher_account list"
  campaign_freqs :: "u32 campaign_freq list"

definition CURRENT_FREQ_CAP_PROFILE_VERSION :: u32 where
  "CURRENT_FREQ_CAP_PROFILE_VERSION = 351"

definition empty_writer :: profile where
  "empty_writer =
     \<lparr>version = CURRENT_FREQ_CAP_PROFILE_VERSION, freq_caps = [], uc_freq_caps = [],
      virtual_freq_caps = [], seq_orders = [], publisher_accounts = [], campaign_freqs = []\<rparr>"

section \<open>Impression timestamps\<close>

definition IMP_TIMESTAMP_MASK :: u32 where
  "IMP_TIMESTAMP_MASK = 0x7FFFFFFF"

definition normalize_impression_timestamp :: "u32 \<Rightarrow> u32" where
  "normalize_impression_timestamp value = value AND IMP_TIMESTAMP_MASK"

definition is_uc_timestamp :: "u32 \<Rightarrow> u32" where
  "is_uc_timestamp value = value AND NOT IMP_TIMESTAMP_MASK"

definition to_uc_timestamp :: "u32 \<Rightarrow> u32" where
  "to_uc_timestamp value = value OR NOT IMP_TIMESTAMP_MASK"

definition LastImpLess :: "u32 \<Rightarrow> u32 \<Rightarrow> bool" where
  "LastImpLess left right =
     (let left_norm = normalize_impression_timestamp left;
          right_norm = normalize_impression_timestamp right
      in if left_norm < right_norm then True
         else if left_norm = right_norm then is_uc_timestamp right < is_uc_timestamp left
         else False)"

abbreviation norm_ts :: "u32 \<Rightarrow> u32" where
  "norm_ts \<equiv> normalize_impression_timestamp"

text \<open>An impression that waits for its confirmation.\<close>

abbreviation unconfirmed :: "u32 \<Rightarrow> bool" where
  "unconfirmed ts \<equiv> is_uc_timestamp ts \<noteq> 0"

lemma mask31: "IMP_TIMESTAMP_MASK = mask 31"
  by (simp add: IMP_TIMESTAMP_MASK_def mask_eq_exp_minus_1)

lemma norm_ts_take_bit: "norm_ts v = take_bit 31 v"
  by (simp add: normalize_impression_timestamp_def mask31 take_bit_eq_mask)

lemma bit_31_exp: "bit (0x80000000 :: u32) n \<longleftrightarrow> n = 31"
proof -
  have "(0x80000000 :: u32) = 2 ^ 31" by simp
  then show ?thesis by (simp only: bit_exp_iff) auto
qed

lemma is_uc_timestamp_eq: "is_uc_timestamp v = (if bit v 31 then 0x80000000 else 0)"
  by (rule bit_word_eqI)
     (auto simp: is_uc_timestamp_def mask31 bit_simps bit_31_exp less_Suc_eq numeral_eq_Suc)

lemma unconfirmed_bit: "unconfirmed v \<longleftrightarrow> bit v 31"
  by (simp add: is_uc_timestamp_eq)

lemma norm_ts_to_uc [simp]: "norm_ts (to_uc_timestamp v) = norm_ts v"
  by (rule bit_word_eqI)
     (auto simp: norm_ts_take_bit to_uc_timestamp_def mask31 bit_simps)

lemma unconfirmed_to_uc [simp]: "unconfirmed (to_uc_timestamp v)"
  by (simp add: unconfirmed_bit to_uc_timestamp_def mask31 bit_simps)

lemma norm_ts_confirmed [simp]: "\<not> unconfirmed v \<Longrightarrow> norm_ts v = v"
  unfolding unconfirmed_bit norm_ts_take_bit
  by (rule bit_word_eqI) (auto simp: bit_simps less_Suc_eq numeral_eq_Suc)

lemma timestamp_eqI: "norm_ts v = norm_ts w \<Longrightarrow> unconfirmed v = unconfirmed w \<Longrightarrow> v = w"
proof (rule bit_word_eqI)
  fix n assume n: "n < LENGTH(32)"
    and eq: "norm_ts v = norm_ts w" "unconfirmed v = unconfirmed w"
  show "bit v n = bit w n"
  proof (cases "n = 31")
    case True
    then show ?thesis using eq(2) by (simp add: unconfirmed_bit)
  next
    case False
    then have "bit (norm_ts v) n = bit v n" "bit (norm_ts w) n = bit w n"
      using n by (auto simp: norm_ts_take_bit bit_simps)
    then show ?thesis using eq(1) by simp
  qed
qed

lemma norm_ts_le: "norm_ts v \<le> v"
  by (simp add: normalize_impression_timestamp_def word_and_le2)

text \<open>The comparator orders by time, and puts an unconfirmed impression before a confirmed one.\<close>

lemma LastImpLess_iff:
  "LastImpLess l r \<longleftrightarrow>
     norm_ts l < norm_ts r \<or> (norm_ts l = norm_ts r \<and> unconfirmed l \<and> \<not> unconfirmed r)"
  by (auto simp: LastImpLess_def Let_def is_uc_timestamp_eq)

interpretation last_imp: merge_order LastImpLess
  by unfold_locales (auto simp: LastImpLess_iff)

text \<open>Impressions in the order of \<open>LastImpLess\<close>, and in the order of their times only.\<close>

definition imps_sorted :: "u32 list \<Rightarrow> bool" where
  "imps_sorted = sorted_wrt (\<lambda>x y. \<not> LastImpLess y x)"

definition times_sorted :: "u32 list \<Rightarrow> bool" where
  "times_sorted = sorted_wrt (\<lambda>x y. norm_ts x \<le> norm_ts y)"

lemma imps_sorted_times: "imps_sorted xs \<Longrightarrow> times_sorted xs"
  unfolding imps_sorted_def times_sorted_def
  by (induction xs) (auto simp: LastImpLess_iff not_less)

end
