(* ===== verification/FreqCapCells.thy ===== *)
theory FreqCapCells
  imports FreqCap
begin

text \<open>
  The functors of \<open>UserFreqCapProfile.cpp\<close> that work on one cell of a profile: packing of the
  freq cap ids of a request into counters, \<open>FreqCapAdapter\<close> (drops the impressions a cap no
  longer needs), \<open>FreqCapMerger\<close> (adds impressions to a cell, merges two cells), the functors of
  sequence orders, publisher accounts and campaign frequencies, and the test whether a cap is
  reached. Counters that cannot exceed the length of an input array are natural numbers;
  the stored fields keep their width.
\<close>

section \<open>Counters of a request\<close>

record freq_cap_counter =
  cnt_fc_id :: u64
  cnt_count :: nat
  cnt_uc_count :: nat

definition add_uc_fc_counter :: "'t time_api \<Rightarrow> u32 list \<Rightarrow> nat \<Rightarrow> 't \<Rightarrow> u32 list" where
  "add_uc_fc_counter T imps uc_count now = imps @ replicate uc_count (to_uc_timestamp (sec32 T now))"

definition add_fc_counter :: "'t time_api \<Rightarrow> u32 list \<Rightarrow> nat \<Rightarrow> 't \<Rightarrow> u32 list" where
  "add_fc_counter T imps n now = imps @ replicate n (sec32 T now)"

definition FreqCapCounterLess :: "freq_cap_counter \<Rightarrow> freq_cap_counter \<Rightarrow> bool" where
  "FreqCapCounterLess left right = (cnt_fc_id left < cnt_fc_id right)"

definition FreqCapCounterMerger :: "freq_cap_counter \<Rightarrow> freq_cap_counter \<Rightarrow> freq_cap_counter" where
  "FreqCapCounterMerger left right =
     \<lparr>cnt_fc_id = cnt_fc_id left, cnt_count = cnt_count left + cnt_count right,
      cnt_uc_count = cnt_uc_count left + cnt_uc_count right\<rparr>"

fun pack_freq_caps :: "freq_cap_counter list \<Rightarrow> u64 list \<Rightarrow> bool \<Rightarrow> freq_cap_counter list" where
  "pack_freq_caps fcs_res [] unconf = fcs_res"
| "pack_freq_caps fcs_res (fc # fcs) unconf =
     (if fcs_res = [] \<or> cnt_fc_id (last fcs_res) \<noteq> fc
      then pack_freq_caps
             (fcs_res @ [\<lparr>cnt_fc_id = fc, cnt_count = (if unconf then 0 else 1),
                          cnt_uc_count = (if unconf then 1 else 0)\<rparr>]) fcs unconf
      else pack_freq_caps
             (butlast fcs_res @ [(last fcs_res)\<lparr>cnt_count := Suc (cnt_count (last fcs_res))\<rparr>])
             fcs unconf)"

section \<open>FreqCapAdapter: dropping expired impressions\<close>

definition window_bound ::
  "'t::{minus,ord} time_api \<Rightarrow> 't freq_cap \<Rightarrow> 't \<Rightarrow> u64" where
  "window_bound T fc now =
     (if window_time fc < now then word_of_int (tv_sec T (now - window_time fc)) else 0)"

text \<open>The loop over the impressions from the last one: how many it passes.\<close>

fun window_scan :: "u64 \<Rightarrow> nat \<Rightarrow> nat \<Rightarrow> u32 list \<Rightarrow> nat" where
  "window_scan bound_time limit window_count [] = 0"
| "window_scan bound_time limit window_count (ts # rest) =
     (if window_count \<le> limit \<and> bound_time \<le> ucast (norm_ts ts)
      then Suc (window_scan bound_time limit
                  (if is_uc_timestamp ts = 0 then Suc window_count else window_count) rest)
      else 0)"

text \<open>Whether an impression at \<open>ts\<close> still blocks by the period of the cap.\<close>

definition in_period :: "'t::{zero,plus,ord} time_api \<Rightarrow> 't freq_cap \<Rightarrow> 't \<Rightarrow> u32 \<Rightarrow> bool" where
  "in_period T fc now ts = (period fc \<noteq> 0 \<and> period fc + of_sec T (uint (norm_ts ts)) > now)"

definition kept_count ::
  "'t::{zero,plus,minus,ord} time_api \<Rightarrow> 't freq_cap \<Rightarrow> 't \<Rightarrow> u32 list \<Rightarrow> nat" where
  "kept_count T fc now rev_imps =
     (case rev_imps of
        [] \<Rightarrow> 0
      | l # _ \<Rightarrow>
        let clear_end = (if in_period T fc now l then 1 else 0);
            imp_count = (if in_period T fc now l \<and> is_uc_timestamp l = 0 then 1 else 0)
        in if window_limit fc \<noteq> 0
           then clear_end + window_scan (window_bound T fc now) (unat (window_limit fc)) imp_count
                              (drop clear_end rev_imps)
           else clear_end)"

definition FreqCapAdapter ::
  "'t::{zero,plus,minus,ord} time_api \<Rightarrow> 't \<Rightarrow> 't freq_cap_config \<Rightarrow> freq_cap_cell \<Rightarrow> freq_cap_cell" where
  "FreqCapAdapter T now config val =
     (let fc = find_or_get_default T (freq_cap_map config) (fc_id val);
          last_imps = last_impressions val
      in \<lparr>fc_id = fc_id val, total_impressions = total_impressions val,
          last_impressions =
            drop (length last_imps - kept_count T fc now (rev last_imps)) last_imps\<rparr>)"

definition FreqCapAdapter_counter ::
  "'t::{zero} time_api \<Rightarrow> 't \<Rightarrow> 't freq_cap_config \<Rightarrow> freq_cap_counter \<Rightarrow> freq_cap_cell" where
  "FreqCapAdapter_counter T now config c =
     (let fc = find_or_get_default T (freq_cap_map config) (ucast (cnt_fc_id c))
      in \<lparr>fc_id = ucast (cnt_fc_id c),
          total_impressions = word_of_nat (cnt_count c + cnt_uc_count c),
          last_impressions =
            (if window_limit fc \<noteq> 0 \<or> period fc \<noteq> 0
             then add_uc_fc_counter T (add_fc_counter T [] (cnt_count c) now) (cnt_uc_count c) now
             else [])\<rparr>)"

section \<open>FreqCapMerger\<close>

fun merger_loop ::
  "'t time_api \<Rightarrow> 't \<Rightarrow> freq_cap_counter \<Rightarrow> bool \<Rightarrow> bool \<Rightarrow> u32 list \<Rightarrow> u32 list \<Rightarrow> u32 list" where
  "merger_loop T now c inserted uc_inserted [] res =
     (let res1 = (if \<not> inserted then add_fc_counter T res (cnt_count c) now else res)
      in if \<not> uc_inserted then add_uc_fc_counter T res1 (cnt_uc_count c) now else res1)"
| "merger_loop T now c inserted uc_inserted (imp # imps) res =
     (let ins = (\<not> inserted \<and> uint imp > tv_sec T now);
          res1 = (if ins then add_fc_counter T res (cnt_count c) now else res);
          uc_ins = (\<not> uc_inserted \<and> uint (norm_ts imp) > tv_sec T now);
          res2 = (if uc_ins then add_uc_fc_counter T res1 (cnt_uc_count c) now else res1)
      in merger_loop T now c (inserted \<or> ins) (uc_inserted \<or> uc_ins) imps (res2 @ [imp]))"

definition FreqCapMerger :: "'t time_api \<Rightarrow> 't \<Rightarrow> freq_cap_cell \<Rightarrow> freq_cap_counter \<Rightarrow> freq_cap_cell" where
  "FreqCapMerger T now w c =
     \<lparr>fc_id = ucast (cnt_fc_id c),
      total_impressions = total_impressions w + word_of_nat (cnt_count c + cnt_uc_count c),
      last_impressions = merger_loop T now c False False (last_impressions w) []\<rparr>"

definition FreqCapMerger_cells :: "freq_cap_cell \<Rightarrow> freq_cap_cell \<Rightarrow> freq_cap_cell" where
  "FreqCapMerger_cells left right =
     \<lparr>fc_id = fc_id left, total_impressions = total_impressions left + total_impressions right,
      last_impressions = std_merge LastImpLess (last_impressions left) (last_impressions right)\<rparr>"

definition FreqCapFilter :: "freq_cap_cell \<Rightarrow> bool" where
  "FreqCapFilter val = (fc_id val \<noteq> 0)"

definition FreqCapLess :: "freq_cap_cell \<Rightarrow> freq_cap_cell \<Rightarrow> bool" where
  "FreqCapLess left right = (fc_id left < fc_id right)"

definition FreqCapLess_cc :: "freq_cap_cell \<Rightarrow> freq_cap_counter \<Rightarrow> bool" where
  "FreqCapLess_cc left right = (ucast (fc_id left) < cnt_fc_id right)"

definition FreqCapLess_ccr :: "freq_cap_counter \<Rightarrow> freq_cap_cell \<Rightarrow> bool" where
  "FreqCapLess_ccr left right = (cnt_fc_id left < ucast (fc_id right))"

section \<open>Unconfirmed requests, sequence orders, publishers, campaigns\<close>

text \<open>
  The generated reader returns \<open>request_id()\<close> as a \<open>const char*\<close>, so the comparison of two request
  ids is one of addresses in the two buffers: the parameter \<open>addr_less\<close>.
\<close>

definition UcFreqCapLess ::
  "(uc_freq_cap \<Rightarrow> uc_freq_cap \<Rightarrow> bool) \<Rightarrow> uc_freq_cap \<Rightarrow> uc_freq_cap \<Rightarrow> bool" where
  "UcFreqCapLess addr_less left right =
     (uc_time left < uc_time right \<or> (uc_time left = uc_time right \<and> addr_less left right))"

definition SeqOrderAdapter :: "u64 seq_order \<Rightarrow> u32 seq_order" where
  "SeqOrderAdapter so = \<lparr>ccg_id = ucast (ccg_id so), set_id = ucast (set_id so), seq_imps = ucast (seq_imps so)\<rparr>"

definition SeqOrderLess_ws :: "u32 seq_order \<Rightarrow> u64 seq_order \<Rightarrow> bool" where
  "SeqOrderLess_ws left right = (ucast (ccg_id left) < ccg_id right)"

definition SeqOrderLess_sw :: "u64 seq_order \<Rightarrow> u32 seq_order \<Rightarrow> bool" where
  "SeqOrderLess_sw left right = (ccg_id left < ucast (ccg_id right))"

definition SeqOrderLess :: "u32 seq_order \<Rightarrow> u32 seq_order \<Rightarrow> bool" where
  "SeqOrderLess left right = (ccg_id left < ccg_id right)"

definition SeqOrderMerger :: "u32 seq_order \<Rightarrow> u64 seq_order \<Rightarrow> u32 seq_order" where
  "SeqOrderMerger w so =
     \<lparr>ccg_id = ucast (ccg_id so), set_id = ucast (set_id so),
      seq_imps = (if ucast (set_id w) = set_id so
                  then ucast (ucast (seq_imps w) + seq_imps so) else ucast (seq_imps so))\<rparr>"

definition SeqOrderMerger_readers :: "u32 seq_order \<Rightarrow> u32 seq_order \<Rightarrow> u32 seq_order" where
  "SeqOrderMerger_readers left right =
     \<lparr>ccg_id = ccg_id left, set_id = set_id left,
      seq_imps = (if set_id left = set_id right then seq_imps left + seq_imps right
                  else seq_imps right)\<rparr>"

definition PublisherAccountLess :: "publisher_account \<Rightarrow> publisher_account \<Rightarrow> bool" where
  "PublisherAccountLess left right = (publisher_account_id left < publisher_account_id right)"

definition PublisherAccountMerger :: "publisher_account \<Rightarrow> publisher_account \<Rightarrow> publisher_account" where
  "PublisherAccountMerger left right =
     \<lparr>publisher_account_id = publisher_account_id left, timestamp = max (timestamp left) (timestamp right)\<rparr>"

definition CampaignFreqLess :: "u32 campaign_freq \<Rightarrow> u32 \<Rightarrow> bool" where
  "CampaignFreqLess left cid = (campaign_id left < cid)"

definition CampaignFreqLess_rr :: "u32 campaign_freq \<Rightarrow> u32 campaign_freq \<Rightarrow> bool" where
  "CampaignFreqLess_rr left right = (campaign_id left < campaign_id right)"

definition CampaignFreqMerger :: "u32 campaign_freq \<Rightarrow> u32 campaign_freq \<Rightarrow> u32 campaign_freq" where
  "CampaignFreqMerger left right =
     \<lparr>campaign_id = campaign_id left, freq_imps = freq_imps left + freq_imps right\<rparr>"

section \<open>Is a cap reached\<close>

definition cap_reached ::
  "'t::{zero,plus,minus,ord} time_api \<Rightarrow> 't \<Rightarrow> 't freq_cap \<Rightarrow> freq_cap_cell \<Rightarrow> bool" where
  "cap_reached T now fc cell =
     (if lifelimit fc \<noteq> 0 \<and> lifelimit fc \<le> ucast (total_impressions cell) then True
      else if last_impressions cell \<noteq> [] then
        if period fc \<noteq> 0 \<and>
           of_sec T (uint (norm_ts (last (last_impressions cell)))) + period fc > now then True
        else if window_limit fc \<noteq> 0 then
          unat (window_limit fc) \<le>
            length (dropWhile (\<lambda>ts. ucast (norm_ts ts) < window_bound T fc now) (last_impressions cell))
        else False
      else False)"

definition check_full_freq_caps ::
  "'t::{zero,plus,minus,ord} time_api \<Rightarrow> u64 list \<Rightarrow> 't \<Rightarrow> 't freq_cap_config \<Rightarrow> freq_cap_cell list \<Rightarrow> u64 list" where
  "check_full_freq_caps T fcs now config cells =
     fold (\<lambda>cell fcs.
             if cap_reached T now (find_or_get_default T (freq_cap_map config) (fc_id cell)) cell
             then fcs @ [ucast (fc_id cell)] else fcs) cells fcs"

section \<open>Dropping expired impressions never changes a decision\<close>

lemma window_scan_le: "window_scan b l c zs \<le> length zs"
  by (induction b l c zs rule: window_scan.induct) auto

lemma window_scan_spec:
  "sorted_wrt (\<lambda>x y. norm_ts y \<le> norm_ts x) zs \<Longrightarrow>
   (\<forall>z\<in>set (drop (window_scan b l c zs) zs). ucast (norm_ts z) < b) \<or> l < c + window_scan b l c zs"
proof (induction b l c zs rule: window_scan.induct)
  case (2 b l c ts rest)
  show ?case
  proof (cases "c \<le> l \<and> b \<le> ucast (norm_ts ts)")
    case True
    let ?c = "if is_uc_timestamp ts = 0 then Suc c else c"
    have "(\<forall>z\<in>set (drop (window_scan b l ?c rest) rest). ucast (norm_ts z) < b) \<or>
        l < ?c + window_scan b l ?c rest"
      using 2 True by simp
    moreover have "?c \<le> Suc c" by simp
    ultimately show ?thesis using True by (auto simp del: if_split_asm)
  next
    case False
    have "ucast (norm_ts z) < b" if "ucast (norm_ts ts) < b" "norm_ts z \<le> norm_ts ts" for z
      using that(1) order.strict_trans1 [OF u64_of_u32_le [THEN iffD2, OF that(2)]] by simp
    with False 2 show ?thesis by (auto simp: not_le)
  qed
qed simp

lemma times_sorted_rev: "times_sorted xs \<Longrightarrow> sorted_wrt (\<lambda>x y. norm_ts y \<le> norm_ts x) (rev xs)"
  by (simp add: times_sorted_def sorted_wrt_rev)

lemma times_sorted_append:
  "times_sorted (xs @ ys) \<longleftrightarrow>
     times_sorted xs \<and> times_sorted ys \<and> (\<forall>x\<in>set xs. \<forall>y\<in>set ys. norm_ts x \<le> norm_ts y)"
  by (auto simp: times_sorted_def sorted_wrt_append)

lemma kept_count_spec:
  assumes "times_sorted (ds @ ys)" "length ys = kept_count T fc now (rev (ds @ ys))"
  shows "window_limit fc \<noteq> 0 \<Longrightarrow>
      (\<forall>d\<in>set ds. ucast (norm_ts d) < window_bound T fc now) \<or> unat (window_limit fc) \<le> length ys"
    and "ds @ ys \<noteq> [] \<Longrightarrow> in_period T fc now (last (ds @ ys)) \<Longrightarrow> ys \<noteq> []"
proof -
  let ?zs = "rev (ds @ ys)" and ?b = "window_bound T fc now" and ?l = "unat (window_limit fc)"
  assume limit: "window_limit fc \<noteq> 0"
  show "(\<forall>d\<in>set ds. ucast (norm_ts d) < ?b) \<or> ?l \<le> length ys"
  proof (cases "?zs")
    case Nil
    then show ?thesis by simp
  next
    case (Cons z zs)
    define e where "e = (if in_period T fc now z then 1 else 0 :: nat)"
    define c where "c = (if in_period T fc now z \<and> is_uc_timestamp z = 0 then 1 else 0 :: nat)"
    define n where "n = window_scan ?b ?l c (drop e ?zs)"
    have k: "length ys = e + n"
      using assms(2) Cons limit by (simp add: kept_count_def e_def c_def n_def)
    have "sorted_wrt (\<lambda>x y. norm_ts y \<le> norm_ts x) (drop e ?zs)"
      using times_sorted_rev [OF assms(1)] by (rule sorted_wrt_drop)
    from window_scan_spec [OF this, of ?b ?l c]
    have "(\<forall>d\<in>set (drop (e + n) ?zs). ucast (norm_ts d) < ?b) \<or> ?l < c + n"
      unfolding n_def drop_drop by (simp only: add.commute)
    moreover have "set (drop (e + n) ?zs) = set ds"
      unfolding k [symmetric] by simp
    moreover have "c \<le> e" by (simp add: c_def e_def)
    ultimately show ?thesis using k by fastforce
  qed
next
  assume ne: "ds @ ys \<noteq> []" and per: "in_period T fc now (last (ds @ ys))"
  then obtain z zs where z: "rev (ds @ ys) = z # zs" "z = last (ds @ ys)"
    by (metis hd_rev list.exhaust_sel rev_is_Nil_conv)
  with per assms(2) have "0 < length ys" by (simp add: kept_count_def Let_def)
  then show "ys \<noteq> []" by simp
qed

lemma kept_count_le: "kept_count T fc now zs \<le> length zs"
proof (cases zs)
  case (Cons z rest)
  let ?e = "if in_period T fc now z then 1 else 0 :: nat"
  have "window_scan b l c (drop ?e zs) \<le> length zs - ?e" for b l c
    using window_scan_le [of b l c "drop ?e zs"] by simp
  moreover have "?e \<le> length zs" using Cons by simp
  ultimately show ?thesis
    using Cons unfolding kept_count_def Let_def by (auto simp: le_diff_conv2 add.commute)
qed (simp add: kept_count_def)

lemma dropWhile_cut:
  assumes "times_sorted (ds @ ys)" "(\<forall>d\<in>set ds. ucast (norm_ts d) < b) \<or> limit \<le> length ys" "b \<le> b'"
  shows "limit \<le> length (dropWhile (\<lambda>ts. ucast (norm_ts ts) < b') (ds @ ys)) \<longleftrightarrow>
         limit \<le> length (dropWhile (\<lambda>ts. ucast (norm_ts ts) < (b' :: u64)) ys)"
proof (cases "\<forall>d\<in>set ds. ucast (norm_ts d) < b'")
  case True
  then show ?thesis by (simp add: dropWhile_append2)
next
  case False
  then obtain d where d: "d \<in> set ds" "\<not> ucast (norm_ts d) < b'" by blast
  have "\<not> ucast (norm_ts y) < b'" if "y \<in> set ys" for y
    using that d assms(1) u64_of_u32_le [of "norm_ts d" "norm_ts y"]
    by (auto simp: times_sorted_append simp del: u64_of_u32_le)
  then have "dropWhile (\<lambda>ts. ucast (norm_ts ts) < b') ys = ys"
    by (cases ys) auto
  moreover have "dropWhile (\<lambda>ts. ucast (norm_ts ts) < b') (ds @ ys) =
      dropWhile (\<lambda>ts. ucast (norm_ts ts) < b') ds @ ys"
    using d by (rule dropWhile_append1)
  moreover have "limit \<le> length ys"
    using assms(2,3) d by (meson order.strict_trans2)
  ultimately show ?thesis by simp
qed

lemma window_bound_mono:
  fixes T :: "'t::linordered_ab_group_add time_api"
  assumes "time_laws T" "now \<le> now'" "0 \<le> window_time fc" "tv_sec T now' < 2 ^ 63"
  shows "window_bound T fc now \<le> window_bound T fc now'"
proof (cases "window_time fc < now")
  case True
  have mono: "tv_sec T x \<le> tv_sec T y" if "x \<le> y" for x y
    using assms(1) that by (simp add: time_laws_def mono_def)
  have "tv_sec T 0 = 0"
    using assms(1) unfolding time_laws_def by metis
  with True have "0 \<le> tv_sec T (now - window_time fc)"
    using mono [of 0 "now - window_time fc"] by simp
  moreover have "tv_sec T (now - window_time fc) \<le> tv_sec T (now' - window_time fc)"
    using assms(2) by (intro mono) simp
  moreover have "tv_sec T (now' - window_time fc) < 2 ^ 64"
    using mono [of "now' - window_time fc" now'] assms(3,4) by simp
  ultimately have "(word_of_int (tv_sec T (now - window_time fc)) :: u64) \<le>
      word_of_int (tv_sec T (now' - window_time fc))"
    by (simp add: word_le_def uint_word_of_int take_bit_int_eq_self)
  moreover have "window_time fc < now'"
    using True assms(2) by simp
  ultimately show ?thesis using True by (simp add: window_bound_def)
qed (simp add: window_bound_def)

lemma cap_reached_cut:
  fixes T :: "'t::linordered_ab_group_add time_api"
  assumes "times_sorted (ds @ ys)" "length ys = kept_count T fc now (rev (ds @ ys))"
    and "window_bound T fc now \<le> window_bound T fc now'" "now \<le> now'"
    and "last_impressions cell = ds @ ys"
  shows "cap_reached T now' fc (cell\<lparr>last_impressions := ys\<rparr>) = cap_reached T now' fc cell"
proof (cases "ds @ ys \<noteq> [] \<and> in_period T fc now' (last (ds @ ys))")
  case True
  with assms(4) have "in_period T fc now (last (ds @ ys))"
    by (auto simp: in_period_def)
  then have "ys \<noteq> []" using kept_count_spec(2) [OF assms(1,2)] True by simp
  with True assms(5) show ?thesis
    by (simp add: cap_reached_def in_period_def add.commute)
next
  case False
  have "unat (window_limit fc) \<le> length (dropWhile (\<lambda>ts. ucast (norm_ts ts) < window_bound T fc now') (ds @ ys)) \<longleftrightarrow>
        unat (window_limit fc) \<le> length (dropWhile (\<lambda>ts. ucast (norm_ts ts) < window_bound T fc now') ys)"
    if "window_limit fc \<noteq> 0"
    using dropWhile_cut [OF assms(1) kept_count_spec(1) [OF assms(1,2) that] assms(3)] .
  then show ?thesis
    using False assms(5)
    by (auto simp: cap_reached_def in_period_def add.commute unat_eq_zero)
qed

lemma FreqCapAdapter_cut:
  "\<exists>ds ys. last_impressions cell = ds @ ys \<and>
     length ys = kept_count T (find_or_get_default T (freq_cap_map config) (fc_id cell)) now (rev (ds @ ys)) \<and>
     FreqCapAdapter T now config cell = cell\<lparr>last_impressions := ys\<rparr>"
proof -
  let ?xs = "last_impressions cell"
  let ?k = "kept_count T (find_or_get_default T (freq_cap_map config) (fc_id cell)) now (rev ?xs)"
  have "?k \<le> length ?xs" using kept_count_le [of _ _ _ "rev ?xs"] by simp
  then show ?thesis
    by (intro exI [of _ "take (length ?xs - ?k) ?xs"] exI [of _ "drop (length ?xs - ?k) ?xs"])
       (simp add: FreqCapAdapter_def Let_def)
qed

lemma FreqCapAdapter_fields [simp]:
  "fc_id (FreqCapAdapter T now config cell) = fc_id cell"
  "total_impressions (FreqCapAdapter T now config cell) = total_impressions cell"
  by (simp_all add: FreqCapAdapter_def Let_def)

lemma FreqCapAdapter_suffix:
  "suffix (last_impressions (FreqCapAdapter T now config cell)) (last_impressions cell)"
  by (simp add: FreqCapAdapter_def Let_def suffix_drop)

lemma FreqCapAdapter_counter_fc_id [simp]:
  "fc_id (FreqCapAdapter_counter T now config c) = ucast (cnt_fc_id c)"
  by (simp add: FreqCapAdapter_counter_def Let_def)

section \<open>Adding impressions to a cell\<close>

lemma mset_merger_loop:
  "mset (merger_loop T now c inserted uc_inserted imps res) =
     mset res + mset imps +
     (if inserted then {#} else replicate_mset (cnt_count c) (sec32 T now)) +
     (if uc_inserted then {#} else replicate_mset (cnt_uc_count c) (to_uc_timestamp (sec32 T now)))"
  by (induction T now c inserted uc_inserted imps res rule: merger_loop.induct)
     (auto simp: add_fc_counter_def add_uc_fc_counter_def Let_def)

lemma sec32_in_range:
  assumes "0 \<le> tv_sec T now" "tv_sec T now < 2 ^ 31"
  shows "uint (sec32 T now) = tv_sec T now" "\<not> unconfirmed (sec32 T now)"
proof -
  show *: "uint (sec32 T now) = tv_sec T now"
    using assms by (simp add: sec32_def uint_word_of_int take_bit_int_eq_self)
  have "take_bit 31 (uint (sec32 T now)) = uint (sec32 T now)"
    using assms unfolding * by (simp add: take_bit_int_eq_self)
  then have "\<not> bit (uint (sec32 T now)) 31"
    by (metis bit_take_bit_iff less_irrefl)
  then show "\<not> unconfirmed (sec32 T now)"
    by (simp add: unconfirmed_bit bit_unsigned_iff)
qed

lemma times_sorted_Cons:
  "times_sorted (x # xs) \<longleftrightarrow> (\<forall>y\<in>set xs. norm_ts x \<le> norm_ts y) \<and> times_sorted xs"
  by (simp add: times_sorted_def)

lemma times_sorted_replicate [simp]: "times_sorted (replicate n x)"
  by (induction n) (auto simp: times_sorted_def)

text \<open>
  The loop keeps the order of times as long as no confirmed impression is put before an older
  unconfirmed one, that is, no unconfirmed impression of the cell is at \<open>now\<close> or earlier.
\<close>

lemma merger_loop_sorted:
  assumes "0 \<le> tv_sec T now" "tv_sec T now < 2 ^ 31"
    and "times_sorted (res @ imps)" "uc_inserted \<longrightarrow> inserted"
    and "\<not> uc_inserted \<Longrightarrow> \<forall>r\<in>set res. norm_ts r \<le> sec32 T now"
    and "cnt_count c = 0 \<or> (\<forall>ts\<in>set imps. unconfirmed ts \<longrightarrow> sec32 T now < norm_ts ts)"
  shows "times_sorted (merger_loop T now c inserted uc_inserted imps res)"
  using assms(3-)
proof (induction imps arbitrary: inserted uc_inserted res)
  case Nil
  then show ?case
    using sec32_in_range [OF assms(1,2)]
    by (auto simp: add_fc_counter_def add_uc_fc_counter_def times_sorted_append Let_def)
next
  case (Cons imp imps)
  let ?n = "sec32 T now"
  note n = sec32_in_range [OF assms(1,2)]
  define ins where "ins = (\<not> inserted \<and> ?n < imp)"
  define uc_ins where "uc_ins = (\<not> uc_inserted \<and> ?n < norm_ts imp)"
  define res1 where "res1 = (if ins then add_fc_counter T res (cnt_count c) now else res)"
  define res2 where "res2 = (if uc_ins then add_uc_fc_counter T res1 (cnt_uc_count c) now else res1)"
  have step: "merger_loop T now c inserted uc_inserted (imp # imps) res =
      merger_loop T now c (inserted \<or> ins) (uc_inserted \<or> uc_ins) imps (res2 @ [imp])"
    by (simp add: Let_def ins_def uc_ins_def res1_def res2_def word_less_def n(1))
  have late: "?n < norm_ts imp" if "ins" "cnt_count c \<noteq> 0"
    using that Cons.prems(4) by (auto simp: ins_def)
  have early: "\<forall>r\<in>set res. norm_ts r \<le> ?n" if "\<not> uc_inserted"
    using Cons.prems(3) that by blast
  have ins_uc: "\<not> uc_inserted" if "ins"
    using that Cons.prems(2) by (auto simp: ins_def)
  have after: "?n \<le> norm_ts y" if "?n < norm_ts imp" "y \<in> set (imp # imps)" for y
    using that Cons.prems(1) by (auto simp: times_sorted_append times_sorted_Cons)
  have s1: "times_sorted (res1 @ imp # imps)"
  proof (cases "ins \<and> cnt_count c \<noteq> 0")
    case True
    then have "\<forall>y\<in>set (imp # imps). ?n \<le> norm_ts y"
      using late after by blast
    with True Cons.prems(1) early ins_uc show ?thesis
      by (simp add: res1_def add_fc_counter_def times_sorted_append n)
  next
    case False
    then show ?thesis using Cons.prems(1) by (auto simp: res1_def add_fc_counter_def)
  qed
  have early1: "\<forall>r\<in>set res1. norm_ts r \<le> ?n" if "\<not> uc_inserted"
    using early that n by (auto simp: res1_def add_fc_counter_def)
  have s2: "times_sorted (res2 @ imp # imps)"
  proof (cases uc_ins)
    case True
    then have "\<forall>y\<in>set (imp # imps). ?n \<le> norm_ts y"
      using after by (auto simp: uc_ins_def)
    with True s1 early1 show ?thesis
      by (auto simp: res2_def add_uc_fc_counter_def times_sorted_append n uc_ins_def)
  qed (use s1 in \<open>simp add: res2_def\<close>)
  show ?case
    unfolding step
  proof (rule Cons.IH)
    show "times_sorted ((res2 @ [imp]) @ imps)" using s2 by simp
    show "uc_inserted \<or> uc_ins \<longrightarrow> inserted \<or> ins"
      using Cons.prems(2) norm_ts_le [of imp] by (auto simp: ins_def uc_ins_def)
    show "\<forall>r\<in>set (res2 @ [imp]). norm_ts r \<le> ?n" if "\<not> (uc_inserted \<or> uc_ins)"
      using that early1 by (auto simp: res2_def uc_ins_def)
    show "cnt_count c = 0 \<or> (\<forall>ts\<in>set imps. unconfirmed ts \<longrightarrow> ?n < norm_ts ts)"
      using Cons.prems(4) by auto
  qed
qed

section \<open>Packing of freq cap ids\<close>

text \<open>
  The counter of one id, as the loop leaves it: a repeated id of an unconfirmed array is
  counted in \<open>count\<close>, not in \<open>uc_count\<close>.
\<close>

definition packed_counter :: "bool \<Rightarrow> u64 list \<Rightarrow> u64 \<Rightarrow> freq_cap_counter" where
  "packed_counter unconf fcs k =
     \<lparr>cnt_fc_id = k, cnt_count = (if unconf then count_list fcs k - 1 else count_list fcs k),
      cnt_uc_count = (if unconf then 1 else 0)\<rparr>"

lemma pack_freq_caps_snoc:
  assumes "key_sorted cnt_fc_id (acc @ [a])" "sorted fcs" "\<forall>f\<in>set fcs. cnt_fc_id a \<le> f"
  shows "key_sorted cnt_fc_id (pack_freq_caps (acc @ [a]) fcs unconf) \<and>
    key_find cnt_fc_id k (pack_freq_caps (acc @ [a]) fcs unconf) =
      (if k = cnt_fc_id a then Some (a\<lparr>cnt_count := cnt_count a + count_list fcs k\<rparr>)
       else if k \<in> set fcs then Some (packed_counter unconf fcs k)
       else key_find cnt_fc_id k acc)"
  using assms
proof (induction fcs arbitrary: acc a)
  case Nil
  have "key_find cnt_fc_id (cnt_fc_id a) acc = None"
    using Nil.prems(1) by (auto simp: key_find_None_iff)
  then show ?case using Nil.prems by (auto split: option.split)
next
  case (Cons f fs)
  show ?case
  proof (cases "cnt_fc_id a = f")
    case True
    then show ?thesis
      using Cons.prems Cons.IH [of acc "a\<lparr>cnt_count := Suc (cnt_count a)\<rparr>"]
      by (auto simp: packed_counter_def)
  next
    case False
    let ?b = "\<lparr>cnt_fc_id = f, cnt_count = (if unconf then 0 else 1), cnt_uc_count = (if unconf then 1 else 0)\<rparr>"
    have lt: "cnt_fc_id a < f" and notin: "cnt_fc_id a \<notin> set fs"
      using False Cons.prems(2,3) by auto
    have "key_find cnt_fc_id (cnt_fc_id a) acc = None"
      using Cons.prems(1) by (auto simp: key_find_None_iff)
    moreover have "key_sorted cnt_fc_id ((acc @ [a]) @ [?b])"
      using Cons.prems(1) lt by (auto intro: order.strict_trans)
    ultimately show ?thesis
      using Cons.prems(2) Cons.IH [of "acc @ [a]" ?b] lt notin False
      by (auto simp: packed_counter_def split: option.split)
  qed
qed

lemma pack_freq_caps_sorted:
  assumes "sorted fcs"
  shows "key_sorted cnt_fc_id (pack_freq_caps [] fcs unconf) \<and>
    key_find cnt_fc_id k (pack_freq_caps [] fcs unconf) =
      (if k \<in> set fcs then Some (packed_counter unconf fcs k) else None)"
proof (cases fcs)
  case (Cons f fs)
  let ?b = "\<lparr>cnt_fc_id = f, cnt_count = (if unconf then 0 else 1), cnt_uc_count = (if unconf then 1 else 0)\<rparr>"
  show ?thesis
    using assms Cons pack_freq_caps_snoc [where acc = "[]" and a = ?b and fcs = fs and k = k and unconf = unconf]
    by (auto simp: packed_counter_def)
qed simp

section \<open>The functors satisfy the contract of merge_unique\<close>

lemma FreqCapMerger_fc_id [simp]: "fc_id (FreqCapMerger T now w c) = ucast (cnt_fc_id c)"
  by (simp add: FreqCapMerger_def)

interpretation counters: keyed_merge cnt_fc_id cnt_fc_id FreqCapCounterLess FreqCapCounterLess
  FreqCapCounterMerger cnt_fc_id
  by unfold_locales (auto simp: FreqCapCounterLess_def FreqCapCounterMerger_def)

interpretation cells: keyed_merge "\<lambda>w. ucast (fc_id w) :: u64" cnt_fc_id FreqCapLess_cc FreqCapLess_ccr
  "FreqCapMerger T now" "\<lambda>w. ucast (fc_id w)" for T :: "'t time_api" and now
  by unfold_locales
     (simp_all add: FreqCapLess_cc_def FreqCapLess_ccr_def u64_roundtrip)

interpretation cell_pairs: keyed_merge fc_id fc_id FreqCapLess FreqCapLess FreqCapMerger_cells fc_id
  by unfold_locales (auto simp: FreqCapLess_def FreqCapMerger_cells_def)

interpretation seq: keyed_merge "\<lambda>w. ucast (ccg_id w) :: u64" ccg_id SeqOrderLess_ws SeqOrderLess_sw
  SeqOrderMerger "\<lambda>w. ucast (ccg_id w)"
  by unfold_locales
     (simp_all add: SeqOrderLess_ws_def SeqOrderLess_sw_def SeqOrderMerger_def u64_roundtrip)

interpretation seq_pairs: keyed_merge ccg_id ccg_id SeqOrderLess SeqOrderLess
  SeqOrderMerger_readers ccg_id
  by unfold_locales (auto simp: SeqOrderLess_def SeqOrderMerger_readers_def)

interpretation pub_pairs: keyed_merge publisher_account_id publisher_account_id PublisherAccountLess
  PublisherAccountLess PublisherAccountMerger publisher_account_id
  by unfold_locales (auto simp: PublisherAccountLess_def PublisherAccountMerger_def)

interpretation camp_pairs: keyed_merge campaign_id campaign_id CampaignFreqLess_rr CampaignFreqLess_rr
  CampaignFreqMerger campaign_id
  by unfold_locales (auto simp: CampaignFreqLess_rr_def CampaignFreqMerger_def)

end
