(* ===== verification/FreqCapProfile.thy ===== *)
theory FreqCapProfile
  imports FreqCapCells
begin

text \<open>
  The class \<open>UserFreqCapProfile\<close> of \<open>src/UserInfoSvcs/UserInfoCommons/UserFreqCapProfile.cpp\<close>.
  Its only field is the serialized profile; the generated readers and writers that turn it into
  a structure and back are represented by the structure itself, \<open>None\<close> being the empty
  buffer (a written profile is never empty). Every operation takes the state and returns the
  new one with its results. The ids of a \<open>std::set\<close> are a strictly sorted list.
\<close>

section \<open>Removal of expired requests\<close>

text \<open>\<open>std::map<FreqCapDecrease, FreqCapDecreaseCounter>\<close> as its ordered list of entries.\<close>

definition FreqCapDecrease_less :: "u64 \<times> u32 \<Rightarrow> u64 \<times> u32 \<Rightarrow> bool" where
  "FreqCapDecrease_less l r = (fst l < fst r \<or> (fst l = fst r \<and> snd l < snd r))"

fun dec_incr :: "u64 \<times> u32 \<Rightarrow> ((u64 \<times> u32) \<times> nat) list \<Rightarrow> ((u64 \<times> u32) \<times> nat) list" where
  "dec_incr k [] = [(k, 1)]"
| "dec_incr k ((j, n) # ds) =
     (if k = j then (j, Suc n) # ds
      else if FreqCapDecrease_less k j then (k, 1) # (j, n) # ds
      else (j, n) # dec_incr k ds)"

fun collect_expired ::
  "int \<Rightarrow> uc_freq_cap list \<Rightarrow> ((u64 \<times> u32) \<times> nat) list \<Rightarrow> uc_freq_cap list \<times> ((u64 \<times> u32) \<times> nat) list" where
  "collect_expired low_bound [] decs = ([], decs)"
| "collect_expired low_bound (u # us) decs =
     (if low_bound > uint (uc_time u)
      then collect_expired low_bound us
             (fold (\<lambda>i. dec_incr (ucast i, uc_time u)) (freq_cap_ids u) decs)
      else (u # us, decs))"

fun erase_run :: "u32 \<Rightarrow> nat \<Rightarrow> nat \<Rightarrow> u32 list \<Rightarrow> u32 list" where
  "erase_run t i n [] = []"
| "erase_run t i n (x # xs) = (if x = t \<and> i < n then erase_run t (Suc i) n xs else x # xs)"

definition decrease_cell :: "u32 \<Rightarrow> nat \<Rightarrow> freq_cap_cell \<Rightarrow> freq_cap_cell" where
  "decrease_cell time n cell =
     (let t = to_uc_timestamp time;
          imps = last_impressions cell;
          i = lower_bound (\<lambda>e. LastImpLess e t) imps
      in cell\<lparr>last_impressions :=
                (if i < length imps \<and> imps ! i = t
                 then take i imps @ erase_run t 1 n (drop (Suc i) imps) else imps),
              total_impressions :=
                (if n \<le> unat (total_impressions cell)
                 then total_impressions cell - word_of_nat n else 0)\<rparr>)"

fun clean_walk ::
  "freq_cap_cell list \<Rightarrow> ((u64 \<times> u32) \<times> nat) list \<Rightarrow> bool \<Rightarrow> freq_cap_cell list \<times> bool" where
  "clean_walk (cell # cells) (((i, t), n) # decs) changed =
     (if ucast (fc_id cell) < i
      then (let (cells', ch) = clean_walk cells (((i, t), n) # decs) changed in (cell # cells', ch))
      else if ucast (fc_id cell) = i
      then (let cell' = decrease_cell t n cell
            in if last_impressions cell' = [] \<and> total_impressions cell' = 0
               then clean_walk cells decs True
               else clean_walk (cell' # cells) decs True)
      else clean_walk (cell # cells) decs changed)"
| "clean_walk cells decs changed = (cells, changed)"

definition clean_up :: "profile \<Rightarrow> int \<Rightarrow> profile \<times> bool" where
  "clean_up p low_bound =
     (let (uc, decs) = collect_expired low_bound (uc_freq_caps p) [];
          changed = (length uc \<noteq> length (uc_freq_caps p));
          (cells, changed') = clean_walk (freq_caps p) decs changed
      in (p\<lparr>uc_freq_caps := uc, freq_caps := cells\<rparr>, changed'))"

definition clean_up_campaign_freqs :: "profile \<Rightarrow> u64 set \<Rightarrow> profile \<times> bool" where
  "clean_up_campaign_freqs p ids =
     (let kept = filter (\<lambda>f. ucast (campaign_id f) \<in> ids) (campaign_freqs p)
      in (p\<lparr>campaign_freqs := kept\<rparr>, length kept \<noteq> length (campaign_freqs p)))"

text \<open>The guard in front of every call of \<open>clean_up\<close>: the oldest request waits too long.\<close>

definition front_expired ::
  "'t::{plus,ord} time_api \<Rightarrow> 't \<Rightarrow> 't freq_cap_config \<Rightarrow> profile \<Rightarrow> bool" where
  "front_expired T now config p =
     (case uc_freq_caps p of
        [] \<Rightarrow> False
      | u # _ \<Rightarrow> confirm_timeout config + of_sec T (uint (uc_time u)) < now)"

definition clean_up_expired ::
  "'t::{plus,minus,ord} time_api \<Rightarrow> 't \<Rightarrow> 't freq_cap_config \<Rightarrow> profile \<Rightarrow> profile" where
  "clean_up_expired T now config p =
     (if front_expired T now config p
      then fst (clean_up p (tv_sec T (now - confirm_timeout config))) else p)"

section \<open>Campaign frequencies\<close>

definition update_campaign_freq1 :: "u64 \<Rightarrow> u32 campaign_freq list \<Rightarrow> u32 campaign_freq list" where
  "update_campaign_freq1 cid freqs =
     (let i = lower_bound (\<lambda>f. CampaignFreqLess f (ucast cid)) freqs
      in if i < length freqs \<and> ucast (campaign_id (freqs ! i)) = cid
         then freqs[i := (freqs ! i)\<lparr>freq_imps := freq_imps (freqs ! i) + 1\<rparr>]
         else take i freqs @ [\<lparr>campaign_id = ucast cid, freq_imps = 1\<rparr>] @ drop i freqs)"

definition update_campaign_freq :: "u64 list \<Rightarrow> profile \<Rightarrow> profile" where
  "update_campaign_freq imps p = p\<lparr>campaign_freqs := fold update_campaign_freq1 imps (campaign_freqs p)\<rparr>"

section \<open>Construction\<close>

definition MAX_FREQ_CAP_PROFILE_SIZE :: nat where
  "MAX_FREQ_CAP_PROFILE_SIZE = 40 * 1024 * 1024"

datatype profile_error = Invalid nat

text \<open>The constructors; \<open>buf_size\<close> is the size of the buffer as the generated writer lays it out.\<close>

definition make_profile :: "(profile \<Rightarrow> nat) \<Rightarrow> profile option option \<Rightarrow> profile_error + profile option" where
  "make_profile buf_size plain_profile =
     (case plain_profile of
        None \<Rightarrow> Inr None
      | Some None \<Rightarrow> Inr None
      | Some (Some p) \<Rightarrow>
          if buf_size p > MAX_FREQ_CAP_PROFILE_SIZE then Inl (Invalid (buf_size p)) else Inr (Some p))"

section \<open>full\<close>

record full_result =
  res_fcs :: "u64 list"
  res_virtual_fcs :: "u64 list option"
  res_seq_orders :: "u64 seq_order list"
  res_campaign_freqs :: "u64 campaign_freq list"

definition global_check_freq_caps ::
  "'t::{zero,plus,minus,ord} time_api \<Rightarrow> full_result \<Rightarrow> 't \<Rightarrow> 't freq_cap_config \<Rightarrow> profile \<Rightarrow> full_result" where
  "global_check_freq_caps T res now config p =
     res\<lparr>res_fcs := check_full_freq_caps T (res_fcs res) now config (freq_caps p),
         res_virtual_fcs :=
           map_option (\<lambda>fcs. check_full_freq_caps T fcs now config (virtual_freq_caps p)) (res_virtual_fcs res)\<rparr>"

definition read_campaign_freqs :: "full_result \<Rightarrow> profile \<Rightarrow> full_result" where
  "read_campaign_freqs res p =
     res\<lparr>res_campaign_freqs := res_campaign_freqs res @
           map (\<lambda>f. \<lparr>campaign_id = ucast (campaign_id f), freq_imps = ucast (freq_imps f)\<rparr>) (campaign_freqs p)\<rparr>"

definition full ::
  "'t::{zero,plus,minus,ord} time_api \<Rightarrow> full_result \<Rightarrow> 't \<Rightarrow> 't freq_cap_config \<Rightarrow> profile option \<Rightarrow>
   profile option \<times> full_result \<times> bool" where
  "full T res now config st =
     (case st of
        None \<Rightarrow> (None, res, False)
      | Some p \<Rightarrow>
        let res1 = res\<lparr>res_seq_orders := res_seq_orders res @
              map (\<lambda>s. \<lparr>ccg_id = ucast (ccg_id s), set_id = ucast (set_id s), seq_imps = ucast (seq_imps s)\<rparr>)
                (seq_orders p)\<rparr>
        in if front_expired T now config p
           then (let (p1, _) = clean_up p (tv_sec T (now - confirm_timeout config));
                     (p2, _) = clean_up_campaign_freqs p1 (config_campaign_ids config)
                 in (Some p2, read_campaign_freqs (global_check_freq_caps T res1 now config p2) p2, True))
           else (Some p, read_campaign_freqs (global_check_freq_caps T res1 now config p) p, False))"

section \<open>consider\<close>

record request_ref =
  rid_is_null :: bool
  rid_to_string :: string

definition merge_counters ::
  "'t::{zero,plus,minus,ord} time_api \<Rightarrow> 't \<Rightarrow> 't freq_cap_config \<Rightarrow> freq_cap_cell list \<Rightarrow> freq_cap_counter list \<Rightarrow>
   freq_cap_cell list" where
  "merge_counters T now config cells counters =
     merge_unique FreqCapLess_cc FreqCapLess_ccr (FreqCapMerger T now)
       (modify_inserter (filter_inserter back_inserter FreqCapFilter)
          (emit_case (FreqCapAdapter T now config) (FreqCapAdapter_counter T now config)
             (FreqCapAdapter T now config)))
       cells counters []"

definition packed_request_fcs :: "u64 list \<Rightarrow> u64 list \<Rightarrow> freq_cap_counter list" where
  "packed_request_fcs c_fcs uc_fcs =
     merge_unique FreqCapCounterLess FreqCapCounterLess FreqCapCounterMerger
       (modify_inserter back_inserter (emit_case id id id))
       (pack_freq_caps [] c_fcs False) (pack_freq_caps [] uc_fcs True) []"

definition insert_uc :: "'t time_api \<Rightarrow> 't \<Rightarrow> uc_freq_cap \<Rightarrow> uc_freq_cap list \<Rightarrow> uc_freq_cap list" where
  "insert_uc T now u us =
     (let n = length us - length (takeWhile (\<lambda>v. tv_sec T now < uint (uc_time v)) (rev us))
      in take n us @ [u] @ drop n us)"

text \<open>The writer before the final removal of expired requests.\<close>

definition consider_update ::
  "'t::{zero,plus,minus,ord} time_api \<Rightarrow> request_ref \<Rightarrow> 't \<Rightarrow> u64 list \<Rightarrow> u64 list \<Rightarrow> u64 list \<Rightarrow> u64 seq_order list \<Rightarrow>
   u64 list \<Rightarrow> u64 list \<Rightarrow> 't freq_cap_config \<Rightarrow> profile option \<Rightarrow> profile" where
  "consider_update T rid now c_fcs uc_fcs virtual_fcs sos campaign_ids uc_campaign_ids config st =
     (let p0 = (case st of Some p \<Rightarrow> p | None \<Rightarrow> empty_writer);
          p1 = p0\<lparr>freq_caps := merge_counters T now config (freq_caps p0) (packed_request_fcs c_fcs uc_fcs)\<rparr>;
          p2 = p1\<lparr>virtual_freq_caps :=
                 merge_counters T now config (virtual_freq_caps p1) (pack_freq_caps [] virtual_fcs False)\<rparr>;
          p3 = (if \<not> rid_is_null rid \<and> (uc_fcs \<noteq> [] \<or> uc_campaign_ids \<noteq> [])
                then p2\<lparr>uc_freq_caps := insert_uc T now
                       \<lparr>request_id = rid_to_string rid, uc_time = sec32 T now,
                        freq_cap_ids = map ucast uc_fcs, uc_imps = map ucast uc_campaign_ids\<rparr>
                       (uc_freq_caps p2)\<rparr>
                else p2);
          new_seq_orders = merge_unique SeqOrderLess_ws SeqOrderLess_sw SeqOrderMerger
                 (modify_inserter back_inserter (emit_case id SeqOrderAdapter id)) (seq_orders p3) sos [];
          p4 = update_campaign_freq campaign_ids p3;
          p5 = fst (clean_up_campaign_freqs p4 (config_campaign_ids config))
      in p5\<lparr>seq_orders := new_seq_orders\<rparr>)"

definition profile_consider ::
  "'t::{zero,plus,minus,ord} time_api \<Rightarrow> request_ref \<Rightarrow> 't \<Rightarrow> u64 list \<Rightarrow> u64 list \<Rightarrow> u64 list \<Rightarrow> u64 seq_order list \<Rightarrow>
   u64 list \<Rightarrow> u64 list \<Rightarrow> 't freq_cap_config \<Rightarrow> profile option \<Rightarrow> profile option" where
  "profile_consider T rid now c_fcs uc_fcs virtual_fcs sos campaign_ids uc_campaign_ids config st =
     Some (clean_up_expired T now config
       (consider_update T rid now c_fcs uc_fcs virtual_fcs sos campaign_ids uc_campaign_ids config st))"

section \<open>confirm_request\<close>

definition confirm_imp :: "u32 \<Rightarrow> u32 list \<Rightarrow> u32 list" where
  "confirm_imp time imps =
     (let t = to_uc_timestamp time;
          i = lower_bound (\<lambda>e. LastImpLess e t) imps
      in if i < length imps \<and> imps ! i = t
         then take i imps @ takeWhile (\<lambda>x. x = t) (drop (Suc i) imps) @ [time] @
              dropWhile (\<lambda>x. x = t) (drop (Suc i) imps)
         else imps)"

fun confirm_walk ::
  "'t::{zero,plus,minus,ord} time_api \<Rightarrow> 't \<Rightarrow> 't freq_cap_config \<Rightarrow> u32 \<Rightarrow> u32 list \<Rightarrow> freq_cap_cell list \<Rightarrow>
   freq_cap_cell list" where
  "confirm_walk T now config time (i # is) (cell # cells) =
     (if i = fc_id cell
      then FreqCapAdapter T now config (cell\<lparr>last_impressions := confirm_imp time (last_impressions cell)\<rparr>) #
           confirm_walk T now config time is cells
      else if i < fc_id cell then confirm_walk T now config time is (cell # cells)
      else cell # confirm_walk T now config time (i # is) cells)"
| "confirm_walk T now config time is cells = cells"

fun find_request :: "string \<Rightarrow> uc_freq_cap list \<Rightarrow> (uc_freq_cap list \<times> uc_freq_cap \<times> uc_freq_cap list) option" where
  "find_request rid [] = None"
| "find_request rid (u # us) =
     (if rid = request_id u then Some ([], u, us)
      else map_option (\<lambda>(pre, v, post). (u # pre, v, post)) (find_request rid us))"

definition confirm_request ::
  "'t::{zero,plus,minus,ord} time_api \<Rightarrow> request_ref \<Rightarrow> 't \<Rightarrow> 't freq_cap_config \<Rightarrow> profile option \<Rightarrow>
   profile option \<times> bool" where
  "confirm_request T rid now config st =
     (case st of
        None \<Rightarrow> (None, False)
      | Some p0 \<Rightarrow>
        let (p1, modified1) =
              (case find_request (rid_to_string rid) (uc_freq_caps p0) of
                 None \<Rightarrow> (p0, False)
               | Some (pre, u, post) \<Rightarrow>
                 let p = p0\<lparr>freq_caps := confirm_walk T now config (uc_time u) (freq_cap_ids u) (freq_caps p0)\<rparr>;
                     p' = update_campaign_freq (map ucast (uc_imps u)) p
                 in (p'\<lparr>uc_freq_caps := pre @ post\<rparr>, True));
            (p2, modified2) =
              (if front_expired T now config p1
               then (fst (clean_up p1 (tv_sec T (now - confirm_timeout config))), True)
               else (p1, modified1))
        in if modified2
           then (Some (fst (clean_up_campaign_freqs p2 (config_campaign_ids config))), True)
           else (Some p0, False))"

section \<open>merge\<close>

definition FreqCapFiller :: "freq_cap_cell \<Rightarrow> freq_cap_cell" where
  "FreqCapFiller val =
     \<lparr>fc_id = fc_id val, total_impressions = total_impressions val, last_impressions = last_impressions val\<rparr>"

definition UcFreqCapAdapter :: "uc_freq_cap \<Rightarrow> uc_freq_cap" where
  "UcFreqCapAdapter reader =
     \<lparr>request_id = request_id reader, uc_time = uc_time reader, freq_cap_ids = freq_cap_ids reader,
      uc_imps = uc_imps reader\<rparr>"

definition merge ::
  "'t::{zero,plus,minus,ord} time_api \<Rightarrow> (uc_freq_cap \<Rightarrow> uc_freq_cap \<Rightarrow> bool) \<Rightarrow> profile option \<Rightarrow> 't \<Rightarrow>
   't freq_cap_config \<Rightarrow> profile option \<Rightarrow> profile option" where
  "merge T addr_less merge_profile now config st =
     (case merge_profile of
        None \<Rightarrow> st
      | Some m \<Rightarrow> (case st of
          None \<Rightarrow> Some m
        | Some p \<Rightarrow>
          let adapt = FreqCapAdapter T now config;
              res = \<lparr>version = CURRENT_FREQ_CAP_PROFILE_VERSION,
                freq_caps = merge_unique FreqCapLess FreqCapLess FreqCapMerger_cells
                  (modify_inserter (modify_inserter back_inserter FreqCapFiller) (emit_case adapt adapt adapt))
                  (freq_caps p) (freq_caps m) [],
                uc_freq_caps = copy_to (modify_inserter back_inserter UcFreqCapAdapter)
                  (std_merge (UcFreqCapLess addr_less) (uc_freq_caps p) (uc_freq_caps m)) [],
                virtual_freq_caps = merge_unique FreqCapLess FreqCapLess FreqCapMerger_cells
                  (modify_inserter back_inserter (emit_case adapt adapt adapt))
                  (virtual_freq_caps p) (virtual_freq_caps m) [],
                seq_orders = merge_unique SeqOrderLess SeqOrderLess SeqOrderMerger_readers
                  (modify_inserter back_inserter (emit_case id id id)) (seq_orders p) (seq_orders m) [],
                publisher_accounts = merge_unique PublisherAccountLess PublisherAccountLess PublisherAccountMerger
                  (modify_inserter back_inserter (emit_case id id id))
                  (publisher_accounts p) (publisher_accounts m) [],
                campaign_freqs = merge_unique CampaignFreqLess_rr CampaignFreqLess_rr CampaignFreqMerger
                  (modify_inserter back_inserter (emit_case id id id)) (campaign_freqs p) (campaign_freqs m) []\<rparr>;
              res1 = fst (clean_up_campaign_freqs res (config_campaign_ids config))
          in Some (clean_up_expired T now config res1)))"

section \<open>Publisher opt-in\<close>

fun optin_walk :: "u32 \<Rightarrow> publisher_account list \<Rightarrow> u64 list \<Rightarrow> publisher_account list" where
  "optin_walk ts (p # ps) (i # is) =
     (if ucast (publisher_account_id p) = i
      then p\<lparr>timestamp := max (timestamp p) ts\<rparr> # optin_walk ts ps is
      else if ucast (publisher_account_id p) < i then p # optin_walk ts ps (i # is)
      else \<lparr>publisher_account_id = ucast i, timestamp = ts\<rparr> # optin_walk ts (p # ps) is)"
| "optin_walk ts ps is = ps @ map (\<lambda>i. \<lparr>publisher_account_id = ucast i, timestamp = ts\<rparr>) is"

definition consider_publishers_optin ::
  "'t time_api \<Rightarrow> u64 list \<Rightarrow> 't \<Rightarrow> profile option \<Rightarrow> profile option \<times> bool" where
  "consider_publishers_optin T ids t st =
     (if ids = [] then (st, False)
      else let p = (case st of Some p \<Rightarrow> p | None \<Rightarrow> empty_writer)
           in (Some (p\<lparr>publisher_accounts :=
                 (if publisher_accounts p \<noteq> [] then optin_walk (sec32 T t) (publisher_accounts p) ids
                  else map (\<lambda>i. \<lparr>publisher_account_id = ucast i, timestamp = sec32 T t\<rparr>) ids)\<rparr>), True))"

definition get_optin_publishers :: "'t time_api \<Rightarrow> u64 list \<Rightarrow> 't \<Rightarrow> profile option \<Rightarrow> u64 list" where
  "get_optin_publishers T acc t st =
     (case st of
        None \<Rightarrow> acc
      | Some p \<Rightarrow> acc @ map (\<lambda>a. ucast (publisher_account_id a))
                          (filter (\<lambda>a. tv_sec T t \<le> uint (timestamp a)) (publisher_accounts p)))"

end
