(* ===== verification/FreqCapInvariant.thy ===== *)
theory FreqCapInvariant
  imports FreqCapProfile
begin

text \<open>
  Well-formedness of the stored profile: every section is ordered by its unique key, the
  unconfirmed requests by their time. Each operation keeps it; \<open>reachable\<close> gathers the
  operations into an inductive definition of the states a profile can be in.
\<close>

section \<open>The invariant\<close>

definition profile_ok :: "profile \<Rightarrow> bool" where
  "profile_ok p \<longleftrightarrow>
     key_sorted fc_id (freq_caps p) \<and> key_sorted fc_id (virtual_freq_caps p) \<and>
     key_sorted ccg_id (seq_orders p) \<and> key_sorted publisher_account_id (publisher_accounts p) \<and>
     key_sorted campaign_id (campaign_freqs p) \<and> sorted (map uc_time (uc_freq_caps p))"

definition state_ok :: "profile option \<Rightarrow> bool" where
  "state_ok st = (case st of None \<Rightarrow> True | Some p \<Rightarrow> profile_ok p)"

lemma profile_okI:
  assumes "key_sorted fc_id (freq_caps p)" "key_sorted fc_id (virtual_freq_caps p)"
    "key_sorted ccg_id (seq_orders p)" "key_sorted publisher_account_id (publisher_accounts p)"
    "key_sorted campaign_id (campaign_freqs p)" "sorted (map uc_time (uc_freq_caps p))"
  shows "profile_ok p"
  using assms by (simp add: profile_ok_def)

lemma profile_okD:
  assumes "profile_ok p"
  shows "key_sorted fc_id (freq_caps p)" "key_sorted fc_id (virtual_freq_caps p)"
    "key_sorted ccg_id (seq_orders p)" "key_sorted publisher_account_id (publisher_accounts p)"
    "key_sorted campaign_id (campaign_freqs p)" "sorted (map uc_time (uc_freq_caps p))"
  using assms by (simp_all add: profile_ok_def)

lemma empty_writer_ok [simp]: "profile_ok empty_writer"
  by (simp add: profile_ok_def empty_writer_def)

lemma key_sorted_u64: "key_sorted (\<lambda>w. ucast (f w :: u32) :: u64) xs = key_sorted f xs"
  by (induction xs) auto

lemma key_find_u64: "key_find (\<lambda>w. ucast (f w :: u32) :: u64) (ucast k) xs = key_find f k xs"
  by (induction xs) auto

section \<open>Freq cap cells\<close>

text \<open>A cell that comes out of the merge with the counters of a request.\<close>

abbreviation emit_cell ::
  "'t::{zero,plus,minus,ord} time_api \<Rightarrow> 't \<Rightarrow> 't freq_cap_config \<Rightarrow>
   (freq_cap_cell, freq_cap_counter, freq_cap_cell) emitted \<Rightarrow> freq_cap_cell" where
  "emit_cell T now config \<equiv>
     emit_case (FreqCapAdapter T now config) (FreqCapAdapter_counter T now config) (FreqCapAdapter T now config)"

lemma merge_counters_eq:
  "merge_counters T now config cells counters =
     filter FreqCapFilter (map (emit_cell T now config)
       (merge_trace FreqCapLess_cc FreqCapLess_ccr (FreqCapMerger T now) cells counters))"
  by (simp add: merge_counters_def merge_unique_trace)

lemma emit_cell_key:
  assumes "e \<in> set (merge_trace FreqCapLess_cc FreqCapLess_ccr (FreqCapMerger T now) cells counters)"
    "\<forall>c\<in>set counters. fits32 (cnt_fc_id c)"
  shows "ucast (fc_id (emit_cell T now config e)) = cells.ekey e"
proof -
  have "cells.ekey e \<in> (\<lambda>w. ucast (fc_id w)) ` set cells \<union> cnt_fc_id ` set counters"
    using assms(1) cells.trace_keys [of T now cells counters] by blast
  then have "fits32 (cells.ekey e)" using assms(2) by auto
  then show ?thesis by (cases e) auto
qed

lemma merge_counters_sorted:
  assumes "key_sorted fc_id cells" "key_sorted cnt_fc_id counters"
    "\<forall>c\<in>set counters. fits32 (cnt_fc_id c)"
  shows "key_sorted fc_id (merge_counters T now config cells counters)"
proof -
  let ?tr = "merge_trace FreqCapLess_cc FreqCapLess_ccr (FreqCapMerger T now) cells counters"
  have "key_sorted cells.ekey ?tr"
    using assms(1,2) by (intro cells.trace_sorted) (simp_all add: key_sorted_u64)
  then have "key_sorted (\<lambda>w. ucast (fc_id w) :: u64) (map (emit_cell T now config) ?tr)"
    using emit_cell_key [OF _ assms(3)] by (subst key_sorted_map [where key = cells.ekey]) auto
  then show ?thesis
    unfolding merge_counters_eq key_sorted_u64 by (rule key_sorted_filter)
qed

text \<open>The cell stored under an id after the merge.\<close>

lemma merge_counters_find:
  assumes "key_sorted fc_id cells" "key_sorted cnt_fc_id counters"
    "\<forall>c\<in>set counters. fits32 (cnt_fc_id c)" "k \<noteq> 0"
  shows "key_find fc_id k (merge_counters T now config cells counters) =
    (case key_find fc_id k cells of
       None \<Rightarrow> map_option (FreqCapAdapter_counter T now config) (key_find cnt_fc_id (ucast k) counters)
     | Some w \<Rightarrow> Some (FreqCapAdapter T now config
         (case key_find cnt_fc_id (ucast k) counters of None \<Rightarrow> w | Some c \<Rightarrow> FreqCapMerger T now w c)))"
proof -
  let ?tr = "merge_trace FreqCapLess_cc FreqCapLess_ccr (FreqCapMerger T now) cells counters"
  let ?out = "map (emit_cell T now config) ?tr"
  have s: "key_sorted cells.ekey ?tr"
    using assms(1,2) by (intro cells.trace_sorted) (simp_all add: key_sorted_u64)
  have "key_find fc_id k ?out = key_find (\<lambda>w. ucast (fc_id w) :: u64) (ucast k) ?out"
    by (simp only: key_find_u64)
  also have "\<dots> = map_option (emit_cell T now config) (key_find cells.ekey (ucast k) ?tr)"
    by (intro key_find_map emit_cell_key [OF _ assms(3)])
  finally have out: "key_find fc_id k ?out = \<dots>" .
  have "key_sorted fc_id ?out"
    using s emit_cell_key [OF _ assms(3)]
    by (subst key_sorted_u64 [symmetric], subst key_sorted_map [where key = cells.ekey]) auto
  then have "key_find fc_id k (filter FreqCapFilter ?out) = key_find fc_id k ?out"
    using assms(4) by (auto simp: key_find_filter FreqCapFilter_def split: option.split dest: key_find_SomeD)
  with out cells.trace_find [where xs = cells and ys = counters and T = T and now = now and k = "ucast k"]
    assms(1,2) show ?thesis
    by (simp add: merge_counters_eq key_sorted_u64 key_find_u64 option.map_comp o_def split: option.split)
qed

section \<open>Counters of a request\<close>

lemma pack_freq_caps_keys:
  assumes "sorted fcs"
  shows "cnt_fc_id ` set (pack_freq_caps [] fcs unconf) = set fcs"
proof -
  have "k \<in> cnt_fc_id ` set (pack_freq_caps [] fcs unconf) \<longleftrightarrow> k \<in> set fcs" for k
    using pack_freq_caps_sorted [OF assms, of unconf k]
    by (metis key_find_None_iff option.distinct(1))
  then show ?thesis by blast
qed

lemma packed_request_fcs_eq:
  "packed_request_fcs c_fcs uc_fcs =
     map (emit_case id id id) (merge_trace FreqCapCounterLess FreqCapCounterLess FreqCapCounterMerger
       (pack_freq_caps [] c_fcs False) (pack_freq_caps [] uc_fcs True))"
  by (simp add: packed_request_fcs_def merge_unique_trace)

lemma emit_id_key: "key (emit_case id id id e) = emit_case key key key e"
  by (cases e) auto

lemma packed_request_fcs_sorted:
  assumes "sorted c_fcs" "sorted uc_fcs"
  shows "key_sorted cnt_fc_id (packed_request_fcs c_fcs uc_fcs)"
  unfolding packed_request_fcs_eq
  using counters.trace_sorted pack_freq_caps_sorted assms
  by (subst key_sorted_map [where key = counters.ekey]) (auto simp: emit_id_key)

lemma packed_request_fcs_keys:
  assumes "sorted c_fcs" "sorted uc_fcs"
  shows "cnt_fc_id ` set (packed_request_fcs c_fcs uc_fcs) = set c_fcs \<union> set uc_fcs"
proof -
  have "cnt_fc_id ` set (packed_request_fcs c_fcs uc_fcs) =
      counters.ekey ` set (merge_trace FreqCapCounterLess FreqCapCounterLess FreqCapCounterMerger
        (pack_freq_caps [] c_fcs False) (pack_freq_caps [] uc_fcs True))"
    by (simp add: packed_request_fcs_eq image_image emit_id_key)
  then show ?thesis
    using assms by (simp add: counters.trace_keys pack_freq_caps_keys)
qed

text \<open>What a request adds to a cap: confirmed and unconfirmed impressions.\<close>

lemma packed_request_fcs_find:
  assumes "sorted c_fcs" "sorted uc_fcs"
  shows "key_find cnt_fc_id k (packed_request_fcs c_fcs uc_fcs) =
    (if k \<in> set c_fcs \<or> k \<in> set uc_fcs then
       Some \<lparr>cnt_fc_id = k,
             cnt_count = count_list c_fcs k + (count_list uc_fcs k - 1),
             cnt_uc_count = (if k \<in> set uc_fcs then 1 else 0)\<rparr>
     else None)"
proof -
  have "key_find cnt_fc_id k (packed_request_fcs c_fcs uc_fcs) =
      map_option (emit_case id id id)
        (key_find counters.ekey k (merge_trace FreqCapCounterLess FreqCapCounterLess FreqCapCounterMerger
          (pack_freq_caps [] c_fcs False) (pack_freq_caps [] uc_fcs True)))"
    unfolding packed_request_fcs_eq by (intro key_find_map) (simp add: emit_id_key)
  then show ?thesis
    using assms pack_freq_caps_sorted [of c_fcs False k] pack_freq_caps_sorted [of uc_fcs True k]
    by (simp add: counters.trace_find packed_counter_def FreqCapCounterMerger_def count_list_0_iff)
qed

section \<open>Campaign frequencies\<close>

lemma lower_bound_key:
  assumes "key_sorted key xs"
  shows "lower_bound (\<lambda>e. key e < k) xs = length (takeWhile (\<lambda>e. key e < k) xs)"
  using lower_bound_partitioned [OF key_sorted_partitioned [OF assms]] .

text \<open>The position that \<open>lower_bound\<close> finds splits the container at the key.\<close>

lemma lower_bound_split:
  assumes "key_sorted key xs" "i = lower_bound (\<lambda>e. key e < k) xs"
  shows "\<forall>e\<in>set (take i xs). key e < k" "\<forall>e\<in>set (drop i xs). k \<le> key e"
    "i < length xs \<Longrightarrow> key (xs ! i) = k \<Longrightarrow> \<forall>e\<in>set (drop (Suc i) xs). k < key e"
    "i < length xs \<Longrightarrow> key (xs ! i) \<noteq> k \<Longrightarrow> \<forall>e\<in>set (drop i xs). k < key e"
proof -
  have i: "take i xs = takeWhile (\<lambda>e. key e < k) xs" "drop i xs = dropWhile (\<lambda>e. key e < k) xs"
    using assms by (simp_all add: lower_bound_key takeWhile_eq_take [symmetric] dropWhile_eq_drop [symmetric])
  show "\<forall>e\<in>set (take i xs). key e < k"
    unfolding i by (auto dest: set_takeWhileD)
  have ds: "key_sorted key (drop i xs)"
    using assms(1) append_take_drop_id [of i xs] by (metis key_sorted_append)
  have hd: "k \<le> key (hd (drop i xs))" if "drop i xs \<noteq> []"
    using that hd_dropWhile [of "\<lambda>e. key e < k" xs] unfolding i by simp
  show ge: "\<forall>e\<in>set (drop i xs). k \<le> key e"
    using ds hd by (cases "drop i xs") auto
  assume len: "i < length xs"
  then have cons: "drop i xs = xs ! i # drop (Suc i) xs"
    by (simp add: Cons_nth_drop_Suc)
  show "\<forall>e\<in>set (drop (Suc i) xs). k < key e" if "key (xs ! i) = k"
    using ds that unfolding cons by auto
  show "\<forall>e\<in>set (drop i xs). k < key e" if "key (xs ! i) \<noteq> k"
    using ds ge that unfolding cons by fastforce
qed

text \<open>One impression of a campaign whose id fits the stored field.\<close>

lemma update_campaign_freq1_sorted:
  assumes "key_sorted campaign_id freqs" "fits32 cid"
  shows "key_sorted campaign_id (update_campaign_freq1 cid freqs)"
proof -
  define i where "i = lower_bound (\<lambda>f. campaign_id f < ucast cid) freqs"
  note split = lower_bound_split [OF assms(1) i_def]
  have eq: "ucast (campaign_id f) = cid \<longleftrightarrow> campaign_id f = ucast cid" for f :: "u32 campaign_freq"
    using assms(2) by (metis fits32_ucast u32_of_u64_of_u32)
  show ?thesis
  proof (cases "i < length freqs \<and> campaign_id (freqs ! i) = ucast cid")
    case True
    then have "map campaign_id (freqs[i := (freqs ! i)\<lparr>freq_imps := freq_imps (freqs ! i) + 1\<rparr>]) = map campaign_id freqs"
      by (intro nth_equalityI) (auto simp: nth_list_update)
    then show ?thesis
      using True assms(1) by (simp add: update_campaign_freq1_def CampaignFreqLess_def i_def [symmetric] eq key_sorted_def)
  next
    case False
    have "\<forall>e\<in>set (drop i freqs). ucast cid < campaign_id e"
      using False split(4) by (cases "i < length freqs") auto
    moreover have "key_sorted campaign_id (take i freqs @ drop i freqs)"
      using assms(1) by simp
    moreover have "update_campaign_freq1 cid freqs =
        take i freqs @ [\<lparr>campaign_id = ucast cid, freq_imps = 1\<rparr>] @ drop i freqs"
      using False by (auto simp: update_campaign_freq1_def CampaignFreqLess_def i_def [symmetric] eq Let_def)
    ultimately show ?thesis using split(1) by (simp del: append_take_drop_id)
  qed
qed

lemma update_campaign_freq_sorted:
  assumes "key_sorted campaign_id freqs" "\<forall>c\<in>set ids. fits32 c"
  shows "key_sorted campaign_id (fold update_campaign_freq1 ids freqs)"
  using assms by (induction ids arbitrary: freqs) (auto intro: update_campaign_freq1_sorted)

lemma clean_up_campaign_freqs_fields [simp]:
  "freq_caps (fst (clean_up_campaign_freqs p ids)) = freq_caps p"
  "virtual_freq_caps (fst (clean_up_campaign_freqs p ids)) = virtual_freq_caps p"
  "uc_freq_caps (fst (clean_up_campaign_freqs p ids)) = uc_freq_caps p"
  "seq_orders (fst (clean_up_campaign_freqs p ids)) = seq_orders p"
  "publisher_accounts (fst (clean_up_campaign_freqs p ids)) = publisher_accounts p"
  "campaign_freqs (fst (clean_up_campaign_freqs p ids)) =
     filter (\<lambda>f. ucast (campaign_id f) \<in> ids) (campaign_freqs p)"
  by (simp_all add: clean_up_campaign_freqs_def Let_def)

lemma clean_up_campaign_freqs_ok [simp, intro]:
  "profile_ok p \<Longrightarrow> profile_ok (fst (clean_up_campaign_freqs p ids))"
  by (simp add: profile_ok_def key_sorted_filter)

section \<open>Expired requests\<close>

lemma collect_expired_rest: "fst (collect_expired low us decs) = dropWhile (\<lambda>u. low > uint (uc_time u)) us"
  by (induction low us decs rule: collect_expired.induct) auto

lemma decrease_cell_fc_id [simp]: "fc_id (decrease_cell t n cell) = fc_id cell"
  by (simp add: decrease_cell_def Let_def)

lemma clean_walk_keys:
  "x \<in> set (fst (clean_walk cells decs changed)) \<Longrightarrow> fc_id x \<in> fc_id ` set cells"
proof (induction cells decs changed rule: clean_walk.induct)
  case (1 cell cells i t n decs changed)
  show ?case
  proof (cases "ucast (fc_id cell) < i")
    case True
    then show ?thesis using "1.IH"(1) "1.prems" by (auto simp: Let_def split: prod.splits)
  next
    case False
    then show ?thesis
      using "1.IH"(2,3,4) "1.prems" by (simp add: Let_def image_iff split: if_splits)
  qed
qed auto

lemma clean_walk_sorted:
  "key_sorted fc_id cells \<Longrightarrow> key_sorted fc_id (fst (clean_walk cells decs changed))"
proof (induction cells decs changed rule: clean_walk.induct)
  case (1 cell cells i t n decs changed)
  show ?case
  proof (cases "ucast (fc_id cell) < i")
    case True
    have "fc_id cell < fc_id x" if "x \<in> set (fst (clean_walk cells (((i, t), n) # decs) changed))" for x
      using clean_walk_keys [OF that] "1.prems" by auto
    then show ?thesis
      using True "1.IH"(1) "1.prems" by (simp add: Let_def case_prod_unfold)
  next
    case False
    then show ?thesis using "1.IH"(2,3,4) "1.prems" by (simp add: Let_def)
  qed
qed auto

lemma sorted_map_dropWhile: "sorted (map f xs) \<Longrightarrow> sorted (map f (dropWhile P xs))"
  by (induction xs) auto

lemma clean_up_fields:
  "uc_freq_caps (fst (clean_up p low)) = dropWhile (\<lambda>u. low > uint (uc_time u)) (uc_freq_caps p)"
  "freq_caps (fst (clean_up p low)) =
     fst (clean_walk (freq_caps p) (snd (collect_expired low (uc_freq_caps p) []))
       (length (uc_freq_caps (fst (clean_up p low))) \<noteq> length (uc_freq_caps p)))"
  "virtual_freq_caps (fst (clean_up p low)) = virtual_freq_caps p"
  "seq_orders (fst (clean_up p low)) = seq_orders p"
  "publisher_accounts (fst (clean_up p low)) = publisher_accounts p"
  "campaign_freqs (fst (clean_up p low)) = campaign_freqs p"
  by (simp_all add: clean_up_def Let_def case_prod_unfold collect_expired_rest)

lemma clean_up_ok [simp, intro]: "profile_ok p \<Longrightarrow> profile_ok (fst (clean_up p low))"
  by (simp add: profile_ok_def clean_up_fields clean_walk_sorted sorted_map_dropWhile)

lemma clean_up_expired_ok [simp, intro]: "profile_ok p \<Longrightarrow> profile_ok (clean_up_expired T now config p)"
  by (auto simp: clean_up_expired_def)

section \<open>Every operation keeps the invariant\<close>

text \<open>The inputs of \<open>consider\<close> that its callers promise (\<open>// sorted\<close> in the header), within 32 bits.\<close>

definition request_ok :: "u64 list \<Rightarrow> u64 list \<Rightarrow> u64 list \<Rightarrow> u64 seq_order list \<Rightarrow> u64 list \<Rightarrow> bool" where
  "request_ok c_fcs uc_fcs virtual_fcs sos campaign_ids \<longleftrightarrow>
     sorted c_fcs \<and> sorted uc_fcs \<and> sorted virtual_fcs \<and> key_sorted ccg_id sos \<and>
     (\<forall>i\<in>set c_fcs \<union> set uc_fcs \<union> set virtual_fcs \<union> set campaign_ids \<union> ccg_id ` set sos. fits32 i)"

lemma insert_uc_split:
  "\<exists>as bs. us = as @ bs \<and> insert_uc T now u us = as @ u # bs \<and>
    (\<forall>v\<in>set bs. tv_sec T now < uint (uc_time v)) \<and>
    (as \<noteq> [] \<longrightarrow> \<not> tv_sec T now < uint (uc_time (last as)))"
proof -
  let ?P = "\<lambda>v. tv_sec T now < uint (uc_time v)"
  define as where "as = rev (dropWhile ?P (rev us))"
  define bs where "bs = rev (takeWhile ?P (rev us))"
  have us: "us = as @ bs"
    unfolding as_def bs_def by (metis rev_append rev_rev_ident takeWhile_dropWhile_id)
  have "length us = length as + length bs" "length bs = length (takeWhile ?P (rev us))"
    by (subst us) (simp_all add: bs_def)
  then have "length us - length (takeWhile ?P (rev us)) = length as" by simp
  then have "insert_uc T now u us = take (length as) us @ [u] @ drop (length as) us"
    by (simp add: insert_uc_def Let_def)
  then have "insert_uc T now u us = as @ u # bs"
    using us by simp
  moreover have "\<not> ?P (last as)" if "as \<noteq> []"
    using that hd_dropWhile [of ?P "rev us"] by (simp add: as_def last_rev)
  moreover have "\<forall>v\<in>set bs. ?P v"
    unfolding bs_def by (auto dest: set_takeWhileD)
  ultimately show ?thesis using us by (intro exI [of _ as] exI [of _ bs]) simp
qed

lemma insert_uc_sorted:
  assumes "sorted (map uc_time us)" "uint (uc_time u) = tv_sec T now"
  shows "sorted (map uc_time (insert_uc T now u us))"
proof -
  obtain as bs where split: "us = as @ bs" "insert_uc T now u us = as @ u # bs"
    "\<forall>v\<in>set bs. tv_sec T now < uint (uc_time v)"
    "as \<noteq> [] \<longrightarrow> \<not> tv_sec T now < uint (uc_time (last as))"
    using insert_uc_split [where us = us and T = T and now = now and u = u] by (elim exE conjE)
  have "uc_time v \<le> uc_time u" if v: "v \<in> set as" for v
  proof -
    obtain cs w where w: "as = cs @ [w]" using v by (cases as rule: rev_cases) auto
    then have "uc_time v \<le> uc_time w"
      using v assms(1) split(1) by (auto simp: sorted_append)
    also have "uc_time w \<le> uc_time u"
      using split(4) w assms(2) by (simp add: word_le_def)
    finally show ?thesis .
  qed
  moreover have "uc_time u \<le> uc_time v" if "v \<in> set bs" for v
    using that split(3) assms(2) by (auto simp: word_le_def)
  ultimately show ?thesis
    unfolding split(2) using assms(1) split(1) by (auto simp: sorted_append)
qed

lemma consider_update_fields:
  fixes rid c_fcs uc_fcs virtual_fcs sos campaign_ids uc_campaign_ids
  defines "upd \<equiv> \<lambda>T now config st. consider_update T rid now c_fcs uc_fcs virtual_fcs sos campaign_ids uc_campaign_ids config st"
  defines "old \<equiv> \<lambda>st. case st of Some p \<Rightarrow> p | None \<Rightarrow> empty_writer"
  shows "freq_caps (upd T now config st) =
      merge_counters T now config (freq_caps (old st)) (packed_request_fcs c_fcs uc_fcs)"
    and "virtual_freq_caps (upd T now config st) =
      merge_counters T now config (virtual_freq_caps (old st)) (pack_freq_caps [] virtual_fcs False)"
    and "uc_freq_caps (upd T now config st) =
      (if \<not> rid_is_null rid \<and> (uc_fcs \<noteq> [] \<or> uc_campaign_ids \<noteq> [])
       then insert_uc T now
              \<lparr>request_id = rid_to_string rid, uc_time = sec32 T now,
               freq_cap_ids = map ucast uc_fcs, uc_imps = map ucast uc_campaign_ids\<rparr> (uc_freq_caps (old st))
       else uc_freq_caps (old st))"
    and "seq_orders (upd T now config st) =
      map (emit_case id SeqOrderAdapter id) (merge_trace SeqOrderLess_ws SeqOrderLess_sw SeqOrderMerger (seq_orders (old st)) sos)"
    and "publisher_accounts (upd T now config st) = publisher_accounts (old st)"
    and "campaign_freqs (upd T now config st) =
      filter (\<lambda>f. ucast (campaign_id f) \<in> config_campaign_ids config)
        (fold update_campaign_freq1 campaign_ids (campaign_freqs (old st)))"
  unfolding upd_def old_def consider_update_def
  by (simp_all add: Let_def update_campaign_freq_def merge_unique_trace)

lemma seq_orders_sorted:
  assumes "key_sorted ccg_id ws" "key_sorted ccg_id sos" "\<forall>s\<in>set sos. fits32 (ccg_id s)"
  shows "key_sorted ccg_id (map (emit_case id SeqOrderAdapter id)
    (merge_trace SeqOrderLess_ws SeqOrderLess_sw SeqOrderMerger ws sos))"
proof -
  let ?tr = "merge_trace SeqOrderLess_ws SeqOrderLess_sw SeqOrderMerger ws sos"
  have key: "ucast (ccg_id (emit_case id SeqOrderAdapter id e)) = seq.ekey e" if "e \<in> set ?tr" for e
  proof -
    have "seq.ekey e \<in> (\<lambda>w. ucast (ccg_id w)) ` set ws \<union> ccg_id ` set sos"
      using that seq.trace_keys [of ws sos] by blast
    then have "fits32 (seq.ekey e)" using assms(3) by auto
    then show ?thesis by (cases e) (auto simp: SeqOrderAdapter_def)
  qed
  have "key_sorted seq.ekey ?tr"
    using assms(1,2) by (intro seq.trace_sorted) (simp_all add: key_sorted_u64)
  then show ?thesis
    by (subst key_sorted_u64 [symmetric], subst key_sorted_map [where key = seq.ekey]) (use key in auto)
qed

lemma consider_update_ok:
  assumes "state_ok st" "request_ok c_fcs uc_fcs virtual_fcs sos campaign_ids"
    "0 \<le> tv_sec T now" "tv_sec T now < 2 ^ 32"
  shows "profile_ok (consider_update T rid now c_fcs uc_fcs virtual_fcs sos campaign_ids uc_campaign_ids config st)"
proof -
  let ?old = "case st of Some p \<Rightarrow> p | None \<Rightarrow> empty_writer"
  have old: "profile_ok ?old"
    using assms(1) by (cases st) (simp_all add: state_ok_def)
  note req = assms(2) [unfolded request_ok_def]
  have fits: "\<forall>c\<in>set (packed_request_fcs c_fcs uc_fcs). fits32 (cnt_fc_id c)"
    "\<forall>c\<in>set (pack_freq_caps [] virtual_fcs False). fits32 (cnt_fc_id c)"
    using packed_request_fcs_keys [of c_fcs uc_fcs] pack_freq_caps_keys [of virtual_fcs False] req by auto
  have "uint (sec32 T now) = tv_sec T now"
    using assms(3,4) by (simp add: sec32_def uint_word_of_int take_bit_int_eq_self)
  then show ?thesis
    using old req fits
    by (intro profile_okI)
       (auto simp: consider_update_fields profile_okD intro!: merge_counters_sorted packed_request_fcs_sorted
         pack_freq_caps_sorted [THEN conjunct1] seq_orders_sorted insert_uc_sorted key_sorted_filter
         update_campaign_freq_sorted)
qed

lemma confirm_walk_keys: "map fc_id (confirm_walk T now config t is cells) = map fc_id cells"
  by (induction T now config t "is" cells rule: confirm_walk.induct) auto

lemma find_request_Some:
  "find_request rid us = Some (pre, u, post) \<Longrightarrow> us = pre @ u # post \<and> request_id u = rid"
  by (induction us arbitrary: pre) (auto split: if_splits)

lemma confirm_request_ok:
  assumes "state_ok st"
  shows "state_ok (fst (confirm_request T rid now config st))"
proof (cases st)
  case (Some p0)
  have ok0: "profile_ok p0" using assms Some by (simp add: state_ok_def)
  have ok1: "profile_ok (update_campaign_freq (map ucast (uc_imps u))
      (p0\<lparr>freq_caps := confirm_walk T now config (uc_time u) (freq_cap_ids u) (freq_caps p0)\<rparr>)
      \<lparr>uc_freq_caps := pre @ post\<rparr>)"
    if "find_request (rid_to_string rid) (uc_freq_caps p0) = Some (pre, u, post)" for pre u post
  proof -
    have "sorted (map uc_time (pre @ post))"
      using find_request_Some [OF that] profile_okD(6) [OF ok0] by (auto simp: sorted_append)
    then show ?thesis
      using ok0 by (auto simp: profile_ok_def update_campaign_freq_def key_sorted_def confirm_walk_keys
          update_campaign_freq_sorted [unfolded key_sorted_def])
  qed
  show ?thesis
    using Some ok0 ok1
    by (auto simp: confirm_request_def state_ok_def Let_def case_prod_unfold split: option.split)
qed (simp add: confirm_request_def state_ok_def)

lemma key_sorted_emit_id:
  assumes "key_sorted (emit_case key key key) es"
    "\<And>e. key (emit_case f g h e) = emit_case key key key e"
  shows "key_sorted key (map (emit_case f g h) es)"
  using assms by (subst key_sorted_map [where key = "emit_case key key key"]) auto

lemma emit_adapter_key:
  "fc_id (emit_case (FreqCapAdapter T now config) (FreqCapAdapter T now config) (FreqCapAdapter T now config) e) =
     emit_case fc_id fc_id fc_id e"
  by (cases e) auto

lemma FreqCapFiller_id [simp]: "FreqCapFiller = id"
  by (simp add: fun_eq_iff FreqCapFiller_def)

lemma UcFreqCapAdapter_id [simp]: "UcFreqCapAdapter = id"
  by (simp add: fun_eq_iff UcFreqCapAdapter_def)

lemma uc_merge_sorted:
  assumes "sorted (map uc_time us)" "sorted (map uc_time vs)"
  shows "sorted (map uc_time (std_merge (UcFreqCapLess addr_less) us vs))"
  unfolding sorted_map
  by (rule sorted_wrt_std_merge) (use assms in \<open>auto simp: UcFreqCapLess_def sorted_map\<close>)

lemma merge_ok:
  assumes "state_ok st" "state_ok merge_profile"
  shows "state_ok (merge T addr_less merge_profile now config st)"
proof (cases "\<exists>p m. st = Some p \<and> merge_profile = Some m")
  case True
  then obtain p m where pm: "st = Some p" "merge_profile = Some m" by blast
  with assms have ok: "profile_ok p" "profile_ok m" by (simp_all add: state_ok_def)
  note s = profile_okD [OF ok(1)] profile_okD [OF ok(2)]
  show ?thesis
    unfolding merge_def pm state_ok_def option.case Let_def
    by (intro clean_up_expired_ok clean_up_campaign_freqs_ok profile_okI)
       (simp_all add: merge_unique_trace s cell_pairs.trace_sorted seq_pairs.trace_sorted
         pub_pairs.trace_sorted camp_pairs.trace_sorted key_sorted_emit_id emit_adapter_key emit_id_key uc_merge_sorted)
qed (use assms in \<open>auto simp: merge_def split: option.split\<close>)

lemma full_ok:
  assumes "state_ok st"
  shows "state_ok (fst (full T res now config st))"
  using assms by (cases st) (simp_all add: full_def state_ok_def Let_def case_prod_unfold)

section \<open>Publisher opt-in\<close>

definition optin_account :: "u32 \<Rightarrow> u64 \<Rightarrow> publisher_account" where
  "optin_account ts i = \<lparr>publisher_account_id = ucast i, timestamp = ts\<rparr>"

definition optin_refresh :: "u32 \<Rightarrow> publisher_account \<Rightarrow> u64 \<Rightarrow> publisher_account" where
  "optin_refresh ts p i = p\<lparr>timestamp := max (timestamp p) ts\<rparr>"

interpretation optin: keyed_merge "\<lambda>p. ucast (publisher_account_id p) :: u64" "\<lambda>i. i"
  "\<lambda>p i. ucast (publisher_account_id p) < i" "\<lambda>i p. i < ucast (publisher_account_id p)"
  "optin_refresh ts" "\<lambda>p. ucast (publisher_account_id p)" for ts
  by unfold_locales (auto simp: optin_refresh_def)

text \<open>The loop over the stored accounts and the new ids is a run of \<open>merge_unique\<close>.\<close>

lemma optin_walk_trace: "optin_walk ts ps is = map (emit_case id (optin_account ts) id) (optin.trace ts ps is)"
proof (induction ps "is" rule: two_list_walk_induct)
  case (Step p ps i "is")
  show ?case
    using Step
    by (cases p i rule: optin.trace_front_cases) (auto simp: optin_account_def optin_refresh_def)
qed (simp_all add: optin_account_def comp_def)

lemma optin_walk_sorted_find:
  assumes "key_sorted publisher_account_id ps" "key_sorted (\<lambda>i. i) is" "\<forall>i\<in>set is. fits32 i"
  shows "key_sorted publisher_account_id (optin_walk ts ps is)"
    and "key_find publisher_account_id k (optin_walk ts ps is) =
      (case key_find publisher_account_id k ps of
         None \<Rightarrow> if ucast k \<in> set is then Some (optin_account ts (ucast k)) else None
       | Some a \<Rightarrow> if ucast k \<in> set is then Some (optin_refresh ts a (ucast k)) else Some a)"
proof -
  let ?f = "emit_case id (optin_account ts) id"
  have key: "ucast (publisher_account_id (?f e)) = optin.ekey e" if "e \<in> set (optin.trace ts ps is)" for e
  proof -
    have "optin.ekey e \<in> (\<lambda>p. ucast (publisher_account_id p)) ` set ps \<union> set is"
      using that optin.trace_keys [of ts ps "is"] by auto
    then have "fits32 (optin.ekey e)" using assms(3) by auto
    then show ?thesis by (cases e) (auto simp: optin_account_def)
  qed
  have s: "key_sorted optin.ekey (optin.trace ts ps is)"
    using assms(1,2) by (intro optin.trace_sorted) (simp_all add: key_sorted_u64)
  then show "key_sorted publisher_account_id (optin_walk ts ps is)"
    unfolding optin_walk_trace
    by (subst key_sorted_u64 [symmetric], subst key_sorted_map [where key = optin.ekey]) (use key in auto)
  have ids: "key_find (\<lambda>i. i) j is = (if j \<in> set is then Some j else None)" for j
    by (induction "is") auto
  have "key_find publisher_account_id k (optin_walk ts ps is) =
      map_option ?f (key_find optin.ekey (ucast k) (optin.trace ts ps is))"
    unfolding optin_walk_trace key_find_u64 [of publisher_account_id k, symmetric]
    by (intro key_find_map key)
  then show "key_find publisher_account_id k (optin_walk ts ps is) =
      (case key_find publisher_account_id k ps of
         None \<Rightarrow> if ucast k \<in> set is then Some (optin_account ts (ucast k)) else None
       | Some a \<Rightarrow> if ucast k \<in> set is then Some (optin_refresh ts a (ucast k)) else Some a)"
    using optin.trace_find [where xs = ps and ys = "is" and k = "ucast k" and ts = ts] assms(1,2)
    by (simp add: key_sorted_u64 key_find_u64 ids split: option.split)
qed

lemma consider_publishers_optin_ok:
  assumes "state_ok st" "key_sorted (\<lambda>i. i) ids" "\<forall>i\<in>set ids. fits32 i"
  shows "state_ok (fst (consider_publishers_optin T ids t st))"
proof -
  let ?old = "case st of Some p \<Rightarrow> p | None \<Rightarrow> empty_writer"
  have old: "profile_ok ?old"
    using assms(1) by (cases st) (simp_all add: state_ok_def)
  have "key_sorted publisher_account_id (optin_walk (sec32 T t) ps ids)"
    if "key_sorted publisher_account_id ps" for ps
    using that assms(2,3) by (rule optin_walk_sorted_find(1))
  from this [of "[]"] this [OF profile_okD(4) [OF old]]
  have "key_sorted publisher_account_id (if publisher_accounts ?old \<noteq> []
      then optin_walk (sec32 T t) (publisher_accounts ?old) ids
      else map (\<lambda>i. \<lparr>publisher_account_id = ucast i, timestamp = sec32 T t\<rparr>) ids)"
    by simp
  with old assms(1) show ?thesis
    by (simp add: consider_publishers_optin_def Let_def state_ok_def profile_ok_def)
qed

section \<open>Reachable profiles\<close>

text \<open>
  One rule per public operation; the premises are what the callers guarantee of the inputs.
  A merged profile is itself the state of another object of the class.
\<close>

inductive reachable :: "'t::{zero,plus,minus,ord} time_api \<Rightarrow> profile option \<Rightarrow> bool" for T where
  created: "reachable T None"
| full: "reachable T st \<Longrightarrow> reachable T (fst (full T res now config st))"
| considered: "reachable T st \<Longrightarrow> request_ok c_fcs uc_fcs virtual_fcs sos campaign_ids \<Longrightarrow>
    0 \<le> tv_sec T now \<Longrightarrow> tv_sec T now < 2 ^ 32 \<Longrightarrow>
    reachable T (profile_consider T rid now c_fcs uc_fcs virtual_fcs sos campaign_ids uc_campaign_ids config st)"
| confirmed: "reachable T st \<Longrightarrow> reachable T (fst (confirm_request T rid now config st))"
| merged: "reachable T st \<Longrightarrow> reachable T m \<Longrightarrow> reachable T (merge T addr_less m now config st)"
| opted_in: "reachable T st \<Longrightarrow> key_sorted (\<lambda>i. i) ids \<Longrightarrow> \<forall>i\<in>set ids. fits32 i \<Longrightarrow>
    reachable T (fst (consider_publishers_optin T ids t st))"

lemma reachable_state_ok: "reachable T st \<Longrightarrow> state_ok st"
proof (induction rule: reachable.induct)
  case (considered st c_fcs uc_fcs virtual_fcs sos campaign_ids now rid uc_campaign_ids config)
  then show ?case by (simp add: profile_consider_def state_ok_def consider_update_ok)
qed (auto intro: full_ok confirm_request_ok merge_ok consider_publishers_optin_ok simp: state_ok_def [of None])

end
