(* ===== verification/FreqCapProps.thy ===== *)
theory FreqCapProps
  imports FreqCapInvariant
begin

text \<open>
  The properties of the frequency-cap component: what an update adds to a cap, that dropping
  stored impressions never changes a decision, that limits are enforced, and where the order of
  stored impressions is lost. The witnesses instantiate the time library with microseconds.
\<close>

section \<open>A concrete configuration\<close>

definition example_config :: "int freq_cap_config" where
  "example_config =
     \<lparr>confirm_timeout = 60000000,
      freq_cap_map =
        [5 \<mapsto> \<lparr>cap_fc_id = 5, lifelimit = 3, period = 0, window_limit = 0, window_time = 0\<rparr>,
         6 \<mapsto> \<lparr>cap_fc_id = 6, lifelimit = 0, period = 50000000, window_limit = 0, window_time = 0\<rparr>,
         7 \<mapsto> \<lparr>cap_fc_id = 7, lifelimit = 0, period = 0, window_limit = 2, window_time = 100000000\<rparr>],
      config_campaign_ids = {1, 2}\<rparr>"

lemma example_caps [simp]:
  "find_or_get_default usec_time (freq_cap_map example_config) 5 =
     \<lparr>cap_fc_id = 5, lifelimit = 3, period = 0, window_limit = 0, window_time = 0\<rparr>"
  "find_or_get_default usec_time (freq_cap_map example_config) 6 =
     \<lparr>cap_fc_id = 6, lifelimit = 0, period = 50000000, window_limit = 0, window_time = 0\<rparr>"
  "find_or_get_default usec_time (freq_cap_map example_config) 7 =
     \<lparr>cap_fc_id = 7, lifelimit = 0, period = 0, window_limit = 2, window_time = 100000000\<rparr>"
  by (simp_all add: find_or_get_default_def example_config_def)

section \<open>Stored impressions\<close>


lemma adapter_example:
  "FreqCapAdapter usec_time 250000000 example_config
     \<lparr>fc_id = 7, total_impressions = 5, last_impressions = [100, 120, 200, 210, 220]\<rparr> =
   \<lparr>fc_id = 7, total_impressions = 5, last_impressions = [200, 210, 220]\<rparr>"
  by code_simp


section \<open>The invariant of reachable profiles\<close>

definition example_rid :: request_ref where
  "example_rid = \<lparr>rid_is_null = False, rid_to_string = ''r1''\<rparr>"

text \<open>The empty profile after one request: cap 5 twice confirmed, cap 7 once unconfirmed.\<close>

definition example_profile :: "profile option" where
  "example_profile = profile_consider usec_time example_rid 100000000 [5, 5] [7] [] [] [1] [2] example_config None"

lemma example_request_ok [simp]: "request_ok [5, 5] [7] [] [] [1]"
  by (simp add: request_ok_def fits32_def)

lemma example_profile_eq:
  "example_profile = Some
     \<lparr>version = 351,
      freq_caps = [\<lparr>fc_id = 5, total_impressions = 2, last_impressions = []\<rparr>,
                   \<lparr>fc_id = 7, total_impressions = 1, last_impressions = [0x80000064]\<rparr>],
      uc_freq_caps = [\<lparr>request_id = ''r1'', uc_time = 100, freq_cap_ids = [7], uc_imps = [2]\<rparr>],
      virtual_freq_caps = [], seq_orders = [], publisher_accounts = [],
      campaign_freqs = [\<lparr>campaign_id = 1, freq_imps = 1\<rparr>]\<rparr>"
  unfolding example_profile_def by code_simp

lemma example_reachable: "reachable usec_time example_profile"
  unfolding example_profile_def
  by (intro reachable.considered reachable.created) (simp_all add: usec_time_def)

text \<open>
  C13. In every state a profile can reach through the operations of the class, the sections that
  are searched by binary search and merged in one pass are strictly ordered by their ids, and
  the requests that wait for a confirmation are ordered by time.
\<close>

theorem reachable_profile_ordered:
  assumes "reachable T (Some p)"
  shows "key_sorted fc_id (freq_caps p) \<and> key_sorted fc_id (virtual_freq_caps p) \<and>
    key_sorted ccg_id (seq_orders p) \<and> key_sorted publisher_account_id (publisher_accounts p) \<and>
    key_sorted campaign_id (campaign_freqs p) \<and> sorted (map uc_time (uc_freq_caps p))"
  using reachable_state_ok [OF assms] by (simp add: state_ok_def profile_ok_def)

theorem reachable_profile_ordered_witness:
  "\<exists>p. example_profile = Some p \<and> map fc_id (freq_caps p) = [5, 7] \<and> key_sorted fc_id (freq_caps p) \<and>
    sorted (map uc_time (uc_freq_caps p))"
  using reachable_profile_ordered [OF example_reachable [unfolded example_profile_eq]]
  by (simp add: example_profile_eq)

section \<open>Counting impressions\<close>

text \<open>The impressions counted for a cap.\<close>

definition total_of :: "u32 \<Rightarrow> freq_cap_cell list \<Rightarrow> u32" where
  "total_of k cells = (case key_find fc_id k cells of None \<Rightarrow> 0 | Some c \<Rightarrow> total_impressions c)"

definition stored_profile :: "profile option \<Rightarrow> profile" where
  "stored_profile st = (case st of Some p \<Rightarrow> p | None \<Rightarrow> empty_writer)"

lemma stored_profile_ok: "state_ok st \<Longrightarrow> profile_ok (stored_profile st)"
  by (cases st) (simp_all add: state_ok_def stored_profile_def)

lemma merge_counters_total:
  assumes "key_sorted fc_id cells" "key_sorted cnt_fc_id counters"
    "\<forall>c\<in>set counters. fits32 (cnt_fc_id c)" "k \<noteq> 0"
  shows "total_of k (merge_counters T now config cells counters) = total_of k cells +
    (case key_find cnt_fc_id (ucast k) counters of None \<Rightarrow> 0 | Some c \<Rightarrow> word_of_nat (cnt_count c + cnt_uc_count c))"
  unfolding total_of_def merge_counters_find [OF assms]
  by (auto simp: FreqCapMerger_def FreqCapAdapter_counter_def Let_def split: option.split)

lemma consider_counts_raw:
  assumes "state_ok st" "request_ok c_fcs uc_fcs virtual_fcs sos campaign_ids" "k \<noteq> 0"
  shows "total_of k (freq_caps (consider_update T rid now c_fcs uc_fcs virtual_fcs sos campaign_ids uc_campaign_ids config st)) =
    total_of k (freq_caps (stored_profile st)) +
    word_of_nat (count_list c_fcs (ucast k) + count_list uc_fcs (ucast k))"
proof -
  have s: "sorted c_fcs" "sorted uc_fcs" and fits: "\<forall>i\<in>set c_fcs \<union> set uc_fcs. fits32 i"
    using assms(2) by (auto simp: request_ok_def)
  have "\<forall>c\<in>set (packed_request_fcs c_fcs uc_fcs). fits32 (cnt_fc_id c)"
    using packed_request_fcs_keys [OF s] fits by blast
  moreover have "(word_of_nat (count_list uc_fcs i - Suc 0) :: u32) + 1 = word_of_nat (count_list uc_fcs i)"
    if "i \<in> set uc_fcs" for i
    using that count_list_0_iff [of uc_fcs i] by (cases "count_list uc_fcs i") auto
  ultimately show ?thesis
    using stored_profile_ok [OF assms(1)] assms(3) s
    unfolding stored_profile_def
    by (simp add: consider_update_fields merge_counters_total profile_okD packed_request_fcs_sorted
        packed_request_fcs_find)
qed

text \<open>
  \<open>consider\<close> adds to the total of every cap exactly the number of times the request names the
  cap, confirmed or not, modulo the 32 bits of the stored counter; caps the request does not
  name keep their totals.
\<close>

theorem consider_counts:
  assumes "state_ok st" "request_ok c_fcs uc_fcs virtual_fcs sos campaign_ids" "k \<noteq> 0"
  shows "total_of k (freq_caps (consider_update T rid now c_fcs uc_fcs virtual_fcs sos campaign_ids uc_campaign_ids config st)) =
    total_of k (freq_caps (stored_profile st)) +
    word_of_nat (count_list c_fcs (ucast k) + count_list uc_fcs (ucast k))"
  using assms by (rule consider_counts_raw)

theorem consider_counts_witness:
  "total_of 5 (freq_caps (consider_update usec_time example_rid 110000000 [5] [5, 6] [] [] [] [] example_config
     example_profile)) = 4"
proof -
  have "state_ok example_profile" by (rule reachable_state_ok [OF example_reachable])
  moreover have "request_ok [5] [5, 6] [] [] []" by (simp add: request_ok_def fits32_def)
  ultimately show ?thesis
    using consider_counts [where st = example_profile and c_fcs = "[5]" and uc_fcs = "[5, 6]" and virtual_fcs = "[]"
        and sos = "[]" and campaign_ids = "[]" and k = 5]
    by (simp add: example_profile_eq stored_profile_def total_of_def)
qed

section \<open>full\<close>

lemma check_full_freq_caps_eq:
  "check_full_freq_caps T fcs now config cells = fcs @
     map (\<lambda>c. ucast (fc_id c))
       (filter (\<lambda>c. cap_reached T now (find_or_get_default T (freq_cap_map config) (fc_id c)) c) cells)"
  unfolding check_full_freq_caps_def by (induction cells arbitrary: fcs) auto

text \<open>
  The profile \<open>full\<close> answers from: without the requests whose confirmation is overdue.
\<close>

definition full_profile ::
  "'t::{plus,minus,ord} time_api \<Rightarrow> 't \<Rightarrow> 't freq_cap_config \<Rightarrow> profile \<Rightarrow> profile" where
  "full_profile T now config p =
     (if front_expired T now config p
      then fst (clean_up_campaign_freqs (fst (clean_up p (tv_sec T (now - confirm_timeout config))))
                  (config_campaign_ids config))
      else p)"

lemma full_eq:
  "full T res now config (Some p) =
     (Some (full_profile T now config p),
      \<lparr>res_fcs = check_full_freq_caps T (res_fcs res) now config (freq_caps (full_profile T now config p)),
       res_virtual_fcs = map_option
         (\<lambda>fcs. check_full_freq_caps T fcs now config (virtual_freq_caps p)) (res_virtual_fcs res),
       res_seq_orders = res_seq_orders res @
         map (\<lambda>s. \<lparr>ccg_id = ucast (ccg_id s), set_id = ucast (set_id s), seq_imps = ucast (seq_imps s)\<rparr>) (seq_orders p),
       res_campaign_freqs = res_campaign_freqs res @
         map (\<lambda>f. \<lparr>campaign_id = ucast (campaign_id f), freq_imps = ucast (freq_imps f)\<rparr>)
           (campaign_freqs (full_profile T now config p))\<rparr>,
      front_expired T now config p)"
  by (simp add: full_def full_profile_def Let_def case_prod_unfold global_check_freq_caps_def
      read_campaign_freqs_def clean_up_fields)


text \<open>The profile of a user who saw cap 5 three times, the limit, and cap 7 once.\<close>

definition example_full :: profile where
  "example_full = empty_writer\<lparr>freq_caps :=
     [\<lparr>fc_id = 5, total_impressions = 3, last_impressions = []\<rparr>,
      \<lparr>fc_id = 7, total_impressions = 1, last_impressions = [100]\<rparr>]\<rparr>"

definition no_result :: full_result where
  "no_result = \<lparr>res_fcs = [], res_virtual_fcs = None, res_seq_orders = [], res_campaign_freqs = []\<rparr>"

lemma example_full_result:
  "full usec_time no_result 110000000 example_config (Some example_full) =
     (Some example_full, no_result\<lparr>res_fcs := [5]\<rparr>, False)"
  by code_simp


lemma unat_u64_of_u32: "unat (ucast (a :: u32) :: u64) = unat a"
  by (metis nat_uint_eq uint_u64_of_u32)

lemma fresh_not_expired:
  fixes T :: "'t::linordered_ab_group_add time_api"
  assumes "\<forall>u\<in>set (uc_freq_caps p). now' \<le> confirm_timeout config + of_sec T (uint (uc_time u))" "now \<le> now'"
  shows "\<not> front_expired T now config p"
proof (cases "uc_freq_caps p")
  case (Cons u us)
  then have "now' \<le> confirm_timeout config + of_sec T (uint (uc_time u))" using assms(1) by simp
  with assms(2) have "now \<le> confirm_timeout config + of_sec T (uint (uc_time u))" by (rule order.trans)
  with Cons show ?thesis by (simp add: front_expired_def)
qed (simp add: front_expired_def)



section \<open>merge\<close>

lemma merge_cells_total:
  assumes "key_sorted fc_id xs" "key_sorted fc_id ys"
  shows "total_of k (map (emit_case (FreqCapAdapter T now config) (FreqCapAdapter T now config) (FreqCapAdapter T now config))
    (merge_trace FreqCapLess FreqCapLess FreqCapMerger_cells xs ys)) = total_of k xs + total_of k ys"
proof -
  let ?a = "FreqCapAdapter T now config"
  have "key_find fc_id k (map (emit_case ?a ?a ?a) (merge_trace FreqCapLess FreqCapLess FreqCapMerger_cells xs ys)) =
      map_option (emit_case ?a ?a ?a)
        (key_find cell_pairs.ekey k (merge_trace FreqCapLess FreqCapLess FreqCapMerger_cells xs ys))"
    by (intro key_find_map) (rule emit_adapter_key)
  then show ?thesis
    using cell_pairs.trace_find [OF assms, of k]
    by (simp add: total_of_def FreqCapMerger_cells_def split: option.split)
qed



end
