(* ===== verification/FreqCapRequests.thy ===== *)
theory FreqCapRequests
  imports FreqCapProps
begin

text \<open>
  Life of a request in a frequency-cap profile: how its impressions enter a cell, how they are
  confirmed or removed when the confirmation does not come, and the campaign and publisher
  sections of the profile.
\<close>

section \<open>The order of impressions as a key\<close>

definition imp_key :: "u32 \<Rightarrow> nat" where
  "imp_key ts = 2 * unat (norm_ts ts) + (if unconfirmed ts then 0 else 1)"

lemma LastImpLess_key: "LastImpLess l r \<longleftrightarrow> imp_key l < imp_key r"
proof -
  have "norm_ts l < norm_ts r \<longleftrightarrow> unat (norm_ts l) < unat (norm_ts r)" by (rule word_less_nat_alt)
  moreover have "norm_ts l = norm_ts r \<longleftrightarrow> unat (norm_ts l) = unat (norm_ts r)" by (metis unsigned_word_eqI)
  ultimately show ?thesis by (auto simp: LastImpLess_iff imp_key_def)
qed

lemma imp_key_inj [simp]: "imp_key l = imp_key r \<longleftrightarrow> l = r"
proof
  assume "imp_key l = imp_key r"
  then have "unat (norm_ts l) = unat (norm_ts r) \<and> unconfirmed l = unconfirmed r"
    unfolding imp_key_def by (auto split: if_splits) presburger+
  then have "norm_ts l = norm_ts r" "unconfirmed l = unconfirmed r" by (metis unsigned_word_eqI)+
  then show "l = r" by (rule timestamp_eqI)
qed simp

lemma imps_sorted_key: "imps_sorted xs \<longleftrightarrow> sorted (map imp_key xs)"
  by (simp add: imps_sorted_def LastImpLess_key not_less sorted_map)

lemma imp_key_confirm: "\<not> unconfirmed t \<Longrightarrow> imp_key t = Suc (imp_key (to_uc_timestamp t))"
  by (simp add: imp_key_def)

lemma lower_bound_imps:
  assumes "imps_sorted imps"
  shows "lower_bound (\<lambda>e. LastImpLess e t) imps = length (takeWhile (\<lambda>e. imp_key e < imp_key t) imps)"
proof -
  have "partitioned (\<lambda>e. imp_key e < imp_key t) imps"
    using assms unfolding imps_sorted_key
    by (induction imps) (auto simp: partitioned_Cons)
  then show ?thesis by (simp add: LastImpLess_key lower_bound_partitioned)
qed

text \<open>The cell as the search for an unconfirmed impression sees it: earlier entries, the run of equal ones, later entries.\<close>

lemma imps_split:
  assumes "imps_sorted imps" "n = length (filter (\<lambda>e. e = t) imps)"
  shows "\<exists>as bs. imps = as @ replicate n t @ bs \<and> (\<forall>a\<in>set as. imp_key a < imp_key t) \<and>
    (\<forall>b\<in>set bs. imp_key t < imp_key b) \<and> lower_bound (\<lambda>e. LastImpLess e t) imps = length as"
proof -
  let ?as = "takeWhile (\<lambda>e. imp_key e < imp_key t) imps"
  let ?ds = "dropWhile (\<lambda>e. imp_key e < imp_key t) imps"
  have s: "sorted (map imp_key ?ds)"
    using assms(1) unfolding imps_sorted_key by (metis dropWhile_eq_drop drop_map sorted_wrt_drop)
  have ge: "\<forall>d\<in>set ?ds. imp_key t \<le> imp_key d"
  proof (cases ?ds)
    case (Cons d ds)
    then have "\<not> imp_key d < imp_key t" using hd_dropWhile [of "\<lambda>e. imp_key e < imp_key t" imps] by simp
    with s Cons show ?thesis by auto
  next
    case Nil
    show ?thesis unfolding Nil by simp
  qed
  have run: "\<exists>bs. ds = replicate (length (filter (\<lambda>e. e = t) ds)) t @ bs \<and> (\<forall>b\<in>set bs. imp_key t < imp_key b)"
    if "sorted (map imp_key ds)" "\<forall>d\<in>set ds. imp_key t \<le> imp_key d" for ds
    using that
  proof (induction ds)
    case (Cons d ds)
    show ?case
    proof (cases "d = t")
      case True
      then show ?thesis using Cons by auto
    next
      case False
      then have "imp_key t < imp_key d" using Cons.prems(2) by (simp add: order_less_le)
      then have later: "\<forall>b\<in>set (d # ds). imp_key t < imp_key b" using Cons.prems(1) by auto
      then have "filter (\<lambda>e. e = t) (d # ds) = []" by (auto simp: filter_empty_conv)
      with later show ?thesis by (metis append_Nil list.size(3) replicate_0)
    qed
  qed simp
  obtain bs where bs: "?ds = replicate (length (filter (\<lambda>e. e = t) ?ds)) t @ bs" "\<forall>b\<in>set bs. imp_key t < imp_key b"
    using run [OF s ge] by blast
  have "filter (\<lambda>e. e = t) ?as = []"
    by (auto simp: filter_empty_conv dest: set_takeWhileD)
  then have n: "n = length (filter (\<lambda>e. e = t) ?ds)"
    unfolding assms(2) by (metis filter_append append_Nil takeWhile_dropWhile_id)
  have "imps = ?as @ replicate n t @ bs"
    using bs(1) unfolding n [symmetric] by (metis takeWhile_dropWhile_id)
  moreover have "\<forall>a\<in>set ?as. imp_key a < imp_key t" by (auto dest: set_takeWhileD)
  ultimately show ?thesis
    using bs(2) lower_bound_imps [OF assms(1), of t] by blast
qed

lemma confirm_imp_confirms:
  assumes "imps_sorted imps" "\<not> unconfirmed time" "to_uc_timestamp time \<in> set imps"
  shows "imps_sorted (confirm_imp time imps) \<and>
    mset (confirm_imp time imps) = mset imps - {#to_uc_timestamp time#} + {#time#}"
proof -
  let ?t = "to_uc_timestamp time"
  obtain as bs n where split: "imps = as @ replicate n ?t @ bs" "\<forall>a\<in>set as. imp_key a < imp_key ?t"
    "\<forall>b\<in>set bs. imp_key ?t < imp_key b" "lower_bound (\<lambda>e. LastImpLess e ?t) imps = length as"
    using imps_split [OF assms(1) refl, of ?t] by blast
  obtain m where m: "n = Suc m"
    using assms(3) split(1-3) by (cases n) auto
  have bs: "takeWhile (\<lambda>x. x = ?t) (replicate m ?t @ bs) = replicate m ?t"
    "dropWhile (\<lambda>x. x = ?t) (replicate m ?t @ bs) = bs"
    using split(3) by (induction m) (cases bs; auto)+
  have eq: "confirm_imp time imps = as @ replicate m ?t @ [time] @ bs"
    unfolding confirm_imp_def Let_def split(4) by (simp add: split(1) m bs nth_append)
  have "sorted (map imp_key (as @ replicate m ?t @ [time] @ bs))"
    using assms(1) split(2,3) imp_key_confirm [OF assms(2)]
    unfolding imps_sorted_key by (auto simp: split(1) m sorted_append sorted_replicate)
  then show ?thesis
    unfolding eq imps_sorted_key by (simp add: split(1) m)
qed

lemma erase_run_replicate:
  assumes "\<forall>b\<in>set bs. imp_key t < imp_key b"
  shows "erase_run t i n (replicate m t @ bs) = replicate (m - (n - i)) t @ bs"
proof (induction m arbitrary: i)
  case 0
  show ?case using assms by (cases bs) auto
next
  case (Suc m)
  show ?case
  proof (cases "i < n")
    case True
    then have "Suc m - (n - i) = m - (n - Suc i)" by simp
    then show ?thesis using True Suc by simp
  qed simp
qed

lemma decrease_cell_removes:
  assumes "imps_sorted (last_impressions cell)" "0 < n"
  shows "imps_sorted (last_impressions (decrease_cell time n cell)) \<and>
    mset (last_impressions (decrease_cell time n cell)) =
      mset (last_impressions cell) - replicate_mset n (to_uc_timestamp time)"
proof -
  let ?t = "to_uc_timestamp time"
  obtain as bs m where split: "last_impressions cell = as @ replicate m ?t @ bs"
    "\<forall>a\<in>set as. imp_key a < imp_key ?t" "\<forall>b\<in>set bs. imp_key ?t < imp_key b"
    "lower_bound (\<lambda>e. LastImpLess e ?t) (last_impressions cell) = length as"
    using imps_split [OF assms(1) refl, of ?t] by blast
  have notin: "?t \<notin> set as" "?t \<notin> set bs" using split(2,3) by auto
  have eq: "last_impressions (decrease_cell time n cell) = as @ replicate (m - n) ?t @ bs"
  proof (cases m)
    case 0
    then show ?thesis
      unfolding decrease_cell_def Let_def split(4) using notin by (cases bs) (auto simp: split(1) nth_append)
  next
    case (Suc m')
    then have "m' - (n - 1) = m - n" using assms(2) by simp
    then show ?thesis
      unfolding decrease_cell_def Let_def split(4) using Suc erase_run_replicate [OF split(3), of 1 n m']
      by (simp add: split(1) nth_append)
  qed
  have "sorted (map imp_key (as @ replicate (m - n) ?t @ bs))"
    using assms(1) unfolding imps_sorted_key split(1) by (auto simp: sorted_append sorted_replicate)
  moreover have "mset (as @ replicate (m - n) ?t @ bs) = mset (as @ replicate m ?t @ bs) - replicate_mset n ?t"
    by (intro multiset_eqI) (simp add: notin [folded count_mset_0_iff])
  ultimately show ?thesis
    unfolding eq imps_sorted_key split(1) by blast
qed


section \<open>Removal of overdue requests, cell by cell\<close>

fun rollback :: "(u32 \<times> nat) list \<Rightarrow> freq_cap_cell \<Rightarrow> freq_cap_cell option" where
  "rollback [] cell = Some cell"
| "rollback ((t, n) # ds) cell =
     (let cell' = decrease_cell t n cell
      in if last_impressions cell' = [] \<and> total_impressions cell' = 0 then None else rollback ds cell')"

lemma rollback_Nil: "rollback [] = Some"
  by (simp add: fun_eq_iff)

abbreviation decs_of :: "u32 \<Rightarrow> ((u64 \<times> u32) \<times> nat) list \<Rightarrow> (u32 \<times> nat) list" where
  "decs_of k decs \<equiv> map (\<lambda>d. (snd (fst d), snd d)) (filter (\<lambda>d. fst (fst d) = ucast k) decs)"

lemma clean_walk_find:
  assumes "key_sorted fc_id cells" "sorted (map (\<lambda>d. fst (fst d)) decs)"
  shows "key_find fc_id k (fst (clean_walk cells decs changed)) =
    Option.bind (key_find fc_id k cells) (rollback (decs_of k decs))"
  using assms
proof (induction cells decs changed rule: clean_walk.induct)
  case (1 cell cells i t n decs changed)
  have below: "key_find fc_id k' cells = None" if "k' \<le> fc_id cell" for k'
    using that "1.prems"(1) by (intro key_find_below) (auto intro: le_less_trans)
  consider "ucast (fc_id cell) < i" | "ucast (fc_id cell) = i" | "i < ucast (fc_id cell)"
    by (metis linorder_less_linear)
  then show ?case
  proof cases
    case 1
    have "decs_of (fc_id cell) (((i, t), n) # decs) = []"
      using 1 "1.prems"(2) by (auto simp: filter_empty_conv)
    then show ?thesis
      using 1 "1.IH"(1) "1.prems" by (auto simp: Let_def case_prod_unfold)
  next
    case 2
    define cell' where "cell' = decrease_cell t n cell"
    have id': "fc_id cell' = fc_id cell" by (simp add: cell'_def)
    show ?thesis
    proof (cases "last_impressions cell' = [] \<and> total_impressions cell' = 0")
      case True
      then show ?thesis
        using 2 "1.IH"(2) "1.prems" below [of k]
        by (auto simp: Let_def cell'_def [symmetric])
    next
      case False
      have "key_find fc_id k (fst (clean_walk (cell' # cells) decs True)) =
          Option.bind (key_find fc_id k (cell' # cells)) (rollback (decs_of k decs))"
        using 2 False "1.IH"(3) "1.prems" by (simp add: cell'_def id')
      then show ?thesis
        using 2 False by (auto simp: Let_def cell'_def [symmetric] id')
    qed
  next
    case 3
    have "key_find fc_id k (cell # cells) = None" if "ucast k = i"
    proof -
      have "k < fc_id cell" using 3 that by (metis u64_of_u32_less)
      then show ?thesis using below [of k] by auto
    qed
    moreover have "key_find fc_id k (fst (clean_walk (cell # cells) decs changed)) =
        Option.bind (key_find fc_id k (cell # cells)) (rollback (decs_of k decs))"
      using 3 "1.IH"(4) "1.prems" by simp
    ultimately show ?thesis
      using 3 by (cases "ucast k = i") (auto simp del: key_find_Cons)
  qed
qed (simp_all add: rollback_Nil)

lemma decrease_cell_total: "unat (total_impressions (decrease_cell t n cell)) = unat (total_impressions cell) - n"
proof (cases "n \<le> unat (total_impressions cell)")
  case True
  then have "unat (word_of_nat n :: u32) = n"
    by (metis le_unat_uoi)
  with True show ?thesis
    by (simp add: decrease_cell_def Let_def unat_sub word_le_nat_alt)
qed (simp add: decrease_cell_def Let_def)

lemma rollback_total:
  "(case rollback ds cell of None \<Rightarrow> 0 | Some c \<Rightarrow> unat (total_impressions c)) =
     unat (total_impressions cell) - sum_list (map snd ds)"
proof (induction ds cell rule: rollback.induct)
  case (2 t n ds cell)
  have n: "unat (total_impressions (decrease_cell t n cell)) = unat (total_impressions cell) - n"
    by (rule decrease_cell_total)
  show ?case
  proof (cases "last_impressions (decrease_cell t n cell) = [] \<and> total_impressions (decrease_cell t n cell) = 0")
    case True
    then have "unat (total_impressions cell) - n = 0" using n by simp
    with True show ?thesis by (simp add: Let_def)
  next
    case False
    with 2 n show ?thesis by (auto simp: Let_def)
  qed
qed simp

abbreviation dec_sum :: "u32 \<Rightarrow> ((u64 \<times> u32) \<times> nat) list \<Rightarrow> nat" where
  "dec_sum k decs \<equiv> sum_list (map snd (filter (\<lambda>d. fst (fst d) = ucast k) decs))"

lemma dec_incr_sum: "dec_sum k (dec_incr (ucast i, t) decs) = dec_sum k decs + (if i = k then 1 else 0)"
  by (induction decs) (auto split: if_splits)

lemma dec_incr_keys: "y \<in> set (dec_incr x decs) \<Longrightarrow> fst y = x \<or> fst y \<in> fst ` set decs"
  by (induction x decs rule: dec_incr.induct) (auto split: if_splits)

lemma dec_incr_sorted:
  "sorted (map (\<lambda>d. fst (fst d)) decs) \<Longrightarrow> sorted (map (\<lambda>d. fst (fst d)) (dec_incr x decs))"
proof (induction decs)
  case (Cons d decs)
  obtain j n where d: "d = (j, n)" by (cases d)
  have "fst j \<le> fst (fst y)" if "y \<in> set (dec_incr x decs)" "\<not> FreqCapDecrease_less x j" for y
    using dec_incr_keys [OF that(1)] that(2) Cons.prems d by (auto simp: FreqCapDecrease_less_def)
  with Cons show ?case by (auto simp: d FreqCapDecrease_less_def)
qed simp

lemma fold_dec_incr:
  assumes "sorted (map (\<lambda>d. fst (fst d)) decs)"
  shows "sorted (map (\<lambda>d. fst (fst d)) (fold (\<lambda>i. dec_incr (ucast i, t)) ids decs)) \<and>
    dec_sum k (fold (\<lambda>i. dec_incr (ucast i, t)) ids decs) = dec_sum k decs + count_list ids k"
  using assms by (induction ids arbitrary: decs) (auto simp: dec_incr_sum dec_incr_sorted)

lemma collect_expired_decs:
  assumes "sorted (map (\<lambda>d. fst (fst d)) decs)"
  shows "sorted (map (\<lambda>d. fst (fst d)) (snd (collect_expired low us decs))) \<and>
    dec_sum k (snd (collect_expired low us decs)) = dec_sum k decs +
      (\<Sum>u\<leftarrow>takeWhile (\<lambda>u. low > uint (uc_time u)) us. count_list (freq_cap_ids u) k)"
  using assms
proof (induction us arbitrary: decs)
  case (Cons u us)
  then show ?case
    using fold_dec_incr [OF Cons.prems, of "uc_time u" "freq_cap_ids u" k] by auto
qed simp

lemma clean_up_total:
  assumes "profile_ok p"
  shows "unat (total_of k (freq_caps (fst (clean_up p low)))) = unat (total_of k (freq_caps p)) -
    (\<Sum>u\<leftarrow>takeWhile (\<lambda>u. low > uint (uc_time u)) (uc_freq_caps p). count_list (freq_cap_ids u) k)"
proof -
  let ?decs = "snd (collect_expired low (uc_freq_caps p) [])"
  note decs = collect_expired_decs [of "[]" low "uc_freq_caps p" k, simplified]
  have sum: "sum_list (map snd (decs_of k ?decs)) = dec_sum k ?decs"
    by (simp add: comp_def)
  show ?thesis
  proof (cases "key_find fc_id k (freq_caps p)")
    case None
    then show ?thesis
      using clean_walk_find [OF profile_okD(1) [OF assms] decs [THEN conjunct1], of k]
      by (simp add: total_of_def clean_up_fields)
  next
    case (Some cell)
    then show ?thesis
      using clean_walk_find [OF profile_okD(1) [OF assms] decs [THEN conjunct1], of k]
        rollback_total [of "decs_of k ?decs" cell] sum decs [THEN conjunct2]
      by (simp add: total_of_def clean_up_fields split: option.splits)
  qed
qed

section \<open>Impressions of a request\<close>

text \<open>
  C21. \<open>FreqCapMerger\<close> keeps every stored impression and adds one entry per impression of the
  request: confirmed ones with the current second, unconfirmed ones with the flag bit set; the
  lifetime counter grows by their number.
\<close>

theorem merger_adds_impressions:
  "mset (last_impressions (FreqCapMerger T now w c)) =
     mset (last_impressions w) + replicate_mset (cnt_count c) (sec32 T now) +
     replicate_mset (cnt_uc_count c) (to_uc_timestamp (sec32 T now)) \<and>
   total_impressions (FreqCapMerger T now w c) = total_impressions w + word_of_nat (cnt_count c + cnt_uc_count c)"
  by (simp add: FreqCapMerger_def mset_merger_loop)

text \<open>
  \<open>FreqCapMerger\<close> keeps the impressions of a cell in the order of their times, provided that the
  request has no confirmed impression or every unconfirmed impression of the cell is later than
  the current second.
\<close>

theorem merger_keeps_order:
  assumes "0 \<le> tv_sec T now" "tv_sec T now < 2 ^ 31" "times_sorted (last_impressions w)"
    and "cnt_count c = 0 \<or> (\<forall>ts\<in>set (last_impressions w). unconfirmed ts \<longrightarrow> sec32 T now < norm_ts ts)"
  shows "times_sorted (last_impressions (FreqCapMerger T now w c))"
  using merger_loop_sorted [OF assms(1,2), where res = "[]" and imps = "last_impressions w" and c = c] assms(3,4)
  by (simp add: FreqCapMerger_def)

theorem merger_keeps_order_witness:
  "times_sorted (last_impressions (FreqCapMerger usec_time 200000000
     \<lparr>fc_id = 6, total_impressions = 1, last_impressions = [100]\<rparr> \<lparr>cnt_fc_id = 6, cnt_count = 1, cnt_uc_count = 1\<rparr>))"
  using merger_keeps_order [of usec_time 200000000 "\<lparr>fc_id = 6, total_impressions = 1, last_impressions = [100]\<rparr>"
      "\<lparr>cnt_fc_id = 6, cnt_count = 1, cnt_uc_count = 1\<rparr>"]
  by (simp add: times_sorted_def is_uc_timestamp_def IMP_TIMESTAMP_MASK_def) (simp add: usec_time_def)


text \<open>
  Packing the sorted freq cap ids of a request loses no impression: each id of the array gets
  one counter, whose two fields together count its occurrences.
\<close>

theorem pack_counts_occurrences:
  assumes "sorted fcs"
  shows "key_sorted cnt_fc_id (pack_freq_caps [] fcs unconf) \<and>
    (case key_find cnt_fc_id k (pack_freq_caps [] fcs unconf) of
       None \<Rightarrow> k \<notin> set fcs
     | Some c \<Rightarrow> cnt_count c + cnt_uc_count c = count_list fcs k \<and> 0 < count_list fcs k)"
proof -
  have "0 < count_list fcs k" if "k \<in> set fcs"
    using that by (metis count_list_0_iff not_gr_zero)
  then show ?thesis
    using pack_freq_caps_sorted [OF assms, of unconf k] by (auto simp: packed_counter_def)
qed

theorem pack_counts_occurrences_witness:
  "key_sorted cnt_fc_id (pack_freq_caps [] [3, 3, 8] True) \<and>
   (case key_find cnt_fc_id 3 (pack_freq_caps [] [3, 3, 8] True) of None \<Rightarrow> False
    | Some c \<Rightarrow> cnt_count c + cnt_uc_count c = 2)"
  using pack_counts_occurrences [of "[3, 3, 8]" True 3] by (auto split: option.splits)

text \<open>
  But a repeated id of an unconfirmed array is counted as confirmed: only the first
  occurrence goes into \<open>uc_count\<close>.
\<close>

theorem pack_repeated_unconfirmed:
  "pack_freq_caps [] [5, 5, 5] True = [\<lparr>cnt_fc_id = 5, cnt_count = 2, cnt_uc_count = 1\<rparr>]"
  by simp

section \<open>Confirmation\<close>

text \<open>
  Confirming an unconfirmed impression replaces exactly one flagged entry by the plain
  timestamp, and the cell stays ordered by \<open>LastImpLess\<close>.
\<close>

theorem confirm_imp_confirms_one:
  assumes "imps_sorted imps" "\<not> unconfirmed time" "to_uc_timestamp time \<in> set imps"
  shows "imps_sorted (confirm_imp time imps) \<and>
    mset (confirm_imp time imps) = mset imps - {#to_uc_timestamp time#} + {#time#}"
  using assms by (rule confirm_imp_confirms)

theorem confirm_imp_confirms_one_witness:
  "imps_sorted (confirm_imp 100 [0x80000064, 0x80000064, 100, 120]) \<and>
   mset (confirm_imp 100 [0x80000064, 0x80000064, 100, 120]) = {#0x80000064, 100, 100, 120#}"
proof -
  have "imps_sorted [0x80000064, 0x80000064, 100, 120]" by code_simp
  moreover have "to_uc_timestamp 100 = 0x80000064" "is_uc_timestamp 100 = 0" by code_simp+
  ultimately show ?thesis
    using confirm_imp_confirms_one [of "[0x80000064, 0x80000064, 100, 120]" 100] by simp
qed

lemma confirm_walk_find:
  assumes "key_sorted fc_id cells" "sorted is"
  shows "key_find fc_id k (confirm_walk T now config time is cells) =
    map_option (\<lambda>cell. if k \<in> set is
        then FreqCapAdapter T now config (cell\<lparr>last_impressions := confirm_imp time (last_impressions cell)\<rparr>)
        else cell) (key_find fc_id k cells)"
  using assms
proof (induction T now config time "is" cells rule: confirm_walk.induct)
  case (1 T now config time i "is" cell cells)
  have later: "key_find fc_id k cells = None" if "k \<le> fc_id cell"
    using that "1.prems"(1) by (intro key_find_below) (auto intro: le_less_trans)
  show ?case
    using "1.IH" "1.prems" later by (auto simp: option.map_comp comp_def intro!: option.map_cong0)
qed (auto simp: option.map_ident)

text \<open>
  \<open>confirm_request\<close> on a known request, with no other request overdue: the request is no
  longer waiting, in each of its caps the unconfirmed impression of its second is confirmed and
  the cell reduced, other caps and all totals are unchanged, and the caller is told to save.
\<close>

theorem confirm_request_confirms:
  fixes T :: "'t::linordered_ab_group_add time_api"
  assumes "profile_ok p" "find_request (rid_to_string rid) (uc_freq_caps p) = Some (pre, u, post)"
    and "sorted (freq_cap_ids u)"
    and "\<forall>v\<in>set pre \<union> set post. now \<le> confirm_timeout config + of_sec T (uint (uc_time v))"
  shows "\<exists>p'. confirm_request T rid now config (Some p) = (Some p', True) \<and> uc_freq_caps p' = pre @ post \<and>
    (\<forall>k. total_of k (freq_caps p') = total_of k (freq_caps p) \<and>
      key_find fc_id k (freq_caps p') =
        map_option (\<lambda>cell. if k \<in> set (freq_cap_ids u)
            then FreqCapAdapter T now config (cell\<lparr>last_impressions := confirm_imp (uc_time u) (last_impressions cell)\<rparr>)
            else cell) (key_find fc_id k (freq_caps p)))"
proof -
  let ?cells = "confirm_walk T now config (uc_time u) (freq_cap_ids u) (freq_caps p)"
  have fresh: "\<not> front_expired T now config q" if "uc_freq_caps q = pre @ post" for q
    using fresh_not_expired [of q now config T now] assms(4) that by simp
  obtain p' where p': "confirm_request T rid now config (Some p) = (Some p', True)" "uc_freq_caps p' = pre @ post"
      "freq_caps p' = ?cells"
    using fresh by (simp add: confirm_request_def assms(2) Let_def update_campaign_freq_def)
  note found = confirm_walk_find [OF profile_okD(1) [OF assms(1)] assms(3), of _ T now config "uc_time u"]
  have "total_of k ?cells = total_of k (freq_caps p)" for k
    by (cases "key_find fc_id k (freq_caps p)") (simp_all add: total_of_def found)
  with p' found show ?thesis by (intro exI [of _ p']) simp
qed

theorem confirm_request_confirms_witness:
  "\<exists>p'. confirm_request usec_time example_rid 110000000 example_config example_profile = (Some p', True) \<and>
    uc_freq_caps p' = [] \<and>
    key_find fc_id 7 (freq_caps p') = Some \<lparr>fc_id = 7, total_impressions = 1, last_impressions = [100]\<rparr>"
proof -
  have "state_ok example_profile" by (rule reachable_state_ok [OF example_reachable])
  moreover have "find_request (rid_to_string example_rid) [\<lparr>request_id = ''r1'', uc_time = 100, freq_cap_ids = [7], uc_imps = [2]\<rparr>] =
      Some ([], \<lparr>request_id = ''r1'', uc_time = 100, freq_cap_ids = [7], uc_imps = [2]\<rparr>, [])"
    by (simp add: example_rid_def)
  moreover have "FreqCapAdapter usec_time 110000000 example_config
      \<lparr>fc_id = 7, total_impressions = 1, last_impressions = confirm_imp 100 [0x80000064]\<rparr> =
      \<lparr>fc_id = 7, total_impressions = 1, last_impressions = [100]\<rparr>" by code_simp
  ultimately show ?thesis
    using confirm_request_confirms [where T = usec_time and p = "the example_profile" and rid = example_rid and pre = "[]"
        and u = "\<lparr>request_id = ''r1'', uc_time = 100, freq_cap_ids = [7], uc_imps = [2]\<rparr>" and post = "[]"
        and now = 110000000 and config = example_config]
    by (force simp: example_profile_eq state_ok_def)
qed

text \<open>
  When the confirmations of some requests are overdue, \<open>clean_up\<close> forgets exactly these
  requests and takes their impressions out of the lifetime counters again, never below zero.
\<close>

theorem clean_up_takes_back:
  assumes "profile_ok p"
  shows "uc_freq_caps (fst (clean_up p low)) = filter (\<lambda>u. low \<le> uint (uc_time u)) (uc_freq_caps p) \<and>
    unat (total_of k (freq_caps (fst (clean_up p low)))) = unat (total_of k (freq_caps p)) -
      (\<Sum>u\<leftarrow>filter (\<lambda>u. uint (uc_time u) < low) (uc_freq_caps p). count_list (freq_cap_ids u) k)"
proof -
  have "sorted (map uc_time us) \<Longrightarrow>
      dropWhile (\<lambda>u. uint (uc_time u) < low) us = filter (\<lambda>u. low \<le> uint (uc_time u)) us \<and>
      takeWhile (\<lambda>u. uint (uc_time u) < low) us = filter (\<lambda>u. uint (uc_time u) < low) us"
    for us :: "uc_freq_cap list"
  proof (induction us)
    case (Cons u us)
    have "\<forall>v\<in>set us. low \<le> uint (uc_time v)" if "\<not> uint (uc_time u) < low"
      using that Cons.prems by (fastforce simp: word_le_def)
    with Cons show ?case by (auto simp: filter_id_conv not_less)
  qed simp
  then show ?thesis
    using clean_up_total [OF assms, of k low] profile_okD(6) [OF assms] by (simp add: clean_up_fields)
qed

theorem clean_up_takes_back_witness:
  "unat (total_of 7 (freq_caps (fst (clean_up (the example_profile) 150)))) = 0"
proof -
  have "profile_ok (the example_profile)"
    using reachable_state_ok [OF example_reachable] by (simp add: state_ok_def example_profile_eq)
  from clean_up_takes_back [OF this, of 150 7] show ?thesis
    by (simp add: example_profile_eq total_of_def)
qed

section \<open>Campaigns and publishers\<close>

text \<open>The impressions counted for a campaign.\<close>

definition freq_of :: "u32 \<Rightarrow> u32 campaign_freq list \<Rightarrow> u32" where
  "freq_of k freqs = (case key_find campaign_id k freqs of None \<Rightarrow> 0 | Some f \<Rightarrow> freq_imps f)"

lemma update_campaign_freq1_find:
  assumes "key_sorted campaign_id freqs" "fits32 cid"
  shows "freq_of k (update_campaign_freq1 cid freqs) = freq_of k freqs + (if ucast k = cid then 1 else 0)"
proof -
  define i where "i = lower_bound (\<lambda>f. campaign_id f < ucast cid) freqs"
  note split = lower_bound_split [OF assms(1) i_def]
  have eq: "ucast x = cid \<longleftrightarrow> x = ucast cid" for x :: u32
    using assms(2) by (metis fits32_ucast u32_of_u64_of_u32)
  have pre: "key_find campaign_id (ucast cid) (take i freqs) = None"
    using split(1) by (auto simp: key_find_None_iff)
  have freqs: "key_find campaign_id k freqs = key_find campaign_id k (take i freqs @ drop i freqs)" for k
    by simp
  show ?thesis
  proof (cases "i < length freqs \<and> campaign_id (freqs ! i) = ucast cid")
    case True
    have "update_campaign_freq1 cid freqs =
        take i freqs @ (freqs ! i)\<lparr>freq_imps := freq_imps (freqs ! i) + 1\<rparr> # drop (Suc i) freqs"
      using True by (simp add: update_campaign_freq1_def CampaignFreqLess_def i_def [symmetric] eq upd_conv_take_nth_drop)
    moreover have "drop i freqs = freqs ! i # drop (Suc i) freqs"
      using True by (simp add: Cons_nth_drop_Suc)
    ultimately show ?thesis
      using True pre by (auto simp: freq_of_def freqs eq split: option.split simp del: append_take_drop_id)
  next
    case False
    have "key_find campaign_id (ucast cid) (drop i freqs) = None"
      using False split(4) by (cases "i < length freqs") auto
    moreover have "update_campaign_freq1 cid freqs =
        take i freqs @ [\<lparr>campaign_id = ucast cid, freq_imps = 1\<rparr>] @ drop i freqs"
      using False by (auto simp: update_campaign_freq1_def CampaignFreqLess_def i_def [symmetric] eq Let_def)
    ultimately show ?thesis
      using pre by (auto simp: freq_of_def freqs eq split: option.split simp del: append_take_drop_id)
  qed
qed

text \<open>
  \<open>update_campaign_freq\<close> adds to the counter of every campaign the number of times the
  request names it, found or inserted by binary search.
\<close>

theorem update_campaign_freq_counts:
  assumes "key_sorted campaign_id (campaign_freqs p)" "\<forall>c\<in>set ids. fits32 c"
  shows "freq_of k (campaign_freqs (update_campaign_freq ids p)) =
    freq_of k (campaign_freqs p) + word_of_nat (count_list ids (ucast k))"
proof -
  have "freq_of k (fold update_campaign_freq1 ids freqs) = freq_of k freqs + word_of_nat (count_list ids (ucast k))"
    if "key_sorted campaign_id freqs" for freqs
    using that assms(2)
  proof (induction ids arbitrary: freqs)
    case (Cons c ids)
    then show ?case
      by (auto simp: update_campaign_freq1_find update_campaign_freq1_sorted)
  qed simp
  then show ?thesis using assms(1) by (simp add: update_campaign_freq_def)
qed

theorem update_campaign_freq_counts_witness:
  "freq_of 2 (campaign_freqs (update_campaign_freq [2, 9, 2] (the example_profile))) = 2"
  using update_campaign_freq_counts [of "the example_profile" "[2, 9, 2]" 2]
  by (simp add: example_profile_eq fits32_def freq_of_def)

lemma optin_ids:
  assumes "key_sorted publisher_account_id ps"
  shows "j \<in> (\<lambda>a. ucast (publisher_account_id a) :: u64) ` {a \<in> set ps. P a} \<longleftrightarrow>
    (\<exists>k a. j = ucast k \<and> key_find publisher_account_id k ps = Some a \<and> P a)"
  using key_find_eq_Some_iff [OF assms] by auto

text \<open>
  Opt-in round trip: after \<open>consider_publishers_optin\<close> with the time \<open>t\<close>, the publishers that
  \<open>get_optin_publishers\<close> returns for any bound are the ones it returned before, and the new ones if
  the bound is not after \<open>t\<close>.
\<close>

theorem optin_roundtrip:
  assumes "state_ok st" "key_sorted (\<lambda>i. i) ids" "\<forall>i\<in>set ids. fits32 i"
    and "0 \<le> tv_sec T t" "tv_sec T t < 2 ^ 32"
  shows "set (get_optin_publishers T [] bound (fst (consider_publishers_optin T ids t st))) =
    set (get_optin_publishers T [] bound st) \<union> (if tv_sec T bound \<le> tv_sec T t then set ids else {})"
proof (cases "ids = []")
  case True
  then show ?thesis by (simp add: consider_publishers_optin_def)
next
  case ne: False
  let ?p = "stored_profile st" and ?ts = "sec32 T t"
  let ?ps = "publisher_accounts ?p"
  let ?P = "\<lambda>a. tv_sec T bound \<le> uint (timestamp a)"
  have s: "key_sorted publisher_account_id ?ps"
    using stored_profile_ok [OF assms(1)] by (rule profile_okD)
  note walk = optin_walk_sorted_find [OF s assms(2,3), where ts = ?ts]
  have ts: "uint ?ts = tv_sec T t"
    using assms(4,5) by (simp add: sec32_def uint_word_of_int take_bit_int_eq_self)
  have max: "uint (max a b) = max (uint a) (uint b)" for a b :: u32
    by (simp add: max_def word_le_def)
  have "publisher_accounts (the (fst (consider_publishers_optin T ids t st))) = optin_walk ?ts ?ps ids"
    using ne by (cases st) (simp_all add: consider_publishers_optin_def stored_profile_def Let_def empty_writer_def)
  moreover have "\<exists>q. fst (consider_publishers_optin T ids t st) = Some q"
    using ne by (simp add: consider_publishers_optin_def Let_def)
  ultimately have new: "set (get_optin_publishers T [] bound (fst (consider_publishers_optin T ids t st))) =
      (\<lambda>a. ucast (publisher_account_id a)) ` {a \<in> set (optin_walk ?ts ?ps ids). ?P a}"
    by (auto simp: get_optin_publishers_def)
  have old: "set (get_optin_publishers T [] bound st) =
      (\<lambda>a. ucast (publisher_account_id a)) ` {a \<in> set ?ps. ?P a}"
    by (cases st) (auto simp: get_optin_publishers_def stored_profile_def empty_writer_def)
  have ids: "j \<in> set ids \<longleftrightarrow> (\<exists>k :: u32. j = ucast k \<and> ucast k \<in> set ids)" for j
    using assms(3) by (metis fits32_ucast)
  have "(\<exists>k a. j = ucast k \<and> key_find publisher_account_id k (optin_walk ?ts ?ps ids) = Some a \<and> ?P a) \<longleftrightarrow>
      (\<exists>k a. j = ucast k \<and> key_find publisher_account_id k ?ps = Some a \<and> ?P a) \<or>
      tv_sec T bound \<le> tv_sec T t \<and> j \<in> set ids" for j
    unfolding walk(2) ids [of j]
    by (auto simp: optin_account_def optin_refresh_def ts max split: option.splits if_splits)
  then show ?thesis
    unfolding new old set_eq_iff Un_iff optin_ids [OF s] optin_ids [OF walk(1)] by auto
qed

theorem optin_roundtrip_witness:
  "set (get_optin_publishers usec_time [] 90000000 (fst (consider_publishers_optin usec_time [4, 8] 100000000 example_profile))) =
     {4, 8}"
  using optin_roundtrip [OF reachable_state_ok [OF example_reachable], of "[4, 8]" usec_time 100000000 90000000]
  by (simp add: fits32_def usec_time_def example_profile_eq get_optin_publishers_def)

text \<open>
  Merging two sequence-order entries of different creative sets keeps the set of the first
  profile with the impressions counted for the set of the second.
\<close>

theorem seq_order_merge_mixes_sets:
  "SeqOrderMerger_readers \<lparr>ccg_id = 1, set_id = 10, seq_imps = 3\<rparr> \<lparr>ccg_id = 1, set_id = 11, seq_imps = 7\<rparr> =
     \<lparr>ccg_id = 1, set_id = 10, seq_imps = 7\<rparr>"
  by (simp add: SeqOrderMerger_readers_def)

end
