(* ===== verification/ChannelDictionary.thy ===== *)
theory ChannelDictionary
  imports FreqCap
begin

text \<open>
  The channel dictionary of \<open>src/UserInfoSvcs/UserInfoCommons/ChannelDictionary.hpp\<close>: the visit
  intervals of a channel, the list that keeps them ordered together with three derived bounds,
  and the sorting of intervals into short, today and long ones when the configuration is read
  (\<open>UserInfoConfigCampaignServerSource.cpp\<close>). \<open>Generics::Time\<close> is the type \<open>'t\<close> of \<open>time_api\<close>;
  the hash tables from channel ids are partial functions.
\<close>

section \<open>Intervals\<close>

record 't channel_interval =
  time_from :: 't
  time_to :: 't
  min_visits :: u64
  ci_weight :: u64

record 't interval_list =
  intervals :: "'t channel_interval list"
  pref_max_time_to :: 't
  pref_max_visits :: u64
  pref_min_window_size :: u64

definition empty_interval_list :: "'t::zero interval_list" where
  "empty_interval_list =
     \<lparr>intervals = [], pref_max_time_to = 0, pref_max_visits = 0, pref_min_window_size = - 1\<rparr>"

text \<open>The difference of two \<open>time_t\<close> as \<open>unsigned long\<close>.\<close>

definition window_size :: "'t time_api \<Rightarrow> 't channel_interval \<Rightarrow> u64" where
  "window_size T ci = word_of_int (tv_sec T (time_to ci) - tv_sec T (time_from ci))"

definition interval_insert ::
  "'t::ord time_api \<Rightarrow> 't channel_interval \<Rightarrow> 't interval_list \<Rightarrow> 't interval_list" where
  "interval_insert T val l =
     \<lparr>intervals = takeWhile (\<lambda>it. time_from it < time_from val) (intervals l) @ val #
                  dropWhile (\<lambda>it. time_from it < time_from val) (intervals l),
      pref_max_time_to =
        (if time_to val > pref_max_time_to l then time_to val else pref_max_time_to l),
      pref_max_visits =
        (if min_visits val > pref_max_visits l then min_visits val else pref_max_visits l),
      pref_min_window_size =
        (if window_size T val < pref_min_window_size l then window_size T val
         else pref_min_window_size l)\<rparr>"

definition max_time_to :: "'t time_api \<Rightarrow> 't interval_list \<Rightarrow> u64" where
  "max_time_to T l = word_of_int (tv_sec T (pref_max_time_to l))"

section \<open>Channels\<close>

record ht_candidate_template =
  tpl_min_visits :: u64
  tpl_req_visits :: u64
  tpl_weight :: u64

record 't intervals_pack =
  contextual :: bool
  zero_channel :: bool
  pack_weight :: u64
  short_intervals :: "'t interval_list"
  today_long_intervals :: "'t interval_list"
  long_intervals :: "'t interval_list"
  ht_candidate_templates :: "ht_candidate_template list"

definition empty_pack :: "'t::zero intervals_pack" where
  "empty_pack =
     \<lparr>contextual = False, zero_channel = False, pack_weight = 0,
      short_intervals = empty_interval_list, today_long_intervals = empty_interval_list,
      long_intervals = empty_interval_list, ht_candidate_templates = []\<rparr>"

type_synonym 't channels_map = "u64 \<Rightarrow> 't intervals_pack option"

record channel_features =
  discover :: bool
  threshold :: u64

record 't channel_dictionary =
  audience_dict :: "'t channels_map"
  page_dict :: "'t channels_map"
  search_dict :: "'t channels_map"
  url_dict :: "'t channels_map"
  url_keyword_dict :: "'t channels_map"
  channel_features_map :: "u64 \<Rightarrow> channel_features option"

text \<open>\<open>Generics::Time::ONE_DAY\<close> is the parameter \<open>one_day\<close>.\<close>

definition push_channel_interval ::
  "'t::{zero,ord} time_api \<Rightarrow> 't \<Rightarrow> 't channel_interval \<Rightarrow> 't intervals_pack \<Rightarrow> 't intervals_pack" where
  "push_channel_interval T one_day ci cip =
     (if time_to ci < one_day then cip\<lparr>short_intervals := interval_insert T ci (short_intervals cip)\<rparr>
      else if time_to ci \<ge> one_day \<and> time_from ci = 0
      then cip\<lparr>today_long_intervals := interval_insert T ci (today_long_intervals cip)\<rparr>
      else if time_to ci > time_from ci \<and> time_from ci \<ge> one_day
      then cip\<lparr>long_intervals := interval_insert T ci (long_intervals cip)\<rparr>
      else cip)"

definition ht_template :: "'t channel_interval \<Rightarrow> ht_candidate_template" where
  "ht_template ci =
     (let req_visits = min_visits ci - 1
      in \<lparr>tpl_min_visits = min_visits ci, tpl_req_visits = req_visits,
          tpl_weight = (if req_visits = 0 then ci_weight ci else 0)\<rparr>)"

definition init_ht_candidate_templates :: "'t intervals_pack \<Rightarrow> 't intervals_pack" where
  "init_ht_candidate_templates cip =
     cip\<lparr>ht_candidate_templates := map ht_template (intervals (today_long_intervals cip))\<rparr>"

section \<open>The derived bounds are right\<close>

definition interval_list_ok :: "'t::{zero,linorder} time_api \<Rightarrow> 't interval_list \<Rightarrow> bool" where
  "interval_list_ok T l \<longleftrightarrow>
     sorted (map time_from (intervals l)) \<and>
     pref_max_time_to l = Max (insert 0 (time_to ` set (intervals l))) \<and>
     pref_max_visits l = Max (insert 0 (min_visits ` set (intervals l))) \<and>
     pref_min_window_size l = Min (insert (- 1) (window_size T ` set (intervals l)))"

lemma empty_interval_list_ok [simp]: "interval_list_ok T empty_interval_list"
  by (simp add: interval_list_ok_def empty_interval_list_def)

lemma set_interval_insert [simp]:
  "set (intervals (interval_insert T val l)) = insert val (set (intervals l))"
proof -
  have "set (intervals l) = set (takeWhile (\<lambda>it. time_from it < time_from val) (intervals l) @
      dropWhile (\<lambda>it. time_from it < time_from val) (intervals l))"
    by simp
  then show ?thesis unfolding set_append by (simp add: interval_insert_def)
qed

lemma interval_insert_sorted:
  fixes l :: "'t::linorder interval_list"
  assumes "sorted (map time_from (intervals l))"
  shows "sorted (map time_from (intervals (interval_insert T val l)))"
proof -
  have "sorted (map time_from (takeWhile (\<lambda>it. time_from it < time_from val) xs @ val #
      dropWhile (\<lambda>it. time_from it < time_from val) xs))"
    if "sorted (map time_from xs)" for xs :: "'t channel_interval list"
    using that
  proof (induction xs)
    case (Cons x xs)
    have "y \<in> set (takeWhile (\<lambda>it. time_from it < time_from val) xs) \<union>
        set (dropWhile (\<lambda>it. time_from it < time_from val) xs) \<Longrightarrow> y \<in> set xs" for y
      by (auto dest: set_takeWhileD set_dropWhileD)
    with Cons show ?case by (auto simp: not_less)
  qed simp
  then show ?thesis using assms by (simp add: interval_insert_def)
qed

text \<open>Adding a value to a running maximum or minimum.\<close>

lemma Max_insert_if:
  assumes "finite A"
  shows "Max (insert z (insert x A)) = (if x > Max (insert z A) then x else Max (insert (z::'a::linorder) A))"
proof -
  have "Max (insert x (insert z A)) = max x (Max (insert z A))"
    using assms by (intro Max_insert) auto
  then show ?thesis by (simp only: insert_commute [of z x] max_def split: if_split) auto
qed

lemma Min_insert_if:
  assumes "finite A"
  shows "Min (insert z (insert x A)) = (if x < Min (insert z A) then x else Min (insert (z::'a::linorder) A))"
proof -
  have "Min (insert x (insert z A)) = min x (Min (insert z A))"
    using assms by (intro Min_insert) auto
  then show ?thesis by (simp only: insert_commute [of z x] min_def split: if_split) auto
qed

lemma interval_insert_ok:
  assumes "interval_list_ok T l"
  shows "interval_list_ok T (interval_insert T val l)"
proof -
  note ok = assms [unfolded interval_list_ok_def]
  have fields: "pref_max_time_to (interval_insert T val l) =
      (if time_to val > pref_max_time_to l then time_to val else pref_max_time_to l)"
    "pref_max_visits (interval_insert T val l) =
      (if min_visits val > pref_max_visits l then min_visits val else pref_max_visits l)"
    "pref_min_window_size (interval_insert T val l) =
      (if window_size T val < pref_min_window_size l then window_size T val else pref_min_window_size l)"
    by (simp_all add: interval_insert_def)
  have "pref_max_time_to (interval_insert T val l) = Max (insert 0 (insert (time_to val) (time_to ` set (intervals l))))"
    "pref_max_visits (interval_insert T val l) = Max (insert 0 (insert (min_visits val) (min_visits ` set (intervals l))))"
    "pref_min_window_size (interval_insert T val l) =
       Min (insert (- 1) (insert (window_size T val) (window_size T ` set (intervals l))))"
    unfolding fields using ok by (simp_all only: Max_insert_if Min_insert_if finite_set finite_imageI)
  then show ?thesis
    unfolding interval_list_ok_def set_interval_insert image_insert
    using ok interval_insert_sorted [of l T val] by blast
qed

end
