(* ===== verification/ChannelMatcher.thy ===== *)
theory ChannelMatcher
  imports ChannelDictionary
begin

text \<open>
  Records of the user channel profiles (\<open>UserChannelBaseProfile.pst\<close>,
  \<open>UserChannelHistoryProfile.pst\<close>) and the functors of
  \<open>src/UserInfoSvcs/UserInfoCommons/ChannelMatcher.cpp\<close>: comparison, filtering, conversion and
  merging of the entries of one section. Readers and writers of a record are the record itself.
  The moments of time that a section uses are counts of seconds.
\<close>

section \<open>Profile records\<close>

record session_match =
  sm_channel_id :: u32
  timestamps :: "u32 list"

record history_visit =
  hv_channel_id :: u32
  hv_visits :: u32

record history_match =
  hm_channel_id :: u32
  hm_weight :: u32

record ht_candidate =
  htc_channel_id :: u32
  req_visits :: u32
  htc_visits :: u32
  htc_weight :: u32

record channels_info =
  ht_candidates :: "ht_candidate list"
  history_matches :: "history_match list"
  history_visits :: "history_visit list"
  session_matches :: "session_match list"

definition empty_channels_info :: channels_info where
  "empty_channels_info =
     \<lparr>ht_candidates = [], history_matches = [], history_visits = [], session_matches = []\<rparr>"

record days_visits =
  dv_days :: u32
  dv_visits :: u32

record history_channel_info =
  hci_channel_id :: u32
  hci_days_visits :: "days_visits list"

definition SEC_IN_DAY :: u64 where
  "SEC_IN_DAY = 86400"

section \<open>The impressions of a request\<close>

record request_ht_candidate =
  rhc_channel_id :: u32
  rhc_min_visits :: u32
  rhc_req_visits :: u32
  rhc_visits :: u32
  rhc_weight :: u32

record request_history_visit =
  rhv_channel_id :: u32
  rhv_visits :: u32

record request_session_match =
  rsm_channel_id :: u32
  rsm_timestamp :: u32

record request_channels_delta =
  delta_ht_candidates :: "request_ht_candidate list"
  delta_history_visits :: "request_history_visit list"
  delta_session_matches :: "request_session_match list"

definition make_ht_candidate_writer :: "request_ht_candidate \<Rightarrow> ht_candidate" where
  "make_ht_candidate_writer candidate =
     \<lparr>htc_channel_id = rhc_channel_id candidate, req_visits = rhc_req_visits candidate,
      htc_visits = rhc_visits candidate, htc_weight = rhc_weight candidate\<rparr>"

definition HTCandidateLess :: "ht_candidate \<Rightarrow> request_ht_candidate \<Rightarrow> bool" where
  "HTCandidateLess left right = (htc_channel_id left < rhc_channel_id right)"

definition HTCandidateLess_delta :: "request_ht_candidate \<Rightarrow> ht_candidate \<Rightarrow> bool" where
  "HTCandidateLess_delta left right = (rhc_channel_id left < htc_channel_id right)"

definition ExistingHTCandidate :: "'t channels_map \<Rightarrow> ht_candidate \<Rightarrow> bool" where
  "ExistingHTCandidate channels candidate = (channels (ucast (htc_channel_id candidate)) \<noteq> None)"

definition HTCandidateWriterAdapter :: "ht_candidate \<Rightarrow> ht_candidate" where
  "HTCandidateWriterAdapter reader =
     \<lparr>htc_channel_id = htc_channel_id reader, req_visits = req_visits reader,
      htc_visits = htc_visits reader, htc_weight = htc_weight reader\<rparr>"

text \<open>
  The sum of an \<open>int\<close> and two \<open>uint32_t\<close> is computed in \<open>uint32_t\<close> and stored in an \<open>int\<close>.
\<close>

definition HTCandidateMerge :: "ht_candidate \<Rightarrow> request_ht_candidate \<Rightarrow> ht_candidate" where
  "HTCandidateMerge base delta =
     (let visits = req_visits base + rhc_req_visits delta - rhc_min_visits delta;
          req = (if sint visits < 0 then 0 else visits)
      in \<lparr>htc_channel_id = rhc_channel_id delta, req_visits = req,
          htc_visits = htc_visits base + rhc_visits delta,
          htc_weight = (if req = 0 then rhc_weight delta else 0)\<rparr>)"

definition make_history_visit_writer :: "request_history_visit \<Rightarrow> history_visit" where
  "make_history_visit_writer visit =
     \<lparr>hv_channel_id = rhv_channel_id visit, hv_visits = rhv_visits visit\<rparr>"

definition HistoryVisitLess :: "history_visit \<Rightarrow> request_history_visit \<Rightarrow> bool" where
  "HistoryVisitLess left right = (hv_channel_id left < rhv_channel_id right)"

definition HistoryVisitLess_delta :: "request_history_visit \<Rightarrow> history_visit \<Rightarrow> bool" where
  "HistoryVisitLess_delta left right = (rhv_channel_id left < hv_channel_id right)"

definition ExistingHistoryVisit :: "'t channels_map \<Rightarrow> history_visit \<Rightarrow> bool" where
  "ExistingHistoryVisit channels visit = (channels (ucast (hv_channel_id visit)) \<noteq> None)"

definition HistoryVisitWriterAdapter :: "history_visit \<Rightarrow> history_visit" where
  "HistoryVisitWriterAdapter reader =
     \<lparr>hv_channel_id = hv_channel_id reader, hv_visits = hv_visits reader\<rparr>"

definition HistoryVisitMerge :: "history_visit \<Rightarrow> request_history_visit \<Rightarrow> history_visit" where
  "HistoryVisitMerge base delta =
     \<lparr>hv_channel_id = rhv_channel_id delta, hv_visits = hv_visits base + rhv_visits delta\<rparr>"

definition make_session_match_writer :: "request_session_match \<Rightarrow> session_match" where
  "make_session_match_writer match =
     \<lparr>sm_channel_id = rsm_channel_id match, timestamps = [rsm_timestamp match]\<rparr>"

definition SessionMatchLess :: "session_match \<Rightarrow> request_session_match \<Rightarrow> bool" where
  "SessionMatchLess left right = (sm_channel_id left < rsm_channel_id right)"

definition SessionMatchLess_delta :: "request_session_match \<Rightarrow> session_match \<Rightarrow> bool" where
  "SessionMatchLess_delta left right = (rsm_channel_id left < sm_channel_id right)"

definition RequestSessionMatchesMerge :: "session_match \<Rightarrow> request_session_match \<Rightarrow> session_match" where
  "RequestSessionMatchesMerge base delta =
     \<lparr>sm_channel_id = rsm_channel_id delta,
      timestamps = std_merge (<) (timestamps base) [rsm_timestamp delta]\<rparr>"

section \<open>Merging and filtering entries of two profiles\<close>

definition DaysVisitsLess :: "days_visits \<Rightarrow> days_visits \<Rightarrow> bool" where
  "DaysVisitsLess left right = (dv_days left < dv_days right)"

definition DaysVisitsMerge :: "days_visits \<Rightarrow> days_visits \<Rightarrow> days_visits" where
  "DaysVisitsMerge left right = \<lparr>dv_days = dv_days left, dv_visits = dv_visits left + dv_visits right\<rparr>"

text \<open>The template over two entry types, with their channel ids.\<close>

definition ChannelIdLess :: "('a \<Rightarrow> u32) \<Rightarrow> ('b \<Rightarrow> u32) \<Rightarrow> 'a \<Rightarrow> 'b \<Rightarrow> bool" where
  "ChannelIdLess id_left id_right left right = (id_left left < id_right right)"

definition HistoryChannelInfoMerge ::
  "history_channel_info \<Rightarrow> history_channel_info \<Rightarrow> history_channel_info" where
  "HistoryChannelInfoMerge left right =
     \<lparr>hci_channel_id = hci_channel_id left,
      hci_days_visits = merge_unique DaysVisitsLess DaysVisitsLess DaysVisitsMerge
        (modify_inserter back_inserter (emit_case id id id))
        (hci_days_visits left) (hci_days_visits right) []\<rparr>"

definition HistoryChannelInfoFilter :: "'t channels_map \<Rightarrow> history_channel_info \<Rightarrow> bool" where
  "HistoryChannelInfoFilter channels obj =
     (channels (ucast (hci_channel_id obj)) \<noteq> None \<and> hci_days_visits obj \<noteq> [])"

definition ExistChannelFilter :: "'t channels_map \<Rightarrow> ('a \<Rightarrow> u32) \<Rightarrow> 'a \<Rightarrow> bool" where
  "ExistChannelFilter channels channel_id obj = (channels (ucast (channel_id obj)) \<noteq> None)"

definition HistoryVisitsMerge :: "history_visit \<Rightarrow> history_visit \<Rightarrow> history_visit" where
  "HistoryVisitsMerge left right =
     \<lparr>hv_channel_id = hv_channel_id left, hv_visits = hv_visits left + hv_visits right\<rparr>"

definition SessionMatchesMerge :: "session_match \<Rightarrow> session_match \<Rightarrow> session_match" where
  "SessionMatchesMerge left right =
     \<lparr>sm_channel_id = sm_channel_id left,
      timestamps = std_merge (<) (timestamps left) (timestamps right)\<rparr>"

definition SessionMatchesFilter :: "session_match \<Rightarrow> bool" where
  "SessionMatchesFilter obj = (timestamps obj \<noteq> [])"

section \<open>Reduction of the timestamps of a session\<close>

text \<open>
  \<open>delete_excess_timestamps_\<close> of \<open>ChannelMatcher.ipp\<close>. The three list iterators are positions:
  \<open>be\<close> the begin of the window, \<open>ca\<close> the candidate for removal, \<open>en\<close> the end of the window. A use
  of an iterator that the standard leaves undefined (erasing or stepping from an erased or an
  end iterator) is the result \<open>None\<close>. The inner loop always stops at the window end, where the
  difference is zero.
\<close>

function shift_window :: "u64 \<Rightarrow> u32 list \<Rightarrow> nat \<Rightarrow> nat \<Rightarrow> nat \<Rightarrow> nat \<Rightarrow> nat \<times> nat \<times> nat" where
  "shift_window min_window xs en be ca window_imps =
     (if be < en \<and> min_window < ucast (xs ! en - xs ! be)
      then shift_window min_window xs en (Suc be) (Suc be) (window_imps - 1)
      else (be, ca, window_imps))"
  by pat_completeness auto
termination
  by (relation "measure (\<lambda>(w, xs, en, be, ca, n). en - be)") auto

declare shift_window.simps [simp del]

function excess_loop :: "u64 \<Rightarrow> u64 \<Rightarrow> u32 list \<Rightarrow> nat \<Rightarrow> nat \<Rightarrow> nat \<Rightarrow> nat \<Rightarrow> u32 list option" where
  "excess_loop max_vis min_window xs be ca en window_imps =
     (if en < length xs then
        let (be1, ca1, imps1) = shift_window min_window xs en be ca window_imps;
            ca2 = (if imps1 > unat (2 * max_vis) then Suc ca1 else ca1)
        in if imps1 \<ge> unat (4 * max_vis)
           then if ca2 < length xs \<and> 0 < ca2 \<and> ca2 \<noteq> en \<and> ca2 \<noteq> be1
                then excess_loop max_vis min_window (take ca2 xs @ drop (Suc ca2) xs)
                       (if ca2 < be1 then be1 - 1 else be1) (ca2 - 1)
                       (if ca2 < en then en else Suc en) (Suc (imps1 - 1))
                else None
           else excess_loop max_vis min_window xs be1 ca2 (Suc en) (Suc imps1)
      else Some xs)"
  by pat_completeness auto
termination
  by (relation "measure (\<lambda>(m, w, xs, be, ca, en, n). length xs - en)") auto

declare excess_loop.simps [simp del]

definition delete_excess_timestamps :: "u32 list \<Rightarrow> 't interval_list \<Rightarrow> u32 list option" where
  "delete_excess_timestamps wr cil =
     (if pref_max_visits cil = 0 then Some []
      else excess_loop (pref_max_visits cil) (pref_min_window_size cil) wr 0 0 0 0)"

text \<open>The timestamps of a channel that are still inside its longest interval.\<close>

definition check_ts :: "'t time_api \<Rightarrow> int \<Rightarrow> 't interval_list \<Rightarrow> u32 list \<Rightarrow> u32 list" where
  "check_ts T now cil = filter (\<lambda>ts. now - uint ts \<le> sint (max_time_to T cil))"

definition SessionMatchesCleaner ::
  "'t time_api \<Rightarrow> 't channels_map \<Rightarrow> int \<Rightarrow> session_match \<Rightarrow> session_match" where
  "SessionMatchesCleaner T channels now obj =
     \<lparr>sm_channel_id = sm_channel_id obj,
      timestamps =
        (case channels (ucast (sm_channel_id obj)) of
           None \<Rightarrow> []
         | Some cip \<Rightarrow>
             (case delete_excess_timestamps (check_ts T now (short_intervals cip) (timestamps obj))
                     (short_intervals cip) of
                Some ts \<Rightarrow> ts
              | None \<Rightarrow> []))\<rparr>"

definition SessionMatchesCleanAdapter_delta ::
  "'t time_api \<Rightarrow> 't channels_map \<Rightarrow> int \<Rightarrow> request_session_match \<Rightarrow> session_match" where
  "SessionMatchesCleanAdapter_delta T channels now match =
     SessionMatchesCleaner T channels now (make_session_match_writer match)"

section \<open>History of days\<close>

definition HistoryChannelInfoCleaner ::
  "'t time_api \<Rightarrow> 't channels_map \<Rightarrow> history_channel_info \<Rightarrow> history_channel_info" where
  "HistoryChannelInfoCleaner T channels writer =
     \<lparr>hci_channel_id = hci_channel_id writer,
      hci_days_visits =
        (case channels (ucast (hci_channel_id writer)) of
           None \<Rightarrow> []
         | Some cip \<Rightarrow>
             let max_days = max (max_time_to T (long_intervals cip))
                              (max_time_to T (today_long_intervals cip)) div SEC_IN_DAY
             in filter (\<lambda>dv. ucast (dv_days dv) < max_days) (hci_days_visits writer))\<rparr>"

definition shift_days :: "u64 \<Rightarrow> days_visits \<Rightarrow> days_visits" where
  "shift_days days_offset dv = \<lparr>dv_days = ucast (ucast (dv_days dv) + days_offset), dv_visits = dv_visits dv\<rparr>"

definition HistoryChannelInfoHistoryVisitsMerge ::
  "u64 \<Rightarrow> history_channel_info \<Rightarrow> history_visit \<Rightarrow> history_channel_info" where
  "HistoryChannelInfoHistoryVisitsMerge days_offset left right =
     \<lparr>hci_channel_id = hci_channel_id left,
      hci_days_visits =
        (case hci_days_visits left of
           dv # rest \<Rightarrow>
             (if dv_days dv = 0
              then \<lparr>dv_days = ucast days_offset, dv_visits = hv_visits right + dv_visits dv\<rparr> #
                   map (shift_days days_offset) rest
              else \<lparr>dv_days = ucast days_offset, dv_visits = hv_visits right\<rparr> #
                   map (shift_days days_offset) (dv # rest))
         | [] \<Rightarrow> [\<lparr>dv_days = ucast days_offset, dv_visits = hv_visits right\<rparr>])\<rparr>"

definition HistoryChannelInfoConverter :: "u64 \<Rightarrow> history_channel_info \<Rightarrow> history_channel_info" where
  "HistoryChannelInfoConverter days_offset reader =
     \<lparr>hci_channel_id = hci_channel_id reader,
      hci_days_visits = map (shift_days days_offset) (hci_days_visits reader)\<rparr>"

definition HistoryChannelInfoConverter_visits :: "u64 \<Rightarrow> history_visit \<Rightarrow> history_channel_info" where
  "HistoryChannelInfoConverter_visits days_offset right =
     \<lparr>hci_channel_id = hv_channel_id right,
      hci_days_visits = [\<lparr>dv_days = ucast days_offset, dv_visits = hv_visits right\<rparr>]\<rparr>"

end
