(* ===== verification/ChannelMatch.thy ===== *)
theory ChannelMatch
  imports ChannelMatcher
begin

text \<open>
  The class \<open>ChannelsMatcher\<close> of \<open>src/UserInfoSvcs/UserInfoCommons/ChannelMatcher.cpp\<close>: matching of a
  request against the base profile of a user (\<open>match\<close>), daily transfer of visits into the history
  profile (\<open>history_optimize\<close>), merging of two users (\<open>merge\<close>), fraud marks and statistics of
  unique channels. The two serialized profiles are records, \<open>None\<close> being an empty buffer.
  Dereferencing an iterator at the end of a container is the error \<open>Deref_end\<close>.
\<close>

section \<open>Profiles\<close>

record audience_channel =
  aud_channel_id :: u32
  aud_time :: u32

record 'b geo_data =
  latitude :: 'b
  longitude :: 'b
  accuracy :: 'b
  geo_timestamp :: u32

record 'b channels_profile =
  cp_version :: u32
  create_time :: u32
  history_time :: u32
  ignore_fraud_time :: u32
  last_request_time :: u32
  session_start :: u32
  household :: u32
  first_colo_id :: u32
  last_colo_id :: u32
  cohort :: string
  persistent_matches :: "u32 list"
  page_channels :: channels_info
  search_channels :: channels_info
  url_channels :: channels_info
  url_keyword_channels :: channels_info
  audience_channels :: "audience_channel list"
  geo_data :: "'b geo_data list"

record history_profile =
  minor_version :: u32
  major_version :: u32
  h_page_channels :: "history_channel_info list"
  h_search_channels :: "history_channel_info list"
  h_url_channels :: "history_channel_info list"
  h_url_keyword_channels :: "history_channel_info list"

definition UNKNOWN_COLO_ID :: u32 where "UNKNOWN_COLO_ID = 0"
definition DEFAULT_COLO :: u32 where "DEFAULT_COLO = - 1"
definition CURRENT_BASE_PROFILE_VERSION :: u32 where "CURRENT_BASE_PROFILE_VERSION = 340"
definition CURRENT_HISTORY_MAJOR_PROFILE_VERSION :: u32 where "CURRENT_HISTORY_MAJOR_PROFILE_VERSION = 330"
definition CURRENT_HISTORY_MINOR_PROFILE_VERSION :: u32 where "CURRENT_HISTORY_MINOR_PROFILE_VERSION = 0"

definition empty_channels_profile :: "'b channels_profile" where
  "empty_channels_profile =
     \<lparr>cp_version = CURRENT_BASE_PROFILE_VERSION, create_time = 0, history_time = 0, ignore_fraud_time = 0,
      last_request_time = 0, session_start = 0, household = 0, first_colo_id = 0, last_colo_id = 0,
      cohort = '''', persistent_matches = [], page_channels = empty_channels_info,
      search_channels = empty_channels_info, url_channels = empty_channels_info,
      url_keyword_channels = empty_channels_info, audience_channels = [], geo_data = []\<rparr>"

datatype matcher_error = Deref_end

record channel_id_pack =
  pack_page_channels :: "u64 list"
  pack_search_channels :: "u64 list"
  pack_url_channels :: "u64 list"
  pack_url_keyword_channels :: "u64 list"
  pack_persistent_channels :: "u64 list"

text \<open>The match parameters that the operations of the class read.\<close>

record profile_match_params =
  no_match :: bool
  no_result :: bool
  provide_persistent_channels :: bool
  change_last_request :: bool
  param_household :: bool
  request_colo_id :: int
  param_cohort :: string
  param_cohort2 :: string

text \<open>Coordinates stay in their packed form \<open>'b\<close>; unpacking is done by a library type.\<close>

record 'b profile_properties =
  fraud_request :: bool
  prop_cohort :: string
  prop_cohort2 :: string
  geo_data_list :: "('b \<times> 'b \<times> 'b) list"

section \<open>Results\<close>

type_synonym match_map = "u64 \<Rightarrow> u64 option"

text \<open>\<open>operator[]\<close> of the result map creates a zero entry.\<close>

definition weight_of :: "match_map \<Rightarrow> u64 \<Rightarrow> u64" where
  "weight_of m k = (case m k of None \<Rightarrow> 0 | Some w \<Rightarrow> w)"

definition add_weight :: "u32 \<Rightarrow> u32 \<Rightarrow> match_map \<Rightarrow> match_map" where
  "add_weight index weight result_channels =
     result_channels(ucast index \<mapsto> weight_of result_channels (ucast index) + ucast weight)"

text \<open>The loop over the timestamps for one interval: whether the visits are reached.\<close>

fun visits_reached :: "int \<Rightarrow> int \<Rightarrow> int \<Rightarrow> u64 \<Rightarrow> u32 list \<Rightarrow> bool" where
  "visits_reached now t_from t_to vis [] = False"
| "visits_reached now t_from t_to vis (dv # dvs) =
     (if now - uint dv < t_from then False
      else if now - uint dv \<le> t_to
           then (if vis - 1 = 0 then True else visits_reached now t_from t_to (vis - 1) dvs)
           else visits_reached now t_from t_to vis dvs)"

definition session_results ::
  "'t time_api \<Rightarrow> 't channels_map \<Rightarrow> int \<Rightarrow> session_match \<Rightarrow> match_map \<Rightarrow> match_map" where
  "session_results T channels now sm result_channels =
     (case channels (ucast (sm_channel_id sm)) of
        None \<Rightarrow> result_channels
      | Some cip \<Rightarrow>
          fold (\<lambda>ci res.
                  if visits_reached now (tv_sec T (time_from ci)) (tv_sec T (time_to ci)) (min_visits ci)
                       (timestamps sm)
                  then add_weight (sm_channel_id sm) (ucast (ci_weight ci)) res else res)
            (intervals (short_intervals cip)) result_channels)"

definition fill_channels_results ::
  "'t time_api \<Rightarrow> match_map \<Rightarrow> channels_info \<Rightarrow> int \<Rightarrow> 't channels_map \<Rightarrow> match_map" where
  "fill_channels_results T result_channels ciw now channels =
     (let res1 = fold (session_results T channels now) (session_matches ciw) result_channels;
          res2 = fold (\<lambda>c res. if req_visits c = 0 then add_weight (htc_channel_id c) (htc_weight c) res else res)
                   (ht_candidates ciw) res1
      in fold (\<lambda>m. add_weight (hm_channel_id m) (hm_weight m)) (history_matches ciw) res2)"

section \<open>One section of a request\<close>

definition empty_delta :: request_channels_delta where
  "empty_delta = \<lparr>delta_ht_candidates = [], delta_history_visits = [], delta_session_matches = []\<rparr>"

definition add_channel_visit ::
  "int \<Rightarrow> u64 \<Rightarrow> 't channels_map \<Rightarrow> request_channels_delta \<times> match_map \<Rightarrow> request_channels_delta \<times> match_map" where
  "add_channel_visit now channel_id channels st =
     (case channels channel_id of
        None \<Rightarrow> st
      | Some cip \<Rightarrow>
        let (delta, res) = st;
            res1 = (if zero_channel cip then add_weight (ucast channel_id) (ucast (pack_weight cip)) res else res);
            delta1 = (if intervals (short_intervals cip) \<noteq> []
                      then delta\<lparr>delta_session_matches := delta_session_matches delta @
                             [\<lparr>rsm_channel_id = ucast channel_id, rsm_timestamp = word_of_int now\<rparr>]\<rparr>
                      else delta);
            delta2 = (if intervals (long_intervals cip) \<noteq> [] \<or> intervals (today_long_intervals cip) \<noteq> []
                      then delta1\<lparr>delta_history_visits := delta_history_visits delta1 @
                             [\<lparr>rhv_channel_id = ucast channel_id, rhv_visits = 1\<rparr>]\<rparr>
                      else delta1)
        in (delta2\<lparr>delta_ht_candidates := delta_ht_candidates delta2 @
              map (\<lambda>tpl. \<lparr>rhc_channel_id = ucast channel_id, rhc_min_visits = ucast (tpl_min_visits tpl),
                          rhc_req_visits = ucast (tpl_req_visits tpl), rhc_visits = 1,
                          rhc_weight = ucast (tpl_weight tpl)\<rparr>) (ht_candidate_templates cip)\<rparr>, res1))"

definition merge_request_channels_delta ::
  "'t time_api \<Rightarrow> 't channels_map \<Rightarrow> int \<Rightarrow> channels_info option \<Rightarrow> request_channels_delta \<Rightarrow> channels_info" where
  "merge_request_channels_delta T channels now base delta =
     \<lparr>ht_candidates =
        (let out = modify_inserter (filter_inserter back_inserter (ExistingHTCandidate channels))
               (emit_case HTCandidateWriterAdapter make_ht_candidate_writer HTCandidateWriterAdapter)
         in case base of
              Some b \<Rightarrow> merge_unique HTCandidateLess HTCandidateLess_delta HTCandidateMerge out
                          (ht_candidates b) (delta_ht_candidates delta) []
            | None \<Rightarrow> copy_to out (map Second (delta_ht_candidates delta)) []),
      history_matches =
        (case base of
           Some b \<Rightarrow> copy_to (filter_inserter back_inserter (ExistChannelFilter channels hm_channel_id))
                       (history_matches b) []
         | None \<Rightarrow> []),
      history_visits =
        (let out = modify_inserter (filter_inserter back_inserter (ExistingHistoryVisit channels))
               (emit_case HistoryVisitWriterAdapter make_history_visit_writer HistoryVisitWriterAdapter)
         in case base of
              Some b \<Rightarrow> merge_unique HistoryVisitLess HistoryVisitLess_delta HistoryVisitMerge out
                          (history_visits b) (delta_history_visits delta) []
            | None \<Rightarrow> copy_to out (map Second (delta_history_visits delta)) []),
      session_matches =
        (let out = modify_inserter (filter_inserter back_inserter SessionMatchesFilter)
               (emit_case (SessionMatchesCleaner T channels now) (SessionMatchesCleanAdapter_delta T channels now)
                  (SessionMatchesCleaner T channels now))
         in case base of
              Some b \<Rightarrow> merge_unique SessionMatchLess SessionMatchLess_delta RequestSessionMatchesMerge out
                          (session_matches b) (delta_session_matches delta) []
            | None \<Rightarrow> copy_to out (map Second (delta_session_matches delta)) [])\<rparr>"

definition match_section ::
  "'t time_api \<Rightarrow> match_map \<Rightarrow> channels_info option \<Rightarrow> u64 list \<Rightarrow> 't channels_map \<Rightarrow> int \<Rightarrow>
   match_map \<times> channels_info" where
  "match_section T result_channels base channels dictionary now =
     (let (delta, res) = fold (\<lambda>c. add_channel_visit now c dictionary) channels (empty_delta, result_channels);
          ciw = merge_request_channels_delta T dictionary now base delta
      in (fill_channels_results T res ciw now dictionary, ciw))"

definition match_persistent_section ::
  "match_map \<Rightarrow> u32 list option \<Rightarrow> u64 list \<Rightarrow> bool \<Rightarrow> match_map \<times> u32 list" where
  "match_persistent_section result_channels base_in channels provide =
     (let ids = (case base_in of
             Some b \<Rightarrow> merge_unique (\<lambda>x y. x < ucast y) (\<lambda>y x. ucast y < x) (\<lambda>x y. x)
                         (modify_inserter back_inserter (emit_case ucast id ucast)) channels b []
           | None \<Rightarrow> map ucast channels)
      in (if provide then fold (\<lambda>i. add_weight i 1) ids result_channels else result_channels, ids))"

section \<open>Cohorts\<close>

definition split_cohort :: "string \<Rightarrow> string \<Rightarrow> string \<Rightarrow> string \<times> string" where
  "split_cohort part1 part2 coh =
     (if coh \<noteq> [] then
        if CHR ''/'' \<in> set coh
        then (takeWhile (\<lambda>c. c \<noteq> CHR ''/'') coh, tl (dropWhile (\<lambda>c. c \<noteq> CHR ''/'') coh))
        else (coh, part2)
      else (part1, part2))"

definition set_cohort :: "string \<Rightarrow> string \<Rightarrow> string \<Rightarrow> string" where
  "set_cohort res_cohort cohort_part1 cohort_part2 =
     (if cohort_part1 \<noteq> [] \<or> cohort_part2 \<noteq> [] then
        let (p1, p2) = split_cohort [] [] res_cohort
        in (if cohort_part1 \<noteq> [] then cohort_part1 else p1) @ ''/'' @
           (if cohort_part2 \<noteq> [] then cohort_part2 else p2)
      else res_cohort)"

section \<open>match\<close>

text \<open>The audience channels of the profile get the weight of their first interval.\<close>

fun audience_results ::
  "'t channels_map \<Rightarrow> audience_channel list \<Rightarrow> match_map \<Rightarrow> matcher_error + match_map" where
  "audience_results dict [] res = Inr res"
| "audience_results dict (a # as) res =
     (case dict (ucast (aud_channel_id a)) of
        None \<Rightarrow> audience_results dict as res
      | Some cip \<Rightarrow>
          (case intervals (today_long_intervals cip) of
             [] \<Rightarrow> Inl Deref_end
           | ci # _ \<Rightarrow> audience_results dict as (res(ucast (aud_channel_id a) \<mapsto> ci_weight ci))))"

text \<open>The header fields of the result profile; \<open>base\<close> is the stored profile, if any.\<close>

definition match_header ::
  "'t time_api \<Rightarrow> 't \<Rightarrow> profile_match_params \<Rightarrow> 't \<Rightarrow> 'b channels_profile option \<Rightarrow> 'b channels_profile" where
  "match_header T now params session_timeout base =
     (let b = (case base of Some p \<Rightarrow> p
               | None \<Rightarrow> empty_channels_profile\<lparr>first_colo_id := word_of_int (request_colo_id params)\<rparr>);
          current = max (sec32 T now) (last_request_time b)
      in empty_channels_profile
           \<lparr>cp_version := CURRENT_BASE_PROFILE_VERSION,
            create_time := (if create_time b = 0 then current else create_time b),
            history_time := (if create_time b = 0 then current else history_time b),
            ignore_fraud_time := ignore_fraud_time b,
            last_request_time := (if change_last_request params then current else last_request_time b),
            session_start :=
              (if change_last_request params \<and>
                  ucast (last_request_time b) + word_of_int (tv_sec T session_timeout) < (ucast current :: u64)
               then current else session_start b),
            household := (case base of Some p \<Rightarrow> household p | None \<Rightarrow> if param_household params then 1 else 0),
            first_colo_id :=
              (if first_colo_id b \<noteq> UNKNOWN_COLO_ID \<and> first_colo_id b \<noteq> DEFAULT_COLO
               then first_colo_id b else word_of_int (request_colo_id params)),
            last_colo_id := word_of_int (request_colo_id params),
            cohort := set_cohort (cohort b) (param_cohort params) (param_cohort2 params)\<rparr>)"

definition current_time :: "'t time_api \<Rightarrow> 't \<Rightarrow> 'b channels_profile option \<Rightarrow> u32" where
  "current_time T now base =
     max (sec32 T now) (case base of Some p \<Rightarrow> last_request_time p | None \<Rightarrow> 0)"

definition channels_match ::
  "'t time_api \<Rightarrow> match_map \<Rightarrow> 't \<Rightarrow> channel_id_pack \<Rightarrow> 't channel_dictionary \<Rightarrow> profile_match_params \<Rightarrow>
   'b profile_properties \<Rightarrow> 't \<Rightarrow> 'b channels_profile option \<Rightarrow>
   matcher_error + (match_map \<times> 'b profile_properties \<times> 'b channels_profile option \<times> 'b channels_profile option)" where
  "channels_match T result_channels now pack channels params properties session_timeout base =
     (case (case base of
              Some p \<Rightarrow> if no_result params then Inr result_channels
                        else audience_results (audience_dict channels) (audience_channels p) result_channels
            | None \<Rightarrow> Inr result_channels) of
        Inl e \<Rightarrow> Inl e
      | Inr res0 \<Rightarrow>
        let t = uint (current_time T now base);
            upw = match_header T now params session_timeout base;
            (c1, c2) = split_cohort (prop_cohort properties) (prop_cohort2 properties) (cohort upw);
            props1 = properties\<lparr>fraud_request :=
                (tv_sec T now \<le> (case base of Some p \<Rightarrow> uint (ignore_fraud_time p) | None \<Rightarrow> 0)),
                prop_cohort := c1, prop_cohort2 := c2\<rparr>;
            (res1, upw1) =
              (if \<not> no_match params then
                 let (r1, pers) = match_persistent_section res0 (map_option persistent_matches base)
                       (pack_persistent_channels pack) (provide_persistent_channels params);
                     (r2, page) = match_section T r1 (map_option page_channels base)
                       (pack_page_channels pack) (page_dict channels) t;
                     (r3, search) = match_section T r2 (map_option search_channels base)
                       (pack_search_channels pack) (search_dict channels) t;
                     (r4, url) = match_section T r3 (map_option url_channels base)
                       (pack_url_channels pack) (url_dict channels) t;
                     (r5, url_kw) = match_section T r4 (map_option url_keyword_channels base)
                       (pack_url_keyword_channels pack) (url_keyword_dict channels) t;
                     aud = (case base of
                         Some p \<Rightarrow> filter (\<lambda>a. audience_dict channels (ucast (aud_channel_id a)) \<noteq> None)
                                     (audience_channels p)
                       | None \<Rightarrow> [])
                 in (r5, upw\<lparr>persistent_matches := pers, page_channels := page, search_channels := search,
                             url_channels := url, url_keyword_channels := url_kw, audience_channels := aud\<rparr>)
               else
                 (Map.empty,
                  case base of
                    Some p \<Rightarrow> upw\<lparr>persistent_matches := persistent_matches p, page_channels := page_channels p,
                                  search_channels := search_channels p, url_channels := url_channels p,
                                  url_keyword_channels := url_keyword_channels p, geo_data := geo_data p\<rparr>
                  | None \<Rightarrow> upw));
            props2 = (if no_result params then props1
                      else props1\<lparr>geo_data_list := geo_data_list props1 @
                        map (\<lambda>g. (latitude g, longitude g, accuracy g)) (geo_data upw1)\<rparr>)
        in Inr (if no_result params then Map.empty else res1, props2, Some upw1, None))"

section \<open>Fraud marks and times\<close>

definition fraud_user :: "'t time_api \<Rightarrow> 't \<Rightarrow> 'b channels_profile option \<Rightarrow> 'b channels_profile option \<times> bool" where
  "fraud_user T now base =
     (case base of
        Some p \<Rightarrow> if tv_sec T now > uint (ignore_fraud_time p)
                  then (Some (p\<lparr>ignore_fraud_time := sec32 T now\<rparr>), True) else (base, False)
      | None \<Rightarrow>
          (Some (empty_channels_profile
             \<lparr>cp_version := CURRENT_BASE_PROFILE_VERSION, create_time := sec32 T now,
              history_time := sec32 T now, ignore_fraud_time := sec32 T now, last_request_time := 0,
              session_start := 0, household := 0, first_colo_id := UNKNOWN_COLO_ID,
              last_colo_id := UNKNOWN_COLO_ID\<rparr>), True))"

definition last_request :: "'t::zero time_api \<Rightarrow> 'b channels_profile option \<Rightarrow> 't" where
  "last_request T base = (case base of None \<Rightarrow> 0 | Some p \<Rightarrow> of_sec T (uint (last_request_time p)))"

definition profile_create_time :: "'t::zero time_api \<Rightarrow> 'b channels_profile option \<Rightarrow> 't" where
  "profile_create_time T base = (case base of None \<Rightarrow> 0 | Some p \<Rightarrow> of_sec T (uint (create_time p)))"

definition profile_session_start ::
  "'t::zero time_api \<Rightarrow> 'b channels_profile option \<Rightarrow> 'b channels_profile option \<Rightarrow> 't" where
  "profile_session_start T base add =
     (case add of
        Some p \<Rightarrow> of_sec T (uint (session_start p))
      | None \<Rightarrow> (case base of Some p \<Rightarrow> of_sec T (uint (session_start p)) | None \<Rightarrow> 0))"

text \<open>\<open>get_gm_time().get_date()\<close> of a time is the parameter \<open>date\<close>.\<close>

definition need_channel_count_stats_logging ::
  "'t::plus time_api \<Rightarrow> ('t \<Rightarrow> 'd::ord) \<Rightarrow> 't \<Rightarrow> 't \<Rightarrow> 'b channels_profile option \<Rightarrow> 'b channels_profile option \<Rightarrow> bool" where
  "need_channel_count_stats_logging T date now gmt_offset base add =
     (case (base, add) of
        (Some p, None) \<Rightarrow> date (now + gmt_offset) > date (of_sec T (uint (last_request_time p)) + gmt_offset)
      | _ \<Rightarrow> False)"

end
