(* ===== verification/ChannelHistory.thy ===== *)
theory ChannelHistory
  imports ChannelMatch
begin

text \<open>
  The operations of \<open>ChannelsMatcher\<close> on the history profile and on two users: \<open>history_optimize\<close>
  moves the visits since the last run into the history of days and precomputes the matches that
  depend on past days only; \<open>merge\<close> joins two users; \<open>unique_channels\<close> counts the channels of a
  profile.
\<close>

section \<open>Matching on the history of days\<close>

text \<open>A number of seconds in days, in \<open>unsigned long\<close>.\<close>

definition sec_days :: "int \<Rightarrow> u64" where
  "sec_days s = word_of_int s div SEC_IN_DAY"

definition interval_visits :: "'t time_api \<Rightarrow> 't channel_interval \<Rightarrow> days_visits list \<Rightarrow> u64" where
  "interval_visits T ci dvs =
     fold (\<lambda>dv n. if ucast (dv_days dv) < sec_days (tv_sec T (time_to ci))
                  then if ucast (dv_days dv) \<ge> sec_days (tv_sec T (time_from ci))
                       then n + ucast (dv_visits dv) else n
                  else n) dvs 0"

definition history_matched :: "'t time_api \<Rightarrow> history_channel_info \<Rightarrow> 't channels_map \<Rightarrow> u64" where
  "history_matched T hciw channels =
     (case channels (ucast (hci_channel_id hciw)) of
        None \<Rightarrow> 0
      | Some cip \<Rightarrow>
          fold (\<lambda>ci res. if interval_visits T ci (hci_days_visits hciw) \<ge> min_visits ci
                         then res + ci_weight ci else res)
            (intervals (long_intervals cip)) 0)"

text \<open>
  The loop over the intervals that reach back from today. \<open>passed\<close> are the intervals without visits
  before the first one with visits.
\<close>

fun candidate_loop ::
  "'t time_api \<Rightarrow> history_channel_info \<Rightarrow> 't channel_interval list \<Rightarrow> bool \<Rightarrow> 't channel_interval list \<Rightarrow> ht_candidate list" where
  "candidate_loop T hciw passed insert_all_ints [] = []"
| "candidate_loop T hciw passed insert_all_ints (ci # cis) =
     (let found_visits = interval_visits T ci (hci_days_visits hciw)
      in if found_visits \<noteq> 0 \<or> insert_all_ints then
           (let req = (if found_visits < min_visits ci then min_visits ci - found_visits else 0)
            in (if insert_all_ints then []
                else map (\<lambda>p. \<lparr>htc_channel_id = hci_channel_id hciw, req_visits = ucast (min_visits p),
                               htc_visits = 0, htc_weight = 0\<rparr>) passed) @
               \<lparr>htc_channel_id = hci_channel_id hciw, req_visits = ucast req,
                htc_visits = ucast found_visits,
                htc_weight = (if (ucast req :: u32) \<noteq> 0 then 0 else ucast (ci_weight ci))\<rparr> #
               candidate_loop T hciw (passed @ [ci]) True cis)
         else candidate_loop T hciw (passed @ [ci]) False cis)"

definition fill_history_candidate_visits ::
  "'t time_api \<Rightarrow> history_channel_info \<Rightarrow> 't channels_map \<Rightarrow> ht_candidate list" where
  "fill_history_candidate_visits T hciw channels =
     (case channels (ucast (hci_channel_id hciw)) of
        None \<Rightarrow> []
      | Some cip \<Rightarrow> candidate_loop T hciw [] False (intervals (today_long_intervals cip)))"

definition fill_history_candidates ::
  "'t time_api \<Rightarrow> channels_info \<Rightarrow> history_channel_info list \<Rightarrow> 't channels_map \<Rightarrow> channels_info" where
  "fill_history_candidates T ciw hciw channels =
     fold (\<lambda>h c.
             let weight = history_matched T h channels;
                 c1 = (if weight \<noteq> 0
                       then c\<lparr>history_matches := history_matches c @
                              [\<lparr>hm_channel_id = hci_channel_id h, hm_weight = ucast weight\<rparr>]\<rparr>
                       else c)
             in c1\<lparr>ht_candidates := ht_candidates c1 @ fill_history_candidate_visits T h channels\<rparr>)
       hciw ciw"

definition history_optimize_section ::
  "'t time_api \<Rightarrow> history_channel_info list \<Rightarrow> channels_info \<Rightarrow> 't channels_map \<Rightarrow> u64 \<Rightarrow> int \<Rightarrow>
   channels_info \<times> history_channel_info list" where
  "history_optimize_section T history_reader info channels days now =
     (let ciw = empty_channels_info
            \<lparr>session_matches := copy_to (modify_inserter (filter_inserter back_inserter SessionMatchesFilter)
                 (SessionMatchesCleaner T channels now)) (session_matches info) []\<rparr>;
          out = modify_inserter
                  (modify_inserter (filter_inserter back_inserter (HistoryChannelInfoFilter channels))
                     (HistoryChannelInfoCleaner T channels))
                  (emit_case (HistoryChannelInfoConverter days) (HistoryChannelInfoConverter_visits days) id);
          hist = (if history_reader \<noteq> []
                  then merge_unique (ChannelIdLess hci_channel_id hv_channel_id)
                         (ChannelIdLess hv_channel_id hci_channel_id)
                         (HistoryChannelInfoHistoryVisitsMerge days) out history_reader (history_visits info) []
                  else copy_to out (map Second (history_visits info)) [])
      in (fill_history_candidates T ciw hist channels, hist))"

fun audience_optimize ::
  "'t time_api \<Rightarrow> int \<Rightarrow> 't channels_map \<Rightarrow> audience_channel list \<Rightarrow> matcher_error + audience_channel list" where
  "audience_optimize T now dict [] = Inr []"
| "audience_optimize T now dict (a # as) =
     (case dict (ucast (aud_channel_id a)) of
        None \<Rightarrow> audience_optimize T now dict as
      | Some cip \<Rightarrow>
          (case intervals (today_long_intervals cip) of
             [] \<Rightarrow> Inl Deref_end
           | ci # _ \<Rightarrow>
               if sec_days now - ucast (aud_time a) div SEC_IN_DAY < sec_days (tv_sec T (time_to ci))
               then (case audience_optimize T now dict as of Inl e \<Rightarrow> Inl e | Inr r \<Rightarrow> Inr (a # r))
               else audience_optimize T now dict as))"

definition history_days :: "'t time_api \<Rightarrow> 't \<Rightarrow> 't \<Rightarrow> 'b channels_profile \<Rightarrow> u32" where
  "history_days T now gmt_offset rdr =
     ucast (sec_days (uint (max (sec32 T now) (last_request_time rdr)) + tv_sec T gmt_offset) -
            sec_days (uint (history_time rdr) + tv_sec T gmt_offset))"

definition history_optimize ::
  "'t time_api \<Rightarrow> history_profile option \<Rightarrow> 't \<Rightarrow> 't \<Rightarrow> 't channel_dictionary \<Rightarrow> 'b channels_profile \<Rightarrow>
   matcher_error + ('b channels_profile \<times> history_profile \<times> bool)" where
  "history_optimize T history now gmt_offset channels rdr =
     (let current = max (sec32 T now) (last_request_time rdr);
          t = uint current;
          hrdr = (\<lambda>f. case history of Some h \<Rightarrow> f h | None \<Rightarrow> []);
          days = history_days T now gmt_offset rdr;
          opt = (\<lambda>h info dict. history_optimize_section T h info dict (ucast days) t);
          (page, hpage) = opt (hrdr h_page_channels) (page_channels rdr) (page_dict channels);
          (search, hsearch) = opt (hrdr h_search_channels) (search_channels rdr) (search_dict channels);
          (url, hurl) = opt (hrdr h_url_channels) (url_channels rdr) (url_dict channels);
          (url_kw, hurl_kw) = opt (hrdr h_url_keyword_channels) (url_keyword_channels rdr) (url_keyword_dict channels)
      in case audience_optimize T t (audience_dict channels) (audience_channels rdr) of
           Inl e \<Rightarrow> Inl e
         | Inr aud \<Rightarrow>
           Inr (empty_channels_profile
                  \<lparr>cp_version := CURRENT_BASE_PROFILE_VERSION, last_request_time := last_request_time rdr,
                   history_time := current, create_time := create_time rdr,
                   ignore_fraud_time := ignore_fraud_time rdr, session_start := session_start rdr,
                   household := household rdr, first_colo_id := first_colo_id rdr,
                   last_colo_id := last_colo_id rdr, cohort := cohort rdr,
                   persistent_matches := persistent_matches rdr, geo_data := geo_data rdr,
                   page_channels := page, search_channels := search, url_channels := url,
                   url_keyword_channels := url_kw, audience_channels := aud\<rparr>,
                \<lparr>minor_version = CURRENT_HISTORY_MINOR_PROFILE_VERSION,
                 major_version = CURRENT_HISTORY_MAJOR_PROFILE_VERSION,
                 h_page_channels = hpage, h_search_channels = hsearch, h_url_channels = hurl,
                 h_url_keyword_channels = hurl_kw\<rparr>,
                days \<noteq> 0))"

section \<open>Merging two users\<close>

definition merge_history_data ::
  "'t channels_map \<Rightarrow> history_channel_info list \<Rightarrow> history_channel_info list \<Rightarrow> history_channel_info list" where
  "merge_history_data channels base add =
     merge_unique (ChannelIdLess hci_channel_id hci_channel_id) (ChannelIdLess hci_channel_id hci_channel_id)
       HistoryChannelInfoMerge
       (modify_inserter (filter_inserter back_inserter (HistoryChannelInfoFilter channels)) (emit_case id id id))
       base add []"

definition merge_persistent_channels :: "u32 list option \<Rightarrow> u32 list option \<Rightarrow> u32 list" where
  "merge_persistent_channels base add =
     (case (base, add) of
        (Some b, Some a) \<Rightarrow> merge_unique (<) (<) (\<lambda>x y. x) (modify_inserter back_inserter (emit_case id id id)) b a []
      | (Some b, None) \<Rightarrow> b
      | (None, Some a) \<Rightarrow> a
      | (None, None) \<Rightarrow> [])"

text \<open>
  The two lists of candidates are paired per channel, the n-th candidate of a channel with its
  n-th interval. The sum of an \<open>int\<close>, a \<open>uint32_t\<close> and an \<open>unsigned long\<close> is stored in an \<open>int\<close>.
\<close>

fun merge_htc ::
  "'t channels_map \<Rightarrow> nat \<Rightarrow> u64 \<Rightarrow> ht_candidate list \<Rightarrow> ht_candidate list \<Rightarrow> ht_candidate list" where
  "merge_htc channels tli_count prev (b # bs) (a # as) =
     (let tli = (if prev \<noteq> ucast (htc_channel_id b) then 0 else tli_count);
          prev1 = ucast (htc_channel_id b)
      in if htc_channel_id b < htc_channel_id a
         then (if channels (ucast (htc_channel_id b)) \<noteq> None then [b] else []) @
              merge_htc channels tli prev1 bs (a # as)
         else if htc_channel_id b > htc_channel_id a
         then (if channels (ucast (htc_channel_id a)) \<noteq> None then [a] else []) @
              merge_htc channels tli prev1 (b # bs) as
         else (case channels (ucast (htc_channel_id a)) of
                 None \<Rightarrow> merge_htc channels tli prev1 bs as
               | Some cip \<Rightarrow>
                 let cis = intervals (today_long_intervals cip)
                 in (if tli < length cis then
                       let visits = ucast (ucast (req_visits b + req_visits a) - min_visits (cis ! tli) :: u64) :: u32;
                           req = (if sint visits < 0 then 0 else visits)
                       in [\<lparr>htc_channel_id = htc_channel_id a, req_visits = req,
                            htc_visits = htc_visits b + htc_visits a,
                            htc_weight = (if req = 0 then ucast (ci_weight (cis ! tli)) else 0)\<rparr>]
                     else []) @
                    merge_htc channels (Suc tli) prev1 bs as))"
| "merge_htc channels tli_count prev bs as =
     copy_to (filter_inserter back_inserter (ExistChannelFilter channels htc_channel_id)) as
       (copy_to (filter_inserter back_inserter (ExistChannelFilter channels htc_channel_id)) bs [])"

definition merge_channels_info ::
  "'t time_api \<Rightarrow> 't channels_map \<Rightarrow> int \<Rightarrow> channels_info option \<Rightarrow> channels_info option \<Rightarrow> channels_info" where
  "merge_channels_info T channels now base add =
     (let session_out = filter_inserter back_inserter SessionMatchesFilter;
          cleaner = SessionMatchesCleaner T channels now;
          one = (\<lambda>b. \<lparr>ht_candidates = merge_htc channels 0 0 (ht_candidates b) [],
                history_matches = copy_to (filter_inserter back_inserter (ExistChannelFilter channels hm_channel_id))
                  (history_matches b) [],
                history_visits = copy_to (filter_inserter back_inserter (ExistChannelFilter channels hv_channel_id))
                  (history_visits b) [],
                session_matches = copy_to (modify_inserter session_out cleaner) (session_matches b) []\<rparr>)
      in case (base, add) of
           (Some b, Some a) \<Rightarrow>
             \<lparr>ht_candidates = merge_htc channels 0 0 (ht_candidates b) (ht_candidates a),
              history_matches = merge_unique (ChannelIdLess hm_channel_id hm_channel_id)
                (ChannelIdLess hm_channel_id hm_channel_id) (\<lambda>x y. x)
                (modify_inserter (filter_inserter back_inserter (ExistChannelFilter channels hm_channel_id))
                   (emit_case id id id)) (history_matches b) (history_matches a) [],
              history_visits = merge_unique (ChannelIdLess hv_channel_id hv_channel_id)
                (ChannelIdLess hv_channel_id hv_channel_id) HistoryVisitsMerge
                (modify_inserter (filter_inserter back_inserter (ExistChannelFilter channels hv_channel_id))
                   (emit_case id id id)) (history_visits b) (history_visits a) [],
              session_matches = merge_unique (ChannelIdLess sm_channel_id sm_channel_id)
                (ChannelIdLess sm_channel_id sm_channel_id) SessionMatchesMerge
                (modify_inserter session_out (emit_case cleaner cleaner cleaner))
                (session_matches b) (session_matches a) []\<rparr>
         | (Some b, None) \<Rightarrow> one b
         | (None, Some a) \<Rightarrow> one a
         | (None, None) \<Rightarrow> empty_channels_info)"

definition merge_profiles ::
  "'t time_api \<Rightarrow> 'b channels_profile \<Rightarrow> 't channel_dictionary \<Rightarrow> int \<Rightarrow> 'b channels_profile option \<Rightarrow>
   'b channels_profile option \<Rightarrow> 'b channels_profile" where
  "merge_profiles T upw channels now base add =
     upw\<lparr>last_request_time := max (case base of Some b \<Rightarrow> last_request_time b | None \<Rightarrow> 0)
                                  (case add of Some a \<Rightarrow> last_request_time a | None \<Rightarrow> 0),
         session_start := (case base of Some b \<Rightarrow> session_start b | None \<Rightarrow> 0),
         audience_channels := audience_channels upw @ (case base of Some b \<Rightarrow> audience_channels b | None \<Rightarrow> []),
         persistent_matches := merge_persistent_channels (map_option persistent_matches base)
           (map_option persistent_matches add),
         page_channels := merge_channels_info T (page_dict channels) now (map_option page_channels base)
           (map_option page_channels add),
         url_channels := merge_channels_info T (url_dict channels) now (map_option url_channels base)
           (map_option url_channels add),
         url_keyword_channels := merge_channels_info T (url_keyword_dict channels) now
           (map_option url_keyword_channels base) (map_option url_keyword_channels add),
         search_channels := merge_channels_info T (search_dict channels) now (map_option search_channels base)
           (map_option search_channels add)\<rparr>"

definition channels_merge ::
  "'t time_api \<Rightarrow> history_profile option option \<Rightarrow> 'b channels_profile option \<Rightarrow> history_profile option \<Rightarrow>
   't channel_dictionary \<Rightarrow> profile_match_params \<Rightarrow> 't \<Rightarrow> 'b channels_profile option \<Rightarrow>
   'b channels_profile option \<times> history_profile option option" where
  "channels_merge T history other_base other_history channels params merge_time base =
     (let b = (case base of Some p \<Rightarrow> p
               | None \<Rightarrow> empty_channels_profile
                   \<lparr>create_time := sec32 T merge_time, history_time := sec32 T merge_time,
                    first_colo_id := word_of_int (request_colo_id params),
                    last_colo_id := word_of_int (request_colo_id params)\<rparr>);
          o_history_time = (case other_base of Some q \<Rightarrow> history_time q | None \<Rightarrow> sec32 T merge_time);
          o_fraud_time = (case other_base of Some q \<Rightarrow> ignore_fraud_time q | None \<Rightarrow> 0);
          upw = empty_channels_profile
            \<lparr>cp_version := CURRENT_BASE_PROFILE_VERSION, create_time := create_time b,
             history_time := min (history_time b) o_history_time,
             ignore_fraud_time := max (ignore_fraud_time b) o_fraud_time,
             last_request_time := 0, session_start := 0,
             household := (if param_household params \<or> household b \<noteq> 0 then 1 else 0),
             first_colo_id := (if first_colo_id b \<noteq> UNKNOWN_COLO_ID \<and> first_colo_id b \<noteq> DEFAULT_COLO
                               then first_colo_id b else word_of_int (request_colo_id params)),
             last_colo_id := (if last_colo_id b \<noteq> UNKNOWN_COLO_ID then last_colo_id b
                              else word_of_int (request_colo_id params)),
             cohort := cohort b\<rparr>;
          merged = merge_profiles T upw channels (uint (last_request_time b)) base other_base;
          result = merged\<lparr>last_request_time := (if change_last_request params then sec32 T merge_time
                                                else last_request_time b)\<rparr>;
          hbase = (\<lambda>f. case history of Some (Some h) \<Rightarrow> f h | _ \<Rightarrow> []);
          hother = (\<lambda>f. case other_history of Some h \<Rightarrow> f h | None \<Rightarrow> []);
          hupw = \<lparr>minor_version = CURRENT_HISTORY_MINOR_PROFILE_VERSION,
             major_version = CURRENT_HISTORY_MAJOR_PROFILE_VERSION,
             h_page_channels = merge_history_data (page_dict channels) (hbase h_page_channels) (hother h_page_channels),
             h_search_channels = merge_history_data (search_dict channels) (hbase h_search_channels)
               (hother h_search_channels),
             h_url_channels = merge_history_data (url_dict channels) (hbase h_url_channels) (hother h_url_channels),
             h_url_keyword_channels = merge_history_data (url_keyword_dict channels) (hbase h_url_keyword_channels)
               (hother h_url_keyword_channels)\<rparr>
      in (Some result,
          case history of
            None \<Rightarrow> None
          | Some h \<Rightarrow> Some (if h \<noteq> None \<or> other_history \<noteq> None then Some hupw else h)))"

section \<open>Unique channels\<close>

record unique_channels =
  uc_unique :: "u64 set"
  uc_session :: "u64 set"
  uc_history :: "u64 set"

record all_unique_channels =
  auc_simple :: unique_channels
  auc_discover :: unique_channels
  found_session_channels :: "u64 set"
  found_history_channels :: "u64 set"

datatype unique_type = SESSION | HISTORY

record unique_channels_result =
  simple_channels :: nat
  session_simple_channels :: nat
  history_simple_channels :: nat
  discover_channels :: nat
  session_discover_channels :: nat
  history_discover_channels :: nat

definition in_dictionary :: "'t channel_dictionary \<Rightarrow> u64 \<Rightarrow> bool" where
  "in_dictionary d i =
     (if page_dict d i = None then
        if search_dict d i = None then
          if url_dict d i = None then url_keyword_dict d i \<noteq> None
          else True
        else True
      else True)"

definition add_unique :: "unique_type \<Rightarrow> u64 \<Rightarrow> unique_channels \<Rightarrow> unique_channels" where
  "add_unique ty i u =
     (case ty of
        SESSION \<Rightarrow> u\<lparr>uc_session := insert i (uc_session u), uc_unique := insert i (uc_unique u)\<rparr>
      | HISTORY \<Rightarrow> u\<lparr>uc_history := insert i (uc_history u), uc_unique := insert i (uc_unique u)\<rparr>)"

definition process_channel ::
  "'t channel_dictionary \<Rightarrow> unique_type \<Rightarrow> u64 \<Rightarrow> all_unique_channels \<Rightarrow> matcher_error + all_unique_channels" where
  "process_channel d ty i auc =
     (if i \<in> (case ty of SESSION \<Rightarrow> found_session_channels auc | HISTORY \<Rightarrow> found_history_channels auc)
      then Inr auc
      else if \<not> in_dictionary d i then Inr auc
      else (case channel_features_map d i of
              None \<Rightarrow> Inl Deref_end
            | Some f \<Rightarrow>
                let auc1 = (case ty of
                      SESSION \<Rightarrow> auc\<lparr>found_session_channels := insert i (found_session_channels auc)\<rparr>
                    | HISTORY \<Rightarrow> auc\<lparr>found_history_channels := insert i (found_history_channels auc)\<rparr>)
                in Inr (if discover f then auc1\<lparr>auc_discover := add_unique ty i (auc_discover auc1)\<rparr>
                        else auc1\<lparr>auc_simple := add_unique ty i (auc_simple auc1)\<rparr>)))"

fun process_channels_sequence ::
  "'t channel_dictionary \<Rightarrow> unique_type \<Rightarrow> u64 list \<Rightarrow> all_unique_channels \<Rightarrow> matcher_error + all_unique_channels" where
  "process_channels_sequence d ty [] auc = Inr auc"
| "process_channels_sequence d ty (i # is) auc =
     (case process_channel d ty i auc of
        Inl e \<Rightarrow> Inl e
      | Inr auc1 \<Rightarrow> process_channels_sequence d ty is auc1)"

text \<open>The ids of a section in the order in which they are processed.\<close>

definition section_ids :: "channels_info \<Rightarrow> u64 list" where
  "section_ids info =
     map (\<lambda>c. ucast (htc_channel_id c)) (ht_candidates info) @
     map (\<lambda>m. ucast (hm_channel_id m)) (history_matches info) @
     map (\<lambda>v. ucast (hv_channel_id v)) (history_visits info)"

definition collect_channel_ids :: "'b channels_profile option \<Rightarrow> u64 list" where
  "collect_channel_ids base =
     (case base of
        None \<Rightarrow> []
      | Some p \<Rightarrow> section_ids (page_channels p) @ section_ids (search_channels p) @
                  section_ids (url_channels p) @ section_ids (url_keyword_channels p))"

definition collect_history_channel_ids :: "history_profile option \<Rightarrow> u64 list" where
  "collect_history_channel_ids history =
     (case history of
        None \<Rightarrow> []
      | Some h \<Rightarrow> map (\<lambda>c. ucast (hci_channel_id c))
                    (h_page_channels h @ h_search_channels h @ h_url_channels h @ h_url_keyword_channels h))"

definition no_unique :: all_unique_channels where
  "no_unique =
     \<lparr>auc_simple = \<lparr>uc_unique = {}, uc_session = {}, uc_history = {}\<rparr>,
      auc_discover = \<lparr>uc_unique = {}, uc_session = {}, uc_history = {}\<rparr>,
      found_session_channels = {}, found_history_channels = {}\<rparr>"

definition unique_result_init :: "all_unique_channels \<Rightarrow> unique_channels_result" where
  "unique_result_init auc =
     \<lparr>simple_channels = card (uc_unique (auc_simple auc)),
      session_simple_channels = card (uc_session (auc_simple auc)),
      history_simple_channels = card (uc_history (auc_simple auc)),
      discover_channels = card (uc_unique (auc_discover auc)),
      session_discover_channels = card (uc_session (auc_discover auc)),
      history_discover_channels = card (uc_history (auc_discover auc))\<rparr>"

definition unique_channels ::
  "'b channels_profile option \<Rightarrow> history_profile option \<Rightarrow> 't channel_dictionary \<Rightarrow>
   matcher_error + unique_channels_result" where
  "unique_channels base history d =
     map_sum id unique_result_init
       (process_channels_sequence d HISTORY (collect_channel_ids base @ collect_history_channel_ids history) no_unique)"

section \<open>Observations\<close>

text \<open>The visits counted for a channel since the last history run.\<close>

definition visits_of :: "u32 \<Rightarrow> history_visit list \<Rightarrow> u32" where
  "visits_of k vs = (case key_find hv_channel_id k vs of None \<Rightarrow> 0 | Some v \<Rightarrow> hv_visits v)"

end
