(* ===== verification/ChannelProps.thy ===== *)
theory ChannelProps
  imports ChannelHistory
begin

text \<open>
  Properties of the channel matcher: the interval lists of the dictionary, the reduction of
  session timestamps, the decision whether enough visits fall into an interval, the counting of
  visits by a request, their transfer into the history of days and merging.
\<close>

section \<open>Interval lists\<close>

lemma intervals_empty [simp]: "intervals empty_interval_list = []"
  by (simp add: empty_interval_list_def)

text \<open>
  However the intervals of a channel arrive, \<open>ChannelIntervalList\<close> keeps them ordered by their
  begin, and its cached bounds are the largest end, the largest number of visits and the
  smallest window of the stored intervals.
\<close>

theorem interval_list_built_ok:
  fixes T :: "'t::{zero,linorder} time_api"
  defines "built \<equiv> \<lambda>cis. fold (interval_insert T) cis empty_interval_list"
  shows "interval_list_ok T (built cis) \<and> set (intervals (built cis)) = set cis"
proof -
  have "interval_list_ok T (fold (interval_insert T) cis l) \<and>
      set (intervals (fold (interval_insert T) cis l)) = set cis \<union> set (intervals l)"
    if "interval_list_ok T l" for l
    using that by (induction cis arbitrary: l) (auto simp: interval_insert_ok)
  from this [OF empty_interval_list_ok] show ?thesis
    unfolding built_def by (simp add: intervals_empty)
qed

section \<open>Reduction of timestamps\<close>

text \<open>Begin, candidate and number of entries of the window before and after it is shifted.\<close>

definition window_ok :: "nat \<Rightarrow> nat \<Rightarrow> nat \<Rightarrow> nat \<Rightarrow> nat \<Rightarrow> bool" where
  "window_ok m en be ca imps \<longleftrightarrow> be \<le> en \<and> imps = en - be \<and> be \<le> ca \<and> ca \<le> be + (imps - 2 * m)"

lemma shift_window_ok:
  assumes "window_ok m en be ca imps" "shift_window w xs en be ca imps = (be1, ca1, imps1)"
  shows "window_ok m en be1 ca1 imps1"
  using assms
proof (induction w xs en be ca imps rule: shift_window.induct)
  case (1 w xs en be ca imps)
  show ?case
  proof (cases "be < en \<and> w < ucast (xs ! en - xs ! be)")
    case True
    then have "window_ok m en (Suc be) (Suc be) (imps - 1)"
      using "1.prems"(1) by (auto simp: window_ok_def)
    then show ?thesis
      using "1.IH" True "1.prems"(2) by (simp add: shift_window.simps [of w xs en be])
  next
    case False
    then show ?thesis
      using "1.prems" by (subst (asm) shift_window.simps) (simp add: False)
  qed
qed

lemma subseq_erase: "subseq (take i xs @ drop (Suc i) xs) xs"
proof -
  have "suffix (drop (Suc i) xs) (drop i xs)"
    by (metis drop_drop plus_1_eq_Suc suffix_drop)
  then have "subseq (take i xs @ drop (Suc i) xs) (take i xs @ drop i xs)"
    by (simp add: subseq_append' suffix_imp_subseq del: append_take_drop_id)
  then show ?thesis by simp
qed

lemma excess_loop_ok:
  fixes max_vis :: u64
  assumes "0 < unat max_vis" "unat max_vis < 2 ^ 62"
    and "window_ok (unat max_vis) en be ca imps" "en \<le> length xs"
  shows "\<exists>ys. excess_loop max_vis w xs be ca en imps = Some ys \<and> subseq ys xs \<and>
    (xs \<noteq> [] \<longrightarrow> ys \<noteq> [] \<and> last ys = last xs) \<and> (length xs \<le> 4 * unat max_vis \<longrightarrow> ys = xs)"
  using assms
proof (induction max_vis w xs be ca en imps rule: excess_loop.induct)
  case (1 max_vis w xs be ca en imps)
  let ?m = "unat max_vis"
  have mult: "unat (2 * max_vis) = 2 * ?m" "unat (4 * max_vis) = 4 * ?m"
    using "1.prems"(2) by (simp_all add: unat_mult_lem [THEN iffD1])
  show ?case
  proof (cases "en < length xs")
    case False
    then show ?thesis by (simp add: excess_loop.simps [of max_vis w xs be])
  next
    case en: True
    obtain be1 ca1 imps1 where shift: "shift_window w xs en be ca imps = (be1, ca1, imps1)"
      by (cases "shift_window w xs en be ca imps")
    note win = shift_window_ok [OF "1.prems"(3) shift, unfolded window_ok_def]
    define ca2 where "ca2 = (if imps1 > 2 * ?m then Suc ca1 else ca1)"
    show ?thesis
    proof (cases "4 * ?m \<le> imps1")
      case True
      let ?zs = "take ca2 xs @ drop (Suc ca2) xs"
      have pos: "be1 < ca2" "ca2 < en" "ca2 = Suc ca1"
        using True win "1.prems"(1) by (auto simp: ca2_def)
      have imps: "Suc (imps1 - Suc 0) = imps1"
        using True "1.prems"(1) by simp
      have unfold: "excess_loop max_vis w xs be ca en imps = excess_loop max_vis w ?zs be1 ca1 en imps1"
        using en True pos imps
        by (subst excess_loop.simps) (simp add: shift mult ca2_def [symmetric])
      have "window_ok ?m en be1 ca1 imps1" "en \<le> length ?zs"
        using win pos en by (auto simp: window_ok_def)
      then obtain ys where ys: "excess_loop max_vis w ?zs be1 ca1 en imps1 = Some ys" "subseq ys ?zs"
        "?zs \<noteq> [] \<longrightarrow> ys \<noteq> [] \<and> last ys = last ?zs"
        using "1.IH"(1) [OF en shift [symmetric] refl refl ca2_def [folded mult(1)]] True pos en imps "1.prems"(1,2)
        by (auto simp: mult)
      have last: "?zs \<noteq> []" "last ?zs = last xs"
        using pos en by (auto simp: last_drop)
      moreover have "subseq ys xs"
        using ys(2) subseq_erase by (rule subseq_order.trans)
      moreover have "\<not> length xs \<le> 4 * ?m"
        using True win en by simp
      ultimately show ?thesis
        using ys unfolding unfold by auto
    next
      case False
      have unfold: "excess_loop max_vis w xs be ca en imps = excess_loop max_vis w xs be1 ca2 (Suc en) (Suc imps1)"
        using en False by (subst excess_loop.simps) (simp add: shift mult ca2_def [symmetric])
      have "window_ok ?m (Suc en) be1 ca2 (Suc imps1)"
        using win by (auto simp: window_ok_def ca2_def)
      then show ?thesis
        unfolding unfold
        using "1.IH"(2) [OF en shift [symmetric] refl refl ca2_def [folded mult(1)]] False en "1.prems"(1,2)
        by (simp add: mult)
    qed
  qed
qed

text \<open>
  \<open>delete_excess_timestamps_\<close> never uses an iterator it has invalidated, for any contents of the
  list, as long as the configured number of visits is below $2^{62}$. It only removes
  timestamps, never the latest one, and none while the list has at most four times the
  configured number of visits.
\<close>

theorem delete_excess_timestamps_safe:
  assumes "unat (pref_max_visits cil) < 2 ^ 62"
  shows "\<exists>ys. delete_excess_timestamps wr cil = Some ys \<and> subseq ys wr \<and>
    (pref_max_visits cil \<noteq> 0 \<and> wr \<noteq> [] \<longrightarrow> ys \<noteq> [] \<and> last ys = last wr) \<and>
    (pref_max_visits cil \<noteq> 0 \<and> length wr \<le> 4 * unat (pref_max_visits cil) \<longrightarrow> ys = wr)"
proof (cases "pref_max_visits cil = 0")
  case False
  then have "0 < unat (pref_max_visits cil)" by (simp add: unat_gt_0)
  from excess_loop_ok [OF this assms, where be = 0 and ca = 0 and en = 0 and imps = 0 and xs = wr
      and w = "pref_min_window_size cil"] False
  show ?thesis by (simp add: delete_excess_timestamps_def window_ok_def)
qed (simp add: delete_excess_timestamps_def)

definition example_intervals :: "int interval_list" where
  "example_intervals = fold (interval_insert usec_time)
     [\<lparr>time_from = 0, time_to = 60000000, min_visits = 1, ci_weight = 5\<rparr>] empty_interval_list"

lemma example_intervals_eq:
  "example_intervals =
     \<lparr>intervals = [\<lparr>time_from = 0, time_to = 60000000, min_visits = 1, ci_weight = 5\<rparr>],
      pref_max_time_to = 60000000, pref_max_visits = 1, pref_min_window_size = 60\<rparr>"
  unfolding example_intervals_def by code_simp

theorem delete_excess_timestamps_safe_witness:
  "\<exists>ys. delete_excess_timestamps [100, 101, 102, 103, 104, 105] example_intervals = Some ys \<and>
     subseq ys [100, 101, 102, 103, 104, 105] \<and> last ys = 105"
  using delete_excess_timestamps_safe [of example_intervals "[100, 101, 102, 103, 104, 105]"]
  by (auto simp: example_intervals_eq)

section \<open>Visits in an interval\<close>

lemma visits_reached_spec:
  assumes "sorted dvs" "vis \<noteq> 0"
  shows "visits_reached now t_from t_to vis dvs \<longleftrightarrow>
    unat vis \<le> length (filter (\<lambda>dv. t_from \<le> now - uint dv \<and> now - uint dv \<le> t_to) dvs)"
  using assms
proof (induction now t_from t_to vis dvs rule: visits_reached.induct)
  case (2 now t_from t_to vis dv dvs)
  have dec: "unat vis = Suc (unat (vis - 1))"
    using "2.prems"(2) by (simp add: unat_minus_one unat_gt_0)
  show ?case
  proof (cases "now - uint dv < t_from")
    case True
    have "now - uint d < t_from" if "d \<in> set dvs" for d
      using that True "2.prems"(1) by (fastforce simp: word_le_def)
    then have "filter (\<lambda>d. t_from \<le> now - uint d \<and> now - uint d \<le> t_to) (dv # dvs) = []"
      using True by (auto simp: filter_empty_conv not_le)
    then show ?thesis
      using True dec by (simp del: filter.simps)
  next
    case False
    then show ?thesis
      using 2 dec by (auto simp: unat_eq_0)
  qed
qed (simp add: unat_gt_0)

text \<open>
  For a channel whose timestamps are in ascending order, the loop over the timestamps decides
  whether the number of visits that fall into the interval reaches the configured number.
\<close>

theorem visits_reached_counts:
  assumes "sorted dvs" "vis \<noteq> 0"
  shows "visits_reached now t_from t_to vis dvs \<longleftrightarrow>
    unat vis \<le> length (filter (\<lambda>dv. t_from \<le> now - uint dv \<and> now - uint dv \<le> t_to) dvs)"
  using assms by (rule visits_reached_spec)

theorem visits_reached_counts_witness:
  "visits_reached 200 10 60 2 [100, 150, 170, 195] \<longleftrightarrow>
     unat (2 :: u64) \<le> length (filter (\<lambda>dv. 10 \<le> 200 - uint dv \<and> 200 - uint dv \<le> 60) [100, 150, 170, 195 :: u32])"
  using visits_reached_counts [of "[100, 150, 170, 195]" 2 200 10 60] by simp

text \<open>
  C26. Dropping the timestamps that \<open>check_ts_\<close> drops never changes the decision for an interval of
  the channel, now or later.
\<close>

theorem check_ts_keeps_decisions:
  fixes T :: "'t::{zero,linorder} time_api"
  assumes "interval_list_ok T cil" "ci \<in> set (intervals cil)" "mono (tv_sec T)"
    and "0 \<le> tv_sec T (pref_max_time_to cil)" "tv_sec T (pref_max_time_to cil) < 2 ^ 63"
    and "sorted dvs" "min_visits ci \<noteq> 0" "now \<le> now'"
  shows "visits_reached now' (tv_sec T (time_from ci)) (tv_sec T (time_to ci)) (min_visits ci) (check_ts T now cil dvs) =
    visits_reached now' (tv_sec T (time_from ci)) (tv_sec T (time_to ci)) (min_visits ci) dvs"
proof -
  have "time_to ci \<le> pref_max_time_to cil"
    using assms(1,2) unfolding interval_list_ok_def by (metis Max_ge finite_imageI finite_insert finite_set image_eqI insertI2)
  then have "tv_sec T (time_to ci) \<le> tv_sec T (pref_max_time_to cil)"
    using assms(3) by (simp add: mono_def)
  moreover have "sint (max_time_to T cil) = tv_sec T (pref_max_time_to cil)"
    using assms(4,5) by (simp add: max_time_to_def signed_of_int signed_take_bit_int_eq_self)
  ultimately have "filter (\<lambda>dv. tv_sec T (time_from ci) \<le> now' - uint dv \<and> now' - uint dv \<le> tv_sec T (time_to ci))
      (check_ts T now cil dvs) =
    filter (\<lambda>dv. tv_sec T (time_from ci) \<le> now' - uint dv \<and> now' - uint dv \<le> tv_sec T (time_to ci)) dvs"
    using assms(8) unfolding check_ts_def filter_filter by (intro filter_cong) auto
  moreover have "sorted (check_ts T now cil dvs)"
    using assms(6) by (simp add: check_ts_def sorted_wrt_filter)
  ultimately show ?thesis
    using assms(6,7) by (simp add: visits_reached_spec)
qed

theorem check_ts_keeps_decisions_witness:
  "visits_reached 160 0 60 1 (check_ts usec_time 150 example_intervals [20, 140]) = visits_reached 160 0 60 1 [20, 140]"
proof -
  have "interval_list_ok usec_time example_intervals"
    unfolding example_intervals_def by (simp add: interval_insert_ok)
  moreover have "mono (tv_sec usec_time)"
    using usec_time_laws by (simp add: time_laws_def)
  moreover have "tv_sec usec_time 60000000 = 60" "tv_sec usec_time 0 = 0" by (simp_all add: usec_time_def)
  ultimately show ?thesis
    using check_ts_keeps_decisions [where T = usec_time and cil = example_intervals and now = 150 and now' = 160
        and dvs = "[20, 140]" and ci = "\<lparr>time_from = 0, time_to = 60000000, min_visits = 1, ci_weight = 5\<rparr>"]
    by (simp add: example_intervals_eq)
qed

section \<open>Counting the visits of a request\<close>

interpretation visits: keyed_merge hv_channel_id rhv_channel_id HistoryVisitLess HistoryVisitLess_delta
  HistoryVisitMerge hv_channel_id
  by unfold_locales (auto simp: HistoryVisitLess_def HistoryVisitLess_delta_def HistoryVisitMerge_def)

interpretation visit_pairs: keyed_merge hv_channel_id hv_channel_id "ChannelIdLess hv_channel_id hv_channel_id"
  "ChannelIdLess hv_channel_id hv_channel_id" HistoryVisitsMerge hv_channel_id
  by unfold_locales (auto simp: ChannelIdLess_def HistoryVisitsMerge_def)

interpretation sessions: keyed_merge sm_channel_id rsm_channel_id SessionMatchLess SessionMatchLess_delta
  RequestSessionMatchesMerge sm_channel_id
  by unfold_locales (auto simp: SessionMatchLess_def SessionMatchLess_delta_def RequestSessionMatchesMerge_def)

text \<open>A channel of the dictionary whose visits are kept for days.\<close>

definition has_long :: "'t channels_map \<Rightarrow> u64 \<Rightarrow> bool" where
  "has_long dict c =
     (case dict c of None \<Rightarrow> False
      | Some cip \<Rightarrow> intervals (long_intervals cip) \<noteq> [] \<or> intervals (today_long_intervals cip) \<noteq> [])"

lemma section_delta_visits:
  "delta_history_visits (fst (fold (\<lambda>c. add_channel_visit now c dict) cs st)) =
     delta_history_visits (fst st) @ map (\<lambda>c. \<lparr>rhv_channel_id = ucast c, rhv_visits = 1\<rparr>) (filter (has_long dict) cs)"
  by (induction cs arbitrary: st)
     (auto simp: add_channel_visit_def has_long_def Let_def case_prod_unfold split: option.split)

lemma merge_delta_visits:
  "history_visits (merge_request_channels_delta T dict now base delta) =
     filter (ExistingHistoryVisit dict) (map (emit_case HistoryVisitWriterAdapter make_history_visit_writer HistoryVisitWriterAdapter)
       (visits.trace (case base of Some b \<Rightarrow> history_visits b | None \<Rightarrow> []) (delta_history_visits delta)))"
  by (cases base) (simp_all add: merge_request_channels_delta_def merge_unique_trace Let_def)

lemma visit_emit_key:
  "hv_channel_id (emit_case HistoryVisitWriterAdapter make_history_visit_writer HistoryVisitWriterAdapter e) = visits.ekey e"
  by (cases e) (auto simp: HistoryVisitWriterAdapter_def make_history_visit_writer_def)

text \<open>
  Matching a section of a request counts one visit for every channel of the request that has
  intervals of a day or longer; the visits of other known channels stay as they were, and
  channels that left the dictionary are forgotten.
\<close>

theorem match_section_counts_visits:
  assumes "key_sorted hv_channel_id (case base of Some b \<Rightarrow> history_visits b | None \<Rightarrow> [])"
    and "sorted_wrt (<) channels" "\<forall>c\<in>set channels. fits32 c"
  shows "visits_of k (history_visits (snd (match_section T res base channels dict now))) =
    (if dict (ucast k) = None then 0
     else visits_of k (case base of Some b \<Rightarrow> history_visits b | None \<Rightarrow> []) +
          (if ucast k \<in> set channels \<and> has_long dict (ucast k) then 1 else 0))"
proof -
  let ?base = "case base of Some b \<Rightarrow> history_visits b | None \<Rightarrow> []"
  let ?delta = "map (\<lambda>c. \<lparr>rhv_channel_id = ucast c :: u32, rhv_visits = 1\<rparr>) (filter (has_long dict) channels)"
  let ?emit = "emit_case HistoryVisitWriterAdapter make_history_visit_writer HistoryVisitWriterAdapter"
  have delta: "key_sorted rhv_channel_id (map (\<lambda>c. \<lparr>rhv_channel_id = ucast c :: u32, rhv_visits = 1\<rparr>) cs) \<and>
      key_find rhv_channel_id k (map (\<lambda>c. \<lparr>rhv_channel_id = ucast c :: u32, rhv_visits = 1\<rparr>) cs) =
        (if ucast k \<in> set cs then Some \<lparr>rhv_channel_id = k, rhv_visits = 1\<rparr> else None)"
    if "sorted_wrt (<) cs" "\<forall>c\<in>set cs. fits32 c" for cs :: "u64 list"
    using that
  proof (induction cs)
    case (Cons c cs)
    have "(ucast c :: u32) < ucast d" if "d \<in> set cs" for d
      using that Cons.prems by (metis fits32_ucast list.set_intros sorted_wrt.simps(2) u64_of_u32_less)
    moreover have "(ucast c :: u32) = k \<longleftrightarrow> c = ucast k"
      using Cons.prems(2) by (metis fits32_ucast list.set_intros(1) u32_of_u64_of_u32)
    ultimately show ?case using Cons by auto
  qed simp
  note d = delta [of "filter (has_long dict) channels"]
  have sorted: "key_sorted rhv_channel_id ?delta"
    using d assms(2,3) by (simp add: sorted_wrt_filter)
  have found: "key_find rhv_channel_id k ?delta =
      (if ucast k \<in> set channels \<and> has_long dict (ucast k) then Some \<lparr>rhv_channel_id = k, rhv_visits = 1\<rparr> else None)"
    using d assms(2,3) by (simp add: sorted_wrt_filter)
  let ?tr = "visits.trace ?base ?delta"
  have out: "history_visits (snd (match_section T res base channels dict now)) =
      filter (ExistingHistoryVisit dict) (map ?emit ?tr)"
    by (simp add: match_section_def case_prod_unfold Let_def merge_delta_visits section_delta_visits empty_delta_def)
  have s: "key_sorted hv_channel_id (map ?emit ?tr)"
    using visits.trace_sorted [OF assms(1) sorted]
    by (subst key_sorted_map [where key = visits.ekey]) (simp_all add: visit_emit_key)
  have f: "key_find hv_channel_id k (map ?emit ?tr) = map_option ?emit (key_find visits.ekey k ?tr)"
    by (intro key_find_map visit_emit_key)
  note tr = visits.trace_find [OF assms(1) sorted, of k, unfolded found]
  show ?thesis
  proof (cases "key_find hv_channel_id k ?base")
    case None
    then show ?thesis
      unfolding visits_of_def out key_find_filter [OF s] f tr
      by (simp add: ExistingHistoryVisit_def make_history_visit_writer_def)
  next
    case (Some v)
    then have "hv_channel_id v = k" by (auto dest: key_find_SomeD)
    with Some show ?thesis
      unfolding visits_of_def out key_find_filter [OF s] f tr
      by (simp add: ExistingHistoryVisit_def HistoryVisitWriterAdapter_def HistoryVisitMerge_def)
  qed
qed

definition example_pack :: "int intervals_pack" where
  "example_pack = init_ht_candidate_templates (push_channel_interval usec_time 86400000000
     \<lparr>time_from = 0, time_to = 3 * 86400000000, min_visits = 2, ci_weight = 7\<rparr> empty_pack)"

definition example_dict :: "int channels_map" where
  "example_dict = [4 \<mapsto> example_pack]"

lemma example_pack_eq:
  "example_pack = empty_pack
     \<lparr>today_long_intervals :=
        \<lparr>intervals = [\<lparr>time_from = 0, time_to = 3 * 86400000000, min_visits = 2, ci_weight = 7\<rparr>],
         pref_max_time_to = 3 * 86400000000, pref_max_visits = 2, pref_min_window_size = 259200\<rparr>,
      ht_candidate_templates := [\<lparr>tpl_min_visits = 2, tpl_req_visits = 1, tpl_weight = 0\<rparr>]\<rparr>"
  unfolding example_pack_def by code_simp

theorem match_section_counts_visits_witness:
  "visits_of 4 (history_visits (snd (match_section usec_time Map.empty
     (Some (empty_channels_info\<lparr>history_visits := [\<lparr>hv_channel_id = 4, hv_visits = 2\<rparr>]\<rparr>)) [4, 9] example_dict 1000))) = 3"
  using match_section_counts_visits [of "Some (empty_channels_info\<lparr>history_visits := [\<lparr>hv_channel_id = 4, hv_visits = 2\<rparr>]\<rparr>)"
      "[4, 9]" 4 usec_time Map.empty example_dict 1000]
  by (simp add: fits32_def example_dict_def has_long_def example_pack_eq visits_of_def)

end
