(* ===== verification/ChannelHistoryProps.thy ===== *)
theory ChannelHistoryProps
  imports ChannelHistory
begin

text \<open>
  Properties of the operations on the history of days, on two users and on the header of a
  profile.
\<close>

section \<open>The history of days\<close>

text \<open>The visits recorded for a number of days ago, and for a channel.\<close>

definition day_sum :: "u32 \<Rightarrow> days_visits list \<Rightarrow> u32" where
  "day_sum d dvs = sum_list (map dv_visits (filter (\<lambda>dv. dv_days dv = d) dvs))"

definition day_visits :: "u32 \<Rightarrow> u32 \<Rightarrow> history_channel_info list \<Rightarrow> u32" where
  "day_visits k d hs = (case key_find hci_channel_id k hs of None \<Rightarrow> 0 | Some h \<Rightarrow> day_sum d (hci_days_visits h))"

lemma day_sum_simps [simp]:
  "day_sum d [] = 0"
  "day_sum d (dv # dvs) = (if dv_days dv = d then dv_visits dv else 0) + day_sum d dvs"
  "day_sum d (xs @ ys) = day_sum d xs + day_sum d ys"
  by (simp_all add: day_sum_def)

lemma shift_days_u32: "shift_days (ucast off) dv = \<lparr>dv_days = dv_days dv + off, dv_visits = dv_visits dv\<rparr>"
  by (simp add: shift_days_def u32_of_u64_add)

lemma day_sum_shift: "day_sum d (map (shift_days (ucast off)) dvs) = day_sum (d - off) dvs"
  by (induction dvs) (auto simp: shift_days_u32 algebra_simps)

lemma day_sum_cut: "day_sum d (filter (\<lambda>dv. ucast (dv_days dv) < m) dvs) = (if ucast d < m then day_sum d dvs else 0)"
  by (induction dvs) auto

lemma day_sum_merge_visits:
  "day_sum d (hci_days_visits (HistoryChannelInfoHistoryVisitsMerge (ucast off) l r)) =
     day_sum (d - off) (hci_days_visits l) + (if d = off then hv_visits r else 0)"
  by (auto simp: HistoryChannelInfoHistoryVisitsMerge_def day_sum_shift shift_days_u32 eq_diff_eq split: list.split)

interpretation day_pairs: keyed_merge dv_days dv_days DaysVisitsLess DaysVisitsLess DaysVisitsMerge dv_days
  by unfold_locales (auto simp: DaysVisitsLess_def DaysVisitsMerge_def)

interpretation hist_visits: keyed_merge hci_channel_id hv_channel_id "ChannelIdLess hci_channel_id hv_channel_id"
  "ChannelIdLess hv_channel_id hci_channel_id" "HistoryChannelInfoHistoryVisitsMerge days" hci_channel_id for days
  by unfold_locales (auto simp: ChannelIdLess_def HistoryChannelInfoHistoryVisitsMerge_def)

interpretation hist_pairs: keyed_merge hci_channel_id hci_channel_id "ChannelIdLess hci_channel_id hci_channel_id"
  "ChannelIdLess hci_channel_id hci_channel_id" HistoryChannelInfoMerge hci_channel_id
  by unfold_locales (auto simp: ChannelIdLess_def HistoryChannelInfoMerge_def)

text \<open>What the cleaner and the filter leave of a channel.\<close>

definition max_days :: "'t time_api \<Rightarrow> 't intervals_pack \<Rightarrow> u64" where
  "max_days T cip =
     max (max_time_to T (long_intervals cip)) (max_time_to T (today_long_intervals cip)) div SEC_IN_DAY"

lemma HistoryChannelInfoCleaner_id [simp]: "hci_channel_id (HistoryChannelInfoCleaner T dict h) = hci_channel_id h"
  by (simp add: HistoryChannelInfoCleaner_def)

lemma day_visits_cleaned:
  assumes "key_sorted hci_channel_id hs"
  shows "day_visits k d (filter (HistoryChannelInfoFilter dict) (map (HistoryChannelInfoCleaner T dict) hs)) =
    (case dict (ucast k) of None \<Rightarrow> 0 | Some cip \<Rightarrow> if ucast d < max_days T cip then day_visits k d hs else 0)"
proof -
  let ?hs = "map (HistoryChannelInfoCleaner T dict) hs"
  have s: "key_sorted hci_channel_id ?hs"
    using assms by (subst key_sorted_map [where key = hci_channel_id]) auto
  have f: "key_find hci_channel_id k ?hs = map_option (HistoryChannelInfoCleaner T dict) (key_find hci_channel_id k hs)"
    by (intro key_find_map) simp
  show ?thesis
  proof (cases "key_find hci_channel_id k hs")
    case None
    then show ?thesis
      unfolding day_visits_def key_find_filter [OF s] f by (simp split: option.split)
  next
    case (Some h)
    then have "hci_channel_id h = k" by (auto dest: key_find_SomeD)
    show ?thesis
    proof (cases "dict (ucast k)")
      case None
      with Some \<open>hci_channel_id h = k\<close> show ?thesis
        unfolding day_visits_def key_find_filter [OF s] f by (simp add: HistoryChannelInfoFilter_def)
    next
      case dict: (Some cip)
      let ?dvs = "filter (\<lambda>dv. ucast (dv_days dv) < max_days T cip) (hci_days_visits h)"
      have clean: "hci_days_visits (HistoryChannelInfoCleaner T dict h) = ?dvs"
        using dict \<open>hci_channel_id h = k\<close> by (simp add: HistoryChannelInfoCleaner_def max_days_def Let_def)
      have "day_sum d ?dvs = (if ucast d < max_days T cip then day_sum d (hci_days_visits h) else 0)"
        by (rule day_sum_cut)
      moreover have "day_sum d ?dvs = 0" if "?dvs = []"
        unfolding that by simp
      ultimately show ?thesis
        using Some dict \<open>hci_channel_id h = k\<close>
        unfolding day_visits_def key_find_filter [OF s] f
        by (cases "?dvs = []") (simp_all add: HistoryChannelInfoFilter_def clean split: if_splits)
    qed
  qed
qed

text \<open>
  C27. The daily run loses and invents no visits: for a known channel, the visits recorded for a
  day of the new history are those recorded for the same date before, plus, for the day of the
  last run, the visits counted since then; days outside all intervals of the channel are cut
  off.
\<close>

theorem history_optimize_transfers_visits:
  assumes "key_sorted hci_channel_id hist" "key_sorted hv_channel_id (history_visits info)"
  shows "day_visits k d (snd (history_optimize_section T hist info dict (ucast days) now)) =
    (case dict (ucast k) of
       None \<Rightarrow> 0
     | Some cip \<Rightarrow> if ucast d < max_days T cip
                   then day_visits k (d - days) hist + (if d = days then visits_of k (history_visits info) else 0)
                   else 0)"
proof -
  let ?conv = "emit_case (HistoryChannelInfoConverter (ucast days)) (HistoryChannelInfoConverter_visits (ucast days)) id"
  let ?tr = "hist_visits.trace (ucast days) hist (history_visits info)"
  have key: "hci_channel_id (?conv e) = hist_visits.ekey e" for e
    by (cases e) (auto simp: HistoryChannelInfoConverter_def HistoryChannelInfoConverter_visits_def)
  have out: "snd (history_optimize_section T hist info dict (ucast days) now) =
      filter (HistoryChannelInfoFilter dict) (map (HistoryChannelInfoCleaner T dict) (map ?conv ?tr))"
    by (cases hist) (simp_all add: history_optimize_section_def Let_def merge_unique_trace del: map_map)
  have s: "key_sorted hci_channel_id (map ?conv ?tr)"
    using hist_visits.trace_sorted [OF assms] by (subst key_sorted_map [where key = hist_visits.ekey]) (simp_all add: key)
  have f: "key_find hci_channel_id k (map ?conv ?tr) = map_option ?conv (key_find hist_visits.ekey k ?tr)"
    by (intro key_find_map key)
  note tr = hist_visits.trace_find [OF assms, of k "ucast days"]
  have day: "day_visits k d (map ?conv ?tr) =
      day_visits k (d - days) hist + (if d = days then visits_of k (history_visits info) else 0)"
    by (cases "key_find hci_channel_id k hist"; cases "key_find hv_channel_id k (history_visits info)")
       (simp_all add: day_visits_def visits_of_def f tr HistoryChannelInfoConverter_def
          HistoryChannelInfoConverter_visits_def day_sum_shift day_sum_merge_visits)
  show ?thesis
    unfolding out day_visits_cleaned [OF s] day by (rule refl)
qed

section \<open>Merging two users\<close>

lemma days_merge_fields:
  "dv_days (DaysVisitsMerge l r) = dv_days l" "dv_visits (DaysVisitsMerge l r) = dv_visits l + dv_visits r"
  by (simp_all add: DaysVisitsMerge_def)

lemma day_sum_merge: "day_sum d (hci_days_visits (HistoryChannelInfoMerge l r)) = day_sum d (hci_days_visits l) + day_sum d (hci_days_visits r)"
proof -
  have "day_sum d (map (emit_case id id id) (day_pairs.trace xs ys)) = day_sum d xs + day_sum d ys" for xs ys
  proof (induction xs ys rule: two_list_walk_induct)
    case (Step x xs y ys)
    show ?case
    proof (cases x y rule: day_pairs.trace_front_cases)
      case lt
      then show ?thesis using Step by (simp add: day_pairs.trace_lt algebra_simps del: merge_trace.simps)
    next
      case gt
      then show ?thesis using Step by (simp add: day_pairs.trace_gt algebra_simps del: merge_trace.simps)
    next
      case eq
      then show ?thesis
        using Step by (auto simp: day_pairs.trace_eq days_merge_fields algebra_simps simp del: merge_trace.simps)
    qed
  qed (simp_all add: comp_def)
  then show ?thesis by (simp add: HistoryChannelInfoMerge_def merge_unique_trace)
qed

text \<open>
  C28. Merging the histories of two users adds, for every known channel and every day, the visits
  of the two users.
\<close>

theorem merge_history_adds_visits:
  assumes "key_sorted hci_channel_id base" "key_sorted hci_channel_id add"
  shows "day_visits k d (merge_history_data dict base add) =
    (if dict (ucast k) = None then 0 else day_visits k d base + day_visits k d add)"
proof -
  let ?tr = "hist_pairs.trace base add"
  have key: "hci_channel_id (emit_case id id id e) = hist_pairs.ekey e" for e
    by (cases e) auto
  have s: "key_sorted hci_channel_id (map (emit_case id id id) ?tr)"
    using hist_pairs.trace_sorted [OF assms] by (subst key_sorted_map [where key = hist_pairs.ekey]) (simp_all add: key)
  have f: "key_find hci_channel_id k (map (emit_case id id id) ?tr) =
      map_option (emit_case id id id) (key_find hist_pairs.ekey k ?tr)"
    by (intro key_find_map key)
  have sum: "day_visits k d (map (emit_case id id id) ?tr) = day_visits k d base + day_visits k d add"
    by (cases "key_find hci_channel_id k base"; cases "key_find hci_channel_id k add")
       (simp_all add: day_visits_def f hist_pairs.trace_find [OF assms] day_sum_merge)
  have "day_visits k d (filter (HistoryChannelInfoFilter dict) hs) =
      (if dict (ucast k) = None then 0 else day_visits k d hs)" if "key_sorted hci_channel_id hs" for hs
    using key_find_SomeD [of hci_channel_id k hs]
    by (cases "key_find hci_channel_id k hs")
       (auto simp: day_visits_def key_find_filter [OF that] HistoryChannelInfoFilter_def)
  from this [OF s] show ?thesis
    by (simp add: merge_history_data_def merge_unique_trace sum)
qed

theorem merge_history_adds_visits_witness:
  "day_visits 4 1 (merge_history_data [4 \<mapsto> (empty_pack :: int intervals_pack)]
     [\<lparr>hci_channel_id = 4, hci_days_visits = [\<lparr>dv_days = 1, dv_visits = 2\<rparr>]\<rparr>]
     [\<lparr>hci_channel_id = 4, hci_days_visits = [\<lparr>dv_days = 0, dv_visits = 9\<rparr>, \<lparr>dv_days = 1, dv_visits = 3\<rparr>]\<rparr>]) = 5"
  using merge_history_adds_visits [where base = "[\<lparr>hci_channel_id = 4, hci_days_visits = [\<lparr>dv_days = 1, dv_visits = 2\<rparr>]\<rparr>]"
      and add = "[\<lparr>hci_channel_id = 4, hci_days_visits = [\<lparr>dv_days = 0, dv_visits = 9\<rparr>, \<lparr>dv_days = 1, dv_visits = 3\<rparr>]\<rparr>]"
      and k = 4 and d = 1 and dict = "[4 \<mapsto> (empty_pack :: int intervals_pack)]"]
  by (simp add: day_visits_def)

theorem history_optimize_transfers_visits_witness:
  "day_visits 4 1 (snd (history_optimize_section usec_time
     [\<lparr>hci_channel_id = 4, hci_days_visits = [\<lparr>dv_days = 0, dv_visits = 2\<rparr>]\<rparr>]
     (empty_channels_info\<lparr>history_visits := [\<lparr>hv_channel_id = 4, hv_visits = 3\<rparr>]\<rparr>)
     [4 \<mapsto> empty_pack\<lparr>long_intervals := empty_interval_list\<lparr>pref_max_time_to := 864000000000\<rparr>\<rparr>] (ucast (1 :: u32)) 90000)) = 5"
  using history_optimize_transfers_visits [where T = usec_time
      and hist = "[\<lparr>hci_channel_id = 4, hci_days_visits = [\<lparr>dv_days = 0, dv_visits = 2\<rparr>]\<rparr>]"
      and info = "empty_channels_info\<lparr>history_visits := [\<lparr>hv_channel_id = 4, hv_visits = 3\<rparr>]\<rparr>"
      and dict = "[4 \<mapsto> empty_pack\<lparr>long_intervals := empty_interval_list\<lparr>pref_max_time_to := 864000000000\<rparr>\<rparr>]"
      and k = 4 and d = 1 and days = 1 and now = 90000]
  by (simp add: day_visits_def visits_of_def max_days_def max_time_to_def usec_time_def empty_pack_def
      empty_interval_list_def SEC_IN_DAY_def)

section \<open>Candidates of today\<close>

text \<open>
  A visit of a request lowers the visits a candidate still requires by one, down to zero, adds
  one visit, and gives the candidate the weight of the interval exactly when none is missing,
  for the templates the configuration builds.
\<close>

theorem candidate_visit_counts_down:
  fixes ci :: "'t channel_interval"
  assumes "tpl = ht_template ci" "0 < unat (min_visits ci)" "unat (min_visits ci) < 2 ^ 31"
    and "unat (req_visits base) < 2 ^ 31"
    and "delta = \<lparr>rhc_channel_id = c, rhc_min_visits = ucast (tpl_min_visits tpl),
      rhc_req_visits = ucast (tpl_req_visits tpl), rhc_visits = 1, rhc_weight = w\<rparr>"
  shows "unat (req_visits (HTCandidateMerge base delta)) = unat (req_visits base) - 1 \<and>
    htc_visits (HTCandidateMerge base delta) = htc_visits base + 1 \<and>
    htc_weight (HTCandidateMerge base delta) = (if unat (req_visits base) \<le> 1 then w else 0)"
proof -
  let ?m = "min_visits ci"
  have "(ucast (?m - 1) :: u32) = ucast ?m - 1"
  proof -
    have "uint (?m - 1) = uint ?m - 1"
      using assms(2) by (simp add: uint_minus_simple_alt [THEN iffD1] word_le_nat_alt)
    then have "uint (ucast (?m - 1) :: u32) = uint (ucast ?m - 1 :: u32)"
      by (simp add: unsigned_ucast_eq uint_word_ariths take_bit_eq_mod mod_diff_left_eq)
    then show ?thesis by (rule unsigned_word_eqI)
  qed
  then have v: "req_visits base + rhc_req_visits delta - rhc_min_visits delta = req_visits base - 1"
    by (simp add: assms(1,5) ht_template_def Let_def)
  define req where "req = (if sint (req_visits base - 1) < 0 then 0 else req_visits base - 1)"
  have m: "HTCandidateMerge base delta = \<lparr>htc_channel_id = c, req_visits = req,
      htc_visits = htc_visits base + 1, htc_weight = (if req = 0 then w else 0)\<rparr>"
    unfolding HTCandidateMerge_def v Let_def req_def by (simp add: assms(5))
  show ?thesis
  proof (cases "req_visits base = 0")
    case True
    then show ?thesis unfolding m by (simp add: req_def)
  next
    case False
    then have u: "unat (req_visits base - 1) = unat (req_visits base) - 1"
      by (simp add: unat_minus_one)
    then have "unat (req_visits base - 1) < 2 ^ 31"
      using assms(4) by simp
    then have "int (unat (req_visits base - 1)) < int (2 ^ 31)" by (simp only: of_nat_less_iff)
    then have "uint (req_visits base - 1) < 2 ^ 31" by simp
    then have "sint (req_visits base - 1) = uint (req_visits base - 1)"
      unfolding sint_uint
      by (intro signed_take_bit_int_eq_self) (simp_all add: order.trans [OF _ unsigned_greater_eq])
    then have "\<not> sint (req_visits base - 1) < 0" by simp
    moreover have "req_visits base - 1 = 0 \<longleftrightarrow> unat (req_visits base) \<le> 1"
      using u False by (metis diff_is_0_eq unat_eq_zero)
    ultimately show ?thesis
      using u unfolding m by (simp add: req_def)
  qed
qed

theorem candidate_visit_counts_down_witness:
  "unat (req_visits (HTCandidateMerge \<lparr>htc_channel_id = 4, req_visits = 1, htc_visits = 2, htc_weight = 0\<rparr>
     \<lparr>rhc_channel_id = 4, rhc_min_visits = 3, rhc_req_visits = 2, rhc_visits = 1, rhc_weight = 7\<rparr>)) = 0"
  using candidate_visit_counts_down [where ci = "\<lparr>time_from = 0 :: int, time_to = 0, min_visits = 3, ci_weight = 7\<rparr>"
      and base = "\<lparr>htc_channel_id = 4, req_visits = 1, htc_visits = 2, htc_weight = 0\<rparr>" and c = 4 and w = 7, OF refl]
  by (simp add: ht_template_def Let_def)

section \<open>Header of a profile\<close>

text \<open>
  A fraud mark never moves back in time: after \<open>fraud_user\<close> the stored time is the later one of
  the old mark and the current second, nothing else of an existing profile changes, and a second
  call at the same time asks for no save.
\<close>

theorem fraud_user_keeps_latest:
  assumes "0 \<le> tv_sec T now" "tv_sec T now < 2 ^ 32"
  shows "\<exists>p. fst (fraud_user T now base) = Some p \<and>
    ignore_fraud_time p = max (case base of Some b \<Rightarrow> ignore_fraud_time b | None \<Rightarrow> 0) (sec32 T now) \<and>
    (\<forall>b. base = Some b \<longrightarrow> p = b\<lparr>ignore_fraud_time := ignore_fraud_time p\<rparr>) \<and>
    fraud_user T now (Some p) = (Some p, False)"
proof -
  have sec: "tv_sec T now = uint (sec32 T now)"
    using assms by (simp add: sec32_def uint_word_of_int take_bit_int_eq_self)
  show ?thesis
  proof (cases base)
    case None
    then show ?thesis by (simp add: fraud_user_def sec)
  next
    case (Some b)
    then show ?thesis
      by (cases "ignore_fraud_time b < sec32 T now")
         (auto simp: fraud_user_def sec word_less_def [symmetric] max_def linorder_not_less [symmetric])
  qed
qed

theorem fraud_user_keeps_latest_witness:
  "\<exists>p. fst (fraud_user usec_time 100000000
       (Some (empty_channels_profile\<lparr>ignore_fraud_time := 250\<rparr> :: unit channels_profile))) = Some p \<and>
     ignore_fraud_time p = 250"
  using fraud_user_keeps_latest [where T = usec_time and now = 100000000
      and base = "Some (empty_channels_profile\<lparr>ignore_fraud_time := 250\<rparr> :: unit channels_profile)"]
  by (auto simp: usec_time_def sec32_def)

text \<open>
  Cohort round trip: the two parts that \<open>set_cohort_\<close> stores are the ones \<open>split_cohort_\<close> returns,
  if the first part contains no slash; a missing part keeps its stored value.
\<close>

theorem cohort_roundtrip:
  assumes "CHR ''/'' \<notin> set c1" "c1 \<noteq> [] \<or> c2 \<noteq> []"
  shows "split_cohort d1 d2 (set_cohort old c1 c2) =
    (if c1 \<noteq> [] then c1 else fst (split_cohort [] [] old), if c2 \<noteq> [] then c2 else snd (split_cohort [] [] old))"
proof -
  have split: "split_cohort d1 d2 (a @ ''/'' @ b) = (a, b)" if "CHR ''/'' \<notin> set a" for a b
  proof -
    have "x \<noteq> CHR ''/''" if "x \<in> set a" for x
      using that \<open>CHR ''/'' \<notin> set a\<close> by auto
    then show ?thesis by (simp add: split_cohort_def takeWhile_append2 dropWhile_append2)
  qed
  have "CHR ''/'' \<notin> set (fst (split_cohort [] [] old))"
    by (auto simp: split_cohort_def dest: set_takeWhileD)
  then show ?thesis
    using assms split unfolding set_cohort_def by (simp add: case_prod_unfold Let_def)
qed

theorem cohort_roundtrip_witness:
  "split_cohort [] [] (set_cohort ''x/y'' [] ''b'') = (''x'', ''b'')"
  using cohort_roundtrip [of "[]" "''b''" "[]" "[]" "''x/y''"] by (simp add: split_cohort_def)

lemma channels_match_Some:
  assumes "channels_match T r now pack dict params properties timeout (Some p) = Inr (res, props, st, st_add)"
  shows "\<exists>q. st = Some q \<and> st_add = None \<and>
    (if no_match params
     then audience_channels q = [] \<and> persistent_matches q = persistent_matches p \<and> page_channels q = page_channels p \<and>
       search_channels q = search_channels p \<and> url_channels q = url_channels p \<and>
       url_keyword_channels q = url_keyword_channels p \<and> geo_data q = geo_data p
     else geo_data q = [] \<and>
       audience_channels q = filter (\<lambda>a. audience_dict dict (ucast (aud_channel_id a)) \<noteq> None) (audience_channels p))"
  using assms unfolding channels_match_def
  by (auto simp: Let_def case_prod_unfold match_header_def empty_channels_profile_def split: sum.splits if_splits)

text \<open>
  C34. A request with \<open>no_match\<close> keeps the sections, the persistent channels and the geo data of the
  stored profile, but its audience channels are lost; a request that matches keeps the known
  audience channels, but the geo data are lost.
\<close>

theorem match_keeps_or_drops:
  assumes "channels_match T r now pack dict params properties timeout (Some p) = Inr (res, props, st, st_add)"
  shows "\<exists>q. st = Some q \<and> st_add = None \<and>
    (if no_match params
     then audience_channels q = [] \<and> persistent_matches q = persistent_matches p \<and> page_channels q = page_channels p \<and>
       search_channels q = search_channels p \<and> url_channels q = url_channels p \<and>
       url_keyword_channels q = url_keyword_channels p \<and> geo_data q = geo_data p
     else geo_data q = [] \<and>
       audience_channels q = filter (\<lambda>a. audience_dict dict (ucast (aud_channel_id a)) \<noteq> None) (audience_channels p))"
  using assms by (rule channels_match_Some)

definition example_params :: profile_match_params where
  "example_params = \<lparr>no_match = True, no_result = True, provide_persistent_channels = False,
     change_last_request = True, param_household = False, request_colo_id = 1, param_cohort = [], param_cohort2 = []\<rparr>"

theorem match_keeps_or_drops_witness:
  "\<forall>(dict :: int channel_dictionary) pack properties.
     \<exists>res props q. channels_match usec_time Map.empty 100000000 pack dict example_params properties 0
       (Some (empty_channels_profile\<lparr>audience_channels := [\<lparr>aud_channel_id = 3, aud_time = 50\<rparr>]\<rparr> :: unit channels_profile)) =
     Inr (res, props, Some q, None) \<and> audience_channels q = []"
proof (intro allI)
  fix dict :: "int channel_dictionary" and pack properties
  obtain res props st st_add where m: "channels_match usec_time Map.empty 100000000 pack dict example_params properties 0
       (Some (empty_channels_profile\<lparr>audience_channels := [\<lparr>aud_channel_id = 3, aud_time = 50\<rparr>]\<rparr> :: unit channels_profile)) =
     Inr (res, props, st, st_add)"
    by (auto simp: channels_match_def example_params_def Let_def case_prod_unfold)
  with match_keeps_or_drops [OF m] show "\<exists>res props q. channels_match usec_time Map.empty 100000000 pack dict
       example_params properties 0
       (Some (empty_channels_profile\<lparr>audience_channels := [\<lparr>aud_channel_id = 3, aud_time = 50\<rparr>]\<rparr> :: unit channels_profile)) =
     Inr (res, props, Some q, None) \<and> audience_channels q = []"
    by (auto simp: example_params_def)
qed

text \<open>
  C35. Matching fails only on the audience channels: it dereferences the end of an interval list
  exactly when results are asked for and the profile has an audience channel whose entry in the
  dictionary has no interval of a day or longer.
\<close>

theorem match_fails_iff:
  fixes T :: "'t time_api"
  shows "channels_match T r now pack dict params properties timeout (Some p) = Inl Deref_end \<longleftrightarrow>
     \<not> no_result params \<and>
     (\<exists>a\<in>set (audience_channels p). \<exists>cip. audience_dict dict (ucast (aud_channel_id a)) = Some cip \<and>
        intervals (today_long_intervals cip) = [])"
proof -
  have "audience_results d as res = Inl Deref_end \<longleftrightarrow>
      (\<exists>a\<in>set as. \<exists>cip. d (ucast (aud_channel_id a)) = Some cip \<and> intervals (today_long_intervals cip) = [])"
    for d :: "'t channels_map" and as res
    by (induction as arbitrary: res) (auto split: option.split list.split)
  moreover have "channels_match T r now pack dict params properties timeout (Some p) = Inl Deref_end \<longleftrightarrow>
      \<not> no_result params \<and> audience_results (audience_dict dict) (audience_channels p) r = Inl Deref_end"
    by (auto simp: channels_match_def Let_def case_prod_unfold split: sum.split if_split)
  ultimately show ?thesis by simp
qed

section \<open>Unique channels\<close>

text \<open>Whether the dictionary marks a channel as a discover channel.\<close>

definition is_discover :: "'t channel_dictionary \<Rightarrow> u64 \<Rightarrow> bool" where
  "is_discover d i = (case channel_features_map d i of None \<Rightarrow> False | Some f \<Rightarrow> discover f)"

definition unique_ok :: "'t channel_dictionary \<Rightarrow> all_unique_channels \<Rightarrow> bool" where
  "unique_ok d auc \<longleftrightarrow>
     uc_unique (auc_simple auc) = {i \<in> found_history_channels auc. \<not> is_discover d i} \<and>
     uc_unique (auc_discover auc) = {i \<in> found_history_channels auc. is_discover d i} \<and>
     uc_history (auc_simple auc) = uc_unique (auc_simple auc) \<and>
     uc_history (auc_discover auc) = uc_unique (auc_discover auc) \<and>
     uc_session (auc_simple auc) = {} \<and> uc_session (auc_discover auc) = {}"

lemma process_channel_ok:
  assumes "process_channel d HISTORY i auc = Inr auc1" "unique_ok d auc"
  shows "unique_ok d auc1 \<and>
    found_history_channels auc1 = found_history_channels auc \<union> (if in_dictionary d i then {i} else {})"
  using assms unfolding process_channel_def unique_ok_def
  by (auto simp: add_unique_def is_discover_def Let_def split: if_splits option.splits)

lemma process_sequence_ok:
  assumes "process_channels_sequence d HISTORY is auc = Inr auc1" "unique_ok d auc"
  shows "unique_ok d auc1 \<and>
    found_history_channels auc1 = found_history_channels auc \<union> {i \<in> set is. in_dictionary d i}"
  using assms
proof (induction "is" arbitrary: auc)
  case (Cons i "is")
  then obtain auc2 where step: "process_channel d HISTORY i auc = Inr auc2"
    "process_channels_sequence d HISTORY is auc2 = Inr auc1"
    by (auto split: sum.splits)
  from process_channel_ok [OF step(1) Cons.prems(2)] Cons.IH [OF step(2)] show ?case
    by auto
qed simp

text \<open>
  \<open>unique_channels\<close> counts every channel of the two profiles that the dictionary knows exactly
  once, either as a simple or as a discover channel; it counts no session channel.
\<close>

theorem unique_channels_counts_once:
  assumes "unique_channels base history d = Inr r"
  shows "simple_channels r + discover_channels r =
      card {i \<in> set (collect_channel_ids base @ collect_history_channel_ids history). in_dictionary d i} \<and>
    history_simple_channels r = simple_channels r \<and> history_discover_channels r = discover_channels r \<and>
    session_simple_channels r = 0 \<and> session_discover_channels r = 0"
proof -
  let ?ids = "collect_channel_ids base @ collect_history_channel_ids history"
  let ?F = "{i \<in> set ?ids. in_dictionary d i}"
  obtain auc where auc: "process_channels_sequence d HISTORY ?ids no_unique = Inr auc" "r = unique_result_init auc"
    using assms by (auto simp: unique_channels_def map_sum_def split: sum.splits)
  have "unique_ok d no_unique" by (simp add: unique_ok_def no_unique_def)
  from process_sequence_ok [OF auc(1) this]
  have ok: "unique_ok d auc" and F: "found_history_channels auc = ?F"
    by (simp_all add: no_unique_def)
  have "card {i \<in> ?F. \<not> is_discover d i} + card {i \<in> ?F. is_discover d i} = card ?F"
    by (subst card_Un_disjoint [symmetric]) (auto intro: arg_cong [where f = card])
  then show ?thesis
    using ok unfolding unique_ok_def auc(2) unique_result_init_def F by simp
qed

definition example_dictionary :: "int channel_dictionary" where
  "example_dictionary =
     \<lparr>audience_dict = Map.empty, page_dict = [4 \<mapsto> empty_pack], search_dict = Map.empty,
      url_dict = [7 \<mapsto> empty_pack], url_keyword_dict = Map.empty,
      channel_features_map = [4 \<mapsto> \<lparr>discover = False, threshold = 1\<rparr>, 7 \<mapsto> \<lparr>discover = True, threshold = 1\<rparr>]\<rparr>"

theorem unique_channels_counts_once_witness:
  "\<exists>r. unique_channels (None :: unit channels_profile option) (Some
      \<lparr>minor_version = 0, major_version = 330,
       h_page_channels = [\<lparr>hci_channel_id = 4, hci_days_visits = []\<rparr>, \<lparr>hci_channel_id = 5, hci_days_visits = []\<rparr>],
       h_search_channels = [], h_url_channels = [\<lparr>hci_channel_id = 4, hci_days_visits = []\<rparr>,
         \<lparr>hci_channel_id = 7, hci_days_visits = []\<rparr>], h_url_keyword_channels = []\<rparr>) example_dictionary = Inr r \<and>
    simple_channels r + discover_channels r = 2"
proof -
  let ?h = "Some \<lparr>minor_version = 0, major_version = 330,
       h_page_channels = [\<lparr>hci_channel_id = 4, hci_days_visits = []\<rparr>, \<lparr>hci_channel_id = 5, hci_days_visits = []\<rparr>],
       h_search_channels = [], h_url_channels = [\<lparr>hci_channel_id = 4, hci_days_visits = []\<rparr>,
         \<lparr>hci_channel_id = 7, hci_days_visits = []\<rparr>], h_url_keyword_channels = []\<rparr>"
  obtain r where r: "unique_channels (None :: unit channels_profile option) ?h example_dictionary = Inr r"
    by (simp add: unique_channels_def collect_channel_ids_def collect_history_channel_ids_def process_channel_def
        no_unique_def in_dictionary_def example_dictionary_def Let_def add_unique_def)
  have "{i. (i = 4 \<or> i = 5 \<or> i = 7) \<and> in_dictionary example_dictionary i} = {4, 7}"
    by (auto simp: in_dictionary_def example_dictionary_def)
  with unique_channels_counts_once [OF r] r show ?thesis
    by (simp add: collect_channel_ids_def collect_history_channel_ids_def conj_disj_distribR disj_ac)
qed

end
