(* ===== verification/StdMap.thy ===== *)
theory StdMap
  imports Prelude "HOL-Library.Product_Lexorder"
begin

text \<open>
  \<open>std::map\<close> as the list of its nodes in iteration order: a list of pairs with strictly
  increasing keys. A lookup is \<open>map_of\<close>; \<open>map_insert\<close> is \<open>insert\<close>, which does not overwrite;
  \<open>map_put\<close> is the assignment \<open>m[k] = v\<close>; \<open>map_erase\<close> erases by key. The locale
  \<open>finite_map_laws\<close> states what the services rely on, and the lists implement it.
\<close>

section \<open>The interface\<close>

text \<open>
  A map that keeps an invariant, with its lookup and the three modifying operations. The derived
  laws are the ones that the users of a map cite.
\<close>

locale finite_map_laws =
  fixes lookup :: "'m \<Rightarrow> 'k \<Rightarrow> 'v option"
    and insert_new :: "'k \<Rightarrow> 'v \<Rightarrow> 'm \<Rightarrow> 'm"
    and put :: "'k \<Rightarrow> 'v \<Rightarrow> 'm \<Rightarrow> 'm"
    and erase :: "'k \<Rightarrow> 'm \<Rightarrow> 'm"
    and invar :: "'m \<Rightarrow> bool"
  assumes lookup_insert: "invar m \<Longrightarrow>
      lookup (insert_new k v m) = (case lookup m k of None \<Rightarrow> (lookup m)(k \<mapsto> v) | Some w \<Rightarrow> lookup m)"
    and lookup_put: "invar m \<Longrightarrow> lookup (put k v m) = (lookup m)(k \<mapsto> v)"
    and lookup_erase: "invar m \<Longrightarrow> lookup (erase k m) = (lookup m)(k := None)"
    and invar_insert: "invar m \<Longrightarrow> invar (insert_new k v m)"
    and invar_put: "invar m \<Longrightarrow> invar (put k v m)"
    and invar_erase: "invar m \<Longrightarrow> invar (erase k m)"
begin

text \<open>Moving a node to another key, the way a priority is changed: erase, then insert.\<close>

lemma lookup_rekey:
  assumes "invar m" "k' = k \<or> lookup m k' = None"
  shows "lookup (insert_new k' v (erase k m)) = (lookup m)(k := None, k' \<mapsto> v)"
  using assms by (auto simp: lookup_insert lookup_erase invar_erase fun_eq_iff)

lemma invar_rekey: "invar m \<Longrightarrow> invar (insert_new k' v (erase k m))"
  by (simp add: invar_insert invar_erase)

lemma dom_insert: "invar m \<Longrightarrow> dom (lookup (insert_new k v m)) = insert k (dom (lookup m))"
  by (auto simp: lookup_insert dom_def split: option.splits)

lemma dom_erase: "invar m \<Longrightarrow> dom (lookup (erase k m)) = dom (lookup m) - {k}"
  by (auto simp: lookup_erase dom_def)

end

section \<open>The implementation by ordered lists\<close>

type_synonym ('k, 'v) std_map = "('k \<times> 'v) list"

fun map_insert :: "'k::linorder \<Rightarrow> 'v \<Rightarrow> ('k, 'v) std_map \<Rightarrow> ('k, 'v) std_map" where
  "map_insert k v [] = [(k, v)]"
| "map_insert k v ((k', v') # m) =
     (if k < k' then (k, v) # (k', v') # m
      else if k = k' then (k', v') # m
      else (k', v') # map_insert k v m)"

fun map_put :: "'k::linorder \<Rightarrow> 'v \<Rightarrow> ('k, 'v) std_map \<Rightarrow> ('k, 'v) std_map" where
  "map_put k v [] = [(k, v)]"
| "map_put k v ((k', v') # m) =
     (if k < k' then (k, v) # (k', v') # m
      else if k = k' then (k, v) # m
      else (k', v') # map_put k v m)"

text \<open>\<open>operator[]\<close> of \<open>std::map\<close>, which inserts the default.\<close>

definition map_at :: "'v \<Rightarrow> 'k \<Rightarrow> ('k, 'v) std_map \<Rightarrow> 'v" where
  "map_at dflt k m = (case map_of m k of Some v \<Rightarrow> v | None \<Rightarrow> dflt)"

definition map_erase :: "'k::linorder \<Rightarrow> ('k, 'v) std_map \<Rightarrow> ('k, 'v) std_map" where
  "map_erase k m = filter (\<lambda>e. fst e \<noteq> k) m"

abbreviation map_ok :: "('k::linorder, 'v) std_map \<Rightarrow> bool" where
  "map_ok m \<equiv> key_sorted fst m"

lemma keys_map_insert [simp]: "fst ` set (map_insert k v m) = insert k (fst ` set m)"
  by (induction k v m rule: map_insert.induct) (simp_all add: insert_commute)

lemma keys_map_put [simp]: "fst ` set (map_put k v m) = insert k (fst ` set m)"
  by (induction k v m rule: map_put.induct) (simp_all add: insert_commute)

lemma set_map_insert: "set (map_insert k v m) \<subseteq> insert (k, v) (set m)"
  by (induction k v m rule: map_insert.induct) auto

lemma set_map_put: "set (map_put k v m) \<subseteq> insert (k, v) (set m)"
  by (induction k v m rule: map_put.induct) auto

lemma map_ok_insert [simp, key_intros]: "map_ok m \<Longrightarrow> map_ok (map_insert k v m)"
proof (induction m)
  case (Cons e m)
  have "\<forall>y\<in>set (map_insert k v m). fst e < fst y" if "fst e < k"
  proof
    fix y assume "y \<in> set (map_insert k v m)"
    then have "fst y \<in> insert k (fst ` set m)" by (metis imageI keys_map_insert)
    then show "fst e < fst y" using Cons.prems that by auto
  qed
  then show ?case using Cons by (cases e) auto
qed simp

lemma map_ok_put [simp, key_intros]: "map_ok m \<Longrightarrow> map_ok (map_put k v m)"
proof (induction m)
  case (Cons e m)
  have "\<forall>y\<in>set (map_put k v m). fst e < fst y" if "fst e < k"
  proof
    fix y assume "y \<in> set (map_put k v m)"
    then have "fst y \<in> insert k (fst ` set m)" by (metis imageI keys_map_put)
    then show "fst e < fst y" using Cons.prems that by auto
  qed
  then show ?case using Cons by (cases e) auto
qed simp

lemma map_ok_erase [simp, key_intros]: "map_ok m \<Longrightarrow> map_ok (map_erase k m)"
  by (simp add: map_erase_def key_sorted_filter)

lemma map_of_below [simp]: "\<forall>e\<in>set m. k < fst e \<Longrightarrow> map_of m (k::'k::linorder) = None"
  by (auto simp: map_of_eq_None_iff)

lemma map_of_map_insert:
  "map_ok m \<Longrightarrow> map_of (map_insert k v m) =
     (case map_of m k of None \<Rightarrow> (map_of m)(k \<mapsto> v) | Some w \<Rightarrow> map_of m)"
  by (induction m) (auto simp: fun_eq_iff dest!: map_of_SomeD split: option.splits)

lemma map_of_map_put: "map_ok m \<Longrightarrow> map_of (map_put k v m) = (map_of m)(k \<mapsto> v)"
  by (induction m) (auto simp: fun_eq_iff)

lemma map_of_map_erase: "map_of (map_erase k m) = (map_of m)(k := None)"
  by (induction m) (auto simp: map_erase_def fun_eq_iff)

interpretation std_map: finite_map_laws map_of map_insert map_put map_erase map_ok
  by unfold_locales (simp_all add: map_of_map_insert map_of_map_put map_of_map_erase)

section \<open>Maps as sets of nodes\<close>

lemma map_ok_map_of_iff: "map_ok m \<Longrightarrow> map_of m k = Some v \<longleftrightarrow> (k, v) \<in> set m"
  using key_sorted_distinct map_of_eq_Some_iff by metis

text \<open>Two maps with the same lookups are the same list.\<close>

lemma map_ok_keys: "map_ok m \<Longrightarrow> map fst m = sorted_list_of_set (fst ` set m)"
  by (simp add: key_sorted_def strict_sorted_iff sorted_list_of_set.idem_if_sorted_distinct flip: set_map)

lemma map_ok_nodes: "map_ok m \<Longrightarrow> map (\<lambda>k. (k, the (map_of m k))) (map fst m) = m"
  unfolding map_map by (rule map_idI) (auto simp: map_ok_map_of_iff [THEN iffD2])

lemma map_ok_ext:
  assumes "map_ok m" "map_ok m'" "map_of m = map_of m'"
  shows "m = m'"
proof -
  have S: "set m = set m'"
    using assms map_ok_map_of_iff by (metis subrelI subset_antisym)
  then have "map fst m = map fst m'"
    using map_ok_keys assms(1,2) by metis
  then show ?thesis
    using map_ok_nodes assms by metis
qed

text \<open>\<open>begin()\<close> holds the least key and \<open>--end()\<close> the greatest.\<close>

lemma map_ok_hd_least: "map_ok ((k, v) # m) \<Longrightarrow> e \<in> set m \<Longrightarrow> k < fst e"
  by simp

lemma map_empty_iff: "map_of m = Map.empty \<longleftrightarrow> m = []"
  by (cases m) (auto simp: fun_eq_iff)

end
