(* ===== verification/ExprChannel.thy ===== *)
theory ExprChannel
  imports StdMap
begin

text \<open>
  Expression channels (\<open>CampaignSvcs/CampaignCommons/ExpressionChannel.hpp\<close> and \<open>.cpp\<close>): the
  targeting conditions of campaigns as boolean expressions over simple channels. The smart
  pointers between channels are modelled by the channels they point to; a null pointer is \<open>None\<close>.
  Channel ids are only compared, so they are natural numbers; the use counters are counted
  without the bound of \<open>unsigned long\<close>.
\<close>

section \<open>Data\<close>

type_synonym channel_id = nat

datatype operation = NOP | AND_OP | OR_OP | AND_NOT | TRUE_OP

text \<open>
  The parameters of a channel that the operations below read. \<open>common_params\<close> holds the
  \<open>is_public\<close> flag and \<open>cmp_params\<close> the rate id of the parameter blocks of those names.
\<close>

record channel_params =
  cp_channel_id :: channel_id
  cp_type :: char
  cp_status :: char
  cp_common_params :: "bool option"
  cp_cmp_params :: "nat option"

text \<open>The default of the constructor \<open>ChannelParams()\<close>, also the \<open>EMPTY_CHANNEL_PARAMS\<close> object.\<close>

definition EMPTY_CHANNEL_PARAMS :: channel_params where
  "EMPTY_CHANNEL_PARAMS = \<lparr>cp_channel_id = 0, cp_type = CHR ''E'', cp_status = CHR ''A'',
     cp_common_params = None, cp_cmp_params = None\<rparr>"

datatype expr_channel =
    SimpleChannel channel_params
  | ExpressionChannel channel_params expression
  | ExpressionChannelHolder "expr_channel option"
and expression =
    Expression (expr_op: operation) (expr_sub_channel: "expr_channel option")
      (sub_channels: "expression list")

text \<open>\<open>ChannelUseCount\<close> and the table of the use counters.\<close>

record channel_use_count =
  uc_count :: nat
  uc_channel_ids :: "channel_id set"
  uc_ccg_ids :: "nat set"

definition channel_use_count_init :: channel_use_count where
  "channel_use_count_init = \<lparr>uc_count = 0, uc_channel_ids = {}, uc_ccg_ids = {}\<rparr>"

type_synonym channel_use_count_map = "channel_id \<rightharpoonup> channel_use_count"

section \<open>Resolution of holders\<close>

fun simple_channel :: "expr_channel \<Rightarrow> channel_params option" where
  "simple_channel (SimpleChannel p) = Some p"
| "simple_channel (ExpressionChannel p e) = None"
| "simple_channel (ExpressionChannelHolder None) = None"
| "simple_channel (ExpressionChannelHolder (Some c)) = simple_channel c"

fun expression_channel :: "expr_channel \<Rightarrow> (channel_params \<times> expression) option" where
  "expression_channel (SimpleChannel p) = None"
| "expression_channel (ExpressionChannel p e) = Some (p, e)"
| "expression_channel (ExpressionChannelHolder None) = None"
| "expression_channel (ExpressionChannelHolder (Some c)) = expression_channel c"

text \<open>\<open>params()\<close> asserts that a holder is initialised; an uninitialised one reads as the default.\<close>

fun channel_params_of :: "expr_channel \<Rightarrow> channel_params" where
  "channel_params_of (SimpleChannel p) = p"
| "channel_params_of (ExpressionChannel p e) = p"
| "channel_params_of (ExpressionChannelHolder None) = EMPTY_CHANNEL_PARAMS"
| "channel_params_of (ExpressionChannelHolder (Some c)) = channel_params_of c"

fun has_params :: "expr_channel \<Rightarrow> bool" where
  "has_params (SimpleChannel p) = True"
| "has_params (ExpressionChannel p e) = True"
| "has_params (ExpressionChannelHolder None) = False"
| "has_params (ExpressionChannelHolder (Some c)) = has_params c"

lemma expression_channel_size [termination_simp]:
  "expression_channel c = Some (p, e) \<Longrightarrow> size e < size c"
  by (induction c rule: expression_channel.induct) auto

section \<open>Evaluation\<close>

text \<open>\<open>strchr(set, c) != 0\<close>: the terminating zero of the string is found too.\<close>

definition strchr :: "string \<Rightarrow> char \<Rightarrow> bool" where
  "strchr s c \<longleftrightarrow> c \<in> set s \<or> c = CHR 0x00"

definition status_allowed :: "string option \<Rightarrow> char \<Rightarrow> bool" where
  "status_allowed status_set c = (case status_set of None \<Rightarrow> True | Some s \<Rightarrow> strchr s c)"

text \<open>
  The arguments of \<open>triggered\<close> that a caller may leave null are options; the result carries the
  returned number, the use counters and the matched channels.
\<close>

type_synonym match_state = "channel_use_count_map option \<times> channel_id set option"

definition uc_of :: "channel_use_count_map \<Rightarrow> channel_id \<Rightarrow> channel_use_count" where
  "uc_of m k = (case m k of None \<Rightarrow> channel_use_count_init | Some u \<Rightarrow> u)"

definition note_simple :: "channel_id \<Rightarrow> match_state \<Rightarrow> match_state" where
  "note_simple k st =
     (map_option (\<lambda>m. m(k \<mapsto> (uc_of m k)\<lparr>uc_channel_ids := insert k (uc_channel_ids (uc_of m k))\<rparr>)) (fst st),
      map_option (insert k) (snd st))"

definition SimpleChannel_triggered ::
  "channel_id set option \<Rightarrow> (channel_id \<rightharpoonup> nat) option \<Rightarrow> string option \<Rightarrow> channel_params \<Rightarrow>
   match_state \<Rightarrow> nat \<times> match_state" where
  "SimpleChannel_triggered triggered_channels weighted status_set p st =
     (if status_allowed status_set (cp_status p)
      then let result =
             (case triggered_channels of
                Some s \<Rightarrow> (if cp_channel_id p \<in> s then 1 else 0)
              | None \<Rightarrow> (case weighted of
                  None \<Rightarrow> 0
                | Some w \<Rightarrow> (case w (cp_channel_id p) of None \<Rightarrow> 0 | Some x \<Rightarrow> x)))
           in (result, if result \<noteq> 0 then note_simple (cp_channel_id p) st else st)
      else (0, st))"

text \<open>\<open>store_use_count_\<close>: a known channel is counted, a new one records what it matched.\<close>

definition store_use_count ::
  "channel_use_count_map \<Rightarrow> expr_channel option \<Rightarrow> channel_id set \<Rightarrow> channel_use_count_map" where
  "store_use_count m ch local_matched =
     (case ch of
        None \<Rightarrow> m
      | Some c \<Rightarrow>
          (let k = cp_channel_id (channel_params_of c)
           in case m k of
                Some u \<Rightarrow> m(k \<mapsto> u\<lparr>uc_count := Suc (uc_count u)\<rparr>)
              | None \<Rightarrow> m(k \<mapsto> channel_use_count_init\<lparr>uc_count := 1, uc_channel_ids := local_matched\<rparr>)))"

text \<open>
  The two loops over sub expressions: they stop at the first sub expression that is not, or is,
  triggered, so later sub expressions leave no trace in the tables.
\<close>

fun all_loop :: "('a \<Rightarrow> 's \<Rightarrow> bool \<times> 's) \<Rightarrow> 'a list \<Rightarrow> 's \<Rightarrow> bool \<times> 's" where
  "all_loop f [] st = (True, st)"
| "all_loop f (x # xs) st =
     (case f x st of (r, st') \<Rightarrow> if r then all_loop f xs st' else (False, st'))"

fun any_loop :: "('a \<Rightarrow> 's \<Rightarrow> bool \<times> 's) \<Rightarrow> 'a list \<Rightarrow> 's \<Rightarrow> bool \<times> 's" where
  "any_loop f [] st = (False, st)"
| "any_loop f (x # xs) st =
     (case f x st of (r, st') \<Rightarrow> if r then (True, st') else any_loop f xs st')"

lemma all_loop_cong [fundef_cong]:
  "xs = ys \<Longrightarrow> st = st' \<Longrightarrow> (\<And>x s. x \<in> set ys \<Longrightarrow> f x s = g x s) \<Longrightarrow> all_loop f xs st = all_loop g ys st'"
  by (induction xs arbitrary: ys st st') (auto split: prod.splits)

lemma any_loop_cong [fundef_cong]:
  "xs = ys \<Longrightarrow> st = st' \<Longrightarrow> (\<And>x s. x \<in> set ys \<Longrightarrow> f x s = g x s) \<Longrightarrow> any_loop f xs st = any_loop g ys st'"
  by (induction xs arbitrary: ys st st') (auto split: prod.splits)

lemma all_loop_fst:
  "(\<And>x s. x \<in> set xs \<Longrightarrow> fst (f x s) = P x) \<Longrightarrow> fst (all_loop f xs st) = (\<forall>x\<in>set xs. P x)"
  by (induction xs arbitrary: st) (auto split: prod.splits, (metis fst_conv)+)

lemma any_loop_fst:
  "(\<And>x s. x \<in> set xs \<Longrightarrow> fst (f x s) = P x) \<Longrightarrow> fst (any_loop f xs st) = (\<exists>x\<in>set xs. P x)"
  by (induction xs arbitrary: st) (auto split: prod.splits, (metis fst_conv)+)

text \<open>
  \<open>triggered\<close> of the channel classes, with \<open>triggered_\<close> (\<open>triggered_sub\<close>), which collects the matched
  channels of a sub expression apart and keeps them only when it is triggered, and
  \<open>triggered_expr_\<close>. The first element of an empty \<open>AND_NOT\<close>, which the source would read outside
  the array, counts as not triggered.
\<close>

function (sequential) triggered ::
  "channel_id set option \<Rightarrow> (channel_id \<rightharpoonup> nat) option \<Rightarrow> string option \<Rightarrow> expr_channel \<Rightarrow>
   match_state \<Rightarrow> nat \<times> match_state"
and triggered_sub ::
  "channel_id set option \<Rightarrow> (channel_id \<rightharpoonup> nat) option \<Rightarrow> string option \<Rightarrow> expression \<Rightarrow>
   match_state \<Rightarrow> bool \<times> match_state"
and triggered_expr ::
  "channel_id set option \<Rightarrow> (channel_id \<rightharpoonup> nat) option \<Rightarrow> string option \<Rightarrow> expression \<Rightarrow>
   match_state \<Rightarrow> bool \<times> match_state" where
  "triggered tc w ss (SimpleChannel p) st = SimpleChannel_triggered tc w ss p st"
| "triggered tc w ss (ExpressionChannel p e) st =
     (if status_allowed ss (cp_status p)
      then (case triggered_sub tc w ss e st of (r, st') \<Rightarrow> (if r then 1 else 0, st'))
      else (0, st))"
| "triggered tc w ss (ExpressionChannelHolder None) st = (0, st)"
| "triggered tc w ss (ExpressionChannelHolder (Some c)) st = triggered tc w ss c st"
| "triggered_sub tc w ss e st =
     (if snd st \<noteq> None \<or> fst st \<noteq> None
      then (case triggered_expr tc w ss e (fst st, Some {}) of (r, uc, lm) \<Rightarrow>
              (r, if r
                  then (map_option (\<lambda>m. store_use_count m (expr_sub_channel e) (the lm)) uc,
                        map_option (\<lambda>m. m \<union> the lm) (snd st))
                  else (uc, snd st)))
      else triggered_expr tc w ss e (None, None))"
| "triggered_expr tc w ss (Expression TRUE_OP ch es) st = (True, st)"
| "triggered_expr tc w ss (Expression NOP None es) st = (False, st)"
| "triggered_expr tc w ss (Expression NOP (Some c) es) st =
     (case triggered tc w ss c st of (r, st') \<Rightarrow> (r \<noteq> 0, st'))"
| "triggered_expr tc w ss (Expression AND_OP ch es) st = all_loop (triggered_sub tc w ss) es st"
| "triggered_expr tc w ss (Expression OR_OP ch es) st = any_loop (triggered_sub tc w ss) es st"
| "triggered_expr tc w ss (Expression AND_NOT ch []) st = (False, st)"
| "triggered_expr tc w ss (Expression AND_NOT ch (e # es)) st =
     (case triggered_sub tc w ss e st of (r, st') \<Rightarrow>
        if r then (case any_loop (triggered_sub tc w ss) es st' of (r', st'') \<Rightarrow> (\<not> r', st''))
        else (False, st'))"
  by pat_completeness auto
termination
  by (relation "measure (\<lambda>x. case x of
        Inl (_, _, _, c, _) \<Rightarrow> 2 * size c
      | Inr (Inl (_, _, _, e, _)) \<Rightarrow> Suc (2 * size e)
      | Inr (Inr (_, _, _, e, _)) \<Rightarrow> 2 * size e)")
    (auto simp: less_Suc_eq_le dest!: size_list_estimation' [OF _ order_refl, of _ _ size])


declare triggered_sub.simps [simp del]

text \<open>
  The reference semantics: a boolean formula over the simple channels, restricted by the allowed
  channel statuses.
\<close>

fun channel_holds :: "(channel_params \<Rightarrow> bool) \<Rightarrow> (char \<Rightarrow> bool) \<Rightarrow> expr_channel \<Rightarrow> bool"
and expr_holds :: "(channel_params \<Rightarrow> bool) \<Rightarrow> (char \<Rightarrow> bool) \<Rightarrow> expression \<Rightarrow> bool" where
  "channel_holds v a (SimpleChannel p) = (a (cp_status p) \<and> v p)"
| "channel_holds v a (ExpressionChannel p e) = (a (cp_status p) \<and> expr_holds v a e)"
| "channel_holds v a (ExpressionChannelHolder None) = False"
| "channel_holds v a (ExpressionChannelHolder (Some c)) = channel_holds v a c"
| "expr_holds v a (Expression TRUE_OP ch es) = True"
| "expr_holds v a (Expression NOP None es) = False"
| "expr_holds v a (Expression NOP (Some c) es) = channel_holds v a c"
| "expr_holds v a (Expression AND_OP ch es) = list_all (expr_holds v a) es"
| "expr_holds v a (Expression OR_OP ch es) = list_ex (expr_holds v a) es"
| "expr_holds v a (Expression AND_NOT ch []) = False"
| "expr_holds v a (Expression AND_NOT ch (e # es)) = (expr_holds v a e \<and> \<not> list_ex (expr_holds v a) es)"

text \<open>The truth of a simple channel: in the set, or with a weight when only weights are given.\<close>

definition simple_holds :: "channel_id set option \<Rightarrow> (channel_id \<rightharpoonup> nat) option \<Rightarrow> channel_params \<Rightarrow> bool" where
  "simple_holds tc w p =
     (case tc of
        Some s \<Rightarrow> cp_channel_id p \<in> s
      | None \<Rightarrow> (case w of None \<Rightarrow> False | Some m \<Rightarrow> m (cp_channel_id p) \<noteq> None \<and> m (cp_channel_id p) \<noteq> Some 0))"

text \<open>The collection of use counters and matched channels never changes the decision.\<close>

lemma triggered_decides:
  shows "fst (triggered tc w ss c st) \<noteq> 0 \<longleftrightarrow> channel_holds (simple_holds tc w) (status_allowed ss) c"
    and "fst (triggered_sub tc w ss e st) = expr_holds (simple_holds tc w) (status_allowed ss) e"
    and "fst (triggered_expr tc w ss e st) = expr_holds (simple_holds tc w) (status_allowed ss) e"
proof (induction tc w ss c st and tc w ss e st and tc w ss e st
    rule: triggered_triggered_sub_triggered_expr.induct)
  case (1 tc w ss p st)
  then show ?case
    by (auto simp: SimpleChannel_triggered_def simple_holds_def Let_def split: option.splits)
next
  case (5 tc w ss e st)
  then show ?case
    by (subst triggered_sub.simps) (auto split: prod.splits)
next
  case (9 tc w ss ch es st)
  then show ?case by (simp add: all_loop_fst [where P = "expr_holds (simple_holds tc w) (status_allowed ss)"] list_all_iff)
next
  case (10 tc w ss ch es st)
  then show ?case by (simp add: any_loop_fst [where P = "expr_holds (simple_holds tc w) (status_allowed ss)"] list_ex_iff)
next
  case (12 tc w ss ch e es st)
  obtain r st' where s: "triggered_sub tc w ss e st = (r, st')" by (rule prod.exhaust)
  have "fst (any_loop (triggered_sub tc w ss) es st') = (\<exists>x\<in>set es. expr_holds (simple_holds tc w) (status_allowed ss) x)" if r
    by (rule any_loop_fst) (use 12 s that in auto)
  then show ?case
    using "12.IH"(1) s by (auto simp: list_ex_iff split: prod.splits)
qed (auto split: prod.splits)

end
