(* ===== verification/ExprOptimize.thy ===== *)
theory ExprOptimize
  imports ExprChannel
begin

text \<open>
  \<open>optimize()\<close> of the channel classes: channels that can never be triggered are removed, holders are
  replaced by the channels they hold, and nested conjunctions and disjunctions are flattened.
  The optimised channel decides like the original one.
\<close>

section \<open>Operations\<close>

text \<open>
  One round of the flattening loop at the end of \<open>optimize_expr_\<close>; \<open>n\<close> is the number of sub
  expressions before the loop and the state holds \<open>expr.op\<close> and \<open>new_sub_channels\<close>.
\<close>

definition flatten_step ::
  "nat \<Rightarrow> operation \<times> expression list \<Rightarrow> expression \<Rightarrow> operation \<times> expression list" where
  "flatten_step n st s =
     (if expr_op s = fst st \<or>
         (expr_op s = AND_OP \<or> expr_op s = OR_OP) \<and> (length (sub_channels s) = 1 \<or> n = 1)
      then (if n = 1 then expr_op s else fst st, snd st @ sub_channels s)
      else (fst st, snd st @ [s]))"

definition flatten :: "operation \<Rightarrow> expr_channel option \<Rightarrow> expression list \<Rightarrow> expression" where
  "flatten op ch es =
     (if op = AND_OP \<or> op = OR_OP
      then (case foldl (flatten_step (length es)) (op, []) es of (op', es') \<Rightarrow> Expression op' ch es')
      else Expression op ch es)"

text \<open>The sub expressions that \<open>optimize_expr_\<close> keeps, in their optimised form.\<close>

definition kept :: "(bool \<times> expression) list \<Rightarrow> expression list" where
  "kept rs = map snd (filter fst rs)"

fun optimize :: "expr_channel \<Rightarrow> expr_channel option"
and optimize_expr :: "expression \<Rightarrow> bool \<times> expression" where
  "optimize (SimpleChannel p) = Some (SimpleChannel p)"
| "optimize (ExpressionChannel p e) =
     (if fst (optimize_expr e) then Some (ExpressionChannel p (snd (optimize_expr e))) else None)"
| "optimize (ExpressionChannelHolder None) = None"
| "optimize (ExpressionChannelHolder (Some c)) = optimize c"
| "optimize_expr (Expression NOP None es) = (False, Expression NOP None es)"
| "optimize_expr (Expression NOP (Some c) es) = (optimize c \<noteq> None, Expression NOP (optimize c) es)"
| "optimize_expr (Expression AND_NOT ch []) = (False, Expression NOP ch [])"
| "optimize_expr (Expression AND_NOT ch (e # es)) =
     (if fst (optimize_expr e)
      then (let es' = kept (map optimize_expr es)
            in (True, flatten (if es' = [] then AND_OP else AND_NOT) ch (snd (optimize_expr e) # es')))
      else (False, Expression NOP ch []))"
| "optimize_expr (Expression AND_OP ch es) =
     (let rs = map optimize_expr es
      in if es = [] \<or> False \<in> set (map fst rs) then (False, Expression NOP ch [])
         else (True, flatten AND_OP ch (map snd rs)))"
| "optimize_expr (Expression OR_OP ch es) =
     (let es' = kept (map optimize_expr es)
      in if es' = [] then (False, Expression NOP ch []) else (True, flatten OR_OP ch es'))"
| "optimize_expr (Expression TRUE_OP ch es) =
     (if es = [] then (False, Expression NOP ch [])
      else (True, Expression TRUE_OP ch (map snd (map optimize_expr es))))"

section \<open>Shapes of expressions\<close>

text \<open>
  What the parser and the configuration source build: conjunctions are not empty, the number of
  operands of an exclusion is restricted by \<open>P\<close>, and \<open>TRUE\<close> does not occur, which only the index
  introduces; simple channels have an id.
\<close>

fun proper_channel :: "(nat \<Rightarrow> bool) \<Rightarrow> expr_channel \<Rightarrow> bool"
and proper_expr :: "(nat \<Rightarrow> bool) \<Rightarrow> expression \<Rightarrow> bool" where
  "proper_channel P (SimpleChannel p) = (cp_channel_id p \<noteq> 0)"
| "proper_channel P (ExpressionChannel p e) = proper_expr P e"
| "proper_channel P (ExpressionChannelHolder None) = True"
| "proper_channel P (ExpressionChannelHolder (Some c)) = proper_channel P c"
| "proper_expr P (Expression NOP None es) = True"
| "proper_expr P (Expression NOP (Some c) es) = proper_channel P c"
| "proper_expr P (Expression AND_OP ch es) = (es \<noteq> [] \<and> list_all (proper_expr P) es)"
| "proper_expr P (Expression OR_OP ch es) = list_all (proper_expr P) es"
| "proper_expr P (Expression AND_NOT ch es) = (es \<noteq> [] \<and> P (length es) \<and> list_all (proper_expr P) es)"
| "proper_expr P (Expression TRUE_OP ch es) = False"

text \<open>
  What \<open>optimize\<close> returns: no null channel and no holder, no empty operation; an exclusion has a
  condition and at least one excluded part, their number restricted by \<open>P\<close>. \<open>tr\<close> admits the
  \<open>TRUE\<close> expressions of the index.
\<close>

fun normal_channel :: "bool \<Rightarrow> (nat \<Rightarrow> bool) \<Rightarrow> expr_channel \<Rightarrow> bool"
and normal_expr :: "bool \<Rightarrow> (nat \<Rightarrow> bool) \<Rightarrow> expression \<Rightarrow> bool" where
  "normal_channel tr P (SimpleChannel p) = (cp_channel_id p \<noteq> 0)"
| "normal_channel tr P (ExpressionChannel p e) = normal_expr tr P e"
| "normal_channel tr P (ExpressionChannelHolder c) = False"
| "normal_expr tr P (Expression NOP None es) = False"
| "normal_expr tr P (Expression NOP (Some c) es) = normal_channel tr P c"
| "normal_expr tr P (Expression AND_OP ch es) = (es \<noteq> [] \<and> list_all (normal_expr tr P) es)"
| "normal_expr tr P (Expression OR_OP ch es) = (es \<noteq> [] \<and> list_all (normal_expr tr P) es)"
| "normal_expr tr P (Expression AND_NOT ch es) =
     (2 \<le> length es \<and> P (length es) \<and> list_all (normal_expr tr P) es)"
| "normal_expr tr P (Expression TRUE_OP ch es) = tr"

lemma normal_expr_AND_OR:
  "op = AND_OP \<or> op = OR_OP \<Longrightarrow>
   normal_expr tr P (Expression op ch es) \<longleftrightarrow> es \<noteq> [] \<and> (\<forall>e\<in>set es. normal_expr tr P e)"
  by (auto simp: list_all_iff)

section \<open>Flattening\<close>

lemma expr_holds_AND_OR:
  "expr_holds v a (Expression AND_OP ch es) = (\<forall>e\<in>set es. expr_holds v a e)"
  "expr_holds v a (Expression OR_OP ch es) = (\<exists>e\<in>set es. expr_holds v a e)"
  by (simp_all add: list_all_iff list_ex_iff)

text \<open>The truth of the state of the flattening loop.\<close>

lemma flatten_step_holds:
  assumes "n \<noteq> 1" "op = AND_OP \<or> op = OR_OP" "flatten_step n (op, acc) s = (op', acc')"
  shows "op' = op \<and> expr_holds v a (Expression op ch acc') = expr_holds v a (Expression op ch (acc @ [s]))"
proof -
  obtain sop sch ses where s: "s = Expression sop sch ses" by (cases s)
  have "expr_holds v a s = expr_holds v a (Expression sop ch ses)" if "sop = AND_OP \<or> sop = OR_OP"
    using that s by (auto simp: expr_holds_AND_OR)
  moreover have "expr_holds v a s = expr_holds v a (hd ses)" if "sop = AND_OP \<or> sop = OR_OP" "length ses = 1"
    using that s by (auto simp: expr_holds_AND_OR length_Suc_conv)
  ultimately show ?thesis
    using assms s by (auto simp: flatten_step_def list_all_iff list_ex_iff length_Suc_conv split: if_splits)
qed

lemma foldl_flatten_holds:
  assumes "n \<noteq> 1" "op = AND_OP \<or> op = OR_OP" "foldl (flatten_step n) (op, acc) es = (op', es')"
  shows "op' = op \<and> expr_holds v a (Expression op ch es') = expr_holds v a (Expression op ch (acc @ es))"
  using assms(3)
proof (induction es arbitrary: acc)
  case (Cons e es)
  obtain op1 acc1 where s: "flatten_step n (op, acc) e = (op1, acc1)" by (rule prod.exhaust)
  from flatten_step_holds [OF assms(1,2) s] have 1: "op1 = op"
    "expr_holds v a (Expression op ch acc1) = expr_holds v a (Expression op ch (acc @ [e]))" by auto
  have "op' = op \<and> expr_holds v a (Expression op ch es') = expr_holds v a (Expression op ch (acc1 @ es))"
    using Cons.prems s 1 by (intro Cons.IH) simp
  then show ?case
    using 1 assms(2) by (auto simp: expr_holds_AND_OR)
qed simp

lemma flatten_holds: "expr_holds v a (flatten op ch es) = expr_holds v a (Expression op ch es)"
proof (cases "op = AND_OP \<or> op = OR_OP")
  case ao: True
  show ?thesis
  proof (cases "length es = 1")
    case True
    then obtain s where es: "es = [s]" by (auto simp: length_Suc_conv)
    obtain sop sch ses where s: "s = Expression sop sch ses" by (cases s)
    show ?thesis
      using ao es s by (auto simp: flatten_def flatten_step_def list_all_iff list_ex_iff)
  next
    case False
    obtain op' es' where "foldl (flatten_step (length es)) (op, []) es = (op', es')" by (rule prod.exhaust)
    with foldl_flatten_holds [OF False ao this] ao show ?thesis
      by (simp add: flatten_def)
  qed
qed (simp add: flatten_def)

text \<open>Flattening keeps the normal form.\<close>

lemma foldl_flatten_normal:
  assumes "op = AND_OP \<or> op = OR_OP" "foldl (flatten_step n) (op, acc) es = (op', es')"
    "\<forall>e\<in>set acc. normal_expr tr P e" "\<forall>e\<in>set es. normal_expr tr P e"
  shows "(op' = AND_OP \<or> op' = OR_OP) \<and> (\<forall>e\<in>set es'. normal_expr tr P e) \<and> (acc @ es \<noteq> [] \<longrightarrow> es' \<noteq> [])"
  using assms
proof (induction es arbitrary: op acc)
  case (Cons e es)
  obtain sop sch ses where e: "e = Expression sop sch ses" by (cases e)
  obtain op1 acc1 where s: "flatten_step n (op, acc) e = (op1, acc1)" by (rule prod.exhaust)
  have ne: "normal_expr tr P (Expression sop sch ses)" using Cons.prems(4) e by simp
  have "(op1 = AND_OP \<or> op1 = OR_OP) \<and> (\<forall>e\<in>set acc1. normal_expr tr P e) \<and> acc1 \<noteq> []"
    using s e Cons.prems(1,3) ne normal_expr_AND_OR [of sop tr P sch ses]
    by (auto simp: flatten_step_def split: if_splits)
  with Cons.IH [of op1 acc1] Cons.prems s show ?case by simp
qed auto

lemma flatten_normal:
  assumes "op = AND_OP \<or> op = OR_OP" "es \<noteq> []" "\<forall>e\<in>set es. normal_expr tr P e"
  shows "normal_expr tr P (flatten op ch es)"
proof -
  obtain op' es' where f: "foldl (flatten_step (length es)) (op, []) es = (op', es')" by (rule prod.exhaust)
  from foldl_flatten_normal [OF assms(1) f, of tr P] assms show ?thesis
    by (auto simp: flatten_def f normal_expr_AND_OR)
qed

section \<open>Optimised channels decide like the original ones\<close>

lemma list_ex_kept:
  "(\<And>e. e \<in> set es \<Longrightarrow> Q (snd (f e)) = R e \<or> \<not> fst (f e)) \<Longrightarrow> (\<And>e. e \<in> set es \<Longrightarrow> \<not> fst (f e) \<Longrightarrow> \<not> R e) \<Longrightarrow>
   (\<exists>x\<in>set (kept (map f es)). Q x) = (\<exists>e\<in>set es. R e)"
  by (force simp: kept_def)

lemma optimize_holds_both:
  shows "proper_channel P c \<Longrightarrow>
      channel_holds v a c = (case optimize c of None \<Rightarrow> False | Some c' \<Rightarrow> channel_holds v a c')"
    and "proper_expr P e \<Longrightarrow>
      expr_holds v a e = (fst (optimize_expr e) \<and> expr_holds v a (snd (optimize_expr e)))"
proof (induction c and e rule: optimize_optimize_expr.induct)
  case (8 ch e es)
  then have e: "expr_holds v a e = (fst (optimize_expr e) \<and> expr_holds v a (snd (optimize_expr e)))"
    by simp
  show ?case
  proof (cases "fst (optimize_expr e)")
    case True
    have IH: "expr_holds v a x = (fst (optimize_expr x) \<and> expr_holds v a (snd (optimize_expr x)))" if "x \<in> set es" for x
      using 8 True that by (auto simp: list_all_iff)
    have "(\<exists>x\<in>set (kept (map optimize_expr es)). expr_holds v a x) = (\<exists>x\<in>set es. expr_holds v a x)"
      by (rule list_ex_kept) (use IH in auto)
    then show ?thesis
      using e True by (auto simp: Let_def flatten_holds list_ex_iff split: prod.splits)
  qed (use e in \<open>auto split: prod.splits\<close>)
next
  case (9 ch es)
  then show ?case
    by (force simp: Let_def flatten_holds list_all_iff)
next
  case (10 ch es)
  have "(\<exists>x\<in>set (kept (map optimize_expr es)). expr_holds v a x) = (\<exists>x\<in>set es. expr_holds v a x)"
    by (rule list_ex_kept) (use 10 in \<open>auto simp: list_all_iff\<close>)
  then show ?case
    by (auto simp: Let_def flatten_holds list_ex_iff)
qed (auto split: prod.splits option.splits)

lemmas optimize_holds = optimize_holds_both(1)

section \<open>Optimised channels are in normal form\<close>

lemma kept_all:
  "(\<And>e. e \<in> set es \<Longrightarrow> fst (f e) \<Longrightarrow> Q (snd (f e))) \<Longrightarrow> \<forall>x\<in>set (kept (map f es)). Q x"
  by (induction es) (auto simp: kept_def)

lemma length_kept: "length (kept (map f es)) \<le> length es"
  by (simp add: kept_def)

lemma optimize_normal_both:
  assumes P: "\<And>m n. 2 \<le> m \<Longrightarrow> m \<le> n \<Longrightarrow> P n \<Longrightarrow> P m"
  shows "proper_channel P c \<Longrightarrow> optimize c = Some c' \<Longrightarrow> normal_channel False P c'"
    and "proper_expr P e \<Longrightarrow> fst (optimize_expr e) \<Longrightarrow> normal_expr False P (snd (optimize_expr e))"
proof (induction c and e arbitrary: c' rule: optimize_optimize_expr.induct)
  case (8 ch e es)
  show ?case
  proof (cases "fst (optimize_expr e)")
    case True
    let ?es = "kept (map optimize_expr es)"
    have e: "normal_expr False P (snd (optimize_expr e))" using 8 True by simp
    have es: "\<forall>x\<in>set ?es. normal_expr False P x"
      by (rule kept_all) (use 8 True in \<open>auto simp: list_all_iff\<close>)
    show ?thesis
    proof (cases "?es = []")
      case True
      then show ?thesis
        using e 8 flatten_normal [of AND_OP "[snd (optimize_expr e)]" False P ch] \<open>fst (optimize_expr e)\<close>
        by (auto simp: Let_def split: prod.splits)
    next
      case False
      have "P (length (snd (optimize_expr e) # ?es))"
      proof (rule P)
        show "2 \<le> length (snd (optimize_expr e) # ?es)" using False by (simp add: Suc_le_eq)
        show "length (snd (optimize_expr e) # ?es) \<le> length (e # es)"
          using length_kept [of optimize_expr es] by simp
        show "P (length (e # es))" using "8.prems"(1) by simp
      qed
      then show ?thesis
        using e es False \<open>fst (optimize_expr e)\<close>
        by (simp add: Let_def flatten_def list_all_iff Suc_le_eq)
    qed
  qed (use 8 in \<open>auto split: prod.splits\<close>)
next
  case (9 ch es)
  then show ?case
    by (auto simp: Let_def list_all_iff intro!: flatten_normal split: if_splits)
next
  case (10 ch es)
  have "\<forall>x\<in>set (kept (map optimize_expr es)). normal_expr False P x"
    by (rule kept_all) (use 10 in \<open>auto simp: list_all_iff\<close>)
  then show ?case
    using "10.prems" by (auto simp: Let_def intro!: flatten_normal split: if_splits)
qed (auto split: prod.splits if_splits)

lemmas optimize_normal = optimize_normal_both(1)

lemma optimize_params:
  "optimize c = Some c' \<Longrightarrow> channel_params_of c' = channel_params_of c \<and> has_params c'"
  by (induction c rule: channel_params_of.induct) (auto split: prod.splits if_splits)

end
