(* ===== verification/ExprChannelOps.thy ===== *)
theory ExprChannelOps
  imports ExprChannel
begin

text \<open>
  The reporting operations of the channel classes of \<open>ExpressionChannel.cpp\<close>: use counting,
  named channels, the printed condition, the CMP channels and the set of all simple channels.
\<close>

section \<open>Use counters\<close>

type_synonym use_state = "channel_use_count_map \<times> channel_id set option"

text \<open>The static \<open>SimpleChannel::use\<close>.\<close>

definition SimpleChannel_use :: "channel_id \<Rightarrow> channel_id set \<Rightarrow> use_state \<Rightarrow> bool \<times> use_state" where
  "SimpleChannel_use k tc st =
     (if k \<in> tc
      then (True,
            case fst st k of None \<Rightarrow> (fst st)(k \<mapsto> channel_use_count_init\<lparr>uc_count := 1\<rparr>) | Some u \<Rightarrow> fst st,
            map_option (insert k) (snd st))
      else (False, st))"

text \<open>
  The part of \<open>ExpressionChannel::use\<close> around the walk over the expression: a channel that is in the
  table is counted again and hands out its recorded channels, another one is walked
  (\<open>walk\<close>, with a local set of matched channels) and recorded when something in it is used.
\<close>

definition use_recorded ::
  "channel_id \<Rightarrow> (use_state \<Rightarrow> bool \<times> use_state) \<Rightarrow> use_state \<Rightarrow> bool \<times> use_state" where
  "use_recorded k walk st =
     (case fst st k of
        Some u \<Rightarrow> (True, (fst st)(k \<mapsto> u\<lparr>uc_count := Suc (uc_count u)\<rparr>),
                    map_option (\<lambda>m. m \<union> uc_channel_ids u) (snd st))
      | None \<Rightarrow>
          (case walk (fst st, Some {}) of (r, uc, lm) \<Rightarrow>
             if r
             then (True, uc(k \<mapsto> (uc_of uc k)\<lparr>uc_count := 1,
                                             uc_channel_ids := uc_channel_ids (uc_of uc k) \<union> the lm\<rparr>),
                   map_option (\<lambda>m. m \<union> the lm) (snd st))
             else (False, uc, snd st)))"

text \<open>\<open>result |= f(x)\<close> over a list: every element is visited.\<close>

fun or_each :: "('a \<Rightarrow> 's \<Rightarrow> bool \<times> 's) \<Rightarrow> 'a list \<Rightarrow> bool \<Rightarrow> 's \<Rightarrow> bool \<times> 's" where
  "or_each f [] r st = (r, st)"
| "or_each f (x # xs) r st = (case f x st of (r', st') \<Rightarrow> or_each f xs (r \<or> r') st')"

lemma or_each_cong [fundef_cong]:
  "xs = ys \<Longrightarrow> r = r' \<Longrightarrow> st = st' \<Longrightarrow> (\<And>x s. x \<in> set ys \<Longrightarrow> f x s = g x s) \<Longrightarrow>
   or_each f xs r st = or_each g ys r' st'"
  by (induction xs arbitrary: ys r r' st st') (auto split: prod.splits)

lemma or_each_fst:
  "(\<And>x s. x \<in> set xs \<Longrightarrow> fst (f x s) = P x) \<Longrightarrow> fst (or_each f xs r st) = (r \<or> (\<exists>x\<in>set xs. P x))"
  by (induction xs arbitrary: r st) (auto split: prod.splits, (metis fst_conv)+)

lemma use_recorded_cong [fundef_cong]:
  "k = k' \<Longrightarrow> st = st' \<Longrightarrow> (\<And>s. walk s = walk' s) \<Longrightarrow> use_recorded k walk st = use_recorded k' walk' st'"
  by (auto simp: use_recorded_def split: option.splits prod.splits)

fun channel_use :: "channel_id set \<Rightarrow> expr_channel \<Rightarrow> use_state \<Rightarrow> bool \<times> use_state"
and use_expr :: "channel_id set \<Rightarrow> expression \<Rightarrow> use_state \<Rightarrow> bool \<times> use_state" where
  "channel_use tc (SimpleChannel p) st = SimpleChannel_use (cp_channel_id p) tc st"
| "channel_use tc (ExpressionChannel p e) st = use_recorded (cp_channel_id p) (use_expr tc e) st"
| "channel_use tc (ExpressionChannelHolder None) st = (False, st)"
| "channel_use tc (ExpressionChannelHolder (Some c)) st = channel_use tc c st"
| "use_expr tc (Expression op None es) st = or_each (use_expr tc) es False st"
| "use_expr tc (Expression op (Some c) es) st = channel_use tc c st"

section \<open>Named channels and the set of all simple channels\<close>

fun triggered_named_channels :: "channel_id set \<Rightarrow> expr_channel \<Rightarrow> channel_id set \<Rightarrow> channel_id set"
and triggered_named_expr :: "channel_id set \<Rightarrow> expression \<Rightarrow> channel_id set \<Rightarrow> channel_id set" where
  "triggered_named_channels tc (SimpleChannel p) acc =
     (if fst (triggered (Some tc) None (Some ''AW'') (SimpleChannel p) (None, None)) \<noteq> 0
      then insert (cp_channel_id p) acc else acc)"
| "triggered_named_channels tc (ExpressionChannel p e) acc =
     triggered_named_expr tc e
       (if fst (triggered (Some tc) None (Some ''AW'') (ExpressionChannel p e) (None, None)) \<noteq> 0 \<and> cp_channel_id p \<noteq> 0
        then insert (cp_channel_id p) acc else acc)"
| "triggered_named_channels tc (ExpressionChannelHolder None) acc = acc"
| "triggered_named_channels tc (ExpressionChannelHolder (Some c)) acc = triggered_named_channels tc c acc"
| "triggered_named_expr tc (Expression op ch es) acc =
     foldl (\<lambda>acc' e. triggered_named_expr tc e acc')
       (case ch of
          None \<Rightarrow> acc
        | Some c \<Rightarrow> if has_params c then triggered_named_channels tc c acc else acc) es"

fun get_all_channels :: "expr_channel \<Rightarrow> channel_id set"
and get_all_channels_expr :: "expression \<Rightarrow> channel_id set" where
  "get_all_channels (SimpleChannel p) = {cp_channel_id p}"
| "get_all_channels (ExpressionChannel p e) = get_all_channels_expr e"
| "get_all_channels (ExpressionChannelHolder None) = {}"
| "get_all_channels (ExpressionChannelHolder (Some c)) = get_all_channels c"
| "get_all_channels_expr (Expression op None es) = \<Union> (set (map get_all_channels_expr es))"
| "get_all_channels_expr (Expression op (Some c) es) = get_all_channels c"

section \<open>CMP channels\<close>

text \<open>Channels that the CMP walk looks into: unnamed ones, and named ones that are not public.\<close>

definition cmp_visible :: "channel_params \<Rightarrow> bool" where
  "cmp_visible p \<longleftrightarrow> cp_channel_id p = 0 \<or> cp_common_params p = Some False"

fun get_all_cmp_channels :: "expr_channel \<Rightarrow> expr_channel list"
and get_all_cmp_expr :: "expression \<Rightarrow> expr_channel list" where
  "get_all_cmp_channels (SimpleChannel p) =
     (if cp_cmp_params p \<noteq> None then [SimpleChannel p] else [])"
| "get_all_cmp_channels (ExpressionChannel p e) =
     (if cmp_visible p
      then (if cp_cmp_params p \<noteq> None then [ExpressionChannel p e] else get_all_cmp_expr e)
      else [])"
| "get_all_cmp_channels (ExpressionChannelHolder None) = []"
| "get_all_cmp_channels (ExpressionChannelHolder (Some c)) = get_all_cmp_channels c"
| "get_all_cmp_expr (Expression op None es) = concat (map get_all_cmp_expr es)"
| "get_all_cmp_expr (Expression op (Some c) es) = get_all_cmp_channels c"

text \<open>The default status set \<open>"A"\<close> of \<open>triggered\<close> applies in the calls below.\<close>

definition triggered_active :: "channel_id set \<Rightarrow> expr_channel \<Rightarrow> bool" where
  "triggered_active tc c \<longleftrightarrow> fst (triggered (Some tc) None (Some ''A'') c (None, None)) \<noteq> 0"

fun get_cmp_channels :: "channel_id set \<Rightarrow> expr_channel \<Rightarrow> expr_channel list"
and get_cmp_expr :: "channel_id set \<Rightarrow> expression \<Rightarrow> expr_channel list" where
  "get_cmp_channels tc (SimpleChannel p) =
     (if cp_cmp_params p \<noteq> None \<and> triggered_active tc (SimpleChannel p) then [SimpleChannel p] else [])"
| "get_cmp_channels tc (ExpressionChannel p e) =
     (if cmp_visible p \<and> triggered_active tc (ExpressionChannel p e)
      then (if cp_cmp_params p \<noteq> None then [ExpressionChannel p e] else get_cmp_expr tc e)
      else [])"
| "get_cmp_channels tc (ExpressionChannelHolder None) = []"
| "get_cmp_channels tc (ExpressionChannelHolder (Some c)) = get_cmp_channels tc c"
| "get_cmp_expr tc (Expression op (Some c) es) = get_cmp_channels tc c"
| "get_cmp_expr tc (Expression op None es) =
     (if op = AND_NOT \<and> es \<noteq> []
      then get_all_cmp_expr (last es) @ concat (butlast (map (get_cmp_expr tc) es))
      else concat (map (get_cmp_expr tc) es))"

section \<open>The printed condition\<close>

text \<open>\<open>std::to_string\<close> of an unsigned number.\<close>

fun to_string :: "nat \<Rightarrow> string" where
  "to_string n = (if n < 10 then [char_of (48 + n)] else to_string (n div 10) @ [char_of (48 + n mod 10)])"

declare to_string.simps [simp del]

text \<open>
  \<open>triggered_expression\<close> prints the triggered part of the condition; \<open>named\<close> tells that the channel
  whose expression is walked has an id, so its sub channels are printed by id. The value is
  \<open>None\<close> when the code returns \<open>false\<close> and the text to append otherwise.
\<close>

fun join_with :: "string \<Rightarrow> string list \<Rightarrow> string" where
  "join_with sep [] = []"
| "join_with sep [x] = x"
| "join_with sep (x # y # xs) = x @ sep @ join_with sep (y # xs)"

fun triggered_expression :: "channel_id set \<Rightarrow> expr_channel \<Rightarrow> string option"
and triggered_expression_expr :: "channel_id set \<Rightarrow> bool \<Rightarrow> expression \<Rightarrow> string option" where
  "triggered_expression tc (SimpleChannel p) =
     (if triggered_active tc (SimpleChannel p) then Some (to_string (cp_channel_id p)) else None)"
| "triggered_expression tc (ExpressionChannel p e) = triggered_expression_expr tc (cp_channel_id p \<noteq> 0) e"
| "triggered_expression tc (ExpressionChannelHolder None) = None"
| "triggered_expression tc (ExpressionChannelHolder (Some c)) = triggered_expression tc c"
| "triggered_expression_expr tc named (Expression op ch es) =
     (if \<not> fst (triggered_sub (Some tc) None (Some ''A'') (Expression op ch es) (None, None))
      then None
      else case op of
        NOP \<Rightarrow> (case ch of
            None \<Rightarrow> None
          | Some c \<Rightarrow>
              if named \<or> cp_type (channel_params_of c) = CHR ''V''
              then Some (to_string (cp_channel_id (channel_params_of c)))
              else triggered_expression tc c)
      | AND_NOT \<Rightarrow> (case es of
            [] \<Rightarrow> Some ''()''
          | e # es' \<Rightarrow> map_option (\<lambda>s. ''('' @ s @ '')'') (triggered_expression_expr tc named e))
      | AND_OP \<Rightarrow>
          (let parts = map (triggered_expression_expr tc named) es
           in if None \<in> set parts then None
              else Some (''('' @ join_with '' & '' (map the parts) @ '')''))
      | OR_OP \<Rightarrow>
          (let parts = List.map_filter id (map (triggered_expression_expr tc named) es)
           in if parts = [] then None
              else if length parts > 1 then Some (''('' @ join_with '' | '' parts @ '')'')
              else Some (hd parts))
      | TRUE_OP \<Rightarrow> Some [])"

end
