(* ===== verification/ExprFast.thy ===== *)
theory ExprFast
  imports ExprOptimize ExprChannelOps
begin

text \<open>
  \<open>FastExpressionChannel\<close> of \<open>ExpressionChannel.cpp\<close>: the form of an expression channel that the
  index evaluates. \<open>make_cell_\<close> separates the simple channels of a conjunction or disjunction from
  its other operands and flattens it, \<open>reordering_\<close> sorts the operands by the number of channels
  they may need. Both keep the decision of the channel.
\<close>

section \<open>Operations\<close>

datatype fast_expression =
  FastExpression (fast_op: operation) (fast_id: channel_id)
    (fast_sub: "fast_expression list") (fast_simple: "channel_id list")

fun match_cell :: "channel_id set \<Rightarrow> fast_expression \<Rightarrow> bool" where
  "match_cell S (FastExpression NOP k cs ss) = (k \<noteq> 0 \<and> k \<in> S)"
| "match_cell S (FastExpression AND_OP k cs ss) =
     (list_all (\<lambda>x. x \<in> S) ss \<and> list_all (match_cell S) cs)"
| "match_cell S (FastExpression OR_OP k cs ss) =
     (list_ex (\<lambda>x. x \<in> S) ss \<or> list_ex (match_cell S) cs)"
| "match_cell S (FastExpression AND_NOT k [] ss) = False"
| "match_cell S (FastExpression AND_NOT k (c # cs) ss) =
     (match_cell S c \<and> \<not> list_ex (match_cell S) cs)"
| "match_cell S (FastExpression TRUE_OP k cs ss) = True"

text \<open>One round of the loop of \<open>make_cell_\<close> over the operands of a conjunction or disjunction.\<close>

definition add_sub_cell ::
  "operation \<Rightarrow> channel_id set \<times> fast_expression list \<Rightarrow> fast_expression \<Rightarrow>
   channel_id set \<times> fast_expression list" where
  "add_sub_cell op st c =
     (if fast_op c = NOP
      then (if fast_id c \<noteq> 0 then (insert (fast_id c) (fst st), snd st) else st)
      else if fast_op c = op \<or>
              (fast_op c = OR_OP \<or> fast_op c = AND_OP) \<and>
              length (fast_simple c) + length (fast_sub c) = 1
      then (fst st \<union> set (fast_simple c), snd st @ fast_sub c)
      else (fst st, snd st @ [c]))"

definition join_cells :: "operation \<Rightarrow> fast_expression list \<Rightarrow> fast_expression" where
  "join_cells op cs =
     (case foldl (add_sub_cell op) ({}, []) cs of (simple, subs) \<Rightarrow>
        FastExpression op 0 subs (sorted_list_of_set simple))"

function (sequential) make_cell :: "expression \<Rightarrow> fast_expression" where
  "make_cell (Expression NOP None es) = FastExpression NOP 0 [] []"
| "make_cell (Expression NOP (Some c) es) =
     (case simple_channel c of
        Some p \<Rightarrow> FastExpression NOP (cp_channel_id p) [] []
      | None \<Rightarrow> (case expression_channel c of
                  Some (p, e) \<Rightarrow> make_cell e
                | None \<Rightarrow> FastExpression NOP 0 [] []))"
| "make_cell (Expression AND_NOT ch es) = FastExpression AND_NOT 0 (map make_cell es) []"
| "make_cell (Expression TRUE_OP ch es) = FastExpression TRUE_OP 0 [] []"
| "make_cell (Expression AND_OP ch es) =
     (if length es = 1 then make_cell (hd es) else join_cells AND_OP (map make_cell es))"
| "make_cell (Expression OR_OP ch es) =
     (if length es = 1 then make_cell (hd es) else join_cells OR_OP (map make_cell es))"
  by pat_completeness auto
termination
  by (relation "measure size")
    (auto simp: less_Suc_eq_le length_Suc_conv
      dest: expression_channel_size size_list_estimation' [OF _ order_refl, of _ _ size])

text \<open>\<open>basis\<close> after the loop: the first operand's set, replaced by every smaller one.\<close>

definition least_basis :: "channel_id set \<Rightarrow> channel_id set list \<Rightarrow> channel_id set" where
  "least_basis b bs =
     (case bs of
        [] \<Rightarrow> b
      | x # xs \<Rightarrow> foldl (\<lambda>b y. if card y < card b then y else b) x xs)"

text \<open>The nodes of the multimap \<open>complexity\<close> in order: size and index of each operand.\<close>

definition complexity :: "channel_id set list \<Rightarrow> (nat \<times> nat) list" where
  "complexity bs = sort_key fst (zip (map card bs) [0..<length bs])"

fun reordering :: "fast_expression \<Rightarrow> channel_id set \<Rightarrow> fast_expression \<times> channel_id set" where
  "reordering (FastExpression NOP k cs ss) b = (FastExpression NOP k cs ss, insert k b)"
| "reordering (FastExpression AND_NOT k cs ss) b =
     (let rs = map (\<lambda>c. reordering c (set (fast_simple c))) cs;
          order = filter (\<lambda>x. snd x \<noteq> 0) (complexity (map snd rs))
      in (FastExpression AND_NOT k (map fst (take 1 rs) @ map (\<lambda>x. fst (rs ! snd x)) order) ss,
          least_basis b (map snd rs)))"
| "reordering (FastExpression AND_OP k cs ss) b =
     (let rs = map (\<lambda>c. reordering c (set (fast_simple c))) cs
      in (FastExpression AND_OP k (map (\<lambda>x. fst (rs ! snd x)) (complexity (map snd rs))) ss,
          least_basis b (map snd rs)))"
| "reordering (FastExpression OR_OP k cs ss) b =
     (let rs = map (\<lambda>c. reordering c {}) cs
      in (FastExpression OR_OP k (map (\<lambda>x. fst (rs ! snd x)) (complexity (map snd rs))) ss,
          b \<union> \<Union> (set (map snd rs))))"
| "reordering (FastExpression TRUE_OP k cs ss) b = (FastExpression TRUE_OP k cs ss, b)"

text \<open>The constructor.\<close>

definition FastExpressionChannel :: "expr_channel \<Rightarrow> fast_expression" where
  "FastExpressionChannel c =
     fst (reordering
       (case expression_channel c of
          Some (p, e) \<Rightarrow> make_cell e
        | None \<Rightarrow> (case simple_channel c of
                    Some p \<Rightarrow> FastExpression NOP (cp_channel_id p) [] []
                  | None \<Rightarrow> FastExpression NOP 0 [] [])) {})"

definition fast_triggered :: "channel_id set \<Rightarrow> fast_expression \<Rightarrow> nat" where
  "fast_triggered S c = (if match_cell S c then 1 else 0)"

fun fast_get_all_channels :: "fast_expression \<Rightarrow> channel_id set" where
  "fast_get_all_channels (FastExpression op k cs ss) =
     (if op = NOP then {k} else set ss \<union> \<Union> (set (map fast_get_all_channels cs)))"

text \<open>\<open>use_\<close> walks the operands and passes over the simple channels that \<open>make_cell_\<close> moved out.\<close>

fun fast_use_cell :: "channel_id set \<Rightarrow> fast_expression \<Rightarrow> use_state \<Rightarrow> bool \<times> use_state" where
  "fast_use_cell tc (FastExpression op k cs ss) st =
     (if op = NOP then SimpleChannel_use k tc st else or_each (fast_use_cell tc) cs False st)"

text \<open>\<open>use\<close>; the parameters of a fast channel are the empty ones, so its id is 0.\<close>

definition fast_use :: "channel_id set \<Rightarrow> fast_expression \<Rightarrow> use_state \<Rightarrow> bool \<times> use_state" where
  "fast_use tc c st = use_recorded (cp_channel_id EMPTY_CHANNEL_PARAMS) (fast_use_cell tc c) st"

section \<open>Cells decide like the expressions they are made of\<close>

text \<open>Membership of the channel set, at any status: how the index evaluates channels.\<close>

definition in_channels :: "channel_id set \<Rightarrow> channel_params \<Rightarrow> bool" where
  "in_channels S p \<longleftrightarrow> cp_channel_id p \<in> S"

abbreviation ch_eval :: "channel_id set \<Rightarrow> expr_channel \<Rightarrow> bool" where
  "ch_eval S \<equiv> channel_holds (in_channels S) (\<lambda>_. True)"

abbreviation ex_eval :: "channel_id set \<Rightarrow> expression \<Rightarrow> bool" where
  "ex_eval S \<equiv> expr_holds (in_channels S) (\<lambda>_. True)"

lemma ch_eval_triggered: "ch_eval S c \<longleftrightarrow> fst (triggered (Some S) w None c st) \<noteq> 0"
proof -
  have "simple_holds (Some S) w = in_channels S" "status_allowed None = (\<lambda>_. True)"
    by (auto simp: simple_holds_def in_channels_def status_allowed_def)
  then show ?thesis using triggered_decides(1) [of "Some S" w None c st] by simp
qed

lemma simple_channel_eval: "simple_channel c = Some p \<Longrightarrow> ch_eval S c = in_channels S p"
  by (induction c rule: simple_channel.induct) auto

lemma expression_channel_eval: "expression_channel c = Some (p, e) \<Longrightarrow> ch_eval S c = ex_eval S e"
  by (induction c rule: expression_channel.induct) auto

lemma expression_channel_normal:
  "expression_channel c = Some (p, e) \<Longrightarrow> normal_channel tr P c \<Longrightarrow> normal_expr tr P e"
  by (induction c rule: expression_channel.induct) auto

lemma normal_channel_cases:
  assumes "normal_channel tr P c"
  obtains p where "c = SimpleChannel p" "cp_channel_id p \<noteq> 0"
  | p e where "c = ExpressionChannel p e" "normal_expr tr P e"
  using assms by (cases c) auto

text \<open>A cell that stands for a simple channel carries its id.\<close>

definition fast_cell_ok :: "fast_expression \<Rightarrow> bool" where
  "fast_cell_ok c \<longleftrightarrow> (fast_op c = NOP \<longrightarrow> fast_id c \<noteq> 0)"

text \<open>The truth of the state of the joining loop.\<close>

definition join_holds :: "operation \<Rightarrow> channel_id set \<Rightarrow> channel_id set \<times> fast_expression list \<Rightarrow> bool" where
  "join_holds op S st =
     (if op = AND_OP then (\<forall>x\<in>fst st. x \<in> S) \<and> (\<forall>c\<in>set (snd st). match_cell S c)
      else (\<exists>x\<in>fst st. x \<in> S) \<or> (\<exists>c\<in>set (snd st). match_cell S c))"

definition combine :: "operation \<Rightarrow> bool \<Rightarrow> bool \<Rightarrow> bool" where
  "combine op x y = (if op = AND_OP then x \<and> y else x \<or> y)"

lemma match_cell_AND_OR:
  "match_cell S (FastExpression AND_OP k cs ss) = ((\<forall>x\<in>set ss. x \<in> S) \<and> (\<forall>c\<in>set cs. match_cell S c))"
  "match_cell S (FastExpression OR_OP k cs ss) = ((\<exists>x\<in>set ss. x \<in> S) \<or> (\<exists>c\<in>set cs. match_cell S c))"
  by (simp_all add: list_all_iff list_ex_iff)

lemma join_holds_union:
  "op = AND_OP \<or> op = OR_OP \<Longrightarrow>
   join_holds op S (A \<union> B, xs @ ys) = combine op (join_holds op S (A, xs)) (join_holds op S (B, ys))"
  by (auto simp: join_holds_def combine_def)

lemma join_holds_cell:
  assumes "op = AND_OP \<or> op = OR_OP" "sop = AND_OP \<or> sop = OR_OP"
    "sop = op \<or> length ss + length cs = 1"
  shows "join_holds op S (set ss, cs) = match_cell S (FastExpression sop k cs ss)"
proof (cases "sop = op")
  case True
  then show ?thesis using assms(1) by (auto simp: join_holds_def match_cell_AND_OR simp del: match_cell.simps)
next
  case False
  then have "(\<exists>x. ss = [x] \<and> cs = []) \<or> (\<exists>c. cs = [c] \<and> ss = [])"
    using assms(3) by (auto simp: length_Suc_conv add_is_1)
  then show ?thesis
    using assms(1,2) by (auto simp: join_holds_def match_cell_AND_OR simp del: match_cell.simps)
qed

lemma add_sub_cell_holds:
  assumes "op = AND_OP \<or> op = OR_OP" "fast_cell_ok c"
  shows "join_holds op S (add_sub_cell op st c) = combine op (join_holds op S st) (match_cell S c)"
proof -
  obtain A xs where st: "st = (A, xs)" by (rule prod.exhaust)
  obtain sop k cs ss where c: "c = FastExpression sop k cs ss" by (cases c)
  have single: "join_holds op S ({}, [c]) = match_cell S c"
    using assms(1) by (auto simp: join_holds_def)
  consider (nop) "sop = NOP" | (merge) "sop \<noteq> NOP" "sop = op \<or> (sop = OR_OP \<or> sop = AND_OP) \<and> length ss + length cs = 1"
    | (keep) "sop \<noteq> NOP" "\<not> (sop = op \<or> (sop = OR_OP \<or> sop = AND_OP) \<and> length ss + length cs = 1)"
    by blast
  then show ?thesis
  proof cases
    case nop
    then show ?thesis
      using assms c st join_holds_union [of op S A "{k}" xs "[]"]
      by (auto simp: add_sub_cell_def fast_cell_ok_def join_holds_def combine_def)
  next
    case merge
    then have "add_sub_cell op st c = (A \<union> set ss, xs @ cs)"
      using c st by (auto simp: add_sub_cell_def)
    moreover have "join_holds op S (set ss, cs) = match_cell S c"
      unfolding c using merge assms(1) by (intro join_holds_cell) auto
    ultimately show ?thesis
      using join_holds_union [OF assms(1), of S A "set ss" xs cs] st by simp
  next
    case keep
    then have "add_sub_cell op st c = (A \<union> {}, xs @ [c])"
      using c st by (auto simp: add_sub_cell_def)
    then show ?thesis
      using join_holds_union [OF assms(1), of S A "{}" xs "[c]"] single st by simp
  qed
qed

lemma add_sub_cell_finite: "finite (fst st) \<Longrightarrow> finite (fst (add_sub_cell op st c))"
  by (simp add: add_sub_cell_def)

lemma foldl_add_sub_cell:
  assumes "op = AND_OP \<or> op = OR_OP" "\<forall>c\<in>set cs. fast_cell_ok c" "finite (fst st)"
  shows "finite (fst (foldl (add_sub_cell op) st cs)) \<and>
    join_holds op S (foldl (add_sub_cell op) st cs) =
      foldl (combine op) (join_holds op S st) (map (match_cell S) cs)"
  using assms
  by (induction cs arbitrary: st) (simp_all add: add_sub_cell_holds add_sub_cell_finite)

lemma foldl_combine:
  "foldl (combine AND_OP) x bs = (x \<and> (\<forall>b\<in>set bs. b))"
  "foldl (combine OR_OP) x bs = (x \<or> (\<exists>b\<in>set bs. b))"
  by (induction bs arbitrary: x) (auto simp: combine_def)

lemma match_join_cells:
  assumes "op = AND_OP \<or> op = OR_OP" "\<forall>c\<in>set cs. fast_cell_ok c"
  shows "match_cell S (join_cells op cs) =
    (if op = AND_OP then \<forall>c\<in>set cs. match_cell S c else \<exists>c\<in>set cs. match_cell S c)"
proof -
  obtain A xs where f: "foldl (add_sub_cell op) ({}, []) cs = (A, xs)" by (rule prod.exhaust)
  with foldl_add_sub_cell [OF assms, of "({}, [])" S]
  have "finite A" "join_holds op S (A, xs) = foldl (combine op) (op = AND_OP) (map (match_cell S) cs)"
    by (auto simp: join_holds_def)
  then show ?thesis
    using assms(1) f by (auto simp: join_cells_def join_holds_def match_cell_AND_OR foldl_combine simp del: match_cell.simps)
qed

lemma cell_ok_join_cells: "op = AND_OP \<or> op = OR_OP \<Longrightarrow> fast_cell_ok (join_cells op cs)"
  by (auto simp: fast_cell_ok_def join_cells_def split: prod.splits)

lemma make_cell_holds:
  "normal_expr tr P e \<Longrightarrow> fast_cell_ok (make_cell e) \<and> match_cell S (make_cell e) = ex_eval S e"
proof (induction e rule: make_cell.induct)
  case (2 c es)
  then have "normal_channel tr P c" by simp
  then show ?case
  proof (cases rule: normal_channel_cases)
    case 2
    then show ?thesis using "2.IH" by auto
  qed (auto simp: fast_cell_ok_def in_channels_def)
next
  case (3 ch es)
  then show ?case
    by (cases es) (auto simp: fast_cell_ok_def list_all_iff list_ex_iff)
next
  case (5 ch es)
  show ?case
  proof (cases "length es = 1")
    case True
    then show ?thesis using 5 by (auto simp: length_Suc_conv)
  next
    case False
    have "\<forall>c\<in>set (map make_cell es). fast_cell_ok c"
      using 5 False by (auto simp: list_all_iff)
    with 5 False show ?thesis
      by (auto simp: match_join_cells cell_ok_join_cells list_all_iff)
  qed
next
  case (6 ch es)
  show ?case
  proof (cases "length es = 1")
    case True
    then show ?thesis using 6 by (auto simp: length_Suc_conv)
  next
    case False
    have "\<forall>c\<in>set (map make_cell es). fast_cell_ok c"
      using 6 False by (auto simp: list_all_iff)
    with 6 False show ?thesis
      by (auto simp: match_join_cells cell_ok_join_cells list_all_iff list_ex_iff)
  qed
qed (auto simp: fast_cell_ok_def)

section \<open>Reordering keeps the decision\<close>

lemma set_complexity: "snd ` set (complexity bs) = {0..<length bs}"
proof -
  have "set (complexity bs) = set (zip (map card bs) [0..<length bs])"
    by (simp add: complexity_def)
  then show ?thesis by (simp flip: set_map)
qed

lemma image_nth_indices: "(\<lambda>i. f (xs ! i)) ` {0..<length xs} = f ` set xs"
proof -
  have "set xs = (\<lambda>i. xs ! i) ` {0..<length xs}" by (auto simp: set_conv_nth)
  then show ?thesis by (simp add: image_image)
qed

lemma set_reordered: "(\<lambda>x. f (rs ! snd x)) ` set (complexity (map snd rs)) = f ` set rs"
proof -
  have "(\<lambda>x. f (rs ! snd x)) ` set (complexity (map snd rs)) = (\<lambda>i. f (rs ! i)) ` {0..<length rs}"
    using set_complexity [of "map snd rs"] by (metis (no_types) image_image length_map)
  then show ?thesis by (simp only: image_nth_indices)
qed

lemma set_reordered_tail:
  "(\<lambda>x. f (rs ! snd x)) ` set (filter (\<lambda>x. snd x \<noteq> 0) (complexity (map snd rs))) = f ` set (tl rs)"
proof -
  have "snd ` set (filter (\<lambda>x. snd x \<noteq> 0) (complexity (map snd rs))) = {0..<length rs} - {0}"
    unfolding set_filter using set_complexity [of "map snd rs"] by (auto simp del: atLeastLessThan_iff)
  then have "(\<lambda>x. f (rs ! snd x)) ` set (filter (\<lambda>x. snd x \<noteq> 0) (complexity (map snd rs))) =
      (\<lambda>i. f (rs ! i)) ` ({0..<length rs} - {0})"
    by (metis (no_types) image_image)
  also have "\<dots> = f ` set (tl rs)"
  proof (cases rs)
    case (Cons r rs')
    have "{0..<length rs} - {0} = Suc ` {0..<length rs'}"
      using Cons by (auto simp: image_Suc_atLeastLessThan)
    then have "(\<lambda>i. f (rs ! i)) ` ({0..<length rs} - {0}) = (\<lambda>i. f (rs ! Suc i)) ` {0..<length rs'}"
      by (simp only: image_image)
    then show ?thesis
      using Cons image_nth_indices [of f rs'] by simp
  qed simp
  finally show ?thesis .
qed

lemma reordering_holds: "match_cell S (fst (reordering c b)) = match_cell S c"
proof (induction c b rule: reordering.induct)
  case (2 k cs ss b)
  let ?rs = "map (\<lambda>c. reordering c (set (fast_simple c))) cs"
  have IH: "match_cell S (fst (reordering c (set (fast_simple c)))) = match_cell S c" if "c \<in> set cs" for c
    using "2.IH" that by simp
  have tail: "(\<exists>x\<in>set (filter (\<lambda>x. snd x \<noteq> 0) (complexity (map snd ?rs))). match_cell S (fst (?rs ! snd x))) =
      (\<exists>r\<in>set (tl ?rs). match_cell S (fst r))"
    using set_reordered_tail [of "\<lambda>r. match_cell S (fst r)" ?rs] by (metis (no_types, lifting) image_iff)
  show ?case
  proof (cases cs)
    case (Cons c cs')
    then have "match_cell S (fst (reordering (FastExpression AND_NOT k cs ss) b)) =
        (match_cell S (fst (reordering c (set (fast_simple c)))) \<and>
         \<not> (\<exists>x\<in>set (filter (\<lambda>x. snd x \<noteq> 0) (complexity (map snd ?rs))). match_cell S (fst (?rs ! snd x))))"
      by (auto simp: Let_def list_ex_iff simp del: set_filter)
    also have "\<dots> = (match_cell S c \<and> \<not> (\<exists>x\<in>set cs'. match_cell S x))"
      using tail Cons IH by simp
    finally show ?thesis using Cons by (simp add: list_ex_iff)
  qed (simp add: complexity_def)
next
  case (3 k cs ss b)
  let ?rs = "map (\<lambda>c. reordering c (set (fast_simple c))) cs"
  have "(\<forall>x\<in>set (complexity (map snd ?rs)). match_cell S (fst (?rs ! snd x))) = (\<forall>r\<in>set ?rs. match_cell S (fst r))"
    using set_reordered [of "\<lambda>r. match_cell S (fst r)" ?rs] by (metis (no_types, lifting) image_iff)
  then show ?case using "3.IH" by (simp add: Let_def list_all_iff)
next
  case (4 k cs ss b)
  let ?rs = "map (\<lambda>c. reordering c {}) cs"
  have "(\<exists>x\<in>set (complexity (map snd ?rs)). match_cell S (fst (?rs ! snd x))) = (\<exists>r\<in>set ?rs. match_cell S (fst r))"
    using set_reordered [of "\<lambda>r. match_cell S (fst r)" ?rs] by (metis (no_types, lifting) image_iff)
  then show ?case using "4.IH" by (simp add: Let_def list_ex_iff)
qed simp_all

lemma fast_channel_holds:
  assumes "normal_channel tr P c"
  shows "match_cell S (FastExpressionChannel c) = ch_eval S c"
  using assms
proof (cases rule: normal_channel_cases)
  case (1 p)
  then show ?thesis by (simp add: FastExpressionChannel_def in_channels_def)
next
  case (2 p e)
  then show ?thesis by (simp add: FastExpressionChannel_def reordering_holds make_cell_holds)
qed

end
