(* ===== verification/ExprIndex.thy ===== *)
theory ExprIndex
  imports ExprFast
begin

text \<open>
  \<open>ExpressionChannelIndex\<close> (\<open>CampaignSvcs/CampaignCommons/ExpressionChannelIndex.cpp\<close>): the index
  that finds, for the simple channels of a request, the expression channels they trigger without
  evaluating every expression. A hash table is the list of its nodes in some iteration order. The
  objects \<open>ExpressionIndexing\<close>, which several tables of the indexing algorithm point to, are kept
  in one table under the id of their channel, and the other tables hold that id; a failed
  assertion makes the value \<open>None\<close>.
\<close>

section \<open>Cells of the index\<close>

definition FILTER_CHANNELS :: "char \<Rightarrow> bool" where
  "FILTER_CHANNELS c \<longleftrightarrow> c \<in> set ''BETA''"

datatype 'c check_channel =
  CheckChannel (cc_channel_id: channel_id) (cc_cpm_flag: bool) (cc_channel: 'c)

datatype 'c channel_match =
  ChannelMatch (matched_channels: "channel_id list") (cpm_matched_channels: "channel_id list")
    (check_channels: "'c check_channel list")
    (channels_by_simple: "(channel_id \<times> 'c channel_match) list")

type_synonym 'c match_map = "(channel_id \<times> 'c channel_match) list"

definition empty_match :: "'c channel_match" where
  "empty_match = ChannelMatch [] [] [] []"

definition cpm_channel :: "expr_channel \<Rightarrow> bool" where
  "cpm_channel c \<longleftrightarrow> has_params c \<and> FILTER_CHANNELS (cp_type (channel_params_of c))"

text \<open>The constructor \<open>CheckChannel(channel)\<close>.\<close>

definition new_check_channel :: "expr_channel \<Rightarrow> expr_channel check_channel" where
  "new_check_channel c = CheckChannel (cp_channel_id (channel_params_of c)) (cpm_channel c) c"

definition insert_if_not_exists :: "channel_id list \<Rightarrow> channel_id \<Rightarrow> channel_id list" where
  "insert_if_not_exists xs k = (if k \<in> set xs then xs else xs @ [k])"

text \<open>\<open>init_match_cell_\<close> followed by a change of the cell.\<close>

fun change_cell ::
  "channel_id \<Rightarrow> ('c channel_match \<Rightarrow> 'c channel_match) \<Rightarrow> 'c match_map \<Rightarrow> 'c match_map" where
  "change_cell k f [] = [(k, f empty_match)]"
| "change_cell k f ((k', c) # m) = (if k = k' then (k', f c) # m else (k', c) # change_cell k f m)"

section \<open>Simple channels of an expression\<close>

function (sequential) collect_simple_channels :: "expr_channel \<Rightarrow> channel_id set"
and collect_expr_simple_channels :: "expression \<Rightarrow> channel_id set" where
  "collect_simple_channels c =
     (case simple_channel c of
        Some p \<Rightarrow> {cp_channel_id p}
      | None \<Rightarrow> (case expression_channel c of
                  Some (p, e) \<Rightarrow> collect_expr_simple_channels e
                | None \<Rightarrow> {}))"
| "collect_expr_simple_channels (Expression NOP None es) = {}"
| "collect_expr_simple_channels (Expression NOP (Some c) es) = collect_simple_channels c"
| "collect_expr_simple_channels (Expression op ch es) =
     \<Union> (set ((if op = AND_NOT then butlast else id) (map collect_expr_simple_channels es)))"
  by pat_completeness auto
termination
  by (relation "measure (case_sum size size)")
    (auto simp: less_Suc_eq_le dest: expression_channel_size size_list_estimation' [OF _ order_refl, of _ _ size])

function (sequential) collect_required_channels :: "expr_channel \<Rightarrow> channel_id set"
and collect_expr_required_channels :: "expression \<Rightarrow> channel_id set" where
  "collect_required_channels c =
     (case simple_channel c of
        Some p \<Rightarrow> {cp_channel_id p}
      | None \<Rightarrow> (case expression_channel c of
                  Some (p, e) \<Rightarrow> collect_expr_required_channels e
                | None \<Rightarrow> {}))"
| "collect_expr_required_channels (Expression TRUE_OP ch es) = {}"
| "collect_expr_required_channels (Expression NOP None es) = {}"
| "collect_expr_required_channels (Expression NOP (Some c) es) = collect_required_channels c"
| "collect_expr_required_channels (Expression OR_OP ch es) = {}"
| "collect_expr_required_channels (Expression op ch es) =
     \<Union> (set ((if op = AND_NOT then butlast else id) (map collect_expr_required_channels es)))"
  by pat_completeness auto
termination
  by (relation "measure (case_sum size size)")
    (auto simp: less_Suc_eq_le dest: expression_channel_size size_list_estimation' [OF _ order_refl, of _ _ size])

text \<open>
  \<open>reduce_channel_\<close>: with the indexed simple channels taken as not triggered, whether the channel
  can no longer be triggered, and the simple channels still to be indexed.
\<close>

function (sequential) reduce_channel :: "channel_id set \<Rightarrow> expr_channel \<Rightarrow> bool \<times> channel_id set"
and reduce_expr :: "channel_id set \<Rightarrow> expression \<Rightarrow> bool \<times> channel_id set" where
  "reduce_channel I c =
     (case simple_channel c of
        Some p \<Rightarrow> if cp_channel_id p \<in> I then (True, {}) else (False, {cp_channel_id p})
      | None \<Rightarrow> (case expression_channel c of
                  Some (p, e) \<Rightarrow> reduce_expr I e
                | None \<Rightarrow> (True, {})))"
| "reduce_expr I (Expression NOP None es) = (True, {})"
| "reduce_expr I (Expression NOP (Some c) es) = reduce_channel I c"
| "reduce_expr I (Expression OR_OP ch es) =
     (let rs = map (reduce_expr I) es in (list_all fst rs, \<Union> (set (map snd rs))))"
| "reduce_expr I (Expression op ch es) =
     (let rs = (if op = AND_NOT then butlast else id) (map (reduce_expr I) es)
      in if list_ex fst rs then (True, {}) else (False, \<Union> (set (map snd rs))))"
  by pat_completeness auto
termination
  by (relation "measure (case_sum (\<lambda>x. size (snd x)) (\<lambda>x. size (snd x)))")
    (auto simp: less_Suc_eq_le dest: expression_channel_size size_list_estimation' [OF _ order_refl, of _ _ size])

text \<open>
  \<open>create_reduced_channel_\<close>: the channel with the positive occurrences of a triggered simple channel
  taken as true; \<open>None\<close>, a null pointer, when the whole channel becomes true. The expression that
  \<open>create_reduced_expression_\<close> leaves behind when it returns \<open>true\<close> is not used by any caller.
\<close>

definition TRUE_EXPR :: expression where
  "TRUE_EXPR = Expression TRUE_OP None []"

definition not_reduced :: "(bool \<times> expression) list \<Rightarrow> expression list" where
  "not_reduced rs = map snd (filter (\<lambda>r. \<not> fst r) rs)"

function (sequential) create_reduced_channel :: "channel_id \<Rightarrow> expr_channel \<Rightarrow> expr_channel option"
and create_reduced_expr :: "channel_id \<Rightarrow> expression \<Rightarrow> bool \<times> expression" where
  "create_reduced_channel k c =
     (case simple_channel c of
        Some p \<Rightarrow> if cp_channel_id p = k then None else Some c
      | None \<Rightarrow> (case expression_channel c of
                  Some (p, e) \<Rightarrow>
                    if fst (create_reduced_expr k e) then None
                    else Some (ExpressionChannel p (snd (create_reduced_expr k e)))
                | None \<Rightarrow> Some c))"
| "create_reduced_expr k (Expression TRUE_OP ch es) = (True, Expression TRUE_OP ch es)"
| "create_reduced_expr k (Expression NOP None es) = (True, Expression NOP None es)"
| "create_reduced_expr k (Expression NOP (Some c) es) =
     (create_reduced_channel k c = None, Expression NOP (create_reduced_channel k c) es)"
| "create_reduced_expr k (Expression OR_OP ch es) =
     (let rs = map (create_reduced_expr k) es
      in (list_ex fst rs, Expression OR_OP ch (map snd rs)))"
| "create_reduced_expr k (Expression AND_OP ch es) =
     (let es' = not_reduced (map (create_reduced_expr k) es) in (es' = [], Expression AND_OP ch es'))"
| "create_reduced_expr k (Expression AND_NOT ch es) =
     (let es' = not_reduced (butlast (map (create_reduced_expr k) es))
      in (False, Expression AND_NOT ch ((if es' = [] then [TRUE_EXPR] else es') @ [last es])))"
  by pat_completeness auto
termination
  by (relation "measure (case_sum (\<lambda>x. size (snd x)) (\<lambda>x. size (snd x)))")
    (auto simp: less_Suc_eq_le dest: expression_channel_size size_list_estimation' [OF _ order_refl, of _ _ size])

text \<open>
  \<open>find_required\<close>: indexed simple channels one of which is triggered whenever the channel is, or
  \<open>None\<close>.
\<close>

fun first_some :: "'a option list \<Rightarrow> 'a option" where
  "first_some [] = None"
| "first_some (None # xs) = first_some xs"
| "first_some (Some x # xs) = Some x"

function (sequential) find_required :: "channel_id set \<Rightarrow> expr_channel \<Rightarrow> channel_id set option"
and find_required_expr :: "channel_id set \<Rightarrow> expression \<Rightarrow> channel_id set option" where
  "find_required I c =
     (case simple_channel c of
        Some p \<Rightarrow> if cp_channel_id p \<in> I then Some {cp_channel_id p} else None
      | None \<Rightarrow> (case expression_channel c of
                  Some (p, e) \<Rightarrow> find_required_expr I e
                | None \<Rightarrow> None))"
| "find_required_expr I (Expression TRUE_OP ch es) = Some {}"
| "find_required_expr I (Expression NOP None es) = None"
| "find_required_expr I (Expression NOP (Some c) es) = find_required I c"
| "find_required_expr I (Expression OR_OP ch es) =
     (let rs = map (find_required_expr I) es
      in if None \<in> set rs then None else Some (\<Union> (set (map the rs))))"
| "find_required_expr I (Expression AND_OP ch es) = first_some (map (find_required_expr I) es)"
| "find_required_expr I (Expression AND_NOT ch []) = None"
| "find_required_expr I (Expression AND_NOT ch (e # es)) = find_required_expr I e"
  by pat_completeness auto
termination
  by (relation "measure (case_sum (\<lambda>x. size (snd x)) (\<lambda>x. size (snd x)))")
    (auto simp: less_Suc_eq_le dest: expression_channel_size size_list_estimation' [OF _ order_refl, of _ _ size])

declare collect_simple_channels.simps [simp del] collect_required_channels.simps [simp del]
  reduce_channel.simps [simp del] create_reduced_channel.simps [simp del] find_required.simps [simp del]

section \<open>The tables of the indexing algorithm\<close>

record expression_indexing =
  used_simple_channels :: "channel_id set"
  indexed_simple_channels :: "channel_id set"
  ei_channel :: expr_channel

text \<open>
  \<open>ix_objects\<close>: the \<open>ExpressionIndexing\<close> objects; \<open>ix_simple\<close>: \<open>SimpleChannelIndexingMap\<close>, for a
  simple channel the expression channels that use it; \<open>ix_priority\<close>: \<open>ChannelPriorityMap\<close>, for a
  priority (number of users, simple channel) the \<open>ExpressionIndexingUsePriority\<close> keys (number of used
  channels, expression channel) in it.
\<close>

record indexing =
  ix_objects :: "(channel_id, expression_indexing) std_map"
  ix_simple :: "(channel_id, channel_id set) std_map"
  ix_priority :: "(nat \<times> channel_id, (nat \<times> channel_id) set) std_map"

text \<open>One channel in \<open>construct_simple_channel_indexing_map\<close>.\<close>

definition add_user :: "channel_id \<Rightarrow> channel_id \<Rightarrow> (channel_id, channel_id set) std_map \<Rightarrow> (channel_id, channel_id set) std_map" where
  "add_user k s m = map_put s (insert k (case map_of m s of None \<Rightarrow> {} | Some ks \<Rightarrow> ks)) m"

definition index_channel ::
  "(expr_channel \<Rightarrow> channel_id set) \<Rightarrow> expr_channel list \<times> indexing \<Rightarrow> channel_id \<times> expr_channel \<Rightarrow>
   expr_channel list \<times> indexing" where
  "index_channel collect_op st kc =
     (let k = fst kc; c = snd kc; used = collect_op c
      in if used = {} then (fst st @ [c], snd st)
         else (fst st, (snd st)\<lparr>
           ix_objects := map_put k \<lparr>used_simple_channels = used, indexed_simple_channels = {}, ei_channel = c\<rparr> (ix_objects (snd st)),
           ix_simple := foldl (\<lambda>m s. add_user k s m) (ix_simple (snd st)) (sorted_list_of_set used)\<rparr>))"

definition construct_simple_channel_indexing_map ::
  "(expr_channel \<Rightarrow> channel_id set) \<Rightarrow> (channel_id, expr_channel) std_map \<Rightarrow> expr_channel list \<times> indexing" where
  "construct_simple_channel_indexing_map collect_op channels =
     foldl (index_channel collect_op) ([], \<lparr>ix_objects = [], ix_simple = [], ix_priority = []\<rparr>) channels"

text \<open>The object that a key of the tables points to.\<close>

definition object_at :: "indexing \<Rightarrow> channel_id \<Rightarrow> expression_indexing" where
  "object_at ix k = the (map_of (ix_objects ix) k)"

abbreviation used_at :: "indexing \<Rightarrow> channel_id \<Rightarrow> channel_id set" where
  "used_at ix k \<equiv> used_simple_channels (object_at ix k)"

definition construct_channel_priority_map :: "indexing \<Rightarrow> indexing" where
  "construct_channel_priority_map ix =
     ix\<lparr>ix_priority := foldl (\<lambda>m (s, ks). map_insert (card ks, s) ((\<lambda>k. (card (used_at ix k), k)) ` ks) m)
          [] (ix_simple ix)\<rparr>"

text \<open>The id that the algorithm reads from the channel of an object.\<close>

definition object_channel_id :: "indexing \<Rightarrow> channel_id \<Rightarrow> channel_id" where
  "object_channel_id ix k = cp_channel_id (channel_params_of (ei_channel (object_at ix k)))"

definition change_expression_channel_priority ::
  "channel_id \<Rightarrow> channel_id \<Rightarrow> nat \<Rightarrow> nat \<Rightarrow> indexing \<Rightarrow> indexing option" where
  "change_expression_channel_priority s k old_size new_size ix =
     (case map_of (ix_simple ix) s of
        None \<Rightarrow> None
      | Some ks \<Rightarrow>
          (case map_of (ix_priority ix) (card ks, s) of
             None \<Rightarrow> None
           | Some us \<Rightarrow>
               if (old_size, object_channel_id ix k) \<in> us
               then Some (ix\<lparr>ix_priority := map_put (card ks, s)
                      ((if new_size \<noteq> 0 then insert (new_size, object_channel_id ix k) else id)
                         (us - {(old_size, object_channel_id ix k)})) (ix_priority ix)\<rparr>)
               else None))"

definition change_channel_priority ::
  "channel_id \<Rightarrow> channel_id \<Rightarrow> nat \<Rightarrow> indexing \<Rightarrow> indexing option" where
  "change_channel_priority s k old_size ix =
     (case map_of (ix_simple ix) s of
        None \<Rightarrow> None
      | Some ks \<Rightarrow>
          if object_channel_id ix k \<in> ks
          then (let ks' = ks - {object_channel_id ix k}
                in case map_of (ix_priority ix) (card ks, s) of
                     None \<Rightarrow> None
                   | Some us \<Rightarrow>
                       if (old_size, object_channel_id ix k) \<in> us
                       then (let us' = us - {(old_size, object_channel_id ix k)};
                                 pm = map_erase (card ks, s) (ix_priority ix)
                             in Some (ix\<lparr>ix_simple := map_put s ks' (ix_simple ix),
                                  ix_priority := if ks' = {} then pm else map_insert (card ks', s) us' pm\<rparr>))
                       else None)
          else None)"

text \<open>A loop that calls a fallible change for every element of a range.\<close>

fun each_option :: "('a \<Rightarrow> 's \<Rightarrow> 's option) \<Rightarrow> 'a list \<Rightarrow> 's \<Rightarrow> 's option" where
  "each_option f [] st = Some st"
| "each_option f (x # xs) st = (case f x st of None \<Rightarrow> None | Some st' \<Rightarrow> each_option f xs st')"

definition update_channel_priority_map ::
  "channel_id \<Rightarrow> channel_id set \<Rightarrow> channel_id set \<Rightarrow> indexing \<Rightarrow> indexing option" where
  "update_channel_priority_map k disappeared remain ix =
     (case each_option (\<lambda>s. change_channel_priority s k (card (used_at ix k))) (sorted_list_of_set disappeared) ix of
        None \<Rightarrow> None
      | Some ix' \<Rightarrow>
          each_option (\<lambda>s. change_expression_channel_priority s k (card (used_at ix k)) (card remain))
            (sorted_list_of_set remain) ix')"

section \<open>Indexing\<close>

text \<open>
  The expression channel \<open>c\<close> is linked to the cell of the simple channel \<open>s\<close>: as a channel to be
  checked in its reduced form, or as matched when the simple channel is all it needs.
\<close>

definition link_channel :: "channel_id \<Rightarrow> expr_channel \<Rightarrow> expr_channel match_map \<Rightarrow> expr_channel match_map" where
  "link_channel s c cells =
     change_cell s (\<lambda>cell.
       (case create_reduced_channel s c of
          Some r \<Rightarrow> ChannelMatch (matched_channels cell) (cpm_matched_channels cell)
                      (check_channels cell @ [new_check_channel r]) (channels_by_simple cell)
        | None \<Rightarrow> ChannelMatch
                    (insert_if_not_exists (matched_channels cell) (cp_channel_id (channel_params_of c)))
                    (if cpm_channel c
                     then insert_if_not_exists (cpm_matched_channels cell) (cp_channel_id (channel_params_of c))
                     else cpm_matched_channels cell)
                    (check_channels cell) (channels_by_simple cell))) cells"

text \<open>The loop over \<open>excess_channels\<close>: the first check of the expression leaves the cell.\<close>

fun remove_check :: "channel_id \<Rightarrow> 'c check_channel list \<Rightarrow> 'c check_channel list" where
  "remove_check k [] = []"
| "remove_check k (c # cs) = (if cc_channel_id c = k then cs else c # remove_check k cs)"

definition unlink_channel :: "channel_id \<Rightarrow> channel_id \<Rightarrow> 'c match_map \<Rightarrow> 'c match_map" where
  "unlink_channel k s cells =
     change_cell s (\<lambda>cell. ChannelMatch (matched_channels cell) (cpm_matched_channels cell)
       (remove_check k (check_channels cell)) (channels_by_simple cell)) cells"

definition remove_excess ::
  "channel_id \<Rightarrow> expr_channel \<Rightarrow> channel_id \<Rightarrow> channel_id set \<Rightarrow> 'c match_map \<Rightarrow> 'c match_map" where
  "remove_excess k c s indexed cells =
     (case find_required indexed c of
        None \<Rightarrow> cells
      | Some required \<Rightarrow>
          foldl (\<lambda>cs i. unlink_channel k i cs) cells (sorted_list_of_set (indexed - insert s required)))"

text \<open>One round of the loop of \<open>top_level_index_\<close>: the rarest simple channel, the expression with the fewest used channels.\<close>

definition top_level_step ::
  "expr_channel match_map \<times> indexing \<Rightarrow> (expr_channel match_map \<times> indexing) option" where
  "top_level_step st =
     (case ix_priority (snd st) of
        [] \<Rightarrow> None
      | ((n, s), us) # rest \<Rightarrow>
          if us = {} then None
          else
            (let ix = snd st;
                 k = snd (Min us);
                 obj = object_at ix k;
                 cells = link_channel s (ei_channel obj) (fst st);
                 indexed = insert s (indexed_simple_channels obj);
                 used = snd (reduce_channel indexed (ei_channel obj));
                 cells' = (if used = {} then remove_excess (object_channel_id ix k) (ei_channel obj) s indexed cells
                           else cells)
             in case update_channel_priority_map k (used_simple_channels obj - used) used ix of
                  None \<Rightarrow> None
                | Some ix' \<Rightarrow>
                    Some (cells', ix'\<lparr>ix_objects := map_put k
                      \<lparr>used_simple_channels = used, indexed_simple_channels = indexed, ei_channel = ei_channel obj\<rparr>
                      (ix_objects ix')\<rparr>)))"

partial_function (option) top_level_loop ::
  "expr_channel match_map \<times> indexing \<Rightarrow> (expr_channel match_map \<times> indexing) option" where
  "top_level_loop st =
     (if ix_priority (snd st) = [] then Some st
      else case top_level_step st of None \<Rightarrow> None | Some st' \<Rightarrow> top_level_loop st')"

text \<open>
  \<open>sub_index_\<close>: checks of a cell that require a common simple channel move to a cell of that channel
  below. The state of the loop: the cells below, the ids moved, the tables.
\<close>

definition SUBINDEXING_THRESHOLD :: nat where
  "SUBINDEXING_THRESHOLD = 2"

definition sub_index_step ::
  "expr_channel match_map \<times> channel_id set \<times> indexing \<Rightarrow>
   (expr_channel match_map \<times> channel_id set \<times> indexing) option" where
  "sub_index_step st =
     (case st of (cells, reindexed, ix) \<Rightarrow>
        (case last (ix_priority ix) of ((n, s), us) \<Rightarrow>
           if us = {} then None
           else
             (let k = snd (Min us); obj = object_at ix k
              in case update_channel_priority_map k (used_simple_channels obj) {} ix of
                   None \<Rightarrow> None
                 | Some ix' \<Rightarrow>
                     Some (link_channel s (ei_channel obj) cells, insert (object_channel_id ix k) reindexed,
                       ix'\<lparr>ix_objects := map_put k (obj\<lparr>used_simple_channels := {}\<rparr>) (ix_objects ix')\<rparr>))))"

partial_function (option) sub_index_loop ::
  "expr_channel match_map \<times> channel_id set \<times> indexing \<Rightarrow>
   (expr_channel match_map \<times> channel_id set \<times> indexing) option" where
  "sub_index_loop st =
     (if ix_priority (snd (snd st)) = [] \<or> fst (fst (last (ix_priority (snd (snd st))))) < SUBINDEXING_THRESHOLD
      then Some st
      else case sub_index_step st of None \<Rightarrow> None | Some st' \<Rightarrow> sub_index_loop st')"

definition sub_index_node :: "expr_channel channel_match \<Rightarrow> expr_channel channel_match option" where
  "sub_index_node node =
     (let check_map = foldl (\<lambda>m c. map_put (cc_channel_id c) (cc_channel c) m) [] (check_channels node);
          built = construct_simple_channel_indexing_map collect_required_channels check_map;
          kept_channels = fst built
      in case sub_index_loop (channels_by_simple node, {}, construct_channel_priority_map (snd built)) of
           None \<Rightarrow> None
         | Some (cells, reindexed, ix) \<Rightarrow>
             (let moved = reindexed \<union> (\<lambda>c. cp_channel_id (channel_params_of c)) ` set kept_channels
              in Some (ChannelMatch (matched_channels node) (cpm_matched_channels node)
                   (map new_check_channel kept_channels @
                    filter (\<lambda>c. cc_channel_id c \<notin> moved) (check_channels node)) cells)))"

text \<open>A fallible change of every cell of a map.\<close>

fun each_cell :: "('c channel_match \<Rightarrow> 'c channel_match option) \<Rightarrow> 'c match_map \<Rightarrow> 'c match_map option" where
  "each_cell f [] = Some []"
| "each_cell f ((k, c) # m) =
     Option.bind (f c) (\<lambda>c'. Option.bind (each_cell f m) (\<lambda>m'. Some ((k, c') # m')))"

lemma each_cell_mono [partial_function_mono]:
  "(\<And>c. mono_option (\<lambda>g. F g c)) \<Longrightarrow> mono_option (\<lambda>g. each_cell (F g) m)"
  by (induction m) (auto intro!: partial_function_mono)

text \<open>The argument \<open>depth\<close> of \<open>sub_index_\<close> is only passed on.\<close>

partial_function (option) sub_index :: "expr_channel channel_match \<Rightarrow> expr_channel channel_match option" where
  "sub_index node =
     (case sub_index_node node of
        None \<Rightarrow> None
      | Some node' \<Rightarrow>
          Option.bind (each_cell sub_index (channels_by_simple node')) (\<lambda>below.
            Some (ChannelMatch (matched_channels node') (cpm_matched_channels node') (check_channels node') below)))"

declare top_level_loop.simps [code] sub_index_loop.simps [code] sub_index.simps [code]

definition top_level_index ::
  "expr_channel match_map \<Rightarrow> (channel_id, expr_channel) std_map \<Rightarrow> expr_channel match_map option" where
  "top_level_index cells expr_channels =
     (case top_level_loop (cells, construct_channel_priority_map
             (snd (construct_simple_channel_indexing_map collect_simple_channels expr_channels))) of
        None \<Rightarrow> None
      | Some (cells', ix) \<Rightarrow> each_cell sub_index cells')"

lemma below_size:
  assumes "x \<in> set below"
  shows "size (snd x) < size (ChannelMatch m cpm chk below :: 'c channel_match)"
proof -
  have "size_prod (\<lambda>_. 0) size x \<le> size_list (size_prod (\<lambda>_. 0) size) below"
    using assms by (rule size_list_estimation') simp
  then show ?thesis by (cases x) simp
qed

function make_fast_expression :: "expr_channel channel_match \<Rightarrow> fast_expression channel_match" where
  "make_fast_expression (ChannelMatch m cpm chk below) =
     ChannelMatch m cpm
       (map (\<lambda>c. CheckChannel (cc_channel_id c) (cc_cpm_flag c) (FastExpressionChannel (cc_channel c))) chk)
       (map (\<lambda>kc. (fst kc, make_fast_expression (snd kc))) below)"
  by pat_completeness auto
termination
  by (relation "measure size") (simp_all add: below_size del: channel_match.size)

text \<open>\<open>index_simple_channels_\<close>: a simple channel is found by itself, the others are to be indexed.\<close>

definition index_simple_channel ::
  "expr_channel match_map \<times> (channel_id, expr_channel) std_map \<Rightarrow> channel_id \<times> expr_channel \<Rightarrow>
   expr_channel match_map \<times> (channel_id, expr_channel) std_map" where
  "index_simple_channel st kc =
     (case simple_channel (snd kc) of
        Some p \<Rightarrow>
          (change_cell (cp_channel_id p) (\<lambda>cell. ChannelMatch
             (insert_if_not_exists (matched_channels cell) (cp_channel_id p))
             (if FILTER_CHANNELS (cp_type p)
              then insert_if_not_exists (cpm_matched_channels cell) (cp_channel_id p)
              else cpm_matched_channels cell)
             (check_channels cell) (channels_by_simple cell)) (fst st), snd st)
      | None \<Rightarrow> (fst st, map_insert (fst kc) (snd kc) (snd st)))"

text \<open>
  \<open>index\<close>: \<open>channels\<close> is the table of the holders, each with the channel it holds; the cells are empty
  before the call.
\<close>

definition optimized_channels ::
  "(channel_id \<times> expr_channel option) list \<Rightarrow> (channel_id \<times> expr_channel) list" where
  "optimized_channels channels =
     List.map_filter (\<lambda>(k, ch). map_option (\<lambda>c. (k, ExpressionChannelHolder (Some c))) (Option.bind ch optimize))
       channels"

definition expression_index ::
  "(channel_id \<times> expr_channel option) list \<Rightarrow> fast_expression match_map option" where
  "expression_index channels =
     (case foldl index_simple_channel ([], []) (optimized_channels channels) of (cells, expr_channels) \<Rightarrow>
        (case top_level_index cells expr_channels of
           None \<Rightarrow> None
         | Some cells' \<Rightarrow> Some (map (\<lambda>kc. (fst kc, make_fast_expression (snd kc))) cells')))"

section \<open>Matching\<close>

type_synonym match_result =
  "channel_id set \<times> channel_id set \<times> (channel_id, fast_expression check_channel) std_map"

text \<open>
  \<open>match_\<close>; the set of CPM channels, which a caller may leave out, is always collected. The checks are
  collected by channel id, the first one of an id is kept.
\<close>

function match_node ::
  "channel_id set \<Rightarrow> fast_expression channel_match \<Rightarrow> match_result \<Rightarrow> match_result" where
  "match_node S (ChannelMatch m cpm chk below) (result, result_cpm, checks) =
     foldl (\<lambda>st kc. if fst kc \<in> S then match_node S (snd kc) st else st)
       (result \<union> set m, result_cpm \<union> set cpm,
        foldl (\<lambda>mp c. map_insert (cc_channel_id c) c mp) checks chk) below"
  by pat_completeness auto
termination
  by (relation "measure (\<lambda>x. size (fst (snd x)))") (simp_all add: below_size del: channel_match.size)

text \<open>\<open>match\<close>; \<open>channels\<close> lists the hash set of the request in its iteration order.\<close>

definition expression_match ::
  "fast_expression match_map \<Rightarrow> channel_id list \<Rightarrow> channel_id set \<times> channel_id set" where
  "expression_match index channels =
     (case foldl (\<lambda>st k. case map_of index k of None \<Rightarrow> st | Some cell \<Rightarrow> match_node (set channels) cell st)
             ({}, {}, []) channels of (result, result_cpm, checks) \<Rightarrow>
        foldl (\<lambda>(r, cpm) (k, c).
            if fast_triggered (set channels) (cc_channel c) \<noteq> 0
            then (insert k r, if cc_cpm_flag c then insert k cpm else cpm)
            else (r, cpm)) (result, result_cpm) checks)"

end
