(* ===== verification/ExprReduce.thy ===== *)
theory ExprReduce
  imports ExprIndex
begin

text \<open>
  The expression algorithms of the index: which simple channels decide whether an expression channel
  can be triggered. They are right for the binary exclusions \<open>A ^ B\<close>; a list \<open>A ^ B ^ C\<close>, which
  the parser builds as one exclusion of three operands, is treated as if only the last operand were
  excluded (\<open>nary_exclusion_lost\<close> in \<open>ExprIndexProps\<close>).
\<close>

abbreviation binary :: "nat \<Rightarrow> bool" where
  "binary \<equiv> (\<lambda>n. n = 2)"

lemma normal_AND_NOT_binary:
  assumes "normal_expr tr binary (Expression AND_NOT ch es)"
  obtains x y where "es = [x, y]" "normal_expr tr binary x" "normal_expr tr binary y"
  using assms by (auto simp: length_Suc_conv numeral_2_eq_2)

lemma resolve_normal:
  "normal_channel tr P c \<Longrightarrow>
     (\<exists>p. simple_channel c = Some p \<and> c = SimpleChannel p \<and> cp_channel_id p \<noteq> 0) \<or>
     (\<exists>p e. simple_channel c = None \<and> expression_channel c = Some (p, e) \<and> c = ExpressionChannel p e \<and> normal_expr tr P e)"
  by (cases c) auto

text \<open>Admitting \<open>TRUE\<close> only weakens the normal form.\<close>

lemma normal_admit_true_both:
  shows "normal_channel False P c \<Longrightarrow> normal_channel True P c"
    and "normal_expr False P e \<Longrightarrow> normal_expr True P e"
  by (induction False P c and False P e rule: normal_channel_normal_expr.induct) (auto simp: list_all_iff)

lemmas normal_admit_true = normal_admit_true_both(2)

text \<open>The operands that the algorithms treat as conditions; the last one of an exclusion is left out.\<close>

definition conditions :: "operation \<Rightarrow> expression list \<Rightarrow> expression list" where
  "conditions op es = (if op = AND_NOT then butlast es else es)"

lemma conditions_subset: "e \<in> set (conditions op es) \<Longrightarrow> e \<in> set es"
  by (auto simp: conditions_def dest: in_set_butlastD split: if_splits)

lemma normal_conditions:
  assumes "normal_expr tr binary (Expression op ch es)" "op \<noteq> NOP" "op \<noteq> TRUE_OP"
  shows "conditions op es \<noteq> [] \<and> (\<forall>e\<in>set es. normal_expr tr binary e)"
  using assms by (cases op) (auto simp: conditions_def list_all_iff length_Suc_conv numeral_2_eq_2)

lemma conditions_hold:
  assumes "normal_expr tr binary (Expression op ch es)" "ex_eval S (Expression op ch es)" "op = AND_OP \<or> op = AND_NOT"
  shows "\<forall>e\<in>set (conditions op es). ex_eval S e"
  using assms by (auto simp: conditions_def list_all_iff length_Suc_conv numeral_2_eq_2)

text \<open>Induction over channels that are resolved through their holders.\<close>

lemma resolved_induct [case_names channel nop_null nop operands]:
  assumes "\<And>c. (\<And>p e. simple_channel c = None \<Longrightarrow> expression_channel c = Some (p, e) \<Longrightarrow> E e) \<Longrightarrow> C c"
    and "\<And>es. E (Expression NOP None es)"
    and "\<And>c es. C c \<Longrightarrow> E (Expression NOP (Some c) es)"
    and "\<And>op ch es. op \<noteq> NOP \<Longrightarrow> (\<And>e. e \<in> set es \<Longrightarrow> E e) \<Longrightarrow> E (Expression op ch es)"
  shows "C c" and "E e"
proof (induction c and e rule: collect_simple_channels_collect_expr_simple_channels.induct)
  case (1 c)
  then show ?case by (intro assms(1)) auto
qed (auto intro: assms(2-4))

lemma collect_expr_operands:
  "op \<noteq> NOP \<Longrightarrow> collect_expr_simple_channels (Expression op ch es) =
     (\<Union>e\<in>set (conditions op es). collect_expr_simple_channels e)"
  by (cases op) (auto simp: conditions_def simp flip: map_butlast)

lemma reduce_expr_OR:
  "fst (reduce_expr I (Expression OR_OP ch es)) = (\<forall>e\<in>set es. fst (reduce_expr I e))"
  "snd (reduce_expr I (Expression OR_OP ch es)) = (\<Union>e\<in>set es. snd (reduce_expr I e))"
  by (simp_all add: Let_def list_all_iff)

lemma reduce_expr_operands:
  assumes "op \<noteq> NOP" "op \<noteq> OR_OP"
  shows "fst (reduce_expr I (Expression op ch es)) = (\<exists>e\<in>set (conditions op es). fst (reduce_expr I e))"
    "snd (reduce_expr I (Expression op ch es)) =
       (if \<exists>e\<in>set (conditions op es). fst (reduce_expr I e) then {}
        else (\<Union>e\<in>set (conditions op es). snd (reduce_expr I e)))"
  using assms by (cases op; simp add: conditions_def Let_def list_ex_iff flip: map_butlast)+

lemma required_operands:
  "op = AND_OP \<or> op = AND_NOT \<Longrightarrow> collect_expr_required_channels (Expression op ch es) =
     (\<Union>e\<in>set (conditions op es). collect_expr_required_channels e)"
  by (auto simp: conditions_def simp flip: map_butlast)

section \<open>Reduction by the channels that are not triggered\<close>

lemma reduce_mono:
  assumes "J \<subseteq> J'"
  shows "(fst (reduce_channel J c) \<longrightarrow> fst (reduce_channel J' c)) \<and> snd (reduce_channel J' c) \<subseteq> snd (reduce_channel J c)"
    and "(fst (reduce_expr J e) \<longrightarrow> fst (reduce_expr J' e)) \<and> snd (reduce_expr J' e) \<subseteq> snd (reduce_expr J e)"
proof (induction c and e rule: resolved_induct)
  case (channel c)
  then show ?case
    using assms by (auto simp: reduce_channel.simps [of _ c] split: option.splits)
next
  case (operands op ch es)
  show ?case
  proof (cases "op = OR_OP")
    case True
    then show ?thesis using operands.IH by (auto simp: reduce_expr_OR simp del: reduce_expr.simps)
  next
    case False
    have "(fst (reduce_expr J x) \<longrightarrow> fst (reduce_expr J' x)) \<and> snd (reduce_expr J' x) \<subseteq> snd (reduce_expr J x)"
      if "x \<in> set (conditions op es)" for x
      using operands.IH conditions_subset that by blast
    then show ?thesis
      using False operands.hyps by (simp add: reduce_expr_operands del: reduce_expr.simps) blast
  qed
qed auto

lemma reduce_disjoint:
  shows "snd (reduce_channel J c) \<inter> J = {}" and "snd (reduce_expr J e) \<inter> J = {}"
proof (induction c and e rule: resolved_induct)
  case (channel c)
  then show ?case by (auto simp: reduce_channel.simps [of _ c] split: option.splits)
next
  case (operands op ch es)
  then show ?case
    by (cases "op = OR_OP")
      (auto simp: reduce_expr_OR reduce_expr_operands simp del: reduce_expr.simps dest!: conditions_subset)
qed auto

lemma reduce_collect:
  shows "snd (reduce_channel J c) \<subseteq> collect_simple_channels c"
    and "snd (reduce_expr J e) \<subseteq> collect_expr_simple_channels e"
proof (induction c and e rule: resolved_induct)
  case (channel c)
  then show ?case
    by (auto simp: reduce_channel.simps [of _ c] collect_simple_channels.simps [of c] split: option.splits)
next
  case (operands op ch es)
  have IH: "snd (reduce_expr J x) \<subseteq> collect_expr_simple_channels x" if "x \<in> set (conditions op es)" for x
    using operands.IH conditions_subset that by blast
  show ?case
  proof (cases "op = OR_OP")
    case True
    then show ?thesis using operands.IH
      by (auto simp: reduce_expr_OR collect_expr_operands conditions_def
        simp del: reduce_expr.simps collect_expr_simple_channels.simps)
  next
    case False
    then show ?thesis using IH operands.hyps
      by (auto simp: reduce_expr_operands collect_expr_operands
        simp del: reduce_expr.simps collect_expr_simple_channels.simps)
  qed
qed auto

lemma finite_collect:
  shows "finite (collect_simple_channels c)" and "finite (collect_expr_simple_channels e)"
proof (induction c and e rule: resolved_induct)
  case (channel c)
  then show ?case by (auto simp: collect_simple_channels.simps [of c] split: option.splits)
next
  case (operands op ch es)
  then show ?case
    by (auto simp: collect_expr_operands simp del: collect_expr_simple_channels.simps dest!: conditions_subset)
qed auto

text \<open>A triggered channel has a triggered simple channel among the indexed ones, or among those left to index.\<close>

lemma reduce_triggered:
  shows "normal_channel False binary c \<Longrightarrow> ch_eval S c \<Longrightarrow>
      S \<inter> I \<noteq> {} \<or> \<not> fst (reduce_channel I c) \<and> S \<inter> snd (reduce_channel I c) \<noteq> {}"
    and "normal_expr False binary e \<Longrightarrow> ex_eval S e \<Longrightarrow>
      S \<inter> I \<noteq> {} \<or> \<not> fst (reduce_expr I e) \<and> S \<inter> snd (reduce_expr I e) \<noteq> {}"
proof (induction c and e rule: resolved_induct)
  case (channel c)
  then show ?case
    using resolve_normal [OF channel.prems(1)]
    by (auto simp: reduce_channel.simps [of _ c] in_channels_def split: if_splits)
next
  case (operands op ch es)
  note norm = normal_conditions [OF operands.prems(1) operands.hyps]
  have tr: "op \<noteq> TRUE_OP" using operands.prems(1) by auto
  show ?case
  proof (cases "op = OR_OP")
    case True
    then obtain x where x: "x \<in> set es" "ex_eval S x"
      using operands.prems(2) by (auto simp: list_ex_iff)
    then have "S \<inter> I \<noteq> {} \<or> \<not> fst (reduce_expr I x) \<and> S \<inter> snd (reduce_expr I x) \<noteq> {}"
      using operands.IH norm tr by blast
    then show ?thesis using x True by (auto simp: reduce_expr_OR simp del: reduce_expr.simps)
  next
    case False
    then have ao: "op = AND_OP \<or> op = AND_NOT" using tr operands.hyps by (cases op) auto
    have IH: "S \<inter> I \<noteq> {} \<or> \<not> fst (reduce_expr I x) \<and> S \<inter> snd (reduce_expr I x) \<noteq> {}"
      if "x \<in> set (conditions op es)" for x
      using operands.IH [of x] norm tr conditions_subset [OF that] that
        conditions_hold [OF operands.prems ao] by blast
    have ne: "conditions op es \<noteq> []" using norm tr by blast
    then have "hd (conditions op es) \<in> set (conditions op es)" by simp
    with IH False operands.hyps show ?thesis
      by (simp add: reduce_expr_operands del: reduce_expr.simps) blast
  qed
qed auto

lemma triggered_uses_collected:
  assumes "normal_channel False binary c" "ch_eval S c"
  shows "S \<inter> collect_simple_channels c \<noteq> {}"
  using reduce_triggered(1) [OF assms, of "{}"] reduce_collect(1) [of "{}" c] by blast

section \<open>Reduction by a channel that is triggered\<close>

lemma not_reduced_all:
  "(\<And>x. x \<in> set es \<Longrightarrow> if fst (f x) then Q x else R (snd (f x)) \<and> Q (snd (f x)) = Q x) \<Longrightarrow>
   (\<forall>x\<in>set (not_reduced (map f es)). Q x) = (\<forall>x\<in>set es. Q x) \<and> (\<forall>x\<in>set (not_reduced (map f es)). R x)"
  by (induction es) (auto simp: not_reduced_def split: if_splits)

lemma create_reduced_AND_NOT:
  "create_reduced_expr k (Expression AND_NOT ch [x, y]) =
     (False, Expression AND_NOT ch
        [if fst (create_reduced_expr k x) then TRUE_EXPR else snd (create_reduced_expr k x), y])"
  by (simp add: Let_def not_reduced_def)

text \<open>When the simple channel is triggered, the reduced channel decides like the channel itself.\<close>

lemma create_reduced_holds:
  assumes "k \<in> S"
  shows "normal_channel tr binary c \<Longrightarrow>
      (case create_reduced_channel k c of
         None \<Rightarrow> ch_eval S c
       | Some c' \<Rightarrow> normal_channel True binary c' \<and> ch_eval S c' = ch_eval S c)"
    and "normal_expr tr binary e \<Longrightarrow>
      (if fst (create_reduced_expr k e) then ex_eval S e
       else normal_expr True binary (snd (create_reduced_expr k e)) \<and>
            ex_eval S (snd (create_reduced_expr k e)) = ex_eval S e)"
proof (induction c and e rule: resolved_induct)
  case (channel c)
  then show ?case
    using assms resolve_normal [OF channel.prems(1)]
    by (auto simp: create_reduced_channel.simps [of _ c] in_channels_def split: if_splits)
next
  case (nop c es)
  then show ?case by (auto split: option.splits)
next
  case (operands op ch es)
  have IH: "if fst (create_reduced_expr k x) then ex_eval S x
       else normal_expr True binary (snd (create_reduced_expr k x)) \<and>
            ex_eval S (snd (create_reduced_expr k x)) = ex_eval S x" if "x \<in> set es" "op \<noteq> TRUE_OP" for x
    using operands.IH normal_conditions [OF operands.prems operands.hyps] that by blast
  show ?case
  proof (cases op)
    case NOP
    then show ?thesis using operands.hyps by simp
  next
    case AND_OP
    let ?es = "not_reduced (map (create_reduced_expr k) es)"
    have "(\<forall>x\<in>set ?es. ex_eval S x) = (\<forall>x\<in>set es. ex_eval S x) \<and> (\<forall>x\<in>set ?es. normal_expr True binary x)"
      using IH AND_OP by (intro not_reduced_all) simp
    then show ?thesis
      using AND_OP by (auto simp: Let_def list_all_iff)
  next
    case OR_OP
    then have ne: "es \<noteq> []" using operands.prems by simp
    have IH': "if fst (create_reduced_expr k x) then ex_eval S x
       else normal_expr True binary (snd (create_reduced_expr k x)) \<and>
            ex_eval S (snd (create_reduced_expr k x)) = ex_eval S x" if "x \<in> set es" for x
      using IH that OR_OP by simp
    show ?thesis
    proof (cases "\<exists>x\<in>set es. fst (create_reduced_expr k x)")
      case True
      then have "\<exists>x\<in>set es. ex_eval S x" using IH' by metis
      with True OR_OP show ?thesis by (simp add: Let_def list_ex_iff)
    next
      case False
      then have "\<forall>x\<in>set es. normal_expr True binary (snd (create_reduced_expr k x)) \<and>
          ex_eval S (snd (create_reduced_expr k x)) = ex_eval S x"
        using IH' by metis
      with False OR_OP ne show ?thesis by (auto simp: Let_def list_ex_iff list_all_iff)
    qed
  next
    case AND_NOT
    then obtain x y where es: "es = [x, y]" "normal_expr tr binary x" "normal_expr tr binary y"
      using operands.prems normal_AND_NOT_binary by metis
    have y: "normal_expr True binary y"
      using es(3) by (cases tr) (auto intro: normal_admit_true)
    have x: "if fst (create_reduced_expr k x) then ex_eval S x
       else normal_expr True binary (snd (create_reduced_expr k x)) \<and>
            ex_eval S (snd (create_reduced_expr k x)) = ex_eval S x"
      using IH [of x] AND_NOT es(1) by simp
    show ?thesis
      unfolding AND_NOT es(1) create_reduced_AND_NOT using x y
      by (auto simp: TRUE_EXPR_def simp del: create_reduced_expr.simps split: if_splits)
  next
    case TRUE_OP
    then show ?thesis by simp
  qed
qed auto

lemma create_reduced_params:
  "create_reduced_channel k c = Some c' \<Longrightarrow> expression_channel c = Some (p, e) \<Longrightarrow> simple_channel c = None \<Longrightarrow>
   channel_params_of c' = p \<and> has_params c' \<and> (\<exists>e'. c' = ExpressionChannel p e')"
  by (auto simp: create_reduced_channel.simps [of k c] split: if_splits)

section \<open>Required channels\<close>

lemma required_triggered:
  shows "normal_channel tr binary c \<Longrightarrow> ch_eval S c \<Longrightarrow> collect_required_channels c \<subseteq> S"
    and "normal_expr tr binary e \<Longrightarrow> ex_eval S e \<Longrightarrow> collect_expr_required_channels e \<subseteq> S"
proof (induction c and e rule: resolved_induct)
  case (channel c)
  then show ?case
    using resolve_normal [OF channel.prems(1)]
    by (auto simp: collect_required_channels.simps [of c] in_channels_def)
next
  case (operands op ch es)
  show ?case
  proof (cases "op = AND_OP \<or> op = AND_NOT")
    case True
    have "collect_expr_required_channels x \<subseteq> S" if "x \<in> set (conditions op es)" for x
      using operands.IH [of x] normal_conditions [OF operands.prems(1) operands.hyps] True that
        conditions_subset [OF that] conditions_hold [OF operands.prems True] by blast
    then show ?thesis
      using True by (simp add: required_operands UN_subset_iff del: collect_expr_required_channels.simps)
  next
    case False
    then show ?thesis using operands.hyps by (cases op) auto
  qed
qed auto

lemma finite_required:
  shows "finite (collect_required_channels c)" and "finite (collect_expr_required_channels e)"
proof (induction c and e rule: resolved_induct)
  case (channel c)
  then show ?case by (auto simp: collect_required_channels.simps [of c] split: option.splits)
next
  case (operands op ch es)
  then show ?case
    by (cases op) (auto dest!: in_set_butlastD simp flip: map_butlast)
qed auto

lemma first_some_SomeD: "first_some xs = Some x \<Longrightarrow> Some x \<in> set xs"
  by (induction xs rule: first_some.induct) auto

lemma find_required_triggered:
  shows "normal_channel False binary c \<Longrightarrow> find_required I c = Some R \<Longrightarrow> R \<subseteq> I \<and> (ch_eval S c \<longrightarrow> S \<inter> R \<noteq> {})"
    and "normal_expr False binary e \<Longrightarrow> find_required_expr I e = Some R \<Longrightarrow> R \<subseteq> I \<and> (ex_eval S e \<longrightarrow> S \<inter> R \<noteq> {})"
proof (induction c and e arbitrary: R and R rule: resolved_induct)
  case (channel c)
  from resolve_normal [OF channel.prems(1)] consider
    (simple) p where "c = SimpleChannel p"
  | (expr) p e where "c = ExpressionChannel p e" "normal_expr False binary e"
    by blast
  then show ?case
  proof cases
    case simple
    then show ?thesis
      using channel.prems(2) by (auto simp: find_required.simps [of I "SimpleChannel p"] in_channels_def split: if_splits)
  next
    case expr
    then show ?thesis
      using channel.prems(2) channel.IH [of p e R] by (simp add: find_required.simps [of I "ExpressionChannel p e"])
  qed
next
  case (operands op ch es)
  have IH: "R \<subseteq> I \<and> (ex_eval S x \<longrightarrow> S \<inter> R \<noteq> {})" if "x \<in> set es" "find_required_expr I x = Some R" "op \<noteq> TRUE_OP" for x R
    using operands.IH normal_conditions [OF operands.prems(1) operands.hyps] that by blast
  show ?case
  proof (cases op)
    case AND_OP
    with operands.prems(2) obtain x where "x \<in> set es" "find_required_expr I x = Some R"
      by (auto dest!: first_some_SomeD simp: image_iff)
    with IH AND_OP show ?thesis by (auto simp: list_all_iff)
  next
    case OR_OP
    then have all: "\<forall>x\<in>set es. find_required_expr I x \<noteq> None" "R = (\<Union>x\<in>set es. the (find_required_expr I x))"
      using operands.prems(2) by (auto simp: Let_def image_iff split: if_splits) (metis option.exhaust)
    have "the (find_required_expr I x) \<subseteq> I \<and> (ex_eval S x \<longrightarrow> S \<inter> the (find_required_expr I x) \<noteq> {})" if "x \<in> set es" for x
      using all(1) IH that OR_OP by auto
    then show ?thesis using all(2) OR_OP by (fastforce simp: list_ex_iff)
  next
    case AND_NOT
    then obtain x y where "es = [x, y]" using operands.prems(1) normal_AND_NOT_binary by metis
    with AND_NOT operands.prems(2) IH [of x R] show ?thesis by auto
  qed (use operands in auto)
qed auto

section \<open>The number of simple channels in an expression\<close>

fun channel_leaves :: "expr_channel \<Rightarrow> nat"
and expr_leaves :: "expression \<Rightarrow> nat" where
  "channel_leaves (SimpleChannel p) = 1"
| "channel_leaves (ExpressionChannel p e) = expr_leaves e"
| "channel_leaves (ExpressionChannelHolder None) = 0"
| "channel_leaves (ExpressionChannelHolder (Some c)) = channel_leaves c"
| "expr_leaves (Expression NOP None es) = 0"
| "expr_leaves (Expression NOP (Some c) es) = channel_leaves c"
| "expr_leaves (Expression op ch es) = sum_list (map expr_leaves es)"

lemma expression_channel_leaves: "expression_channel c = Some (p, e) \<Longrightarrow> channel_leaves c = expr_leaves e"
  by (induction c rule: expression_channel.induct) auto

lemma expr_leaves_operands: "op \<noteq> NOP \<Longrightarrow> expr_leaves (Expression op ch es) = sum_list (map expr_leaves es)"
  by (cases op) auto

lemma not_reduced_leaves:
  "(\<And>x. x \<in> set es \<Longrightarrow> g (snd (f x)) \<le> g x) \<Longrightarrow> sum_list (map g (not_reduced (map f es))) \<le> (sum_list (map g es) :: nat)"
  by (induction es) (auto simp: not_reduced_def intro: add_mono trans_le_add2)

lemma not_reduced_leaves_less:
  assumes "\<And>x. x \<in> set es \<Longrightarrow> g (snd (f x)) \<le> g x" "x \<in> set es" "(if fst (f x) then 0 else g (snd (f x))) < g x"
  shows "sum_list (map g (not_reduced (map f es))) < (sum_list (map g es) :: nat)"
  using assms
proof (induction es)
  case (Cons y es)
  have le: "sum_list (map g (not_reduced (map f es))) \<le> sum_list (map g es)"
    using Cons.prems(1) by (intro not_reduced_leaves) simp
  have y: "g (snd (f y)) \<le> g y" using Cons.prems(1) by simp
  show ?case
  proof (cases "x = y")
    case True
    then show ?thesis using Cons.prems(3) le by (auto simp: not_reduced_def split: if_splits)
  next
    case False
    then have "sum_list (map g (not_reduced (map f es))) < sum_list (map g es)"
      using Cons by simp
    then show ?thesis using y by (auto simp: not_reduced_def)
  qed
qed simp

lemma create_reduced_leaves:
  shows "normal_channel tr binary c \<Longrightarrow>
      case_option 0 channel_leaves (create_reduced_channel k c) \<le> channel_leaves c \<and>
      (k \<in> collect_required_channels c \<longrightarrow>
        case_option 0 channel_leaves (create_reduced_channel k c) < channel_leaves c)"
    and "normal_expr tr binary e \<Longrightarrow>
      expr_leaves (snd (create_reduced_expr k e)) \<le> expr_leaves e \<and>
      (k \<in> collect_expr_required_channels e \<longrightarrow>
        (if fst (create_reduced_expr k e) then 0 else expr_leaves (snd (create_reduced_expr k e))) < expr_leaves e)"
proof (induction c and e rule: resolved_induct)
  case (channel c)
  then show ?case
    using resolve_normal [OF channel.prems(1)]
    by (auto simp: create_reduced_channel.simps [of _ c] collect_required_channels.simps [of c] split: if_splits)
next
  case (nop c es)
  then show ?case by (cases "create_reduced_channel k c") auto
next
  case (operands op ch es)
  have IH: "expr_leaves (snd (create_reduced_expr k x)) \<le> expr_leaves x \<and>
      (k \<in> collect_expr_required_channels x \<longrightarrow>
        (if fst (create_reduced_expr k x) then 0 else expr_leaves (snd (create_reduced_expr k x))) < expr_leaves x)"
    if "x \<in> set es" "op \<noteq> TRUE_OP" for x
    using operands.IH normal_conditions [OF operands.prems operands.hyps] that by blast
  show ?case
  proof (cases op)
    case AND_OP
    let ?es = "not_reduced (map (create_reduced_expr k) es)"
    have le: "sum_list (map expr_leaves ?es) \<le> sum_list (map expr_leaves es)"
      using IH AND_OP by (intro not_reduced_leaves) simp
    have less: "sum_list (map expr_leaves ?es) < sum_list (map expr_leaves es)"
      if req: "k \<in> collect_expr_required_channels (Expression op ch es)"
    proof -
      obtain x where x: "x \<in> set es" "k \<in> collect_expr_required_channels x" using req AND_OP by auto
      show ?thesis
        by (rule not_reduced_leaves_less [OF _ x(1)]) (use IH AND_OP x in auto)
    qed
    show ?thesis
      using AND_OP le less by (cases "?es = []") (auto simp: Let_def)
  next
    case OR_OP
    have "sum_list (map (\<lambda>x. expr_leaves (snd (create_reduced_expr k x))) es) \<le> sum_list (map expr_leaves es)"
      using IH OR_OP by (intro sum_list_mono) simp
    then show ?thesis using OR_OP by (simp add: Let_def comp_def)
  next
    case AND_NOT
    then obtain x y where es: "es = [x, y]" using operands.prems normal_AND_NOT_binary by metis
    have "collect_expr_required_channels (Expression AND_NOT ch es) = collect_expr_required_channels x"
      using es by (simp add: required_operands conditions_def)
    then show ?thesis
      unfolding AND_NOT es create_reduced_AND_NOT using IH [of x] es AND_NOT
      by (auto simp: TRUE_EXPR_def simp del: create_reduced_expr.simps split: if_splits)
  qed (use operands in auto)
qed auto

end
