(* ===== verification/ExprIndexTables.thy ===== *)
theory ExprIndexTables
  imports ExprReduce
begin

text \<open>
  The tables of the indexing algorithm describe one state: for every expression channel the set of
  simple channels it still uses. \<open>tables_for\<close> says so, every update of the tables keeps it, and the
  assertions of the updates hold.
\<close>

section \<open>The invariant\<close>

text \<open>
  \<open>W s\<close> is the set of the users of the simple channel \<open>s\<close> and \<open>V s\<close> the set of the priority keys in
  its node.
\<close>

definition tables_ok ::
  "(channel_id \<Rightarrow> (nat \<times> channel_id) set) \<Rightarrow> (channel_id \<Rightarrow> channel_id set) \<Rightarrow> indexing \<Rightarrow> bool" where
  "tables_ok V W ix \<longleftrightarrow>
     map_ok (ix_simple ix) \<and> map_ok (ix_priority ix) \<and>
     (\<forall>s. finite (W s)) \<and>
     (\<forall>s. W s \<noteq> {} \<longrightarrow> map_of (ix_simple ix) s = Some (W s)) \<and>
     (\<forall>n s us. map_of (ix_priority ix) (n, s) = Some us \<longleftrightarrow> W s \<noteq> {} \<and> n = card (W s) \<and> us = V s)"

definition users :: "indexing \<Rightarrow> channel_id \<Rightarrow> channel_id set" where
  "users ix s = {k. \<exists>obj. map_of (ix_objects ix) k = Some obj \<and> s \<in> used_simple_channels obj}"

definition user_keys :: "indexing \<Rightarrow> channel_id \<Rightarrow> (nat \<times> channel_id) set" where
  "user_keys ix s = (\<lambda>k. (card (used_at ix k), k)) ` users ix s"

text \<open>Every object is kept under the id of its channel and uses finitely many simple channels.\<close>

definition objects_ok :: "indexing \<Rightarrow> bool" where
  "objects_ok ix \<longleftrightarrow>
     map_ok (ix_objects ix) \<and>
     (\<forall>k obj. map_of (ix_objects ix) k = Some obj \<longrightarrow>
        cp_channel_id (channel_params_of (ei_channel obj)) = k \<and> finite (used_simple_channels obj))"

definition tables_for :: "indexing \<Rightarrow> bool" where
  "tables_for ix \<longleftrightarrow> objects_ok ix \<and> tables_ok (user_keys ix) (users ix) ix"

lemma object_at_eq: "map_of (ix_objects ix) k = Some obj \<Longrightarrow> object_at ix k = obj"
  by (simp add: object_at_def)

lemma object_channel_id_eq:
  "objects_ok ix \<Longrightarrow> map_of (ix_objects ix) k = Some obj \<Longrightarrow> object_channel_id ix k = k"
  by (simp add: object_channel_id_def object_at_eq objects_ok_def)

lemma object_at_objects: "ix_objects ix' = ix_objects ix \<Longrightarrow> object_at ix' = object_at ix"
  by (simp add: object_at_def fun_eq_iff)

lemma object_channel_id_objects: "ix_objects ix' = ix_objects ix \<Longrightarrow> object_channel_id ix' = object_channel_id ix"
  by (simp add: object_channel_id_def object_at_def fun_eq_iff)

section \<open>The two updates\<close>

lemma change_channel_priority_ok:
  assumes T: "tables_ok V W ix" and k: "k \<in> W s" "(old, k) \<in> V s" "object_channel_id ix k = k"
  shows "\<exists>ix'. change_channel_priority s k old ix = Some ix' \<and> ix_objects ix' = ix_objects ix \<and>
    tables_ok (V(s := V s - {(old, k)})) (W(s := W s - {k})) ix'"
proof -
  from T have ok: "map_ok (ix_simple ix)" "map_ok (ix_priority ix)" "\<And>s. finite (W s)"
    and sim: "\<And>s. W s \<noteq> {} \<Longrightarrow> map_of (ix_simple ix) s = Some (W s)"
    and pri: "\<And>n s us. map_of (ix_priority ix) (n, s) = Some us \<longleftrightarrow> W s \<noteq> {} \<and> n = card (W s) \<and> us = V s"
    by (auto simp: tables_ok_def)
  let ?pm = "map_erase (card (W s), s) (ix_priority ix)"
  let ?pm' = "if W s - {k} = {} then ?pm else map_insert (card (W s - {k}), s) (V s - {(old, k)}) ?pm"
  let ?ix = "ix\<lparr>ix_simple := map_put s (W s - {k}) (ix_simple ix), ix_priority := ?pm'\<rparr>"
  have s: "map_of (ix_simple ix) s = Some (W s)" "map_of (ix_priority ix) (card (W s), s) = Some (V s)"
    using sim pri k(1) by auto
  have "change_channel_priority s k old ix = Some ?ix"
    using s k by (simp add: change_channel_priority_def Let_def)
  moreover have pm: "map_of ?pm (n, x) = (if x = s then None else map_of (ix_priority ix) (n, x))" for n x
    using pri by (auto simp: map_of_map_erase) (metis not_Some_eq)
  have pm': "map_of ?pm' (n, x) = Some us \<longleftrightarrow>
      (W(s := W s - {k})) x \<noteq> {} \<and> n = card ((W(s := W s - {k})) x) \<and> us = (V(s := V s - {(old, k)})) x" for n x us
    using pm [of n x] pm [of "card (W s - {k})" s] ok(2) pri
    by (auto simp: map_of_map_insert split: option.splits)
  have "tables_ok (V(s := V s - {(old, k)})) (W(s := W s - {k})) ?ix"
    unfolding tables_ok_def using ok sim pm' by (auto simp: map_of_map_put)
  ultimately show ?thesis by fastforce
qed

lemma change_expression_channel_priority_ok:
  assumes T: "tables_ok V W ix" and k: "k \<in> W s" "(old, k) \<in> V s" "object_channel_id ix k = k" and new: "new \<noteq> 0"
  shows "\<exists>ix'. change_expression_channel_priority s k old new ix = Some ix' \<and> ix_objects ix' = ix_objects ix \<and>
    tables_ok (V(s := insert (new, k) (V s - {(old, k)}))) W ix'"
proof -
  from T have ok: "map_ok (ix_simple ix)" "map_ok (ix_priority ix)" "\<And>s. finite (W s)"
    and sim: "\<And>s. W s \<noteq> {} \<Longrightarrow> map_of (ix_simple ix) s = Some (W s)"
    and pri: "\<And>n s us. map_of (ix_priority ix) (n, s) = Some us \<longleftrightarrow> W s \<noteq> {} \<and> n = card (W s) \<and> us = V s"
    by (auto simp: tables_ok_def)
  let ?ix = "ix\<lparr>ix_priority := map_put (card (W s), s) (insert (new, k) (V s - {(old, k)})) (ix_priority ix)\<rparr>"
  have "map_of (ix_simple ix) s = Some (W s)" "map_of (ix_priority ix) (card (W s), s) = Some (V s)"
    using sim pri k(1) by auto
  then have "change_expression_channel_priority s k old new ix = Some ?ix"
    using k new by (simp add: change_expression_channel_priority_def)
  moreover have "tables_ok (V(s := insert (new, k) (V s - {(old, k)}))) W ?ix"
    unfolding tables_ok_def using ok sim pri k(1) by (auto simp: map_of_map_put)
  ultimately show ?thesis by fastforce
qed

text \<open>Both updates over a range of simple channels.\<close>

lemma each_change_channel_priority:
  assumes "tables_ok V W ix" "distinct ss" "\<forall>s\<in>set ss. k \<in> W s \<and> (old, k) \<in> V s" "object_channel_id ix k = k"
  shows "\<exists>ix'. each_option (\<lambda>s. change_channel_priority s k old) ss ix = Some ix' \<and> ix_objects ix' = ix_objects ix \<and>
    tables_ok (\<lambda>s. if s \<in> set ss then V s - {(old, k)} else V s) (\<lambda>s. if s \<in> set ss then W s - {k} else W s) ix'"
  using assms
proof (induction ss arbitrary: V W ix)
  case (Cons s ss)
  obtain ix1 where ix1: "change_channel_priority s k old ix = Some ix1" "ix_objects ix1 = ix_objects ix"
    "tables_ok (V(s := V s - {(old, k)})) (W(s := W s - {k})) ix1"
    using change_channel_priority_ok [of V W ix k s old] Cons.prems by auto
  have "object_channel_id ix1 k = k" using object_channel_id_objects [OF ix1(2)] Cons.prems(4) by simp
  with Cons.IH [OF ix1(3)] Cons.prems obtain ix2 where ix2:
    "each_option (\<lambda>s. change_channel_priority s k old) ss ix1 = Some ix2" "ix_objects ix2 = ix_objects ix1"
    "tables_ok (\<lambda>x. if x \<in> set ss then (V(s := V s - {(old, k)})) x - {(old, k)} else (V(s := V s - {(old, k)})) x)
      (\<lambda>x. if x \<in> set ss then (W(s := W s - {k})) x - {k} else (W(s := W s - {k})) x) ix2"
    by (metis (no_types, lifting) distinct.simps(2) fun_upd_other list.set_intros(2))
  have V: "(\<lambda>x. if x \<in> set ss then (V(s := V s - {(old, k)})) x - {(old, k)} else (V(s := V s - {(old, k)})) x) =
      (\<lambda>x. if x \<in> set (s # ss) then V x - {(old, k)} else V x)" by (auto simp: fun_eq_iff)
  have W: "(\<lambda>x. if x \<in> set ss then (W(s := W s - {k})) x - {k} else (W(s := W s - {k})) x) =
      (\<lambda>x. if x \<in> set (s # ss) then W x - {k} else W x)" by (auto simp: fun_eq_iff)
  show ?case using ix1 ix2 V W by auto
qed simp

lemma each_change_expression_channel_priority:
  assumes "tables_ok V W ix" "distinct ss" "\<forall>s\<in>set ss. k \<in> W s \<and> (old, k) \<in> V s" "object_channel_id ix k = k"
    "ss \<noteq> [] \<longrightarrow> new \<noteq> 0"
  shows "\<exists>ix'. each_option (\<lambda>s. change_expression_channel_priority s k old new) ss ix = Some ix' \<and>
    ix_objects ix' = ix_objects ix \<and>
    tables_ok (\<lambda>s. if s \<in> set ss then insert (new, k) (V s - {(old, k)}) else V s) W ix'"
  using assms
proof (induction ss arbitrary: V ix)
  case (Cons s ss)
  obtain ix1 where ix1: "change_expression_channel_priority s k old new ix = Some ix1" "ix_objects ix1 = ix_objects ix"
    "tables_ok (V(s := insert (new, k) (V s - {(old, k)}))) W ix1"
    using change_expression_channel_priority_ok [of V W ix k s old new] Cons.prems by auto
  have "object_channel_id ix1 k = k" using object_channel_id_objects [OF ix1(2)] Cons.prems(4) by simp
  with Cons.IH [OF ix1(3)] Cons.prems obtain ix2 where ix2:
    "each_option (\<lambda>s. change_expression_channel_priority s k old new) ss ix1 = Some ix2" "ix_objects ix2 = ix_objects ix1"
    "tables_ok (\<lambda>x. if x \<in> set ss then insert (new, k) ((V(s := insert (new, k) (V s - {(old, k)}))) x - {(old, k)})
       else (V(s := insert (new, k) (V s - {(old, k)}))) x) W ix2"
    by (metis (no_types, lifting) distinct.simps(2) fun_upd_other list.set_intros(2) list.discI)
  have V: "(\<lambda>x. if x \<in> set ss then insert (new, k) ((V(s := insert (new, k) (V s - {(old, k)}))) x - {(old, k)})
       else (V(s := insert (new, k) (V s - {(old, k)}))) x) =
      (\<lambda>x. if x \<in> set (s # ss) then insert (new, k) (V x - {(old, k)}) else V x)"
    using Cons.prems(2) by (auto simp: fun_eq_iff)
  show ?case using ix1 ix2 V by auto
qed simp

section \<open>The whole update of one expression channel\<close>

lemma user_keys_iff: "(n, j) \<in> user_keys ix s \<longleftrightarrow> j \<in> users ix s \<and> n = card (used_at ix j)"
  by (auto simp: user_keys_def)

lemma tables_ok_objects [simp]: "tables_ok V W (ix\<lparr>ix_objects := m\<rparr>) = tables_ok V W ix"
  by (simp add: tables_ok_def)

lemma objects_ok_put:
  assumes "objects_ok ix" "map_of (ix_objects ix) k = Some obj" "ei_channel obj' = ei_channel obj"
    "finite (used_simple_channels obj')" "ix_objects ix' = map_put k obj' (ix_objects ix)"
  shows "objects_ok ix'"
  using assms by (auto simp: objects_ok_def map_of_map_put)

lemma users_put:
  assumes "objects_ok ix" "map_of (ix_objects ix) k = Some obj" "ix_objects ix' = map_put k obj' (ix_objects ix)"
  shows "users ix' s = (if s \<in> used_simple_channels obj' then insert k (users ix s) else users ix s - {k})"
  using assms by (auto simp: users_def objects_ok_def map_of_map_put)

lemma used_at_put:
  assumes "objects_ok ix" "ix_objects ix' = map_put k obj' (ix_objects ix)"
  shows "object_at ix' j = (if j = k then obj' else object_at ix j)"
  using assms by (simp add: object_at_def objects_ok_def map_of_map_put)

lemma update_tables:
  assumes T: "tables_for ix" and obj: "map_of (ix_objects ix) k = Some obj"
    and U: "U \<subseteq> used_simple_channels obj" and obj': "used_simple_channels obj' = U" "ei_channel obj' = ei_channel obj"
  shows "\<exists>ix'. update_channel_priority_map k (used_simple_channels obj - U) U ix = Some ix' \<and>
    ix_objects ix' = ix_objects ix \<and> tables_for (ix'\<lparr>ix_objects := map_put k obj' (ix_objects ix')\<rparr>)"
proof -
  let ?D = "used_simple_channels obj - U" and ?old = "card (used_simple_channels obj)"
  from T have ok: "objects_ok ix" and tab: "tables_ok (user_keys ix) (users ix) ix"
    by (simp_all add: tables_for_def)
  have fin: "finite (used_simple_channels obj)" using ok obj by (auto simp: objects_ok_def)
  have finU: "finite U" using fin U finite_subset by blast
  have at: "object_at ix k = obj" using obj by (rule object_at_eq)
  have id: "object_channel_id ix k = k" using ok obj by (rule object_channel_id_eq)
  have mem: "k \<in> users ix s \<longleftrightarrow> s \<in> used_simple_channels obj" for s
    using obj by (auto simp: users_def)
  have keys: "(?old, k) \<in> user_keys ix s" if "s \<in> used_simple_channels obj" for s
    using that mem at by (simp add: user_keys_iff)
  obtain ix1 where ix1:
    "each_option (\<lambda>s. change_channel_priority s k ?old) (sorted_list_of_set ?D) ix = Some ix1" "ix_objects ix1 = ix_objects ix"
    "tables_ok (\<lambda>s. if s \<in> ?D then user_keys ix s - {(?old, k)} else user_keys ix s)
       (\<lambda>s. if s \<in> ?D then users ix s - {k} else users ix s) ix1"
    using each_change_channel_priority [OF tab, of "sorted_list_of_set ?D" k ?old] mem keys id fin by auto
  have id1: "object_channel_id ix1 k = k" using object_channel_id_objects [OF ix1(2)] id by simp
  obtain ix2 where ix2:
    "each_option (\<lambda>s. change_expression_channel_priority s k ?old (card U)) (sorted_list_of_set U) ix1 = Some ix2"
    "ix_objects ix2 = ix_objects ix1"
    "tables_ok (\<lambda>s. if s \<in> U then insert (card U, k) ((if s \<in> ?D then user_keys ix s - {(?old, k)} else user_keys ix s) - {(?old, k)})
       else if s \<in> ?D then user_keys ix s - {(?old, k)} else user_keys ix s)
       (\<lambda>s. if s \<in> ?D then users ix s - {k} else users ix s) ix2"
    using each_change_expression_channel_priority [OF ix1(3), of "sorted_list_of_set U" k ?old "card U"] mem keys id1 finU U
    by (auto simp: subset_iff)
  let ?ix = "ix2\<lparr>ix_objects := map_put k obj' (ix_objects ix2)\<rparr>"
  have objs: "ix_objects ?ix = map_put k obj' (ix_objects ix)" using ix1(2) ix2(2) by simp
  have W: "users ?ix = (\<lambda>s. if s \<in> ?D then users ix s - {k} else users ix s)"
    using users_put [OF ok obj objs] obj'(1) mem U by (auto simp: fun_eq_iff)
  have "user_keys ?ix s = (if s \<in> U then insert (card U, k) ((if s \<in> ?D then user_keys ix s - {(?old, k)} else user_keys ix s) - {(?old, k)})
       else if s \<in> ?D then user_keys ix s - {(?old, k)} else user_keys ix s)" for s
  proof (rule set_eqI, clarify)
    fix n j
    have "(n, j) \<in> user_keys ?ix s \<longleftrightarrow> (if j = k then s \<in> U \<and> n = card U else (n, j) \<in> user_keys ix s)"
      using users_put [OF ok obj objs, of s] used_at_put [OF ok objs, of j] obj'(1)
      by (auto simp: user_keys_iff)
    moreover have "(n, k) \<in> user_keys ix s \<longleftrightarrow> s \<in> used_simple_channels obj \<and> n = ?old"
      using mem at by (simp add: user_keys_iff)
    ultimately show "((n, j) \<in> user_keys ?ix s) =
      ((n, j) \<in> (if s \<in> U then insert (card U, k) ((if s \<in> ?D then user_keys ix s - {(?old, k)} else user_keys ix s) - {(?old, k)})
       else if s \<in> ?D then user_keys ix s - {(?old, k)} else user_keys ix s))"
      by (cases "j = k") (use U in auto)
  qed
  then have V: "user_keys ?ix = (\<lambda>s. if s \<in> U then insert (card U, k) ((if s \<in> ?D then user_keys ix s - {(?old, k)} else user_keys ix s) - {(?old, k)})
       else if s \<in> ?D then user_keys ix s - {(?old, k)} else user_keys ix s)" by (rule ext)
  have "tables_for ?ix"
    unfolding tables_for_def V W tables_ok_objects
    using ix2(3) objects_ok_put [OF ok obj obj'(2) _ objs] obj'(1) finU by simp
  moreover have "update_channel_priority_map k ?D U ix = Some ix2"
    using ix1 ix2 at by (simp add: update_channel_priority_map_def)
  ultimately show ?thesis using ix1(2) ix2(2) by auto
qed

section \<open>Construction\<close>

text \<open>The table of the users while it is filled.\<close>

definition simple_table :: "indexing \<Rightarrow> bool" where
  "simple_table ix \<longleftrightarrow> map_ok (ix_simple ix) \<and>
     (\<forall>s. map_of (ix_simple ix) s = (if users ix s = {} then None else Some (users ix s)))"

lemma foldl_add_user:
  assumes "map_ok m" "distinct ss"
  shows "map_ok (foldl (\<lambda>m s. add_user k s m) m ss) \<and>
    map_of (foldl (\<lambda>m s. add_user k s m) m ss) s =
      (if s \<in> set ss then Some (insert k (case map_of m s of None \<Rightarrow> {} | Some ks \<Rightarrow> ks)) else map_of m s)"
  using assms by (induction ss arbitrary: m) (auto simp: add_user_def map_of_map_put)

lemma index_channel_tables:
  assumes "objects_ok ix" "simple_table ix" "map_of (ix_objects ix) k = None"
    "cp_channel_id (channel_params_of c) = k" "finite (f c)" "index_channel f (ecs, ix) (k, c) = (ecs', ix')"
  shows "objects_ok ix' \<and> simple_table ix' \<and>
    map_of (ix_objects ix') = (if f c = {} then map_of (ix_objects ix)
      else (map_of (ix_objects ix))(k \<mapsto> \<lparr>used_simple_channels = f c, indexed_simple_channels = {}, ei_channel = c\<rparr>))"
proof (cases "f c = {}")
  case True
  then show ?thesis using assms by (auto simp: index_channel_def Let_def)
next
  case False
  then have ix': "ix' = ix\<lparr>ix_objects := map_put k \<lparr>used_simple_channels = f c, indexed_simple_channels = {}, ei_channel = c\<rparr> (ix_objects ix),
      ix_simple := foldl (\<lambda>m s. add_user k s m) (ix_simple ix) (sorted_list_of_set (f c))\<rparr>"
    using assms(6) by (simp add: index_channel_def Let_def)
  have obs: "map_of (ix_objects ix') = (map_of (ix_objects ix))(k \<mapsto> \<lparr>used_simple_channels = f c, indexed_simple_channels = {}, ei_channel = c\<rparr>)"
    using assms(1) ix' by (simp add: objects_ok_def map_of_map_put)
  have users: "users ix' s = (if s \<in> f c then insert k (users ix s) else users ix s)" for s
    using assms(3) obs by (auto simp: users_def)
  have "objects_ok ix'"
    using assms(1,4,5) obs ix' by (auto simp: objects_ok_def)
  moreover have "simple_table ix'"
    unfolding simple_table_def users using foldl_add_user [of "ix_simple ix" "sorted_list_of_set (f c)" k] assms(2,5)
    by (auto simp: ix' simple_table_def)
  ultimately show ?thesis using obs False by simp
qed

lemma foldl_index_channel:
  assumes "map_ok kcs" "\<forall>(k, c)\<in>set kcs. cp_channel_id (channel_params_of c) = k \<and> finite (f c)"
    "objects_ok ix" "simple_table ix" "\<forall>(k, c)\<in>set kcs. map_of (ix_objects ix) k = None"
    "foldl (index_channel f) (ecs, ix) kcs = (ecs', ix')"
  shows "objects_ok ix' \<and> simple_table ix' \<and>
    ecs' = ecs @ map snd (filter (\<lambda>kc. f (snd kc) = {}) kcs) \<and>
    (\<forall>k. map_of (ix_objects ix') k = (case map_of (ix_objects ix) k of
        Some obj \<Rightarrow> Some obj
      | None \<Rightarrow> (case map_of kcs k of
          None \<Rightarrow> None
        | Some c \<Rightarrow> if f c = {} then None
                  else Some \<lparr>used_simple_channels = f c, indexed_simple_channels = {}, ei_channel = c\<rparr>)))"
  using assms
proof (induction kcs arbitrary: ecs ix)
  case (Cons kc kcs)
  obtain k c where kc: "kc = (k, c)" by (rule prod.exhaust)
  obtain ecs1 ix1 where s: "index_channel f (ecs, ix) (k, c) = (ecs1, ix1)" by (rule prod.exhaust)
  have 1: "objects_ok ix1 \<and> simple_table ix1 \<and>
    map_of (ix_objects ix1) = (if f c = {} then map_of (ix_objects ix)
      else (map_of (ix_objects ix))(k \<mapsto> \<lparr>used_simple_channels = f c, indexed_simple_channels = {}, ei_channel = c\<rparr>))"
    using Cons.prems kc s by (intro index_channel_tables) auto
  have ecs1: "ecs1 = (if f c = {} then ecs @ [c] else ecs)"
    using s by (auto simp: index_channel_def Let_def split: if_splits)
  have new: "map_of kcs k = None" using Cons.prems(1) kc by simp
  have "\<forall>(j, c)\<in>set kcs. map_of (ix_objects ix1) j = None"
    using 1 Cons.prems(1,5) kc by fastforce
  with Cons.IH [of ix1 ecs1] 1 Cons.prems kc s have IH: "objects_ok ix' \<and> simple_table ix' \<and>
    ecs' = ecs1 @ map snd (filter (\<lambda>kc. f (snd kc) = {}) kcs) \<and>
    (\<forall>k. map_of (ix_objects ix') k = (case map_of (ix_objects ix1) k of
        Some obj \<Rightarrow> Some obj
      | None \<Rightarrow> (case map_of kcs k of
          None \<Rightarrow> None
        | Some c \<Rightarrow> if f c = {} then None
                  else Some \<lparr>used_simple_channels = f c, indexed_simple_channels = {}, ei_channel = c\<rparr>)))"
    by simp
  have "map_of (ix_objects ix) k = None" using Cons.prems(5) kc by simp
  with IH 1 ecs1 kc new show ?case by (auto split: option.splits if_splits)
qed (auto split: option.splits)

lemma foldl_priority:
  assumes "map_ok sks" "map_ok pm" "\<forall>n s. map_of sks s \<noteq> None \<longrightarrow> map_of pm (n, s) = None"
  shows "map_ok (foldl (\<lambda>m (s, ks). map_insert (card ks, s) (g ks) m) pm sks) \<and>
    map_of (foldl (\<lambda>m (s, ks). map_insert (card ks, s) (g ks) m) pm sks) (n, s) =
      (case map_of sks s of None \<Rightarrow> map_of pm (n, s) | Some ks \<Rightarrow> if n = card ks then Some (g ks) else None)"
  using assms
proof (induction sks arbitrary: pm)
  case (Cons sk sks)
  obtain x ks where sk: "sk = (x, ks)" by (rule prod.exhaust)
  have new: "map_of sks x = None" using Cons.prems(1) sk by simp
  have x: "map_of pm (n, x) = None" for n using Cons.prems(3) sk by simp
  let ?pm = "map_insert (card ks, x) (g ks) pm"
  have pm: "map_of ?pm = (map_of pm)((card ks, x) \<mapsto> g ks)"
    using Cons.prems(2) x by (simp add: map_of_map_insert)
  have "\<forall>n s. map_of sks s \<noteq> None \<longrightarrow> map_of ?pm (n, s) = None"
    using Cons.prems(3) sk new pm by auto
  with Cons.IH [of ?pm] Cons.prems sk have "map_ok (foldl (\<lambda>m (s, ks). map_insert (card ks, s) (g ks) m) ?pm sks) \<and>
    map_of (foldl (\<lambda>m (s, ks). map_insert (card ks, s) (g ks) m) ?pm sks) (n, s) =
      (case map_of sks s of None \<Rightarrow> map_of ?pm (n, s) | Some ks \<Rightarrow> if n = card ks then Some (g ks) else None)"
    by simp
  with sk new x pm show ?case by (auto split: option.splits)
qed simp

lemma construct_tables:
  assumes "map_ok kcs" "\<forall>(k, c)\<in>set kcs. cp_channel_id (channel_params_of c) = k \<and> finite (f c)"
    "construct_simple_channel_indexing_map f kcs = (ecs, ix)"
  shows "tables_for (construct_channel_priority_map ix) \<and>
    ecs = map snd (filter (\<lambda>kc. f (snd kc) = {}) kcs) \<and>
    ix_objects (construct_channel_priority_map ix) = ix_objects ix \<and>
    (\<forall>k. map_of (ix_objects ix) k = (case map_of kcs k of
          None \<Rightarrow> None
        | Some c \<Rightarrow> if f c = {} then None
                  else Some \<lparr>used_simple_channels = f c, indexed_simple_channels = {}, ei_channel = c\<rparr>))"
proof -
  let ?ix0 = "\<lparr>ix_objects = [], ix_simple = [], ix_priority = []\<rparr> :: indexing"
  have "objects_ok ?ix0" "simple_table ?ix0" by (simp_all add: objects_ok_def simple_table_def users_def)
  with foldl_index_channel [OF assms(1,2), of ?ix0 "[]" ecs ix] assms(3)
  have F: "objects_ok ix" "simple_table ix" "ecs = map snd (filter (\<lambda>kc. f (snd kc) = {}) kcs)"
    "\<forall>k. map_of (ix_objects ix) k = (case map_of kcs k of
          None \<Rightarrow> None
        | Some c \<Rightarrow> if f c = {} then None
                  else Some \<lparr>used_simple_channels = f c, indexed_simple_channels = {}, ei_channel = c\<rparr>)"
    by (simp_all add: construct_simple_channel_indexing_map_def)
  let ?ix = "construct_channel_priority_map ix"
  have obs: "ix_objects ?ix = ix_objects ix" "ix_simple ?ix = ix_simple ix"
    by (simp_all add: construct_channel_priority_map_def)
  have sim: "map_ok (ix_simple ix)" "\<And>s. map_of (ix_simple ix) s = (if users ix s = {} then None else Some (users ix s))"
    using F(2) by (auto simp: simple_table_def)
  have us: "users ?ix = users ix" "user_keys ?ix = user_keys ix"
    using obs by (auto simp: users_def user_keys_def object_at_def fun_eq_iff)
  have fin: "finite (users ix s)" for s
  proof -
    have "users ix s \<subseteq> dom (map_of (ix_objects ix))" by (auto simp: users_def)
    then show ?thesis using finite_dom_map_of finite_subset by blast
  qed
  have pri: "map_ok (ix_priority ?ix) \<and> map_of (ix_priority ?ix) (n, s) =
      (case map_of (ix_simple ix) s of None \<Rightarrow> None
       | Some ks \<Rightarrow> if n = card ks then Some ((\<lambda>k. (card (used_at ix k), k)) ` ks) else None)" for n s
    using foldl_priority [OF sim(1), of "[]" "\<lambda>ks. (\<lambda>k. (card (used_at ix k), k)) ` ks" n s]
    by (simp add: construct_channel_priority_map_def cong: option.case_cong)
  have "tables_ok (user_keys ix) (users ix) ?ix"
    unfolding tables_ok_def using sim pri fin obs(2) by (auto simp: user_keys_def)
  moreover have "objects_ok ?ix" using F(1) obs(1) by (simp add: objects_ok_def)
  ultimately show ?thesis using F obs us by (simp add: tables_for_def)
qed

section \<open>The measure of the loops\<close>

text \<open>The number of pairs of an expression channel and a simple channel that it uses.\<close>

definition used_total :: "indexing \<Rightarrow> nat" where
  "used_total ix = sum_list (map (\<lambda>kobj. card (used_simple_channels (snd kobj))) (ix_objects ix))"

lemma used_total_put:
  assumes "map_of m k = Some obj" "map_ok m" "g obj' < (g obj :: nat)"
  shows "sum_list (map (\<lambda>kobj. g (snd kobj)) (map_put k obj' m)) < sum_list (map (\<lambda>kobj. g (snd kobj)) m)"
  using assms by (induction m) (auto dest!: map_of_SomeD split: if_splits)

lemma priority_nonempty:
  assumes "tables_for ix" "(((n, s), us)) \<in> set (ix_priority ix)"
  shows "us \<noteq> {} \<and> finite us \<and> n = card (users ix s) \<and> (\<forall>j m. (m, j) \<in> us \<longrightarrow>
    (\<exists>obj. map_of (ix_objects ix) j = Some obj \<and> s \<in> used_simple_channels obj))"
proof -
  have "map_of (ix_priority ix) (n, s) = Some us"
    using assms(2) map_ok_map_of_iff [of "ix_priority ix"] assms(1) unfolding tables_for_def tables_ok_def by blast
  then have "users ix s \<noteq> {}" "us = user_keys ix s" "finite (users ix s)" "n = card (users ix s)"
    using assms(1) by (auto simp: tables_for_def tables_ok_def)
  then show ?thesis by (auto simp: user_keys_def users_def)
qed

text \<open>An empty priority table means that nothing is left to index.\<close>

lemma priority_empty:
  assumes "tables_for ix" "ix_priority ix = []" "map_of (ix_objects ix) k = Some obj"
  shows "used_simple_channels obj = {}"
proof (rule ccontr)
  assume "used_simple_channels obj \<noteq> {}"
  then obtain s where "k \<in> users ix s" using assms(3) by (auto simp: users_def)
  then have "map_of (ix_priority ix) (card (users ix s), s) = Some (user_keys ix s)"
    using assms(1) by (auto simp: tables_for_def tables_ok_def)
  with assms(2) show False by simp
qed

end
