(* ===== verification/ExprIndexCells.thy ===== *)
theory ExprIndexCells
  imports ExprIndexTables
begin

text \<open>
  The cells of the index while it is built. \<open>sem k S\<close> tells whether the channel \<open>k\<close> is triggered by
  the simple channels \<open>S\<close> and \<open>cpm k\<close> whether it is reported as a CPM channel. The two loops of the
  algorithm end, none of their assertions fails, and afterwards every triggered channel is found in
  the cell of a triggered simple channel.
\<close>

section \<open>Cells\<close>

lemma map_of_change_cell:
  "map_of (change_cell s f m) = (map_of m)(s \<mapsto> f (case map_of m s of None \<Rightarrow> empty_match | Some c \<Rightarrow> c))"
  by (induction m) (auto simp: fun_eq_iff)

lemma distinct_change_cell: "distinct (map fst m) \<Longrightarrow> distinct (map fst (change_cell s f m))"
proof (induction m)
  case (Cons kc m)
  have "fst ` set (change_cell s f m) = insert s (fst ` set m)"
    by (induction s f m rule: change_cell.induct) (simp_all add: insert_commute)
  with Cons show ?case by (cases kc) auto
qed simp

lemma insert_if_not_exists_set [simp]: "set (insert_if_not_exists xs k) = insert k (set xs)"
  by (auto simp: insert_if_not_exists_def)

text \<open>A check holds a channel in normal form under its id and knows whether it is a CPM channel.\<close>

definition check_wf :: "(channel_id \<Rightarrow> bool) \<Rightarrow> expr_channel check_channel \<Rightarrow> bool" where
  "check_wf cpm c \<longleftrightarrow>
     (\<exists>p e. cc_channel c = ExpressionChannel p e \<and> normal_expr True binary e \<and> cp_channel_id p = cc_channel_id c \<and>
            FILTER_CHANNELS (cp_type p) = cpm (cc_channel_id c)) \<and>
     cc_cpm_flag c = cpm (cc_channel_id c)"

definition cell_ok ::
  "(channel_id \<Rightarrow> channel_id set \<Rightarrow> bool) \<Rightarrow> (channel_id \<Rightarrow> bool) \<Rightarrow> channel_id \<Rightarrow> expr_channel channel_match \<Rightarrow> bool" where
  "cell_ok sem cpm s node \<longleftrightarrow>
     channels_by_simple node = [] \<and>
     (\<forall>c\<in>set (check_channels node). check_wf cpm c \<and>
        (\<forall>S. s \<in> S \<longrightarrow> ch_eval S (cc_channel c) = sem (cc_channel_id c) S)) \<and>
     (\<forall>k\<in>set (matched_channels node). \<forall>S. s \<in> S \<longrightarrow> sem k S) \<and>
     set (cpm_matched_channels node) = {k \<in> set (matched_channels node). cpm k}"

definition cells_ok ::
  "(channel_id \<Rightarrow> channel_id set \<Rightarrow> bool) \<Rightarrow> (channel_id \<Rightarrow> bool) \<Rightarrow> expr_channel match_map \<Rightarrow> bool" where
  "cells_ok sem cpm cells \<longleftrightarrow>
     distinct (map fst cells) \<and> (\<forall>s node. map_of cells s = Some node \<longrightarrow> cell_ok sem cpm s node)"

text \<open>The channel \<open>k\<close> is found in the cell of \<open>s\<close>: as matched, or as a check.\<close>

definition matched_at :: "'c match_map \<Rightarrow> channel_id \<Rightarrow> channel_id \<Rightarrow> bool" where
  "matched_at cells s k \<longleftrightarrow> (\<exists>node. map_of cells s = Some node \<and> k \<in> set (matched_channels node))"

definition found_at :: "'c match_map \<Rightarrow> channel_id \<Rightarrow> channel_id \<Rightarrow> bool" where
  "found_at cells s k \<longleftrightarrow> matched_at cells s k \<or>
     (\<exists>node. map_of cells s = Some node \<and> k \<in> cc_channel_id ` set (check_channels node))"

lemma empty_cell_ok: "cell_ok sem cpm s empty_match"
  by (simp add: cell_ok_def empty_match_def)

lemma cells_ok_cell:
  "cells_ok sem cpm cells \<Longrightarrow> cell_ok sem cpm s (case map_of cells s of None \<Rightarrow> empty_match | Some c \<Rightarrow> c)"
  by (auto simp: cells_ok_def empty_cell_ok split: option.splits)

lemma cells_ok_change:
  assumes "cells_ok sem cpm cells" "\<And>node. cell_ok sem cpm s node \<Longrightarrow> cell_ok sem cpm s (f node)"
  shows "cells_ok sem cpm (change_cell s f cells)"
  using assms cells_ok_cell [OF assms(1), of s]
  by (auto simp: cells_ok_def map_of_change_cell distinct_change_cell split: if_splits)

subsection \<open>Linking\<close>

text \<open>An expression channel, possibly behind a holder, in normal form.\<close>

definition expr_form :: "bool \<Rightarrow> expr_channel \<Rightarrow> channel_params \<Rightarrow> expression \<Rightarrow> bool" where
  "expr_form tr c p e \<longleftrightarrow>
     (c = ExpressionChannel p e \<or> c = ExpressionChannelHolder (Some (ExpressionChannel p e))) \<and>
     normal_expr tr binary e"

lemma expr_form_simps:
  assumes "expr_form tr c p e"
  shows "simple_channel c = None" "expression_channel c = Some (p, e)" "channel_params_of c = p" "has_params c"
    "ch_eval S c = ex_eval S e" "normal_channel tr binary (ExpressionChannel p e)"
    "ch_eval S (ExpressionChannel p e) = ch_eval S c"
  using assms by (auto simp: expr_form_def)

lemma expr_form_resolve:
  assumes "expr_form tr c p e"
  shows "reduce_channel I c = reduce_channel I (ExpressionChannel p e)"
    "collect_simple_channels c = collect_simple_channels (ExpressionChannel p e)"
    "collect_required_channels c = collect_required_channels (ExpressionChannel p e)"
    "find_required I c = find_required I (ExpressionChannel p e)"
    "create_reduced_channel k c = create_reduced_channel k (ExpressionChannel p e)"
    "channel_leaves c = channel_leaves (ExpressionChannel p e)"
  using assms by (auto simp: expr_form_def reduce_channel.simps collect_simple_channels.simps
      collect_required_channels.simps find_required.simps create_reduced_channel.simps)

lemma link_check:
  assumes "expr_form tr c p e" "create_reduced_channel s c = Some r" "FILTER_CHANNELS (cp_type p) = cpm (cp_channel_id p)"
  shows "check_wf cpm (new_check_channel r) \<and> cc_channel_id (new_check_channel r) = cp_channel_id p \<and>
    (s \<in> S \<longrightarrow> ch_eval S r = ch_eval S c) \<and> cc_channel (new_check_channel r) = r"
proof -
  note form = expr_form_simps [OF assms(1)]
  have red: "create_reduced_channel s (ExpressionChannel p e) = Some r"
    using assms(2) expr_form_resolve(5) [OF assms(1)] by simp
  obtain e' where r: "r = ExpressionChannel p e'"
    using create_reduced_params [OF red] by auto
  have "normal_channel True binary r \<and> (s \<in> S \<longrightarrow> ch_eval S r = ch_eval S c)" for S
    using create_reduced_holds(1) [of s "insert s S" tr "ExpressionChannel p e"]
      create_reduced_holds(1) [of s S tr "ExpressionChannel p e"] form(5,6) red r by auto
  then show ?thesis
    using r assms(3) by (auto simp: check_wf_def new_check_channel_def cpm_channel_def)
qed

lemma link_matched:
  assumes "expr_form tr c p e" "create_reduced_channel s c = None" "s \<in> S"
  shows "ch_eval S c"
  using create_reduced_holds(1) [OF assms(3), of tr "ExpressionChannel p e"] expr_form_simps [OF assms(1)]
    expr_form_resolve(5) [OF assms(1)] assms(2) by simp

lemma link_channel_ok:
  assumes "cells_ok sem cpm cells" "expr_form tr c p e"
    "\<And>S. s \<in> S \<Longrightarrow> sem (cp_channel_id p) S = ch_eval S c"
    "FILTER_CHANNELS (cp_type p) = cpm (cp_channel_id p)"
  shows "cells_ok sem cpm (link_channel s c cells)"
proof (cases "create_reduced_channel s c")
  case None
  then show ?thesis
    using assms link_matched [OF assms(2) None] expr_form_simps(3,4) [OF assms(2)]
    unfolding link_channel_def by (intro cells_ok_change) (auto simp: cell_ok_def cpm_channel_def)
next
  case (Some r)
  then show ?thesis
    using assms link_check [OF assms(2) Some, of cpm] unfolding link_channel_def
    by (intro cells_ok_change) (auto simp: cell_ok_def)
qed

lemma link_channel_found:
  assumes "expr_form tr c p e" "FILTER_CHANNELS (cp_type p) = cpm (cp_channel_id p)"
  shows "found_at (link_channel s c cells) s (cp_channel_id p)"
    and "matched_at cells s' k \<Longrightarrow> matched_at (link_channel s c cells) s' k"
    and "found_at cells s' k \<Longrightarrow> found_at (link_channel s c cells) s' k"
  using expr_form_simps(3) [OF assms(1)] link_check [where cpm = cpm and s = s, OF assms(1) _ assms(2)]
  by (auto simp: found_at_def matched_at_def link_channel_def map_of_change_cell split: option.splits)

subsection \<open>Unlinking\<close>

lemma set_remove_check: "set (remove_check k cs) \<subseteq> set cs"
  by (induction cs) auto

lemma remove_check_other:
  "k' \<noteq> k \<Longrightarrow> k' \<in> cc_channel_id ` set cs \<Longrightarrow> k' \<in> cc_channel_id ` set (remove_check k cs)"
  by (induction cs) auto

lemma unlink_channel_ok: "cells_ok sem cpm cells \<Longrightarrow> cells_ok sem cpm (unlink_channel k s cells)"
  unfolding unlink_channel_def using set_remove_check
  by (intro cells_ok_change) (fastforce simp: cell_ok_def)+

lemma unlink_channel_found:
  "matched_at cells s' k' \<Longrightarrow> matched_at (unlink_channel k s cells) s' k'"
  "found_at cells s' k' \<Longrightarrow> k' \<noteq> k \<or> s' \<noteq> s \<Longrightarrow> found_at (unlink_channel k s cells) s' k'"
  by (auto simp: matched_at_def found_at_def unlink_channel_def map_of_change_cell remove_check_other split: option.splits)

lemma foldl_unlink_ok:
  "cells_ok sem cpm cells \<Longrightarrow> cells_ok sem cpm (foldl (\<lambda>cs i. unlink_channel k i cs) cells ss)"
  by (induction ss arbitrary: cells) (auto simp: unlink_channel_ok)

lemma foldl_unlink:
  "matched_at cells s' k' \<Longrightarrow> matched_at (foldl (\<lambda>cs i. unlink_channel k i cs) cells ss) s' k'"
  "found_at cells s' k' \<Longrightarrow> k' \<noteq> k \<or> s' \<notin> set ss \<Longrightarrow> found_at (foldl (\<lambda>cs i. unlink_channel k i cs) cells ss) s' k'"
  by (induction ss arbitrary: cells) (auto simp: unlink_channel_found)

lemma remove_excess_ok: "cells_ok sem cpm cells \<Longrightarrow> cells_ok sem cpm (remove_excess k c s I cells)"
  by (auto simp: remove_excess_def foldl_unlink_ok split: option.splits)

lemma remove_excess_matched: "matched_at cells s' k' \<Longrightarrow> matched_at (remove_excess k c s I cells) s' k'"
  by (auto simp: remove_excess_def foldl_unlink split: option.splits)

lemma remove_excess_other:
  "k' \<noteq> k \<Longrightarrow> found_at cells s' k' \<Longrightarrow> found_at (remove_excess k c s I cells) s' k'"
  by (auto simp: remove_excess_def foldl_unlink split: option.splits)

text \<open>After the excess cells are dropped, a triggered channel is still found through a required one.\<close>

lemma remove_excess_found:
  assumes "expr_form False c p e" "ch_eval S c" "finite I" "S \<inter> I \<noteq> {}" "\<forall>s\<in>I. found_at cells s k"
  shows "\<exists>x\<in>S. found_at (remove_excess k c s I cells) x k"
proof (cases "find_required I c")
  case None
  then show ?thesis using assms(4,5) by (auto simp: remove_excess_def)
next
  case (Some R)
  have "R \<subseteq> I \<and> (ch_eval S (ExpressionChannel p e) \<longrightarrow> S \<inter> R \<noteq> {})"
    using find_required_triggered(1) [of "ExpressionChannel p e" I R S] Some assms(1) expr_form_simps(6) [OF assms(1)]
      expr_form_resolve(4) [OF assms(1)] by simp
  then obtain x where "x \<in> S" "x \<in> R" "x \<in> I"
    using assms(2) expr_form_simps(7) [OF assms(1)] by blast
  then show ?thesis
    using Some assms(3,5) by (auto simp: remove_excess_def intro!: bexI [of _ x] foldl_unlink(2))
qed

end
