(* ===== verification/ExprIndexLoops.thy ===== *)
theory ExprIndexLoops
  imports ExprIndexCells
begin

text \<open>
  The loops of the index construction: the loop of \<open>top_level_index_\<close>, the loop of \<open>sub_index_\<close> and the
  recursion of \<open>sub_index_\<close> into the cells it creates.
\<close>

section \<open>Loops with a fallible body\<close>

text \<open>
  A loop whose body may fail an assertion. When an invariant excludes the failure and a measure
  decreases, the loop ends in a state with the invariant.
\<close>

locale option_loop =
  fixes loop :: "'s \<Rightarrow> 's option" and finished :: "'s \<Rightarrow> bool" and body :: "'s \<Rightarrow> 's option"
  assumes unfold: "loop st = (if finished st then Some st else case body st of None \<Rightarrow> None | Some st' \<Rightarrow> loop st')"
begin

lemma loop_total:
  assumes "\<And>st. Inv st \<Longrightarrow> \<not> finished st \<Longrightarrow> \<exists>st'. body st = Some st' \<and> Inv st' \<and> measure_of st' < (measure_of st :: nat)"
    and "Inv st"
  shows "\<exists>st'. loop st = Some st' \<and> Inv st' \<and> finished st'"
  using assms(2)
proof (induction "measure_of st" arbitrary: st rule: less_induct)
  case less
  show ?case
  proof (cases "finished st")
    case True
    then show ?thesis using less.prems unfold [of st] by auto
  next
    case False
    then obtain st' where st': "body st = Some st'" "Inv st'" "measure_of st' < measure_of st"
      using assms(1) less.prems by blast
    then obtain st'' where "loop st' = Some st'' \<and> Inv st'' \<and> finished st''"
      using less.hyps by blast
    then show ?thesis using False st'(1) unfold [of st] by auto
  qed
qed

end

interpretation top_loop: option_loop top_level_loop "\<lambda>st. ix_priority (snd st) = []" top_level_step
  by unfold_locales (simp add: top_level_loop.simps)

interpretation sub_loop: option_loop sub_index_loop
  "\<lambda>st. ix_priority (snd (snd st)) = [] \<or> fst (fst (last (ix_priority (snd (snd st))))) < SUBINDEXING_THRESHOLD"
  sub_index_step
  by unfold_locales (simp add: sub_index_loop.simps)

section \<open>The loop of the top level\<close>

text \<open>The channels to be indexed: normal forms under their ids, with the semantics \<open>sem\<close>.\<close>

definition catalog_ok ::
  "bool \<Rightarrow> (channel_id, expr_channel) std_map \<Rightarrow> (channel_id \<Rightarrow> channel_id set \<Rightarrow> bool) \<Rightarrow> (channel_id \<Rightarrow> bool) \<Rightarrow> bool" where
  "catalog_ok tr kcs sem cpm \<longleftrightarrow> map_ok kcs \<and>
     (\<forall>k c. map_of kcs k = Some c \<longrightarrow>
        (\<exists>p e. expr_form tr c p e \<and> cp_channel_id p = k \<and> FILTER_CHANNELS (cp_type p) = cpm k) \<and>
        (\<forall>S. sem k S = ch_eval S c))"

lemma catalog_entry:
  assumes "catalog_ok tr kcs sem cpm" "map_of kcs k = Some c"
  obtains p e where "expr_form tr c p e" "cp_channel_id p = k" "FILTER_CHANNELS (cp_type p) = cpm k"
    "\<And>S. sem k S = ch_eval S c"
  using assms unfolding catalog_ok_def by blast

definition top_object_ok ::
  "(channel_id, expr_channel) std_map \<Rightarrow> (channel_id \<Rightarrow> channel_id set \<Rightarrow> bool) \<Rightarrow> expr_channel match_map \<Rightarrow>
   channel_id \<Rightarrow> expression_indexing \<Rightarrow> bool" where
  "top_object_ok kcs sem cells k obj \<longleftrightarrow>
     map_of kcs k = Some (ei_channel obj) \<and> finite (indexed_simple_channels obj) \<and>
     (\<forall>J. indexed_simple_channels obj \<subseteq> J \<longrightarrow> snd (reduce_channel J (ei_channel obj)) \<subseteq> used_simple_channels obj) \<and>
     (used_simple_channels obj \<noteq> {} \<longrightarrow> (\<forall>s\<in>indexed_simple_channels obj. found_at cells s k)) \<and>
     (\<forall>S. sem k S \<longrightarrow> S \<inter> used_simple_channels obj \<noteq> {} \<or> (\<exists>s\<in>S. found_at cells s k))"

definition top_inv ::
  "(channel_id, expr_channel) std_map \<Rightarrow> (channel_id \<Rightarrow> channel_id set \<Rightarrow> bool) \<Rightarrow> (channel_id \<Rightarrow> bool) \<Rightarrow>
   (channel_id \<times> channel_id) set \<Rightarrow> channel_id set \<Rightarrow> expr_channel match_map \<times> indexing \<Rightarrow> bool" where
  "top_inv kcs sem cpm base D st \<longleftrightarrow>
     tables_for (snd st) \<and> cells_ok sem cpm (fst st) \<and>
     (\<forall>(s, k)\<in>base. matched_at (fst st) s k) \<and> dom (map_of (ix_objects (snd st))) = D \<and>
     (\<forall>k obj. map_of (ix_objects (snd st)) k = Some obj \<longrightarrow> top_object_ok kcs sem (fst st) k obj)"

text \<open>An object that another round leaves alone keeps its invariant when nothing about its channel is lost.\<close>

lemma top_object_ok_mono:
  assumes "top_object_ok kcs sem cells k obj" "\<And>s. found_at cells s k \<Longrightarrow> found_at cells' s k"
  shows "top_object_ok kcs sem cells' k obj"
  using assms unfolding top_object_ok_def by blast

lemma top_level_object_step:
  assumes cat: "catalog_ok False kcs sem cpm" and old: "top_object_ok kcs sem cells k obj"
    and s: "s \<in> used_simple_channels obj"
    and cells1: "cells1 = link_channel s (ei_channel obj) cells"
    and I: "I = insert s (indexed_simple_channels obj)" and U: "U = snd (reduce_channel I (ei_channel obj))"
    and cells2: "cells2 = (if U = {} then remove_excess k (ei_channel obj) s I cells1 else cells1)"
  shows "top_object_ok kcs sem cells2 k \<lparr>used_simple_channels = U, indexed_simple_channels = I, ei_channel = ei_channel obj\<rparr>"
    and "U \<subseteq> used_simple_channels obj - {s}"
proof -
  let ?c = "ei_channel obj"
  from old have c: "map_of kcs k = Some ?c" and fin: "finite I" and mono: "\<And>J. indexed_simple_channels obj \<subseteq> J \<Longrightarrow> snd (reduce_channel J ?c) \<subseteq> used_simple_channels obj"
    using I by (auto simp: top_object_ok_def)
  obtain p e where f: "expr_form False ?c p e" "cp_channel_id p = k" "FILTER_CHANNELS (cp_type p) = cpm k"
    and sem: "\<And>S. sem k S = ch_eval S ?c"
    by (rule catalog_entry [OF cat c]) blast
  note found = link_channel_found [OF f(1), of cpm]
  show sub: "U \<subseteq> used_simple_channels obj - {s}"
    using mono [of I] reduce_disjoint(1) [of I ?c] I U by auto
  have all1: "\<forall>x\<in>I. found_at cells1 x k"
    using old s found(1) [of s cells] found(3) [of cells _ k s] f(2,3) I cells1 by (auto simp: top_object_ok_def)
  have cov: "S \<inter> I \<noteq> {} \<or> S \<inter> U \<noteq> {}" if "sem k S" for S
    using reduce_triggered(1) [of "ExpressionChannel p e" S I] expr_form_simps [OF f(1)] expr_form_resolve(1) [OF f(1)] sem that U
    by auto
  have red: "\<forall>J. I \<subseteq> J \<longrightarrow> snd (reduce_channel J ?c) \<subseteq> U"
    using reduce_mono(1) [of I _ ?c] U by blast
  show "top_object_ok kcs sem cells2 k \<lparr>used_simple_channels = U, indexed_simple_channels = I, ei_channel = ?c\<rparr>"
  proof (cases "U = {}")
    case True
    have "\<exists>x\<in>S. found_at cells2 x k" if "sem k S" for S
      using remove_excess_found [OF f(1) _ fin _ all1, of S s] cov [OF that] that sem True cells2 by auto
    then show ?thesis using c fin red True by (simp add: top_object_ok_def)
  next
    case False
    have "S \<inter> U \<noteq> {} \<or> (\<exists>x\<in>S. found_at cells1 x k)" if "sem k S" for S
      using cov [OF that] all1 by blast
    with False show ?thesis using c fin red all1 cells2 by (simp add: top_object_ok_def)
  qed
qed

lemma top_level_step_ok:
  assumes cat: "catalog_ok False kcs sem cpm" and inv: "top_inv kcs sem cpm base D st" and ne: "ix_priority (snd st) \<noteq> []"
  shows "\<exists>st'. top_level_step st = Some st' \<and> top_inv kcs sem cpm base D st' \<and> used_total (snd st') < used_total (snd st)"
proof -
  obtain cells ix where st: "st = (cells, ix)" by (rule prod.exhaust)
  obtain n s us rest where pm: "ix_priority ix = ((n, s), us) # rest"
    using ne st by (cases "ix_priority ix") auto
  from inv st have T: "tables_for ix" and ok: "cells_ok sem cpm cells" and base: "\<forall>(s, k)\<in>base. matched_at cells s k"
    and D: "dom (map_of (ix_objects ix)) = D"
    and objs: "\<And>k obj. map_of (ix_objects ix) k = Some obj \<Longrightarrow> top_object_ok kcs sem cells k obj"
    by (auto simp: top_inv_def)
  have us: "us \<noteq> {}" "finite us" using priority_nonempty [OF T, of n s us] pm by auto
  then have "Min us \<in> us" by (rule Min_in [rotated])
  define k where "k = snd (Min us)"
  obtain obj where obj: "map_of (ix_objects ix) k = Some obj" "s \<in> used_simple_channels obj"
    using priority_nonempty [OF T, of n s us] pm \<open>Min us \<in> us\<close> k_def by (metis list.set_intros(1) prod.collapse)
  let ?c = "ei_channel obj"
  define cells1 where "cells1 = link_channel s ?c cells"
  define I where "I = insert s (indexed_simple_channels obj)"
  define U where "U = snd (reduce_channel I ?c)"
  define cells2 where "cells2 = (if U = {} then remove_excess k ?c s I cells1 else cells1)"
  define obj' where "obj' = \<lparr>used_simple_channels = U, indexed_simple_channels = I, ei_channel = ?c\<rparr>"
  have okm: "objects_ok ix" using T by (simp add: tables_for_def)
  note step = top_level_object_step [OF cat objs [OF obj(1)] obj(2) cells1_def I_def U_def cells2_def]
  have sub: "U \<subseteq> used_simple_channels obj" "U \<subset> used_simple_channels obj" using step(2) obj(2) by auto
  obtain ix' where ix': "update_channel_priority_map k (used_simple_channels obj - U) U ix = Some ix'"
    "ix_objects ix' = ix_objects ix" "tables_for (ix'\<lparr>ix_objects := map_put k obj' (ix_objects ix')\<rparr>)"
    using update_tables [OF T obj(1) sub(1), of obj'] by (auto simp: obj'_def)
  let ?ix = "ix'\<lparr>ix_objects := map_put k obj' (ix_objects ix')\<rparr>"
  have "object_channel_id ix k = k" "object_at ix k = obj"
    using object_channel_id_eq [OF okm obj(1)] object_at_eq [OF obj(1)] by auto
  then have stp: "top_level_step st = Some (cells2, ?ix)"
    using ix'(1) us st pm
    by (simp add: top_level_step_def Let_def k_def [symmetric] cells1_def [symmetric] I_def [symmetric] U_def [symmetric]
        cells2_def obj'_def [symmetric])
  have "map_of kcs k = Some ?c" using objs [OF obj(1)] by (simp add: top_object_ok_def)
  then obtain p e where f: "expr_form False ?c p e" "cp_channel_id p = k"
    "FILTER_CHANNELS (cp_type p) = cpm k" and sem: "\<And>S. sem k S = ch_eval S ?c"
    by (rule catalog_entry [OF cat]) blast
  note found = link_channel_found [OF f(1), of cpm]
  have ok2: "cells_ok sem cpm cells2"
    using link_channel_ok [OF ok f(1), of s] f(2,3) sem remove_excess_ok by (auto simp: cells2_def cells1_def)
  have base2: "\<forall>(s, k)\<in>base. matched_at cells2 s k"
    using base found(2) f(2,3) remove_excess_matched by (fastforce simp: cells2_def cells1_def)
  have other: "found_at cells2 x j" if "found_at cells x j" "j \<noteq> k" for x j
    using found(3) [of cells x j s] f(2,3) that remove_excess_other by (auto simp: cells2_def cells1_def)
  have mp: "map_of (ix_objects ?ix) = (map_of (ix_objects ix))(k \<mapsto> obj')"
    using okm ix'(2) by (simp add: objects_ok_def map_of_map_put)
  have "top_object_ok kcs sem cells2 j o'" if "map_of (ix_objects ?ix) j = Some o'" for j o'
    using that mp step(1) objs top_object_ok_mono [of kcs sem cells j o' cells2] other
    by (auto simp: obj'_def split: if_splits)
  moreover have "dom (map_of (ix_objects ?ix)) = D" using mp D obj(1) by auto
  ultimately have "top_inv kcs sem cpm base D (cells2, ?ix)"
    using ix'(3) ok2 base2 by (simp add: top_inv_def)
  moreover have "used_total ?ix < used_total ix"
  proof -
    have "finite (used_simple_channels obj)" using okm obj(1) by (auto simp: objects_ok_def)
    then have "card (used_simple_channels obj') < card (used_simple_channels obj)"
      using sub(2) by (simp add: obj'_def psubset_card_mono)
    then show ?thesis
      using used_total_put [of "ix_objects ix" k obj "\<lambda>x. card (used_simple_channels x)" obj'] obj(1) okm ix'(2)
      by (simp add: used_total_def objects_ok_def)
  qed
  ultimately show ?thesis using stp st by auto
qed

lemma top_level_loop_total:
  assumes "catalog_ok False kcs sem cpm" "top_inv kcs sem cpm base D st"
  shows "\<exists>cells ix. top_level_loop st = Some (cells, ix) \<and> top_inv kcs sem cpm base D (cells, ix) \<and>
    (\<forall>k\<in>D. \<forall>S. sem k S \<longrightarrow> (\<exists>s\<in>S. found_at cells s k))"
proof -
  obtain cells ix where st': "top_level_loop st = Some (cells, ix)" "top_inv kcs sem cpm base D (cells, ix)" "ix_priority ix = []"
    using top_loop.loop_total [of "top_inv kcs sem cpm base D" "\<lambda>st. used_total (snd st)" st] top_level_step_ok [OF assms(1)] assms(2)
    by auto
  have "\<exists>s\<in>S. found_at cells s k" if k: "k \<in> D" "sem k S" for k S
  proof -
    obtain obj where obj: "map_of (ix_objects ix) k = Some obj" using k(1) st'(2) by (auto simp: top_inv_def)
    then have "used_simple_channels obj = {}" using st'(2,3) priority_empty by (auto simp: top_inv_def)
    then show ?thesis using st'(2) obj k(2) by (auto simp: top_inv_def top_object_ok_def)
  qed
  then show ?thesis using st' by blast
qed

section \<open>The loop of the lower levels\<close>

definition sub_object_ok :: "(channel_id, expr_channel) std_map \<Rightarrow> channel_id \<Rightarrow> expression_indexing \<Rightarrow> bool" where
  "sub_object_ok kcs k obj \<longleftrightarrow>
     map_of kcs k = Some (ei_channel obj) \<and>
     (used_simple_channels obj = {} \<or> used_simple_channels obj = collect_required_channels (ei_channel obj))"

text \<open>\<open>n\<close> bounds the number of simple channels in the channels of the cell.\<close>

definition sub_inv ::
  "(channel_id, expr_channel) std_map \<Rightarrow> (channel_id \<Rightarrow> channel_id set \<Rightarrow> bool) \<Rightarrow> (channel_id \<Rightarrow> bool) \<Rightarrow> nat \<Rightarrow>
   expr_channel match_map \<times> channel_id set \<times> indexing \<Rightarrow> bool" where
  "sub_inv kcs sem cpm n st \<longleftrightarrow>
     (case st of (cells, reindexed, ix) \<Rightarrow>
        tables_for ix \<and> cells_ok sem cpm cells \<and>
        (\<forall>k obj. map_of (ix_objects ix) k = Some obj \<longrightarrow> sub_object_ok kcs k obj) \<and>
        (\<forall>k\<in>reindexed. \<exists>c. map_of kcs k = Some c \<and> (\<exists>s\<in>collect_required_channels c. found_at cells s k)) \<and>
        (\<forall>s node c. map_of cells s = Some node \<longrightarrow> c \<in> set (check_channels node) \<longrightarrow> channel_leaves (cc_channel c) < n) \<and>
        (\<forall>s k. found_at cells s k \<longrightarrow> map_of kcs k \<noteq> None))"

lemma link_channel_contents:
  assumes "expr_form tr c p e" "map_of (link_channel s c cells) x = Some node"
  shows "(\<forall>k\<in>set (matched_channels node). matched_at cells x k \<or> k = cp_channel_id p) \<and>
    (\<forall>ck\<in>set (check_channels node). (\<exists>old. map_of cells x = Some old \<and> ck \<in> set (check_channels old)) \<or>
       (\<exists>r. x = s \<and> create_reduced_channel s c = Some r \<and> ck = new_check_channel r))"
  using assms expr_form_simps(3) [OF assms(1)]
  by (auto simp: link_channel_def map_of_change_cell matched_at_def empty_match_def split: if_splits option.splits)

lemma link_channel_leaves:
  assumes f: "expr_form True c p e" and req: "s \<in> collect_required_channels c" and n: "channel_leaves c \<le> n"
    and old: "\<And>x node ck. map_of cells x = Some node \<Longrightarrow> ck \<in> set (check_channels node) \<Longrightarrow> channel_leaves (cc_channel ck) < n"
    and new: "map_of (link_channel s c cells) x = Some node" "ck \<in> set (check_channels node)"
  shows "channel_leaves (cc_channel ck) < n"
proof -
  have "channel_leaves r < n" if "create_reduced_channel s c = Some r" for r
    using create_reduced_leaves(1) [of True "ExpressionChannel p e" s] expr_form_simps(6) [OF f] expr_form_resolve(3,5,6) [OF f] req n that
    by auto
  then show ?thesis
    using link_channel_contents [OF f new(1)] new(2) old by (auto simp: new_check_channel_def)
qed

lemma link_channel_found_only:
  assumes "expr_form True c p e" "found_at (link_channel s c cells) x k"
  shows "found_at cells x k \<or> k = cp_channel_id p"
proof -
  have "cc_channel_id (new_check_channel r) = cp_channel_id p" if "create_reduced_channel s c = Some r" for r
    using link_check [OF assms(1) that, of "\<lambda>_. FILTER_CHANNELS (cp_type p)"] by simp
  moreover obtain node where node: "map_of (link_channel s c cells) x = Some node"
    "k \<in> set (matched_channels node) \<or> k \<in> cc_channel_id ` set (check_channels node)"
    using assms(2) by (auto simp: found_at_def matched_at_def)
  ultimately show ?thesis
    using link_channel_contents [OF assms(1) node(1)] unfolding found_at_def by blast
qed

lemma sub_index_step_ok:
  assumes cat: "catalog_ok True kcs sem cpm" and n: "\<forall>k c. map_of kcs k = Some c \<longrightarrow> channel_leaves c \<le> n"
    and inv: "sub_inv kcs sem cpm n st" and ne: "ix_priority (snd (snd st)) \<noteq> []"
  shows "\<exists>st'. sub_index_step st = Some st' \<and> sub_inv kcs sem cpm n st' \<and> used_total (snd (snd st')) < used_total (snd (snd st))"
proof -
  obtain cells re ix where st: "st = (cells, re, ix)" by (cases st) auto
  obtain m s us where last: "last (ix_priority ix) = ((m, s), us)" by (cases "last (ix_priority ix)") auto
  have mem: "((m, s), us) \<in> set (ix_priority ix)" using ne st last by (metis last_in_set snd_conv)
  from inv st have T: "tables_for ix" and ok: "cells_ok sem cpm cells"
    and objs: "\<And>k obj. map_of (ix_objects ix) k = Some obj \<Longrightarrow> sub_object_ok kcs k obj"
    and re: "\<And>k. k \<in> re \<Longrightarrow> \<exists>c. map_of kcs k = Some c \<and> (\<exists>s\<in>collect_required_channels c. found_at cells s k)"
    and lv: "\<And>s node c. map_of cells s = Some node \<Longrightarrow> c \<in> set (check_channels node) \<Longrightarrow> channel_leaves (cc_channel c) < n"
    and known: "\<And>s k. found_at cells s k \<Longrightarrow> map_of kcs k \<noteq> None"
    by (auto simp: sub_inv_def)
  have us: "us \<noteq> {}" "finite us" using priority_nonempty [OF T mem] by auto
  then have "Min us \<in> us" by (rule Min_in [rotated])
  define k where "k = snd (Min us)"
  obtain obj where obj: "map_of (ix_objects ix) k = Some obj" "s \<in> used_simple_channels obj"
    using priority_nonempty [OF T mem] \<open>Min us \<in> us\<close> k_def by (metis prod.collapse)
  have okm: "objects_ok ix" using T by (simp add: tables_for_def)
  let ?c = "ei_channel obj"
  define obj' where "obj' = obj\<lparr>used_simple_channels := {}\<rparr>"
  obtain ix' where ix': "update_channel_priority_map k (used_simple_channels obj) {} ix = Some ix'"
    "ix_objects ix' = ix_objects ix" "tables_for (ix'\<lparr>ix_objects := map_put k obj' (ix_objects ix')\<rparr>)"
    using update_tables [OF T obj(1), of "{}" obj'] by (auto simp: obj'_def)
  let ?ix = "ix'\<lparr>ix_objects := map_put k obj' (ix_objects ix')\<rparr>" and ?cells = "link_channel s ?c cells"
  have "object_channel_id ix k = k" "object_at ix k = obj"
    using object_channel_id_eq [OF okm obj(1)] object_at_eq [OF obj(1)] by auto
  then have stp: "sub_index_step st = Some (?cells, insert k re, ?ix)"
    using ix'(1) us st last by (simp add: sub_index_step_def Let_def k_def [symmetric] obj'_def [symmetric])
  have kc: "map_of kcs k = Some ?c" and req: "s \<in> collect_required_channels ?c"
    using objs [OF obj(1)] obj(2) by (auto simp: sub_object_ok_def)
  obtain p e where f: "expr_form True ?c p e" "cp_channel_id p = k" "FILTER_CHANNELS (cp_type p) = cpm k"
    and sem: "\<And>S. sem k S = ch_eval S ?c"
    by (rule catalog_entry [OF cat kc]) blast
  note found = link_channel_found [OF f(1), of cpm, unfolded f(2), OF f(3)]
  have "cells_ok sem cpm ?cells" using link_channel_ok [OF ok f(1), of s] f(2,3) sem by simp
  moreover have mp: "map_of (ix_objects ?ix) = (map_of (ix_objects ix))(k \<mapsto> obj')"
    using okm ix'(2) by (simp add: objects_ok_def map_of_map_put)
  moreover have "sub_object_ok kcs j o'" if "map_of (ix_objects ?ix) j = Some o'" for j o'
    using that mp objs kc by (auto simp: sub_object_ok_def obj'_def split: if_splits)
  moreover have "\<exists>c. map_of kcs j = Some c \<and> (\<exists>s\<in>collect_required_channels c. found_at ?cells s j)" if "j \<in> insert k re" for j
    using that re found(1,3) kc req by blast
  moreover have "channel_leaves (cc_channel ck) < n" if "map_of ?cells x = Some node" "ck \<in> set (check_channels node)" for x node ck
    by (rule link_channel_leaves [OF f(1) req _ lv that]) (use n kc in auto)
  moreover have "map_of kcs j \<noteq> None" if "found_at ?cells x j" for x j
    using link_channel_found_only [OF f(1) that] known kc f(2) by auto
  ultimately have "sub_inv kcs sem cpm n (?cells, insert k re, ?ix)"
    using ix'(3) by (auto simp: sub_inv_def)
  moreover have "used_total ?ix < used_total ix"
  proof -
    have "card (used_simple_channels obj') < card (used_simple_channels obj)"
      using obj okm by (auto simp: obj'_def objects_ok_def card_gt_0_iff)
    then show ?thesis
      using used_total_put [of "ix_objects ix" k obj "\<lambda>x. card (used_simple_channels x)" obj'] obj(1) okm ix'(2)
      by (simp add: used_total_def objects_ok_def)
  qed
  ultimately show ?thesis using stp st by auto
qed

lemma sub_index_loop_total:
  assumes "catalog_ok True kcs sem cpm" "\<forall>k c. map_of kcs k = Some c \<longrightarrow> channel_leaves c \<le> n" "sub_inv kcs sem cpm n st"
  shows "\<exists>st'. sub_index_loop st = Some st' \<and> sub_inv kcs sem cpm n st'"
  using sub_loop.loop_total [of "sub_inv kcs sem cpm n" "\<lambda>st. used_total (snd (snd st))" st] sub_index_step_ok [OF assms(1,2)] assms(3)
  by blast

end
