(* ===== verification/ExprIndexLevels.thy ===== *)
theory ExprIndexLevels
  imports ExprIndexLoops
begin

text \<open>
  The finished index. \<open>sub_index_\<close> ends on every cell of the top level and the cells below it lead to
  the same channels.
\<close>

section \<open>Finished cells\<close>

function node_sound ::
  "(channel_id \<Rightarrow> channel_id set \<Rightarrow> bool) \<Rightarrow> (channel_id \<Rightarrow> bool) \<Rightarrow> channel_id set \<Rightarrow> expr_channel channel_match \<Rightarrow> bool" where
  "node_sound sem cpm S (ChannelMatch m cm chk below) \<longleftrightarrow>
     (\<forall>k\<in>set m. sem k S) \<and> set cm = {k \<in> set m. cpm k} \<and>
     (\<forall>c\<in>set chk. check_wf cpm c \<and> ch_eval S (cc_channel c) = sem (cc_channel_id c) S) \<and>
     list_all (\<lambda>x. fst x \<in> S \<longrightarrow> node_sound sem cpm S (snd x)) below"
  by pat_completeness auto
termination
  by (relation "measure (\<lambda>(_, _, _, node). size node)") (simp_all add: below_size del: channel_match.size)

function node_covers :: "channel_id set \<Rightarrow> channel_id \<Rightarrow> expr_channel channel_match \<Rightarrow> bool" where
  "node_covers S k (ChannelMatch m cm chk below) \<longleftrightarrow>
     k \<in> set m \<or> k \<in> cc_channel_id ` set chk \<or> list_ex (\<lambda>x. fst x \<in> S \<and> node_covers S k (snd x)) below"
  by pat_completeness auto
termination
  by (relation "measure (\<lambda>(_, _, node). size node)") (simp_all add: below_size del: channel_match.size)

lemma each_cell_total:
  "(\<And>x. x \<in> set m \<Longrightarrow> f (snd x) \<noteq> None) \<Longrightarrow> each_cell f m = Some (map (\<lambda>x. (fst x, the (f (snd x)))) m)"
proof (induction m)
  case (Cons x m)
  obtain c' where "f (snd x) = Some c'" using Cons.prems [of x] by auto
  moreover have "each_cell f m = Some (map (\<lambda>x. (fst x, the (f (snd x)))) m)"
    using Cons by simp
  ultimately show ?case by (cases x) simp
qed simp

text \<open>The channels of the checks of a cell, as \<open>sub_index_\<close> collects them.\<close>

definition check_map :: "expr_channel check_channel list \<Rightarrow> (channel_id, expr_channel) std_map" where
  "check_map chk = foldl (\<lambda>m c. map_put (cc_channel_id c) (cc_channel c) m) [] chk"

lemma check_map_foldl:
  assumes "map_ok m"
  shows "map_ok (foldl (\<lambda>m c. map_put (cc_channel_id c) (cc_channel c) m) m chk) \<and>
    (\<forall>k c. map_of (foldl (\<lambda>m c. map_put (cc_channel_id c) (cc_channel c) m) m chk) k = Some c \<longrightarrow>
       map_of m k = Some c \<or> (\<exists>x\<in>set chk. cc_channel_id x = k \<and> cc_channel x = c)) \<and>
    (\<forall>k. map_of (foldl (\<lambda>m c. map_put (cc_channel_id c) (cc_channel c) m) m chk) k = None \<longleftrightarrow>
       map_of m k = None \<and> k \<notin> cc_channel_id ` set chk)"
  using assms
proof (induction chk arbitrary: m)
  case (Cons x chk)
  have "map_of (map_put (cc_channel_id x) (cc_channel x) m) = (map_of m)(cc_channel_id x \<mapsto> cc_channel x)"
    using Cons.prems by (simp add: map_of_map_put)
  with Cons.IH [of "map_put (cc_channel_id x) (cc_channel x) m"] Cons.prems show ?case
    by (auto split: if_splits)
qed simp

lemma check_map_facts:
  shows "map_ok (check_map chk)"
    and "map_of (check_map chk) k = Some c \<Longrightarrow> \<exists>x\<in>set chk. cc_channel_id x = k \<and> cc_channel x = c"
    and "map_of (check_map chk) k = None \<longleftrightarrow> k \<notin> cc_channel_id ` set chk"
  using check_map_foldl [of "[]" chk] by (auto simp: check_map_def)

lemma check_map_some:
  assumes "k \<in> cc_channel_id ` set chk"
  obtains c where "map_of (check_map chk) k = Some c"
  using check_map_facts(3) [of chk k] assms by (cases "map_of (check_map chk) k") auto

lemmas check_map_mem = map_ok_map_of_iff [OF check_map_facts(1)]

lemma new_check_channel_wf: "check_wf cpm c \<Longrightarrow> new_check_channel (cc_channel c) = c"
  by (cases c) (auto simp: check_wf_def new_check_channel_def cpm_channel_def)

lemma check_catalog:
  assumes "\<forall>c\<in>set chk. check_wf cpm c"
  shows "catalog_ok True (check_map chk) (\<lambda>k S. case map_of (check_map chk) k of None \<Rightarrow> False | Some c \<Rightarrow> ch_eval S c) cpm"
  unfolding catalog_ok_def
proof (intro conjI allI impI)
  fix k c assume k: "map_of (check_map chk) k = Some c"
  then obtain x where x: "x \<in> set chk" "cc_channel_id x = k" "cc_channel x = c" using check_map_facts(2) by blast
  with assms have "check_wf cpm x" by blast
  then show "\<exists>p e. expr_form True c p e \<and> cp_channel_id p = k \<and> FILTER_CHANNELS (cp_type p) = cpm k"
    using x by (auto simp: check_wf_def expr_form_def)
qed (simp_all add: check_map_facts(1))

section \<open>One cell of the lower levels\<close>

text \<open>What \<open>sub_index_\<close> does to one cell before it descends.\<close>

lemma sub_index_node_total:
  assumes flat: "channels_by_simple node = []"
    and wf: "\<forall>c\<in>set (check_channels node). check_wf cpm c \<and> channel_leaves (cc_channel c) \<le> n"
  shows "\<exists>node'. sub_index_node node = Some node' \<and>
    matched_channels node' = matched_channels node \<and> cpm_matched_channels node' = cpm_matched_channels node \<and>
    set (check_channels node') \<subseteq> set (check_channels node) \<and>
    cells_ok (\<lambda>k S. case map_of (check_map (check_channels node)) k of None \<Rightarrow> False | Some c \<Rightarrow> ch_eval S c) cpm
      (channels_by_simple node') \<and>
    (\<forall>s child c. map_of (channels_by_simple node') s = Some child \<longrightarrow> c \<in> set (check_channels child) \<longrightarrow>
       channel_leaves (cc_channel c) < n) \<and>
    (\<forall>s k. found_at (channels_by_simple node') s k \<longrightarrow> k \<in> cc_channel_id ` set (check_channels node)) \<and>
    (\<forall>k\<in>cc_channel_id ` set (check_channels node). k \<in> cc_channel_id ` set (check_channels node') \<or>
       (\<exists>s\<in>collect_required_channels (the (map_of (check_map (check_channels node)) k)). found_at (channels_by_simple node') s k))"
proof -
  let ?chk = "check_channels node" and ?cm = "check_map (check_channels node)"
  let ?sem = "\<lambda>k S. case map_of ?cm k of None \<Rightarrow> False | Some c \<Rightarrow> ch_eval S c"
  have cat: "catalog_ok True ?cm ?sem cpm" using wf by (intro check_catalog) blast
  have ids: "\<forall>(k, c)\<in>set ?cm. cp_channel_id (channel_params_of c) = k \<and> finite (collect_required_channels c)"
  proof clarify
    fix k c assume "(k, c) \<in> set ?cm"
    then have "map_of ?cm k = Some c" by (simp only: check_map_mem)
    then obtain p e where f: "expr_form True c p e" "cp_channel_id p = k" by (rule catalog_entry [OF cat]) blast
    show "cp_channel_id (channel_params_of c) = k \<and> finite (collect_required_channels c)"
      using expr_form_simps(3) [OF f(1)] f(2) finite_required(1) [of c] by simp
  qed
  obtain ecs ix where b: "construct_simple_channel_indexing_map collect_required_channels ?cm = (ecs, ix)" by (rule prod.exhaust)
  note C = construct_tables [OF check_map_facts(1) ids b]
  have leaves: "\<forall>k c. map_of ?cm k = Some c \<longrightarrow> channel_leaves c \<le> n"
  proof (intro allI impI)
    fix k c assume k: "map_of ?cm k = Some c"
    from check_map_facts(2) [OF k] obtain x where "x \<in> set ?chk" "cc_channel x = c" by blast
    then show "channel_leaves c \<le> n" using wf by blast
  qed
  have inv: "sub_inv ?cm ?sem cpm n ([], {}, construct_channel_priority_map ix)"
    using C by (auto simp: sub_inv_def cells_ok_def sub_object_ok_def found_at_def matched_at_def split: option.splits if_splits)
  obtain cells re ix' where L: "sub_index_loop ([], {}, construct_channel_priority_map ix) = Some (cells, re, ix')"
    "sub_inv ?cm ?sem cpm n (cells, re, ix')"
    using sub_index_loop_total [OF cat leaves inv] by auto
  let ?moved = "re \<union> (\<lambda>c. cp_channel_id (channel_params_of c)) ` set ecs"
  let ?node = "ChannelMatch (matched_channels node) (cpm_matched_channels node)
     (map new_check_channel ecs @ filter (\<lambda>c. cc_channel_id c \<notin> ?moved) ?chk) cells"
  have node: "sub_index_node node = Some ?node"
    using b L(1) flat by (simp add: sub_index_node_def Let_def check_map_def)
  have ecs: "c \<in> set ecs \<longleftrightarrow> (\<exists>k. map_of ?cm k = Some c \<and> collect_required_channels c = {})" for c
    using C by (auto simp: image_iff check_map_mem)
  have ecs_new: "new_check_channel c \<in> set ?chk \<and> cc_channel_id (new_check_channel c) = k"
    if "map_of ?cm k = Some c" for k c
    using check_map_facts(2) [OF that] new_check_channel_wf wf by metis
  have sub: "set (check_channels ?node) \<subseteq> set ?chk"
    using ecs ecs_new by auto
  have "k \<in> cc_channel_id ` set (check_channels ?node) \<or>
      (\<exists>s\<in>collect_required_channels (the (map_of ?cm k)). found_at cells s k)" if k: "k \<in> cc_channel_id ` set ?chk" for k
  proof -
    obtain c where c: "map_of ?cm k = Some c" by (rule check_map_some [OF k])
    show ?thesis
    proof (cases "collect_required_channels c = {}")
      case True
      then have "new_check_channel c \<in> set (check_channels ?node)" using ecs c by auto
      then show ?thesis using ecs_new [OF c] by blast
    next
      case False
      have "k \<notin> (\<lambda>c. cp_channel_id (channel_params_of c)) ` set ecs"
      proof
        assume "k \<in> (\<lambda>c. cp_channel_id (channel_params_of c)) ` set ecs"
        then obtain c' k' where "k = cp_channel_id (channel_params_of c')" "map_of ?cm k' = Some c'" "collect_required_channels c' = {}"
          using ecs by auto
        moreover from this(2) have "cp_channel_id (channel_params_of c') = k'" using ids by (auto simp: check_map_mem)
        ultimately show False using c False by simp
      qed
      moreover have "\<exists>s\<in>collect_required_channels (the (map_of ?cm k)). found_at cells s k" if "k \<in> re"
        using L(2) that by (fastforce simp: sub_inv_def)
      ultimately show ?thesis using k by auto
    qed
  qed
  moreover have "k \<in> cc_channel_id ` set ?chk" if "found_at cells s k" for s k
    using L(2) that check_map_facts(3) by (auto simp: sub_inv_def)
  ultimately show ?thesis
    using node sub L(2) by (intro exI [of _ ?node]) (auto simp: sub_inv_def simp del: set_map)
qed

section \<open>The recursion of the lower levels\<close>

text \<open>A cell without cells below it, all of whose channels are in normal form and small.\<close>

definition flat_cell :: "(channel_id \<Rightarrow> bool) \<Rightarrow> nat \<Rightarrow> expr_channel channel_match \<Rightarrow> bool" where
  "flat_cell cpm n node \<longleftrightarrow> channels_by_simple node = [] \<and>
     (\<forall>c\<in>set (check_channels node). check_wf cpm c \<and> channel_leaves (cc_channel c) \<le> n)"

lemma node_sound_iff:
  "node_sound sem cpm S node \<longleftrightarrow>
     (\<forall>k\<in>set (matched_channels node). sem k S) \<and>
     set (cpm_matched_channels node) = {k \<in> set (matched_channels node). cpm k} \<and>
     (\<forall>c\<in>set (check_channels node). check_wf cpm c \<and> ch_eval S (cc_channel c) = sem (cc_channel_id c) S) \<and>
     (\<forall>x\<in>set (channels_by_simple node). fst x \<in> S \<longrightarrow> node_sound sem cpm S (snd x))"
  by (cases node) (simp add: list_all_iff)

lemma node_covers_iff:
  "node_covers S k node \<longleftrightarrow>
     k \<in> set (matched_channels node) \<or> k \<in> cc_channel_id ` set (check_channels node) \<or>
     (\<exists>x\<in>set (channels_by_simple node). fst x \<in> S \<and> node_covers S k (snd x))"
  by (cases node) (simp add: list_ex_iff)

text \<open>A cell of the lower level stands for the checks it was made of.\<close>

lemma cell_ok_sound:
  assumes cell: "cell_ok sem' cpm s child" and s: "s \<in> S"
    and eq: "\<And>k. k \<in> set (matched_channels child) \<union> cc_channel_id ` set (check_channels child) \<Longrightarrow> sem' k S = sem k S"
  shows "node_sound sem cpm S child"
proof -
  have "sem k S" if "k \<in> set (matched_channels child)" for k
    using cell s eq [of k] that by (auto simp: cell_ok_def)
  moreover have "ch_eval S (cc_channel c) = sem (cc_channel_id c) S" if "c \<in> set (check_channels child)" for c
    using cell s eq [of "cc_channel_id c"] that by (auto simp: cell_ok_def)
  ultimately show ?thesis
    using cell unfolding cell_ok_def by (subst node_sound_iff) auto
qed

lemma sub_index_without_checks:
  assumes "check_channels node = []" "channels_by_simple node = []"
  shows "sub_index node = Some node"
  using assms
  by (cases node)
    (simp add: sub_index.simps sub_index_loop.simps sub_index_node_def construct_simple_channel_indexing_map_def
      construct_channel_priority_map_def Let_def)

lemma sub_index_total:
  "flat_cell cpm n node \<Longrightarrow> \<exists>node'. sub_index node = Some node' \<and>
     (\<forall>S. node_sound sem cpm S node \<longrightarrow> node_sound sem cpm S node' \<and>
        (\<forall>k. sem k S \<longrightarrow> node_covers S k node \<longrightarrow> node_covers S k node'))"
proof (induction n arbitrary: node rule: less_induct)
  case (less n)
  let ?chk = "check_channels node" and ?cm = "check_map (check_channels node)"
  let ?sem = "\<lambda>k S. case map_of ?cm k of None \<Rightarrow> False | Some c \<Rightarrow> ch_eval S c"
  obtain node1 where node1: "sub_index_node node = Some node1"
    "matched_channels node1 = matched_channels node" "cpm_matched_channels node1 = cpm_matched_channels node"
    "set (check_channels node1) \<subseteq> set ?chk" "cells_ok ?sem cpm (channels_by_simple node1)"
    and leaves: "\<forall>s child c. map_of (channels_by_simple node1) s = Some child \<longrightarrow> c \<in> set (check_channels child) \<longrightarrow>
       channel_leaves (cc_channel c) < n"
    and known: "\<forall>s k. found_at (channels_by_simple node1) s k \<longrightarrow> k \<in> cc_channel_id ` set ?chk"
    and cover: "\<forall>k\<in>cc_channel_id ` set ?chk. k \<in> cc_channel_id ` set (check_channels node1) \<or>
       (\<exists>s\<in>collect_required_channels (the (map_of ?cm k)). found_at (channels_by_simple node1) s k)"
    using sub_index_node_total [of node cpm n] less.prems unfolding flat_cell_def by blast
  let ?below = "channels_by_simple node1"
  have map: "map_of ?below s = Some child \<longleftrightarrow> (s, child) \<in> set ?below" for s child
    using node1(5) by (simp add: cells_ok_def)
  have cell: "cell_ok ?sem cpm (fst x) (snd x)" if "x \<in> set ?below" for x
    using node1(5) map that by (metis cells_ok_def prod.collapse)
  have IH: "\<exists>child'. sub_index (snd x) = Some child' \<and>
     (\<forall>S. node_sound sem cpm S (snd x) \<longrightarrow> node_sound sem cpm S child' \<and>
        (\<forall>k. sem k S \<longrightarrow> node_covers S k (snd x) \<longrightarrow> node_covers S k child'))" if x: "x \<in> set ?below" for x
  proof (cases "check_channels (snd x) = []")
    case True
    then have "sub_index (snd x) = Some (snd x)"
      using cell [OF x] by (intro sub_index_without_checks) (simp_all add: cell_ok_def)
    then show ?thesis by blast
  next
    case False
    then have "\<exists>c. c \<in> set (check_channels (snd x))" by (meson list.set_sel(1))
    with leaves map x have n: "0 < n" by (metis gr_zeroI less_nat_zero_code prod.collapse)
    have "\<forall>c\<in>set (check_channels (snd x)). channel_leaves (cc_channel c) \<le> n - 1"
      using leaves map x n by (metis Suc_pred' less_Suc_eq_le prod.collapse)
    then have "flat_cell cpm (n - 1) (snd x)" using cell [OF x] by (simp add: cell_ok_def flat_cell_def)
    then show ?thesis using less.IH [of "n - 1" "snd x"] n by simp
  qed
  let ?child = "\<lambda>x. the (sub_index (snd x))"
  let ?node = "ChannelMatch (matched_channels node) (cpm_matched_channels node) (check_channels node1)
      (map (\<lambda>x. (fst x, ?child x)) ?below)"
  have "each_cell sub_index ?below = Some (map (\<lambda>x. (fst x, ?child x)) ?below)"
  proof (rule each_cell_total)
    fix x assume "x \<in> set ?below"
    then show "sub_index (snd x) \<noteq> None" using IH [of x] by auto
  qed
  then have res: "sub_index node = Some ?node"
    using node1(1-3) by (simp add: sub_index.simps [of node])
  have "node_sound sem cpm S ?node \<and> (\<forall>k. sem k S \<longrightarrow> node_covers S k node \<longrightarrow> node_covers S k ?node)"
    if sound: "node_sound sem cpm S node" for S
  proof -
    have eq: "?sem k S = sem k S" if k: "k \<in> cc_channel_id ` set ?chk" for k
    proof -
      obtain c where c: "map_of ?cm k = Some c" by (rule check_map_some [OF k])
      then obtain x where "x \<in> set ?chk" "cc_channel_id x = k" "cc_channel x = c" using check_map_facts(2) by blast
      then show ?thesis using sound c by (subst (asm) node_sound_iff) auto
    qed
    have found: "found_at ?below (fst x) k" if "x \<in> set ?below" "k \<in> set (matched_channels (snd x)) \<union> cc_channel_id ` set (check_channels (snd x))" for x k
      using that map [of "fst x" "snd x"] by (auto simp: found_at_def matched_at_def)
    have child: "node_sound sem cpm S (snd x)" if "x \<in> set ?below" "fst x \<in> S" for x
      using cell [OF that(1)] that(2) by (rule cell_ok_sound) (use eq known found that(1) in blast)
    have "node_sound sem cpm S ?node"
      using sound node1(4) child IH by (subst (asm) node_sound_iff) (fastforce simp: list_all_iff)
    moreover have "node_covers S k ?node" if sem: "sem k S" and cov: "node_covers S k node" for k
    proof (cases "k \<in> set (matched_channels node) \<or> k \<in> cc_channel_id ` set (check_channels node1)")
      case False
      then have k: "k \<in> cc_channel_id ` set ?chk"
        using cov less.prems by (subst (asm) node_covers_iff) (auto simp: flat_cell_def)
      then obtain s where s: "s \<in> collect_required_channels (the (map_of ?cm k))" "found_at ?below s k"
        using cover False by blast
      obtain c where c: "map_of ?cm k = Some c" by (rule check_map_some [OF k])
      have "ch_eval S c" using eq [OF k] sem c by simp
      moreover have "catalog_ok True ?cm ?sem cpm"
        using less.prems by (intro check_catalog) (auto simp: flat_cell_def)
      then obtain p e where f: "expr_form True c p e" by (rule catalog_entry [OF _ c]) blast
      ultimately have "s \<in> S"
        using required_triggered(1) [of True "ExpressionChannel p e" S] s(1) c expr_form_simps [OF f] expr_form_resolve(3) [OF f] by auto
      obtain child where ch: "(s, child) \<in> set ?below" "k \<in> set (matched_channels child) \<or> k \<in> cc_channel_id ` set (check_channels child)"
        using s(2) map by (auto simp: found_at_def matched_at_def)
      have "node_covers S k child" using ch(2) by (subst node_covers_iff) blast
      then have "node_covers S k (?child (s, child))"
        using IH [OF ch(1)] child [OF ch(1)] \<open>s \<in> S\<close> sem by auto
      then show ?thesis using ch(1) \<open>s \<in> S\<close> by (force simp: list_ex_iff)
    qed auto
    ultimately show ?thesis by blast
  qed
  then show ?case using res by blast
qed

end
