(* ===== verification/ExprIndexProps.thy ===== *)
theory ExprIndexProps
  imports ExprIndexLevels
begin

text \<open>
  The index as a whole: \<open>index\<close> returns for every table of channels, and \<open>match\<close> returns exactly the
  channels of the table that the simple channels of a request trigger.
\<close>

section \<open>Matching in a finished index\<close>

text \<open>What \<open>match_\<close> has collected so far.\<close>

definition match_ok ::
  "(channel_id \<Rightarrow> channel_id set \<Rightarrow> bool) \<Rightarrow> (channel_id \<Rightarrow> bool) \<Rightarrow> channel_id set \<Rightarrow> match_result \<Rightarrow> bool" where
  "match_ok sem cpm S st \<longleftrightarrow>
     (case st of (result, result_cpm, checks) \<Rightarrow>
        (\<forall>k\<in>result. sem k S) \<and> result_cpm = {k \<in> result. cpm k} \<and> map_ok checks \<and>
        (\<forall>k c. map_of checks k = Some c \<longrightarrow>
           (fast_triggered S (cc_channel c) \<noteq> 0) = sem k S \<and> cc_cpm_flag c = cpm k))"

definition match_known :: "match_result \<Rightarrow> channel_id set" where
  "match_known st = (case st of (result, result_cpm, checks) \<Rightarrow> result \<union> dom (map_of checks))"

text \<open>A loop whose rounds keep an invariant and collect what their elements cover.\<close>

lemma foldl_collect:
  assumes "\<And>x st. x \<in> set xs \<Longrightarrow> I st \<Longrightarrow>
      I (f st x) \<and> known st \<subseteq> known (f st x) \<and> (\<forall>k. covers x k \<longrightarrow> k \<in> known (f st x))"
    and "I st"
  shows "I (foldl f st xs) \<and> known st \<subseteq> known (foldl f st xs) \<and>
    (\<forall>x\<in>set xs. \<forall>k. covers x k \<longrightarrow> k \<in> known (foldl f st xs))"
  using assms
proof (induction xs arbitrary: st)
  case (Cons x xs)
  have 1: "I (f st x)" "known st \<subseteq> known (f st x)" "\<forall>k. covers x k \<longrightarrow> k \<in> known (f st x)"
    using Cons.prems(1) [of x st] Cons.prems(2) by auto
  have "I (foldl f (f st x) xs) \<and> known (f st x) \<subseteq> known (foldl f (f st x) xs) \<and>
      (\<forall>y\<in>set xs. \<forall>k. covers y k \<longrightarrow> k \<in> known (foldl f (f st x) xs))"
    using Cons.IH [of "f st x"] Cons.prems(1) 1(1) by simp
  with 1(2,3) show ?case by auto
qed simp

lemma map_insert_checks:
  assumes "map_ok checks"
    "\<forall>k c. map_of checks k = Some c \<longrightarrow> Q k c" "\<forall>c\<in>set chk. Q (cc_channel_id c) c"
  shows "map_ok (foldl (\<lambda>mp c. map_insert (cc_channel_id c) c mp) checks chk) \<and>
    (\<forall>k c. map_of (foldl (\<lambda>mp c. map_insert (cc_channel_id c) c mp) checks chk) k = Some c \<longrightarrow> Q k c) \<and>
    dom (map_of (foldl (\<lambda>mp c. map_insert (cc_channel_id c) c mp) checks chk)) =
      dom (map_of checks) \<union> cc_channel_id ` set chk"
  using assms
proof (induction chk arbitrary: checks)
  case (Cons x chk)
  have m: "map_of (map_insert (cc_channel_id x) x checks) =
      (if cc_channel_id x \<in> dom (map_of checks) then map_of checks else (map_of checks)(cc_channel_id x \<mapsto> x))"
    using Cons.prems(1) by (auto simp: map_of_map_insert split: option.splits)
  have "\<forall>k c. map_of (map_insert (cc_channel_id x) x checks) k = Some c \<longrightarrow> Q k c"
    unfolding m using Cons.prems(2,3) by (auto split: if_splits)
  moreover have "dom (map_of (map_insert (cc_channel_id x) x checks)) = insert (cc_channel_id x) (dom (map_of checks))"
    unfolding m by auto
  ultimately show ?case
    using Cons.IH [of "map_insert (cc_channel_id x) x checks"] Cons.prems by auto
qed simp

lemma fast_check:
  assumes "check_wf cpm c"
  shows "(fast_triggered S (FastExpressionChannel (cc_channel c)) \<noteq> 0) = ch_eval S (cc_channel c)"
proof -
  obtain p e where "cc_channel c = ExpressionChannel p e" "normal_expr True binary e"
    using assms by (auto simp: check_wf_def)
  then show ?thesis
    using fast_channel_holds [of True binary "cc_channel c" S] by (simp add: fast_triggered_def)
qed

lemma match_node_ok:
  assumes "node_sound sem cpm S node" "match_ok sem cpm S st"
  shows "match_ok sem cpm S (match_node S (make_fast_expression node) st) \<and>
    match_known st \<subseteq> match_known (match_node S (make_fast_expression node) st) \<and>
    (\<forall>k. node_covers S k node \<longrightarrow> k \<in> match_known (match_node S (make_fast_expression node) st))"
  using assms
proof (induction node arbitrary: st rule: make_fast_expression.induct)
  case (1 m cm chk below)
  obtain R C M where st: "st = (R, C, M)" by (cases st) auto
  let ?fast = "\<lambda>c. CheckChannel (cc_channel_id c) (cc_cpm_flag c) (FastExpressionChannel (cc_channel c))"
  define st1 where "st1 = (R \<union> set m, C \<union> set cm, foldl (\<lambda>mp c. map_insert (cc_channel_id c) c mp) M (map ?fast chk))"
  let ?Q = "\<lambda>k c. (fast_triggered S (cc_channel c) \<noteq> 0) = sem k S \<and> cc_cpm_flag c = cpm k"
  have "?Q (cc_channel_id c) (?fast c)" if "c \<in> set chk" for c
    using "1.prems"(1) that fast_check [of cpm c S] by (auto simp: check_wf_def)
  then have chk: "\<forall>c\<in>set (map ?fast chk). ?Q (cc_channel_id c) c" by auto
  have M: "map_ok M" "\<forall>k c. map_of M k = Some c \<longrightarrow> ?Q k c" using "1.prems"(2) st by (auto simp: match_ok_def)
  note I = map_insert_checks [OF M chk]
  have ok1: "match_ok sem cpm S st1"
    using I "1.prems" st by (auto simp: match_ok_def st1_def)
  have kn1: "match_known st1 = match_known st \<union> set m \<union> cc_channel_id ` set chk"
    using I st by (auto simp: match_known_def st1_def image_image)
  let ?step = "\<lambda>st kc. if fst kc \<in> S then match_node S (snd kc) st else st"
    and ?below = "map (\<lambda>kc. (fst kc, make_fast_expression (snd kc))) below"
  have below: "match_ok sem cpm S (foldl ?step st1 ?below) \<and> match_known st1 \<subseteq> match_known (foldl ?step st1 ?below) \<and>
      (\<forall>x\<in>set below. \<forall>k. fst x \<in> S \<and> node_covers S k (snd x) \<longrightarrow> k \<in> match_known (foldl ?step st1 ?below))"
    unfolding foldl_map
  proof (rule foldl_collect [where I = "match_ok sem cpm S", OF _ ok1])
    fix x st' assume "x \<in> set below" "match_ok sem cpm S st'"
    then show "match_ok sem cpm S (?step st' (fst x, make_fast_expression (snd x))) \<and>
        match_known st' \<subseteq> match_known (?step st' (fst x, make_fast_expression (snd x))) \<and>
        (\<forall>k. fst x \<in> S \<and> node_covers S k (snd x) \<longrightarrow> k \<in> match_known (?step st' (fst x, make_fast_expression (snd x))))"
      using "1.IH" [of x st'] "1.prems"(1) by (auto simp: list_all_iff)
  qed
  have eq: "match_node S (make_fast_expression (ChannelMatch m cm chk below)) st =
foldl ?step st1 ?below"
    using st by (simp add: st1_def)
  show ?case
    unfolding eq using below kn1 by (auto simp: list_ex_iff)
qed

abbreviation fast_cells :: "expr_channel match_map \<Rightarrow> fast_expression match_map" where
  "fast_cells cells \<equiv> map (\<lambda>kc. (fst kc, make_fast_expression (snd kc))) cells"

lemma map_of_fast_cells: "map_of (fast_cells cells) s = map_option make_fast_expression (map_of cells s)"
  by (induction cells) auto

abbreviation match_simple ::
  "expr_channel match_map \<Rightarrow> channel_id set \<Rightarrow> match_result \<Rightarrow> channel_id \<Rightarrow> match_result" where
  "match_simple cells S st k \<equiv>
     (case map_of (fast_cells cells) k of None \<Rightarrow> st | Some cell \<Rightarrow> match_node S cell st)"

lemma foldl_match:
  assumes sound: "\<And>s node. map_of cells s = Some node \<Longrightarrow> s \<in> S \<Longrightarrow> node_sound sem cpm S node"
    and "set ks \<subseteq> S" "match_ok sem cpm S st"
  shows "match_ok sem cpm S (foldl (match_simple cells S) st ks) \<and>
    match_known st \<subseteq> match_known (foldl (match_simple cells S) st ks) \<and>
    (\<forall>s\<in>set ks. \<forall>k. (\<exists>node. map_of cells s = Some node \<and> node_covers S k node) \<longrightarrow>
       k \<in> match_known (foldl (match_simple cells S) st ks))"
proof (rule foldl_collect [where I = "match_ok sem cpm S", OF _ assms(3)])
  fix s st' assume s: "s \<in> set ks" "match_ok sem cpm S st'"
  show "match_ok sem cpm S (match_simple cells S st' s) \<and> match_known st' \<subseteq> match_known (match_simple cells S st' s) \<and>
      (\<forall>k. (\<exists>node. map_of cells s = Some node \<and> node_covers S k node) \<longrightarrow> k \<in> match_known (match_simple cells S st' s))"
    using match_node_ok [OF sound s(2), of s] s assms(2) by (cases "map_of cells s") (auto simp: map_of_fast_cells)
qed

lemma foldl_checks:
  "foldl (\<lambda>(r, cpm) (k, c). if T c then (insert k r, if F c then insert k cpm else cpm) else (r, cpm)) (R, C) M =
     (R \<union> {k. \<exists>c. (k, c) \<in> set M \<and> T c}, C \<union> {k. \<exists>c. (k, c) \<in> set M \<and> T c \<and> F c})"
  by (induction M arbitrary: R C) (auto split: prod.splits if_splits)

text \<open>The request reports a channel of the index exactly when it is triggered.\<close>

lemma expression_match_sem:
  assumes sound: "\<And>s node. map_of cells s = Some node \<Longrightarrow> s \<in> set ks \<Longrightarrow> node_sound sem cpm (set ks) node"
    and complete: "\<And>k. sem k (set ks) \<Longrightarrow> \<exists>s\<in>set ks. \<exists>node. map_of cells s = Some node \<and> node_covers (set ks) k node"
  shows "expression_match (fast_cells cells) ks =
    ({k. sem k (set ks)}, {k. sem k (set ks) \<and> cpm k})"
proof -
  obtain R C M where st: "foldl (match_simple cells (set ks)) ({}, {}, []) ks = (R, C, M)"
    by (rule prod_cases3)
  have "match_ok sem cpm (set ks) ({}, {}, [])" by (simp add: match_ok_def)
  from foldl_match [of cells "set ks" sem cpm ks, OF sound order_refl this, unfolded st]
  have ok: "match_ok sem cpm (set ks) (R, C, M)" and
    kn: "\<forall>s\<in>set ks. \<forall>k. (\<exists>node. map_of cells s = Some node \<and> node_covers (set ks) k node) \<longrightarrow> k \<in> R \<union> dom (map_of M)"
    by (simp_all add: match_known_def)
  have M: "(k, c) \<in> set M \<longleftrightarrow> map_of M k = Some c" for k c using ok by (simp add: match_ok_def map_ok_map_of_iff)
  have all: "k \<in> R \<or> (\<exists>c. map_of M k = Some c)" if "sem k (set ks)" for k
    using complete [OF that] kn by blast
  have eq: "expression_match (fast_cells cells) ks =
     (R \<union> {k. \<exists>c. (k, c) \<in> set M \<and> fast_triggered (set ks) (cc_channel c) \<noteq> 0},
      C \<union> {k. \<exists>c. (k, c) \<in> set M \<and> fast_triggered (set ks) (cc_channel c) \<noteq> 0 \<and> cc_cpm_flag c})"
    unfolding expression_match_def st by (simp add: foldl_checks)
  from ok have ok: "\<And>k. k \<in> R \<Longrightarrow> sem k (set ks)" "C = {k \<in> R. cpm k}"
    "\<And>k c. map_of M k = Some c \<Longrightarrow>
       (fast_triggered (set ks) (cc_channel c) \<noteq> 0) = sem k (set ks) \<and> cc_cpm_flag c = cpm k"
    by (auto simp: match_ok_def)
  have "k \<in> R \<or> (\<exists>c. map_of M k = Some c \<and> fast_triggered (set ks) (cc_channel c) \<noteq> 0) \<longleftrightarrow> sem k (set ks)" for k
    using ok(1,3) all by metis
  moreover from this have "k \<in> C \<or> (\<exists>c. map_of M k = Some c \<and> fast_triggered (set ks) (cc_channel c) \<noteq> 0 \<and> cc_cpm_flag c) \<longleftrightarrow>
      sem k (set ks) \<and> cpm k" for k
    using ok(2,3) by (metis (no_types, lifting) mem_Collect_eq)
  ultimately show ?thesis unfolding eq M by blast
qed

section \<open>The table of channels\<close>

text \<open>
  The channels given to \<open>index\<close>: each under its own id, no id twice, every exclusion with at most one
  excluded part.
\<close>

definition indexable :: "(channel_id \<times> expr_channel option) list \<Rightarrow> bool" where
  "indexable channels \<longleftrightarrow> distinct (map fst channels) \<and>
     list_all (\<lambda>(k, ch). case ch of None \<Rightarrow> True
        | Some c \<Rightarrow> cp_channel_id (channel_params_of c) = k \<and> proper_channel (\<lambda>n. n \<le> 2) c) channels"

definition table_sem :: "(channel_id \<times> expr_channel option) list \<Rightarrow> channel_id \<Rightarrow> channel_id set \<Rightarrow> bool" where
  "table_sem channels k S \<longleftrightarrow> (\<exists>c. (k, Some c) \<in> set channels \<and> ch_eval S c)"

definition table_cpm :: "(channel_id \<times> expr_channel option) list \<Rightarrow> channel_id \<Rightarrow> bool" where
  "table_cpm channels k \<longleftrightarrow> (\<exists>c. (k, Some c) \<in> set channels \<and> FILTER_CHANNELS (cp_type (channel_params_of c)))"

lemma indexable_unique:
  "indexable channels \<Longrightarrow> (k, Some c) \<in> set channels \<Longrightarrow> (k, Some c') \<in> set channels \<Longrightarrow> c = c'"
  using eq_key_imp_eq_value [of channels k "Some c" "Some c'"] by (simp add: indexable_def)

lemma indexable_entry:
  assumes "indexable channels" "(k, Some c) \<in> set channels"
  shows "cp_channel_id (channel_params_of c) = k" "proper_channel (\<lambda>n. n \<le> 2) c"
    "table_sem channels k S = ch_eval S c"
    "table_cpm channels k = FILTER_CHANNELS (cp_type (channel_params_of c))"
  using assms indexable_unique [OF assms(1)]
  by (auto simp: indexable_def list_all_iff table_sem_def table_cpm_def)

lemma optimized_channels_mem:
  "(k, ch) \<in> set (optimized_channels channels) \<longleftrightarrow>
     (\<exists>c c'. (k, Some c) \<in> set channels \<and> optimize c = Some c' \<and> ch = ExpressionChannelHolder (Some c'))"
  unfolding optimized_channels_def List.map_filter_def
  by (force simp: image_iff split: prod.splits bind_splits)

lemma optimized_channels_Cons:
  "optimized_channels ((k, ch) # channels) =
     (case Option.bind ch optimize of
        None \<Rightarrow> optimized_channels channels
      | Some c \<Rightarrow> (k, ExpressionChannelHolder (Some c)) # optimized_channels channels)"
  by (simp add: optimized_channels_def List.map_filter_simps split: option.splits)

lemma distinct_optimized: "distinct (map fst channels) \<Longrightarrow> distinct (map fst (optimized_channels channels))"
proof (induction channels)
  case (Cons x channels)
  have "fst ` set (optimized_channels channels) \<subseteq> fst ` set channels"
    using optimized_channels_mem by force
  with Cons show ?case
    by (cases x) (auto simp: optimized_channels_Cons split: option.splits)
qed (simp add: optimized_channels_def List.map_filter_def)

lemma normal_binary:
  shows "normal_channel tr (\<lambda>n. n \<le> 2) c \<Longrightarrow> normal_channel tr binary c"
    and "normal_expr tr (\<lambda>n. n \<le> 2) e \<Longrightarrow> normal_expr tr binary e"
  by (induction tr "\<lambda>n :: nat. n \<le> 2" c and tr "\<lambda>n :: nat. n \<le> 2" e rule: normal_channel_normal_expr.induct)
    (auto simp: list_all_iff)

text \<open>An optimised channel: a simple channel or a normal form, with the id, the type and the decision of the original.\<close>

lemma optimized_entry:
  assumes ix: "indexable channels" and mem: "(k, ch) \<in> set (optimized_channels channels)"
  obtains (simple) p where "simple_channel ch = Some p" "cp_channel_id p = k" "FILTER_CHANNELS (cp_type p) = table_cpm channels k"
      "table_sem channels k = (\<lambda>S. k \<in> S)"
    | (expr) p e where "simple_channel ch = None" "expr_form False ch p e" "cp_channel_id p = k"
      "FILTER_CHANNELS (cp_type p) = table_cpm channels k" "\<And>S. table_sem channels k S = ch_eval S ch"
proof -
  obtain c c' where c: "(k, Some c) \<in> set channels" "optimize c = Some c'" "ch = ExpressionChannelHolder (Some c')"
    using mem optimized_channels_mem by blast
  note E = indexable_entry [OF ix c(1)] and P = optimize_params [OF c(2)]
  have nrm: "normal_channel False binary c'"
    by (rule normal_binary) (rule optimize_normal_both(1) [OF _ E(2) c(2)], simp)
  have ev: "ch_eval S c = ch_eval S c'" for S
    using optimize_holds_both(1) [OF E(2), of "in_channels S" "\<lambda>_. True"] c(2) by simp
  show ?thesis
    using nrm
  proof (cases rule: normal_channel_cases)
    case (1 p)
    then show ?thesis using that(1) [of p] c(3) E P ev by (auto simp: in_channels_def fun_eq_iff)
  next
    case (2 p e)
    then show ?thesis using that(2) [of p e] c(3) E P ev by (auto simp: expr_form_def)
  qed
qed

section \<open>Construction\<close>

lemma index_simple_ok:
  assumes "cells_ok sem cpm cells" "sem k = (\<lambda>S. k \<in> S)"
  shows "cells_ok sem cpm (change_cell k (\<lambda>cell. ChannelMatch
      (insert_if_not_exists (matched_channels cell) k)
      (if cpm k then insert_if_not_exists (cpm_matched_channels cell) k else cpm_matched_channels cell)
      (check_channels cell) (channels_by_simple cell)) cells)"
  using assms by (intro cells_ok_change) (auto simp: cell_ok_def)

text \<open>The loop of \<open>index_simple_channels_\<close> over channels that are simple or not.\<close>

lemma foldl_index_simple:
  assumes "\<forall>(k, ch)\<in>set xs. \<forall>p. simple_channel ch = Some p \<longrightarrow>
       cp_channel_id p = k \<and> FILTER_CHANNELS (cp_type p) = cpm k \<and> sem k = (\<lambda>S. k \<in> S)"
    and "distinct (map fst xs)" "map_ok kcs" "fst ` set xs \<inter> dom (map_of kcs) = {}" "cells_ok sem cpm cells"
  shows "\<exists>cells' kcs'. foldl index_simple_channel (cells, kcs) xs = (cells', kcs') \<and> cells_ok sem cpm cells' \<and> map_ok kcs' \<and>
    (\<forall>k ch. map_of kcs' k = Some ch \<longleftrightarrow> map_of kcs k = Some ch \<or> (k, ch) \<in> set xs \<and> simple_channel ch = None) \<and>
    (\<forall>s k. matched_at cells s k \<longrightarrow> matched_at cells' s k) \<and>
    (\<forall>(k, ch)\<in>set xs. simple_channel ch \<noteq> None \<longrightarrow> matched_at cells' k k)"
  using assms
proof (induction xs arbitrary: cells kcs)
  case (Cons x xs)
  obtain k ch where x: "x = (k, ch)" by (rule prod.exhaust)
  have xs: "\<forall>(k, ch)\<in>set xs. \<forall>p. simple_channel ch = Some p \<longrightarrow>
       cp_channel_id p = k \<and> FILTER_CHANNELS (cp_type p) = cpm k \<and> sem k = (\<lambda>S. k \<in> S)" "distinct (map fst xs)"
    using Cons.prems(1,2) by auto
  show ?case
  proof (cases "simple_channel ch")
    case None
    have m: "map_of (map_insert k ch kcs) = (map_of kcs)(k \<mapsto> ch)"
      using Cons.prems(3,4) x by (auto simp: map_of_map_insert split: option.splits)
    have "fst ` set xs \<inter> dom (map_of (map_insert k ch kcs)) = {}"
      unfolding m using Cons.prems(2,4) x by auto
    from Cons.IH [OF xs map_ok_insert [OF Cons.prems(3)] this Cons.prems(5)]
    obtain cells' kcs' where IH: "foldl index_simple_channel (cells, map_insert k ch kcs) xs = (cells', kcs')"
      "cells_ok sem cpm cells'" "map_ok kcs'"
      "\<forall>j c. map_of kcs' j = Some c \<longleftrightarrow> map_of (map_insert k ch kcs) j = Some c \<or> (j, c) \<in> set xs \<and> simple_channel c = None"
      "\<forall>s k. matched_at cells s k \<longrightarrow> matched_at cells' s k"
      "\<forall>(k, ch)\<in>set xs. simple_channel ch \<noteq> None \<longrightarrow> matched_at cells' k k"
      by blast
    have "map_of kcs k = None" using Cons.prems(4) x by auto
    then have "map_of kcs' j = Some c \<longleftrightarrow> map_of kcs j = Some c \<or> (j, c) \<in> set (x # xs) \<and> simple_channel c = None" for j c
      using IH(4) None x by (auto simp: m)
    moreover have "index_simple_channel (cells, kcs) x = (cells, map_insert k ch kcs)"
      using None x by (simp add: index_simple_channel_def)
    ultimately show ?thesis using IH(1-3,5,6) None x by auto
  next
    case (Some p)
    then have p: "cp_channel_id p = k" "FILTER_CHANNELS (cp_type p) = cpm k" "sem k = (\<lambda>S. k \<in> S)"
      using Cons.prems(1) x by auto
    let ?cells = "change_cell k (\<lambda>cell. ChannelMatch
      (insert_if_not_exists (matched_channels cell) k)
      (if cpm k then insert_if_not_exists (cpm_matched_channels cell) k else cpm_matched_channels cell)
      (check_channels cell) (channels_by_simple cell)) cells"
    have "fst ` set xs \<inter> dom (map_of kcs) = {}" using Cons.prems(4) by auto
    from Cons.IH [OF xs Cons.prems(3) this index_simple_ok [OF Cons.prems(5) p(3)]]
    obtain cells' kcs' where IH: "foldl index_simple_channel (?cells, kcs) xs = (cells', kcs')"
      "cells_ok sem cpm cells'" "map_ok kcs'"
      "\<forall>j c. map_of kcs' j = Some c \<longleftrightarrow> map_of kcs j = Some c \<or> (j, c) \<in> set xs \<and> simple_channel c = None"
      "\<forall>s k. matched_at ?cells s k \<longrightarrow> matched_at cells' s k"
      "\<forall>(k, ch)\<in>set xs. simple_channel ch \<noteq> None \<longrightarrow> matched_at cells' k k"
      by blast
    have "matched_at ?cells k k" "\<And>s j. matched_at cells s j \<Longrightarrow> matched_at ?cells s j"
      by (auto simp: matched_at_def map_of_change_cell)
    moreover have "index_simple_channel (cells, kcs) x = (?cells, kcs)"
      using Some p x by (simp add: index_simple_channel_def cong: if_cong)
    ultimately show ?thesis using IH Some x by auto
  qed
qed simp

lemma expr_form_collected:
  assumes "expr_form False c p e" "ch_eval S c"
  shows "S \<inter> collect_simple_channels c \<noteq> {}"
  using triggered_uses_collected [of "ExpressionChannel p e" S] expr_form_simps(6,7) [OF assms(1)]
    expr_form_resolve(2) [OF assms(1)] assms(2) by auto

text \<open>The state with which the loop of the top level starts.\<close>

lemma top_inv_initial:
  assumes ok: "cells_ok sem cpm cells" and base: "\<forall>(s, k)\<in>base. matched_at cells s k"
    and cat: "catalog_ok False kcs sem cpm"
    and b: "construct_simple_channel_indexing_map collect_simple_channels kcs = (ecs, ix)"
  shows "top_inv kcs sem cpm base {k. \<exists>c. map_of kcs k = Some c \<and> collect_simple_channels c \<noteq> {}}
    (cells, construct_channel_priority_map ix)"
proof -
  have kcs: "map_ok kcs" using cat by (simp add: catalog_ok_def)
  have ids: "\<forall>(k, c)\<in>set kcs. cp_channel_id (channel_params_of c) = k \<and> finite (collect_simple_channels c)"
  proof clarify
    fix k c assume "(k, c) \<in> set kcs"
    then have "map_of kcs k = Some c" by (simp only: map_ok_map_of_iff [OF kcs])
    then obtain p e where f: "expr_form False c p e" "cp_channel_id p = k" by (rule catalog_entry [OF cat]) blast
    show "cp_channel_id (channel_params_of c) = k \<and> finite (collect_simple_channels c)"
      using expr_form_simps(3) [OF f(1)] f(2) finite_collect(1) [of c] by simp
  qed
  note C = construct_tables [OF kcs ids b]
  have "top_object_ok kcs sem cells k \<lparr>used_simple_channels = collect_simple_channels c, indexed_simple_channels = {}, ei_channel = c\<rparr>"
    if k: "map_of kcs k = Some c" "collect_simple_channels c \<noteq> {}" for k c
  proof -
    obtain p e where f: "expr_form False c p e" and sem: "\<And>S. sem k S = ch_eval S c"
      by (rule catalog_entry [OF cat k(1)]) blast
    have "S \<inter> collect_simple_channels c \<noteq> {}" if "sem k S" for S
      using expr_form_collected [OF f] sem that by simp
    then show ?thesis using k reduce_collect(1) by (auto simp: top_object_ok_def)
  qed
  moreover have mo: "map_of (ix_objects ix) k = (case map_of kcs k of None \<Rightarrow> None
      | Some c \<Rightarrow> if collect_simple_channels c = {} then None
                else Some \<lparr>used_simple_channels = collect_simple_channels c, indexed_simple_channels = {}, ei_channel = c\<rparr>)" for k
    using C by blast
  ultimately have "\<forall>k obj. map_of (ix_objects ix) k = Some obj \<longrightarrow> top_object_ok kcs sem cells k obj"
    by (auto split: option.splits if_splits)
  moreover have "dom (map_of (ix_objects ix)) = {k. \<exists>c. map_of kcs k = Some c \<and> collect_simple_channels c \<noteq> {}}"
    unfolding dom_def mo by (rule Collect_cong) (simp split: option.splits)
  ultimately show ?thesis using C ok base by (simp add: top_inv_def)
qed

lemma cell_ok_flat:
  assumes "cell_ok sem cpm s node"
  obtains n where "flat_cell cpm n node"
proof
  have "channel_leaves (cc_channel c) \<le> Max (insert 0 ((\<lambda>c. channel_leaves (cc_channel c)) ` set (check_channels node)))"
    if "c \<in> set (check_channels node)" for c
    using that by (intro Max_ge) auto
  then show "flat_cell cpm (Max (insert 0 ((\<lambda>c. channel_leaves (cc_channel c)) ` set (check_channels node)))) node"
    using assms by (auto simp: flat_cell_def cell_ok_def)
qed

text \<open>The lower levels of all cells.\<close>

lemma sub_levels_total:
  assumes "cells_ok sem cpm cells"
  shows "\<exists>cells'. each_cell sub_index cells = Some cells' \<and>
    (\<forall>S s node. map_of cells' s = Some node \<longrightarrow> s \<in> S \<longrightarrow> node_sound sem cpm S node) \<and>
    (\<forall>S s k. s \<in> S \<longrightarrow> sem k S \<longrightarrow> found_at cells s k \<longrightarrow>
       (\<exists>node. map_of cells' s = Some node \<and> node_covers S k node))"
proof -
  have cell: "\<exists>node'. sub_index node = Some node' \<and>
      (\<forall>S. s \<in> S \<longrightarrow> node_sound sem cpm S node' \<and> (\<forall>k. sem k S \<longrightarrow> node_covers S k node \<longrightarrow> node_covers S k node'))"
    if "map_of cells s = Some node" for s node
  proof -
    have ok: "cell_ok sem cpm s node" using assms that by (simp add: cells_ok_def)
    obtain n where "flat_cell cpm n node" by (rule cell_ok_flat [OF ok])
    from sub_index_total [OF this, of sem] show ?thesis using cell_ok_sound [OF ok, of _ sem] by blast
  qed
  let ?cells = "map (\<lambda>x. (fst x, the (sub_index (snd x)))) cells"
  have each: "each_cell sub_index cells = Some ?cells"
  proof (rule each_cell_total)
    fix x assume "x \<in> set cells"
    then have "map_of cells (fst x) = Some (snd x)" using assms by (simp add: cells_ok_def)
    from cell [OF this] show "sub_index (snd x) \<noteq> None" by auto
  qed
  have mp: "map_of ?cells s = map_option (\<lambda>node. the (sub_index node)) (map_of cells s)" for s
    by (induction cells) auto
  have "node_sound sem cpm S node'" if "map_of ?cells s = Some node'" "s \<in> S" for S s node'
    using that cell unfolding mp by fastforce
  moreover have "\<exists>node'. map_of ?cells s = Some node' \<and> node_covers S k node'"
    if s: "s \<in> S" "sem k S" "found_at cells s k" for S s k
  proof -
    obtain node where node: "map_of cells s = Some node" "k \<in> set (matched_channels node) \<or> k \<in> cc_channel_id ` set (check_channels node)"
      using s(3) by (auto simp: found_at_def matched_at_def)
    from node(2) have "node_covers S k node" by (subst node_covers_iff) blast
    then show ?thesis using cell [OF node(1)] node(1) s(1,2) unfolding mp by auto
  qed
  ultimately show ?thesis using each by blast
qed

lemma expression_index_total:
  assumes ix: "indexable channels"
  shows "\<exists>cells. expression_index channels = Some (fast_cells cells) \<and>
    (\<forall>S s node. map_of cells s = Some node \<longrightarrow> s \<in> S \<longrightarrow>
       node_sound (table_sem channels) (table_cpm channels) S node) \<and>
    (\<forall>S k. table_sem channels k S \<longrightarrow> (\<exists>s\<in>S. \<exists>node. map_of cells s = Some node \<and> node_covers S k node))"
proof -
  let ?sem = "table_sem channels" and ?cpm = "table_cpm channels" and ?opt = "optimized_channels channels"
  have simple: "\<forall>(k, ch)\<in>set ?opt. \<forall>p. simple_channel ch = Some p \<longrightarrow>
      cp_channel_id p = k \<and> FILTER_CHANNELS (cp_type p) = ?cpm k \<and> ?sem k = (\<lambda>S. k \<in> S)"
  proof clarify
    fix k ch p assume "(k, ch) \<in> set ?opt" and p: "simple_channel ch = Some p"
    from ix this(1) show "cp_channel_id p = k \<and> FILTER_CHANNELS (cp_type p) = ?cpm k \<and> ?sem k = (\<lambda>S. k \<in> S)"
      by (cases rule: optimized_entry) (use p in auto)
  qed
  have "distinct (map fst ?opt)" using ix by (simp add: indexable_def distinct_optimized)
  from foldl_index_simple [OF simple this, of "[]" "[]"]
  obtain cells kcs where I: "foldl index_simple_channel ([], []) ?opt = (cells, kcs)" "cells_ok ?sem ?cpm cells" "map_ok kcs"
    "\<forall>k ch. map_of kcs k = Some ch \<longleftrightarrow> (k, ch) \<in> set ?opt \<and> simple_channel ch = None"
    "\<forall>(k, ch)\<in>set ?opt. simple_channel ch \<noteq> None \<longrightarrow> matched_at cells k k"
    by (auto simp: cells_ok_def)
  have cat: "catalog_ok False kcs ?sem ?cpm"
    unfolding catalog_ok_def
  proof (intro conjI allI impI)
    fix k ch assume "map_of kcs k = Some ch"
    with I(4) have k: "(k, ch) \<in> set ?opt" "simple_channel ch = None" by auto
    from ix k(1) show "\<exists>p e. expr_form False ch p e \<and> cp_channel_id p = k \<and> FILTER_CHANNELS (cp_type p) = ?cpm k"
      by (cases rule: optimized_entry) (use k(2) in auto)
    from ix k(1) show "?sem k S = ch_eval S ch" for S
      by (cases rule: optimized_entry) (use k(2) in auto)
  qed (fact I(3))
  let ?base = "{(k, k) |k. \<exists>ch. (k, ch) \<in> set ?opt \<and> simple_channel ch \<noteq> None}"
  obtain ecs tab where b: "construct_simple_channel_indexing_map collect_simple_channels kcs = (ecs, tab)" by (rule prod.exhaust)
  have base: "\<forall>(s, k)\<in>?base. matched_at cells s k" using I(5) by auto
  obtain cells1 tab1 where L: "top_level_loop (cells, construct_channel_priority_map tab) = Some (cells1, tab1)"
    "cells_ok ?sem ?cpm cells1" "\<forall>(s, k)\<in>?base. matched_at cells1 s k"
    "\<And>k c S. map_of kcs k = Some c \<Longrightarrow> collect_simple_channels c \<noteq> {} \<Longrightarrow> ?sem k S \<Longrightarrow> \<exists>s\<in>S. found_at cells1 s k"
    using top_level_loop_total [OF cat top_inv_initial [OF I(2) base cat b]] by (auto simp: top_inv_def)
  from sub_levels_total [OF L(2)]
  obtain cells2 where E: "each_cell sub_index cells1 = Some cells2"
    "\<forall>S s node. map_of cells2 s = Some node \<longrightarrow> s \<in> S \<longrightarrow> node_sound ?sem ?cpm S node"
    "\<forall>S s k. s \<in> S \<longrightarrow> ?sem k S \<longrightarrow> found_at cells1 s k \<longrightarrow> (\<exists>node. map_of cells2 s = Some node \<and> node_covers S k node)"
    by blast
  have "expression_index channels = Some (fast_cells cells2)"
    using I(1) b L(1) E(1) by (simp add: expression_index_def top_level_index_def)
  moreover have "\<exists>s\<in>S. \<exists>node. map_of cells2 s = Some node \<and> node_covers S k node" if k: "?sem k S" for S k
  proof -
    obtain c where c: "(k, Some c) \<in> set channels" "ch_eval S c" using k by (auto simp: table_sem_def)
    obtain c' where c': "optimize c = Some c'"
      using optimize_holds_both(1) [OF indexable_entry(2) [OF ix c(1)], of "in_channels S" "\<lambda>_. True"] c(2)
      by (auto split: option.splits)
    then have mem: "(k, ExpressionChannelHolder (Some c')) \<in> set ?opt" using c(1) optimized_channels_mem by blast
    from ix mem have "\<exists>s\<in>S. found_at cells1 s k"
    proof (cases rule: optimized_entry)
      case (simple p)
      then have "simple_channel (ExpressionChannelHolder (Some c')) \<noteq> None" "k \<in> S" using k by auto
      then have "matched_at cells1 k k" using L(3) mem by blast
      with \<open>k \<in> S\<close> show ?thesis by (auto simp: found_at_def)
    next
      case (expr p e)
      have "map_of kcs k = Some (ExpressionChannelHolder (Some c'))" using I(4) mem expr(1) by blast
      moreover have "ch_eval S (ExpressionChannelHolder (Some c'))" using expr(5) k by blast
      ultimately show ?thesis using L(4) k expr_form_collected [OF expr(2), of S] by blast
    qed
    then show ?thesis using E(3) k by blast
  qed
  ultimately show ?thesis by (intro exI [of _ cells2] conjI allI impI E(2)) (use E(2) in auto)
qed

section \<open>Properties\<close>

text \<open>Channels for the examples: a simple channel, and an expression channel over an expression.\<close>

definition sample_params :: "channel_id \<Rightarrow> channel_params" where
  "sample_params k = EMPTY_CHANNEL_PARAMS\<lparr>cp_channel_id := k, cp_type := (if k < 10 then CHR ''B'' else CHR ''D'')\<rparr>"

definition sample_leaf :: "channel_id \<Rightarrow> expression" where
  "sample_leaf k = Expression NOP (Some (SimpleChannel (sample_params k))) []"

text \<open>Two simple channels, \<open>1 & 2\<close> under the id 10 and \<open>1 ^ 2\<close> under the id 11.\<close>

definition sample_table :: "(channel_id \<times> expr_channel option) list" where
  "sample_table =
     [(1, Some (SimpleChannel (sample_params 1))), (2, Some (SimpleChannel (sample_params 2))),
      (10, Some (ExpressionChannel (sample_params 10) (Expression AND_OP None [sample_leaf 1, sample_leaf 2]))),
      (11, Some (ExpressionChannel (sample_params 11) (Expression AND_NOT None [sample_leaf 1, sample_leaf 2])))]"

text \<open>
  C1. For every table of channels under distinct ids in which an exclusion has at most one excluded
  part, the construction of the index ends without a failed assertion, and \<open>match\<close> returns exactly
  the channels of the table that evaluate as triggered by the simple channels of the request, and
  among them as CPM channels exactly those of a filter type.
\<close>

theorem match_finds_triggered:
  assumes "indexable channels"
  shows "\<exists>index. expression_index channels = Some index \<and>
    expression_match index request =
      ({k. \<exists>c. (k, Some c) \<in> set channels \<and> fst (triggered (Some (set request)) None None c (None, None)) \<noteq> 0},
       {k. \<exists>c. (k, Some c) \<in> set channels \<and> fst (triggered (Some (set request)) None None c (None, None)) \<noteq> 0 \<and>
               FILTER_CHANNELS (cp_type (channel_params_of c))})"
proof -
  obtain cells where E: "expression_index channels = Some (fast_cells cells)"
    "\<forall>S s node. map_of cells s = Some node \<longrightarrow> s \<in> S \<longrightarrow> node_sound (table_sem channels) (table_cpm channels) S node"
    "\<forall>S k. table_sem channels k S \<longrightarrow> (\<exists>s\<in>S. \<exists>node. map_of cells s = Some node \<and> node_covers S k node)"
    using expression_index_total [OF assms] by blast
  have "table_sem channels k S \<longleftrightarrow>
      (\<exists>c. (k, Some c) \<in> set channels \<and> fst (triggered (Some S) None None c (None, None)) \<noteq> 0)" for k S
    by (simp only: table_sem_def ch_eval_triggered [of S _ None "(None, None)"])
  moreover have "table_sem channels k S \<and> table_cpm channels k \<longleftrightarrow>
      (\<exists>c. (k, Some c) \<in> set channels \<and> fst (triggered (Some S) None None c (None, None)) \<noteq> 0 \<and>
           FILTER_CHANNELS (cp_type (channel_params_of c)))" for k S
    using indexable_unique [OF assms]
    by (auto simp: table_sem_def table_cpm_def ch_eval_triggered [of S _ None "(None, None)"])
  moreover have "expression_match (fast_cells cells) request =
      ({k. table_sem channels k (set request)}, {k. table_sem channels k (set request) \<and> table_cpm channels k})"
    by (rule expression_match_sem) (use E(2,3) in blast)+
  ultimately show ?thesis using E(1) by simp
qed

theorem match_finds_triggered_witness:
  "\<exists>index. expression_index sample_table = Some index \<and> expression_match index [1] = ({1, 11}, {1})"
proof -
  have ix: "indexable sample_table" by code_simp
  have "{k. \<exists>c. (k, Some c) \<in> set sample_table \<and> fst (triggered (Some (set [1])) None None c (None, None)) \<noteq> 0} = {1, 11}"
    "{k. \<exists>c. (k, Some c) \<in> set sample_table \<and> fst (triggered (Some (set [1])) None None c (None, None)) \<noteq> 0 \<and>
          FILTER_CHANNELS (cp_type (channel_params_of c))} = {1}"
    by (auto simp: sample_table_def sample_leaf_def sample_params_def triggered_sub.simps SimpleChannel_triggered_def
        status_allowed_def note_simple_def FILTER_CHANNELS_def EMPTY_CHANNEL_PARAMS_def)
  then show ?thesis using match_finds_triggered [OF ix, of "[1]"] by simp
qed

text \<open>
  C22. \<open>optimize\<close> keeps the decision: for every set or table of weights of the simple channels and
  every set of allowed statuses, a channel as the configuration builds it is triggered exactly when
  its optimised form is, and a channel that is optimised away is never triggered.
\<close>

theorem optimize_same_decision:
  assumes "proper_channel P c"
  shows "fst (triggered tc w ss c st) \<noteq> 0 \<longleftrightarrow>
    (case optimize c of None \<Rightarrow> False | Some c' \<Rightarrow> fst (triggered tc w ss c' st') \<noteq> 0)"
  using optimize_holds_both(1) [OF assms, of "simple_holds tc w" "status_allowed ss"] triggered_decides(1)
  by (cases "optimize c") simp_all

theorem optimize_same_decision_witness:
  "fst (triggered (Some {1}) None None (the (snd (sample_table ! 3))) (None, None)) \<noteq> 0 \<longleftrightarrow>
    (case optimize (the (snd (sample_table ! 3))) of None \<Rightarrow> False
     | Some c' \<Rightarrow> fst (triggered (Some {1}) None None c' (None, None)) \<noteq> 0)"
  by (rule optimize_same_decision [of "\<lambda>n. n \<le> 2"]) code_simp

text \<open>
  C24. \<open>optimize\<close> returns a channel in normal form, which the index and the fast evaluation rely on:
  no null channel, no holder, no empty operation, and every exclusion has an excluded part. Exclusions
  do not gain parts.
\<close>

theorem optimize_normal_form:
  assumes "proper_channel (\<lambda>n. n \<le> m) c" "optimize c = Some c'"
  shows "normal_channel False (\<lambda>n. n \<le> m) c'"
  by (rule optimize_normal_both(1) [OF _ assms]) simp

theorem optimize_normal_form_witness:
  "normal_channel False (\<lambda>n. n \<le> 2) (ExpressionChannel (sample_params 10) (Expression AND_OP None [sample_leaf 1, sample_leaf 2]))"
  by (rule optimize_normal_form [of 2 "the (snd (sample_table ! 2))"]) code_simp+



text \<open>
  C25. \<open>triggered\<close> evaluates the boolean formula of the channel over its simple channels of an allowed
  status, whether or not use counters and matched channels are collected on the way.
\<close>

theorem triggered_formula:
  "fst (triggered tc w ss c st) \<noteq> 0 \<longleftrightarrow> channel_holds (simple_holds tc w) (status_allowed ss) c"
  by (rule triggered_decides(1))


end
