(* ===== verification/TaskWindow.thy ===== *)
theory TaskWindow
  imports Prelude
begin

text \<open>
  \<open>OrderedAsyncTaskWindow\<close> (\<open>Commons/OrderedAsyncTaskWindow.cpp\<close>): operations with consecutive
  sequence numbers run concurrently and are committed in order. Every member function and the
  completion callback hold the lock of the state, so each is one atomic step. Sequence numbers and
  counters are counted without the bound of \<open>std::size_t\<close>.
\<close>

section \<open>State\<close>

text \<open>
  \<open>exception\<close> is an optional \<open>exception_ptr\<close>: the inner option is a pointer that may be null. The
  type \<open>'e\<close> is the type of exceptions.
\<close>

record 'e window_state =
  ws_exception :: "'e option option"
  ws_completed :: "bool list"
  ws_committed :: nat
  ws_started :: nat
  ws_in_flight :: nat
  ws_completed_since_wait :: nat
  ws_wake_threshold :: nat
  ws_failed :: bool

definition State :: "nat \<Rightarrow> nat \<Rightarrow> nat \<Rightarrow> 'e window_state" where
  "State first_sequence window_size wake_percent =
     \<lparr>ws_exception = None, ws_completed = replicate window_size False, ws_committed = first_sequence,
      ws_started = first_sequence, ws_in_flight = 0, ws_completed_since_wait = 0,
      ws_wake_threshold = max 1 (window_size * wake_percent div 100), ws_failed = False\<rparr>"

text \<open>\<open>window_size_\<close>, and the constructor.\<close>

definition window_size :: "nat \<Rightarrow> nat" where
  "window_size n = (if n = 0 then 1 else n)"

definition OrderedAsyncTaskWindow :: "nat \<Rightarrow> nat \<Rightarrow> nat \<Rightarrow> 'e window_state" where
  "OrderedAsyncTaskWindow first_sequence n wake_percent = State first_sequence (window_size n) wake_percent"

section \<open>Operations\<close>

text \<open>The part of \<open>start\<close> before the operation runs.\<close>

definition start_task :: "nat \<Rightarrow> 'e window_state \<Rightarrow> 'e window_state" where
  "start_task seq st =
     st\<lparr>ws_started := max (ws_started st) (seq + 1), ws_in_flight := Suc (ws_in_flight st)\<rparr>"

text \<open>
  The commit loop; it ends because every round clears a mark. The marks are never empty, since the
  constructor replaces a zero window size.
\<close>

function commit_loop :: "bool list \<Rightarrow> nat \<Rightarrow> bool list \<times> nat" where
  "commit_loop completed committed =
     (if completed \<noteq> [] \<and> completed ! (committed mod length completed)
      then commit_loop (completed[committed mod length completed := False]) (Suc committed)
      else (completed, committed))"
  by pat_completeness auto
termination
proof (relation "measure (\<lambda>(completed, _). length (filter id completed))", goal_cases)
  case (2 completed committed)
  then have "committed mod length completed < length completed" by simp
  moreover from this have "length (filter id (xs[i := False])) < length (filter id xs)"
    if "i < length xs" "xs ! i" for i and xs :: "bool list"
    using that by (induction xs arbitrary: i) (auto simp: nth_Cons' split: nat.split)
  ultimately show ?case using 2 by simp
qed simp

declare commit_loop.simps [simp del]

text \<open>The completion callback; the second component tells whether a waiter is notified.\<close>

definition finish_task :: "nat \<Rightarrow> 'e option \<Rightarrow> 'e window_state \<Rightarrow> 'e window_state \<times> bool" where
  "finish_task seq exc st =
     (let st1 =
        (case exc of
           Some e \<Rightarrow> st\<lparr>ws_exception := (if ws_exception st = None then Some (Some e) else ws_exception st),
                          ws_failed := True\<rparr>
         | None \<Rightarrow>
             (let (cs, k) = commit_loop ((ws_completed st)[seq mod length (ws_completed st) := True]) (ws_committed st)
              in st\<lparr>ws_completed := cs, ws_committed := k\<rparr>));
          st2 = st1\<lparr>ws_completed_since_wait := Suc (ws_completed_since_wait st1), ws_in_flight := ws_in_flight st1 - 1\<rparr>
      in (st2, exc \<noteq> None \<or> ws_in_flight st2 = 0 \<or> ws_completed_since_wait st2 = ws_wake_threshold st2))"

definition full :: "nat \<Rightarrow> 'e window_state \<Rightarrow> bool" where
  "full w st \<longleftrightarrow> ws_started st - ws_committed st \<ge> w"

text \<open>The conditions a waiter waits for; a blocked call has the value \<open>None\<close>.\<close>

definition progress_ready :: "'e window_state \<Rightarrow> bool" where
  "progress_ready st \<longleftrightarrow> ws_failed st \<or> ws_in_flight st = 0 \<or> ws_completed_since_wait st \<ge> ws_wake_threshold st"

definition all_landed :: "'e window_state \<Rightarrow> bool" where
  "all_landed st \<longleftrightarrow> ws_in_flight st = 0"

definition wait_progress :: "'e window_state \<Rightarrow> (nat \<times> 'e window_state) option" where
  "wait_progress st =
     (if progress_ready st \<and> (ws_failed st \<longrightarrow> all_landed st)
      then Some (ws_committed st, st\<lparr>ws_completed_since_wait := 0\<rparr>) else None)"

definition drain :: "'e window_state \<Rightarrow> nat option" where
  "drain st = (if all_landed st then Some (ws_committed st) else None)"

text \<open>
  \<open>rethrow_exception\<close>: moving the optional out leaves an engaged optional with a null pointer behind;
  rethrowing a null pointer is undefined.
\<close>

datatype 'e rethrow = NoException | Rethrown 'e | NullRethrown

definition rethrow_exception :: "'e window_state \<Rightarrow> 'e rethrow \<times> 'e window_state" where
  "rethrow_exception st =
     (case ws_exception st of
        None \<Rightarrow> (NoException, st)
      | Some None \<Rightarrow> (NullRethrown, st)
      | Some (Some e) \<Rightarrow> (Rethrown e, st\<lparr>ws_exception := Some None\<rparr>))"

section \<open>Ring of completion marks\<close>

lemma mod_window_inj:
  fixes a b k w :: nat
  assumes "k \<le> a" "a < k + w" "k \<le> b" "b < k + w" "a mod w = b mod w"
  shows "a = b"
proof -
  have "a = b" if "a \<le> b" "k \<le> a" "b < k + w" "a mod w = b mod w" for a b :: nat
  proof -
    have "w dvd b - a" using that by (metis mod_eq_dvd_iff_nat)
    moreover have "b - a < w" using that by simp
    ultimately show ?thesis using that(1) by (auto dest: dvd_imp_le)
  qed
  from this [of a b] this [of b a] show ?thesis using assms by (cases "a \<le> b") auto
qed

text \<open>The marks show, for the numbers from \<open>k\<close> on that fit into the ring, which are in \<open>D\<close>.\<close>

definition marks :: "nat \<Rightarrow> bool list \<Rightarrow> nat \<Rightarrow> nat set \<Rightarrow> bool" where
  "marks w cs k D \<longleftrightarrow> length cs = w \<and> 0 < w \<and> (\<forall>i. k \<le> i \<and> i < k + w \<longrightarrow> cs ! (i mod w) = (i \<in> D)) \<and> (\<forall>i\<in>D. i < k + w)"

lemma marks_set:
  assumes "marks w cs k D" "k \<le> s" "s < k + w"
  shows "marks w (cs[s mod w := True]) k (insert s D)"
proof -
  have "cs[s mod w := True] ! (i mod w) = (i \<in> insert s D)" if i: "k \<le> i" "i < k + w" for i
    using assms i mod_window_inj [of k s w i] by (cases "s = i") (auto simp: marks_def nth_list_update)
  then show ?thesis using assms by (auto simp: marks_def)
qed

lemma marks_advance:
  assumes m: "marks w cs k D"
  shows "marks w (cs[k mod w := False]) (Suc k) D"
proof -
  have "cs[k mod w := False] ! (i mod w) = (i \<in> D)" if i: "Suc k \<le> i" "i < Suc k + w" for i
  proof (cases "i = k + w")
    case True
    then have "i mod w = k mod w" by simp
    then show ?thesis using m True by (auto simp: marks_def)
  next
    case False
    then have "i < k + w" using i by simp
    then have "i mod w \<noteq> k mod w" using mod_window_inj [of k i w k] i by auto
    then show ?thesis using m i \<open>i < k + w\<close> by (auto simp: marks_def nth_list_update)
  qed
  then show ?thesis using m by (auto simp: marks_def less_Suc_eq)
qed

text \<open>The loop commits exactly the numbers up to the first one that is not completed.\<close>

lemma commit_loop_prefix:
  assumes "marks w cs k D"
  shows "\<exists>cs' k'. commit_loop cs k = (cs', k') \<and> marks w cs' k' D \<and> k \<le> k' \<and> {k..<k'} \<subseteq> D \<and> k' \<notin> D"
  using assms
proof (induction cs k rule: commit_loop.induct)
  case (1 cs k)
  from "1.prems" have cs: "cs \<noteq> []" "length cs = w" "cs ! (k mod w) = (k \<in> D)" by (auto simp: marks_def)
  show ?case
  proof (cases "k \<in> D")
    case True
    have eq: "commit_loop cs k = commit_loop (cs[k mod w := False]) (Suc k)"
      using cs True by (subst commit_loop.simps) simp
    have "marks w (cs[k mod w := False]) (Suc k) D" by (rule marks_advance [OF "1.prems"])
    then obtain cs' k' where IH: "commit_loop (cs[k mod w := False]) (Suc k) = (cs', k')" "marks w cs' k' D"
      "Suc k \<le> k'" "{Suc k..<k'} \<subseteq> D" "k' \<notin> D"
      using "1.IH" cs True by auto
    have "{k..<k'} = insert k {Suc k..<k'}" using IH(3) by auto
    then show ?thesis using eq IH True by auto
  next
    case False
    then show ?thesis using cs "1.prems" by (subst commit_loop.simps) auto
  qed
qed

section \<open>Invariant\<close>

text \<open>
  The state while the sequence numbers \<open>R\<close> are running and \<open>D\<close> have completed; \<open>first\<close> is the first
  sequence number.
\<close>

definition window_ok :: "nat \<Rightarrow> nat \<Rightarrow> 'e window_state \<Rightarrow> nat set \<Rightarrow> nat set \<Rightarrow> bool" where
  "window_ok first w st R D \<longleftrightarrow>
     marks w (ws_completed st) (ws_committed st) D \<and>
     first \<le> ws_committed st \<and> ws_committed st \<le> ws_started st \<and> ws_started st \<le> ws_committed st + w \<and>
     {first..<ws_committed st} \<subseteq> D \<and> ws_committed st \<notin> D \<and> D \<subseteq> {first..<ws_started st} \<and>
     R \<subseteq> {first..<ws_started st} \<and> R \<inter> D = {} \<and> ws_in_flight st = card R \<and>
     (\<not> ws_failed st \<longrightarrow> R \<union> D = {first..<ws_started st} \<and> ws_exception st = None) \<and>
     (ws_failed st \<longrightarrow> ws_exception st \<noteq> None) \<and> 1 \<le> ws_wake_threshold st"

lemma window_ok_new:
  "window_ok first (window_size n) (OrderedAsyncTaskWindow first n p) {} {}"
  by (auto simp: window_ok_def OrderedAsyncTaskWindow_def State_def marks_def window_size_def)

lemma window_ok_facts:
  assumes "window_ok first w st R D"
  shows "finite R" "0 < w" "R \<subseteq> {ws_committed st..<ws_started st}"
  using assms finite_subset [of R "{first..<ws_started st}"]
  by (auto simp: window_ok_def marks_def) (meson atLeastLessThan_iff disjoint_iff linorder_not_le subsetD)+

lemma start_task_ok:
  assumes ok: "window_ok first w st R D" and nf: "\<not> full w st"
  shows "window_ok first w (start_task (ws_started st) st) (insert (ws_started st) R) D"
proof -
  have "ws_started st \<notin> R" "ws_started st \<notin> D" using ok by (auto simp: window_ok_def)
  moreover have "{first..<Suc (ws_started st)} = insert (ws_started st) {first..<ws_started st}"
    using ok by (auto simp: window_ok_def)
  ultimately show ?thesis
    using ok nf window_ok_facts(1) [OF ok] by (auto simp: window_ok_def start_task_def full_def)
qed

lemma finish_task_ok:
  assumes ok: "window_ok first w st R D" and s: "s \<in> R"
  shows "window_ok first w (fst (finish_task s exc st)) (R - {s}) (if exc = None then insert s D else D)"
proof (cases exc)
  case None
  have fin: "finite R" and rng: "ws_committed st \<le> s" "s < ws_started st" "first \<le> s"
    using window_ok_facts [OF ok] ok s by (auto simp: window_ok_def)
  have m: "marks w ((ws_completed st)[s mod w := True]) (ws_committed st) (insert s D)"
    using ok rng by (intro marks_set) (auto simp: window_ok_def)
  obtain cs k where c: "commit_loop ((ws_completed st)[s mod w := True]) (ws_committed st) = (cs, k)"
    "marks w cs k (insert s D)" "ws_committed st \<le> k" "{ws_committed st..<k} \<subseteq> insert s D" "k \<notin> insert s D"
    using commit_loop_prefix [OF m] by blast
  have len: "length (ws_completed st) = w" using ok by (simp add: window_ok_def marks_def)
  have "k \<le> ws_started st"
  proof (rule ccontr)
    assume "\<not> k \<le> ws_started st"
    then have "ws_started st \<in> {ws_committed st..<k}" using ok by (auto simp: window_ok_def)
    then have "ws_started st \<in> insert s D" using c(4) by blast
    then show False using ok rng by (auto simp: window_ok_def)
  qed
  moreover have "{first..<k} \<subseteq> insert s D"
  proof
    fix i assume "i \<in> {first..<k}"
    then have "i \<in> {first..<ws_committed st} \<or> i \<in> {ws_committed st..<k}" by auto
    moreover have "{first..<ws_committed st} \<subseteq> D" using ok by (simp add: window_ok_def)
    ultimately show "i \<in> insert s D" using c(4) by blast
  qed
  ultimately show ?thesis
    using None c ok s rng fin len
    by (auto simp: window_ok_def finish_task_def Let_def card_Diff_singleton)
next
  case (Some e)
  then show ?thesis
    using ok s window_ok_facts(1) [OF ok] by (auto simp: window_ok_def finish_task_def Let_def card_Diff_singleton)
qed

lemma wait_progress_ok:
  assumes "window_ok first w st R D" "wait_progress st = Some (n, st')"
  shows "window_ok first w st' R D" "n = ws_committed st" "ws_exception st' = ws_exception st"
    "ws_started st' = ws_started st" "ws_committed st' = ws_committed st"
  using assms by (auto simp: window_ok_def wait_progress_def split: if_splits)

lemma finish_task_frame [simp]:
  "ws_started (fst (finish_task s exc st)) = ws_started st"
  "ws_wake_threshold (fst (finish_task s exc st)) = ws_wake_threshold st"
  by (auto simp: finish_task_def Let_def split: option.splits prod.splits)

lemma commit_loop_mono: "k \<le> snd (commit_loop cs k)"
proof (induction cs k rule: commit_loop.induct)
  case (1 cs k)
  show ?case
  proof (cases "cs \<noteq> [] \<and> cs ! (k mod length cs)")
    case True
    then have "commit_loop cs k = commit_loop (cs[k mod length cs := False]) (Suc k)"
      by (subst commit_loop.simps) simp
    then show ?thesis using 1 [OF True] by simp
  next
    case False
    then have "commit_loop cs k = (cs, k)" by (subst commit_loop.simps) auto
    then show ?thesis by simp
  qed
qed

lemma finish_task_mono:
  "ws_committed st \<le> ws_committed (fst (finish_task s exc st))"
  "ws_failed st \<Longrightarrow> ws_failed (fst (finish_task s exc st))"
  "ws_exception st \<noteq> Some None \<Longrightarrow> ws_exception (fst (finish_task s exc st)) \<noteq> Some None"
  "ws_completed_since_wait (fst (finish_task s exc st)) = Suc (ws_completed_since_wait st)"
  using commit_loop_mono [of "ws_committed st" "(ws_completed st)[s mod length (ws_completed st) := True]"]
  by (auto simp: finish_task_def Let_def split: option.splits prod.splits)

text \<open>When every operation has landed and none failed, everything that was started is committed.\<close>

lemma window_ok_landed:
  assumes "window_ok first w st R D" "all_landed st"
  shows "R = {}"
proof -
  have "ws_in_flight st = card R" using assms(1) unfolding window_ok_def by blast
  then have "card R = 0" using assms(2) by (simp add: all_landed_def)
  then show ?thesis using window_ok_facts(1) [OF assms(1)] by simp
qed

lemma landed_committed:
  assumes "window_ok first w st {} D" "\<not> ws_failed st"
  shows "ws_committed st = ws_started st"
proof (rule ccontr)
  assume "ws_committed st \<noteq> ws_started st"
  then have "ws_committed st \<in> {first..<ws_started st}" using assms(1) by (auto simp: window_ok_def)
  then show False using assms by (auto simp: window_ok_def)
qed

text \<open>A call that waits while the window is full and nothing failed has seen a completion since the last wait.\<close>

lemma full_wait_completed:
  assumes ok: "window_ok first w st R D" and full: "full w st" and ready: "progress_ready st" and nf: "\<not> ws_failed st"
  shows "1 \<le> ws_completed_since_wait st"
proof -
  have "\<not> all_landed st"
  proof
    assume "all_landed st"
    then have "R = {}" by (rule window_ok_landed [OF ok])
    with ok have "ws_committed st = ws_started st" by (intro landed_committed [OF _ nf]) simp
    then show False using full window_ok_facts(2) [OF ok] by (simp add: full_def)
  qed
  then show ?thesis using ready nf ok by (auto simp: progress_ready_def all_landed_def window_ok_def)
qed

text \<open>A waiter whose condition becomes true is notified: no wake-up is lost.\<close>

lemma finish_task_notifies:
  assumes "finish_task s exc st = (st', notify)"
  shows "\<not> progress_ready st \<Longrightarrow> progress_ready st' \<Longrightarrow> notify"
    and "\<not> all_landed st \<Longrightarrow> all_landed st' \<Longrightarrow> notify"
  using assms
  by (auto simp: finish_task_def progress_ready_def all_landed_def Let_def split: option.splits prod.splits)

section \<open>Reachable states\<close>

text \<open>
  The uses of a window: a new operation gets the next sequence number and is started only when the
  window is not full; operations end in any order, with an exception or without; between these
  steps the owner waits and rethrows.
\<close>

inductive window_reach :: "nat \<Rightarrow> nat \<Rightarrow> nat \<Rightarrow> 'e window_state \<Rightarrow> nat set \<Rightarrow> nat set \<Rightarrow> bool" for first n p where
  new: "window_reach first n p (OrderedAsyncTaskWindow first n p) {} {}"
| start: "window_reach first n p st R D \<Longrightarrow> \<not> full (window_size n) st \<Longrightarrow>
    window_reach first n p (start_task (ws_started st) st) (insert (ws_started st) R) D"
| finish: "window_reach first n p st R D \<Longrightarrow> s \<in> R \<Longrightarrow>
    window_reach first n p (fst (finish_task s None st)) (R - {s}) (insert s D)"
| fail: "window_reach first n p st R D \<Longrightarrow> s \<in> R \<Longrightarrow>
    window_reach first n p (fst (finish_task s (Some e) st)) (R - {s}) D"
| wait: "window_reach first n p st R D \<Longrightarrow> wait_progress st = Some (k, st') \<Longrightarrow> window_reach first n p st' R D"
| rethrow: "window_reach first n p st R D \<Longrightarrow> rethrow_exception st = (r, st') \<Longrightarrow> window_reach first n p st' R D"

lemma window_reach_ok:
  "window_reach first n p st R D \<Longrightarrow> window_ok first (window_size n) st R D"
proof (induction rule: window_reach.induct)
  case new
  then show ?case by (rule window_ok_new)
next
  case (start st R D)
  then show ?case by (intro start_task_ok)
next
  case (finish st R D s)
  then show ?case using finish_task_ok [of first "window_size n" st R D s None] by simp
next
  case (fail st R D s e)
  then show ?case using finish_task_ok [of first "window_size n" st R D s "Some e"] by simp
next
  case (wait st R D k st')
  then show ?case using wait_progress_ok(1) by blast
next
  case (rethrow st R D r st')
  then show ?case by (auto simp: rethrow_exception_def window_ok_def split: option.splits)
qed

lemma window_ok_least:
  assumes "window_ok first w st R D"
  shows "ws_committed st = (LEAST k. first \<le> k \<and> k \<notin> D)"
proof (rule Least_equality [symmetric])
  show "first \<le> ws_committed st \<and> ws_committed st \<notin> D" using assms unfolding window_ok_def by blast
  have "{first..<ws_committed st} \<subseteq> D" using assms unfolding window_ok_def by blast
  then show "ws_committed st \<le> k" if "first \<le> k \<and> k \<notin> D" for k
    using that by (meson atLeastLessThan_iff leI subsetD)
qed

text \<open>
  C4. However the operations of a window interleave, the committed sequence number is the first one
  that has not completed, which is what \<open>wait_progress\<close> and \<open>drain\<close> return; never more operations than
  the window size are started but not committed, and the counter of operations in flight is exact.
\<close>

theorem window_commits_prefix:
  assumes "window_reach first n p st R D"
  shows "ws_committed st = (LEAST k. first \<le> k \<and> k \<notin> D) \<and>
    (\<forall>k st'. wait_progress st = Some (k, st') \<longrightarrow> k = (LEAST k. first \<le> k \<and> k \<notin> D)) \<and>
    (\<forall>k. drain st = Some k \<longrightarrow> R = {} \<and> k = (LEAST k. first \<le> k \<and> k \<notin> D)) \<and>
    ws_committed st \<le> ws_started st \<and> ws_started st \<le> ws_committed st + window_size n \<and>
    ws_in_flight st = card R \<and> R \<union> D \<subseteq> {first..<ws_started st}"
proof -
  note ok = window_reach_ok [OF assms]
  have "k = ws_committed st" if "wait_progress st = Some (k, st')" for k st'
    using that by (auto simp: wait_progress_def split: if_splits)
  moreover have "R = {} \<and> k = ws_committed st" if "drain st = Some k" for k
    using that window_ok_landed [OF ok] by (auto simp: drain_def split: if_splits)
  moreover have "ws_committed st \<le> ws_started st \<and> ws_started st \<le> ws_committed st + window_size n \<and>
      ws_in_flight st = card R \<and> R \<union> D \<subseteq> {first..<ws_started st}"
    using ok unfolding window_ok_def by blast
  ultimately show ?thesis unfolding window_ok_least [OF ok, symmetric] by blast
qed

theorem window_commits_prefix_witness:
  "ws_committed (fst (finish_task 11 None (start_task 11 (start_task 10 (OrderedAsyncTaskWindow 10 4 25 :: nat window_state)))))
     = (LEAST k. 10 \<le> k \<and> k \<notin> {11})"
proof -
  let ?st0 = "OrderedAsyncTaskWindow 10 4 25 :: nat window_state"
  let ?st1 = "start_task 10 ?st0" and ?st2 = "start_task 11 (start_task 10 ?st0)"
  have s: "ws_started ?st0 = 10" "ws_started ?st1 = 11" "\<not> full (window_size 4) ?st0" "\<not> full (window_size 4) ?st1" by code_simp+
  have "window_reach 10 4 25 ?st1 {10} {}" using window_reach.start [OF window_reach.new s(3)] s(1) by simp
  then have "window_reach 10 4 25 ?st2 {11, 10} {}" using window_reach.start [OF _ s(4)] s(2) by fastforce
  then have "window_reach 10 4 25 (fst (finish_task 11 None ?st2)) ({11, 10} - {11}) (insert 11 {})"
    by (rule window_reach.finish) simp
  from window_commits_prefix [OF this] show ?thesis by simp
qed

text \<open>
  After an exception was rethrown, another call of \<open>rethrow_exception\<close> rethrows a null pointer, and an
  exception of a later operation is not recorded any more.
\<close>

lemma second_rethrow_is_null:
  assumes "rethrow_exception st = (Rethrown e, st')"
  shows "fst (rethrow_exception st') = NullRethrown"
    and "fst (rethrow_exception (fst (finish_task s (Some e') st'))) = NullRethrown"
  using assms by (auto simp: rethrow_exception_def finish_task_def Let_def split: option.splits)

end
