(* ===== verification/LogLoader.thy ===== *)
theory LogLoader
  imports TaskWindow
begin

text \<open>
  The record loop of \<open>LogRecordFetcher::process_file_\<close>
  (\<open>RequestInfoSvcs/RequestInfoManager/RequestLogLoader.cpp\<close>): the records of a log file are
  processed concurrently through an \<open>OrderedAsyncTaskWindow\<close>, and the number of processed lines is
  kept so that an interrupted file is resumed. The thread of the loop and the completions of the
  operations interleave: every call of the window and every completion is a step. Loading the file
  and the timing statistics are not part of the model.
\<close>

section \<open>State\<close>

text \<open>
  \<open>Head\<close>: before the test of the loop; \<open>Filling\<close>: in \<open>while (tasks.full())\<close>; \<open>Draining t\<close>: after the
  loop, with the value of \<open>terminated\<close>; \<open>Returned r\<close> and \<open>Thrown e\<close>: left with a result or an
  exception; \<open>Undefined\<close>: a null exception pointer was rethrown.
\<close>

datatype 'e phase = Head | Filling | Draining bool | Returned bool | Thrown 'e | Undefined

text \<open>
  \<open>ld_running\<close> and \<open>ld_done\<close> are the sequence numbers of the operations in flight and of those that
  completed without an exception.
\<close>

record 'e loader =
  ld_tasks :: "'e window_state"
  ld_running :: "nat set"
  ld_done :: "nat set"
  ld_sequence :: nat
  ld_processed_lines_count :: nat
  ld_processed_records :: nat
  ld_phase :: "'e phase"

definition RECORD_PROCESS_WINDOW_SIZE :: nat where
  "RECORD_PROCESS_WINDOW_SIZE = 1024"

text \<open>The state before the loop; \<open>processed\<close> is the number of lines that earlier runs processed.\<close>

definition loader_init :: "nat \<Rightarrow> 'e loader" where
  "loader_init processed =
     \<lparr>ld_tasks = OrderedAsyncTaskWindow processed RECORD_PROCESS_WINDOW_SIZE 10, ld_running = {}, ld_done = {},
      ld_sequence = processed, ld_processed_lines_count = processed, ld_processed_records = 0, ld_phase = Head\<rparr>"

section \<open>Steps\<close>

definition commit_completed :: "nat \<Rightarrow> 'e loader \<Rightarrow> 'e loader" where
  "commit_completed committed ld =
     ld\<lparr>ld_processed_records := ld_processed_records ld + (committed - ld_processed_lines_count ld),
        ld_processed_lines_count := committed\<rparr>"

text \<open>\<open>tasks.rethrow_exception()\<close>; \<open>ph\<close> is where the loop goes on without an exception.\<close>

definition rethrow_to :: "'e phase \<Rightarrow> 'e loader \<Rightarrow> 'e loader" where
  "rethrow_to ph ld =
     (case rethrow_exception (ld_tasks ld) of
        (NoException, st) \<Rightarrow> ld\<lparr>ld_tasks := st, ld_phase := ph\<rparr>
      | (Rethrown e, st) \<Rightarrow> ld\<lparr>ld_tasks := st, ld_phase := Thrown e\<rparr>
      | (NullRethrown, st) \<Rightarrow> ld\<lparr>ld_tasks := st, ld_phase := Undefined\<rparr>)"

definition start_record :: "'e loader \<Rightarrow> 'e loader" where
  "start_record ld =
     ld\<lparr>ld_tasks := start_task (ld_sequence ld) (ld_tasks ld),
        ld_running := insert (ld_sequence ld) (ld_running ld),
        ld_sequence := Suc (ld_sequence ld), ld_phase := Head\<rparr>"

definition wait_round :: "'e loader \<Rightarrow> 'e loader option" where
  "wait_round ld =
     (case wait_progress (ld_tasks ld) of
        None \<Rightarrow> None
      | Some (n, st) \<Rightarrow> Some (rethrow_to Filling (commit_completed n (ld\<lparr>ld_tasks := st\<rparr>))))"

definition drain_round :: "bool \<Rightarrow> 'e loader \<Rightarrow> 'e loader option" where
  "drain_round terminated ld =
     (case drain (ld_tasks ld) of
        None \<Rightarrow> None
      | Some n \<Rightarrow> Some (rethrow_to (Returned (\<not> terminated)) (commit_completed n ld)))"

text \<open>The operation \<open>s\<close> ends, with the exception \<open>exc\<close> or without.\<close>

definition complete_record :: "nat \<Rightarrow> 'e option \<Rightarrow> 'e loader \<Rightarrow> 'e loader" where
  "complete_record s exc ld =
     ld\<lparr>ld_tasks := fst (finish_task s exc (ld_tasks ld)), ld_running := ld_running ld - {s},
        ld_done := (if exc = None then insert s (ld_done ld) else ld_done ld)\<rparr>"

text \<open>\<open>records\<close> is the number of records in the file.\<close>

inductive loader_step :: "nat \<Rightarrow> 'e loader \<Rightarrow> 'e loader \<Rightarrow> bool" for records where
  active: "loader_step records ld (ld\<lparr>ld_phase := Filling\<rparr>)"
  if "ld_phase ld = Head" "ld_sequence ld < records"
| interrupted: "loader_step records ld (ld\<lparr>ld_phase := Draining True\<rparr>)"
  if "ld_phase ld = Head" "ld_sequence ld < records"
| at_end: "loader_step records ld (ld\<lparr>ld_phase := Draining False\<rparr>)"
  if "ld_phase ld = Head" "ld_sequence ld = records"
| wait: "loader_step records ld ld'"
  if "ld_phase ld = Filling" "full RECORD_PROCESS_WINDOW_SIZE (ld_tasks ld)" "wait_round ld = Some ld'"
| start: "loader_step records ld (start_record ld)"
  if "ld_phase ld = Filling" "\<not> full RECORD_PROCESS_WINDOW_SIZE (ld_tasks ld)"
| drained: "loader_step records ld ld'"
  if "ld_phase ld = Draining t" "drain_round t ld = Some ld'"
| completed: "loader_step records ld (complete_record s exc ld)"
  if "s \<in> ld_running ld"

inductive loader_reach :: "nat \<Rightarrow> nat \<Rightarrow> 'e loader \<Rightarrow> bool" for processed records where
  init: "loader_reach processed records (loader_init processed)"
| step: "loader_reach processed records ld \<Longrightarrow> loader_step records ld ld' \<Longrightarrow> loader_reach processed records ld'"

section \<open>Invariant\<close>

text \<open>Whether an exception of an operation is still to be reported by the window, in the phases of the loop.\<close>

definition exception_pending :: "'e loader \<Rightarrow> bool" where
  "exception_pending ld \<longleftrightarrow> ws_exception (ld_tasks ld) \<noteq> Some None"

definition loader_ok :: "nat \<Rightarrow> nat \<Rightarrow> 'e loader \<Rightarrow> bool" where
  "loader_ok processed records ld \<longleftrightarrow>
     window_ok processed RECORD_PROCESS_WINDOW_SIZE (ld_tasks ld) (ld_running ld) (ld_done ld) \<and>
     ld_sequence ld = ws_started (ld_tasks ld) \<and> ld_sequence ld \<le> records \<and>
     processed \<le> ld_processed_lines_count ld \<and> ld_processed_lines_count ld \<le> ws_committed (ld_tasks ld) \<and>
     ld_processed_records ld = ld_processed_lines_count ld - processed \<and>
     (case ld_phase ld of
        Head \<Rightarrow> exception_pending ld
      | Filling \<Rightarrow> exception_pending ld \<and> ld_sequence ld < records
      | Draining t \<Rightarrow> exception_pending ld \<and> (\<not> t \<longrightarrow> ld_sequence ld = records)
      | Returned r \<Rightarrow> ld_running ld = {} \<and> \<not> ws_failed (ld_tasks ld) \<and>
          ld_processed_lines_count ld = ld_sequence ld \<and> (r \<longrightarrow> ld_sequence ld = records)
      | Thrown e \<Rightarrow> ws_failed (ld_tasks ld)
      | Undefined \<Rightarrow> False)"

lemma loader_ok_init:
  "processed \<le> records \<Longrightarrow> loader_ok processed records (loader_init processed)"
  using window_ok_new [of processed RECORD_PROCESS_WINDOW_SIZE 10]
  by (simp add: loader_ok_def loader_init_def exception_pending_def window_size_def RECORD_PROCESS_WINDOW_SIZE_def
      OrderedAsyncTaskWindow_def State_def)

text \<open>A rethrow in the loop: the first exception leaves it, and none means that no operation has failed.\<close>

lemma rethrow_window_ok:
  assumes ok: "window_ok first w st R D" and pend: "ws_exception st \<noteq> Some None"
  obtains (none) "rethrow_exception st = (NoException, st)" "\<not> ws_failed st"
  | (thrown) e st' where "rethrow_exception st = (Rethrown e, st')" "window_ok first w st' R D"
      "ws_started st' = ws_started st" "ws_committed st' = ws_committed st" "ws_failed st'"
proof (cases "ws_exception st")
  case None
  then show ?thesis using none ok by (auto simp: rethrow_exception_def window_ok_def)
next
  case (Some p)
  then obtain e where e: "ws_exception st = Some (Some e)" using pend by (cases p) auto
  then have "ws_failed st" using ok by (auto simp: window_ok_def)
  with e show ?thesis
    using ok by (intro thrown [of e "st\<lparr>ws_exception := Some None\<rparr>"]) (auto simp: rethrow_exception_def window_ok_def)
qed

lemma loader_ok_step:
  assumes "loader_step records ld ld'" "loader_ok processed records ld"
  shows "loader_ok processed records ld'"
  using assms
proof (cases rule: loader_step.cases)
  case wait
  let ?st = "ld_tasks ld"
  obtain n st where w: "wait_progress ?st = Some (n, st)" "ld' = rethrow_to Filling (commit_completed n (ld\<lparr>ld_tasks := st\<rparr>))"
    using wait(3) by (auto simp: wait_round_def split: option.splits)
  have ok: "window_ok processed RECORD_PROCESS_WINDOW_SIZE ?st (ld_running ld) (ld_done ld)"
    using assms(2) by (simp add: loader_ok_def)
  note st = wait_progress_ok [OF ok w(1)]
  have pend: "ws_exception st \<noteq> Some None" using assms(2) wait(1) st(3) by (simp add: loader_ok_def exception_pending_def)
  show ?thesis
    using st(1) pend
  proof (cases rule: rethrow_window_ok)
    case none
    then show ?thesis
      using assms(2) wait(1) st w(2) pend by (auto simp: loader_ok_def rethrow_to_def commit_completed_def exception_pending_def)
  next
    case (thrown e st')
    then show ?thesis
      using assms(2) wait(1) st w(2) by (auto simp: loader_ok_def rethrow_to_def commit_completed_def)
  qed
next
  case start
  then show ?thesis
    using assms(2) start_task_ok [of processed RECORD_PROCESS_WINDOW_SIZE "ld_tasks ld" "ld_running ld" "ld_done ld"]
    by (auto simp: loader_ok_def start_record_def exception_pending_def start_task_def)
next
  case (drained t)
  let ?st = "ld_tasks ld"
  have d: "all_landed ?st" "ld' = rethrow_to (Returned (\<not> t)) (commit_completed (ws_committed ?st) ld)"
    using drained(2) by (auto simp: drain_round_def drain_def split: if_splits)
  have ok: "window_ok processed RECORD_PROCESS_WINDOW_SIZE ?st (ld_running ld) (ld_done ld)"
    using assms(2) by (simp add: loader_ok_def)
  have R: "ld_running ld = {}" by (rule window_ok_landed [OF ok d(1)])
  have pend: "ws_exception ?st \<noteq> Some None" using assms(2) drained(1) by (simp add: loader_ok_def exception_pending_def)
  show ?thesis
    using ok pend
  proof (cases rule: rethrow_window_ok)
    case none
    then show ?thesis
      using assms(2) drained(1) d(2) R landed_committed [of processed RECORD_PROCESS_WINDOW_SIZE ?st "ld_done ld"]
      by (auto simp: loader_ok_def rethrow_to_def commit_completed_def)
  next
    case (thrown e st')
    then show ?thesis
      using assms(2) drained(1) d(2) by (auto simp: loader_ok_def rethrow_to_def commit_completed_def)
  qed
next
  case (completed s exc)
  let ?st = "ld_tasks ld"
  have ok: "window_ok processed RECORD_PROCESS_WINDOW_SIZE ?st (ld_running ld) (ld_done ld)"
    using assms(2) by (simp add: loader_ok_def)
  note fin = finish_task_ok [OF ok completed(2), of exc]
  show ?thesis
    using assms(2) completed fin finish_task_mono [where st = ?st and s = s and exc = exc]
    by (auto simp: loader_ok_def complete_record_def exception_pending_def split: phase.splits)
qed (auto simp: loader_ok_def exception_pending_def)

lemma loader_reach_ok:
  assumes "loader_reach processed records ld" "processed \<le> records"
  shows "loader_ok processed records ld"
  using assms
proof (induction rule: loader_reach.induct)
  case init
  then show ?case by (rule loader_ok_init)
next
  case (step ld ld')
  then show ?case using loader_ok_step by blast
qed

section \<open>Every run ends\<close>

fun phase_rank :: "'e phase \<Rightarrow> nat" where
  "phase_rank Head = 3"
| "phase_rank Filling = 2"
| "phase_rank (Draining t) = 1"
| "phase_rank _ = 0"

definition potential :: "nat \<Rightarrow> 'e loader \<Rightarrow> nat" where
  "potential records ld = 6 * (records - ld_sequence ld) + phase_rank (ld_phase ld) + 2 * card (ld_running ld) +
     ws_completed_since_wait (ld_tasks ld)"

lemma rethrow_to_frame:
  "ld_sequence (rethrow_to ph ld) = ld_sequence ld" "ld_running (rethrow_to ph ld) = ld_running ld"
  "ws_completed_since_wait (ld_tasks (rethrow_to ph ld)) = ws_completed_since_wait (ld_tasks ld)"
  "phase_rank (ld_phase (rethrow_to ph ld)) \<le> phase_rank ph"
  by (auto simp: rethrow_to_def rethrow_exception_def split: option.splits)

lemma commit_completed_frame [simp]:
  "ld_sequence (commit_completed n ld) = ld_sequence ld" "ld_running (commit_completed n ld) = ld_running ld"
  "ld_tasks (commit_completed n ld) = ld_tasks ld" "ld_phase (commit_completed n ld) = ld_phase ld"
  by (simp_all add: commit_completed_def)

lemma loader_step_potential:
  assumes "loader_step records ld ld'" "loader_ok processed records ld"
  shows "potential records ld' < potential records ld"
  using assms
proof (cases rule: loader_step.cases)
  case wait
  let ?st = "ld_tasks ld"
  have ok: "window_ok processed RECORD_PROCESS_WINDOW_SIZE ?st (ld_running ld) (ld_done ld)"
    using assms(2) by (simp add: loader_ok_def)
  obtain st where w: "wait_progress ?st = Some (ws_committed ?st, st)" "st = ?st\<lparr>ws_completed_since_wait := 0\<rparr>"
    "progress_ready ?st" "ld' = rethrow_to Filling (commit_completed (ws_committed ?st) (ld\<lparr>ld_tasks := st\<rparr>))"
    using wait(3) by (auto simp: wait_round_def wait_progress_def split: if_splits)
  show ?thesis
  proof (cases "ws_failed ?st")
    case True
    then have "ws_exception st \<noteq> None" using ok w(2) by (auto simp: window_ok_def)
    then have "phase_rank (ld_phase ld') = 0"
      using w(4) by (auto simp: rethrow_to_def rethrow_exception_def split: option.splits)
    then show ?thesis using wait(1) w(2,4) by (simp add: potential_def rethrow_to_frame)
  next
    case False
    then have "1 \<le> ws_completed_since_wait ?st" using full_wait_completed [OF ok wait(2) w(3)] by simp
    then show ?thesis
      using wait(1) w(2,4) rethrow_to_frame(4) [of Filling "commit_completed (ws_committed ?st) (ld\<lparr>ld_tasks := st\<rparr>)"]
      by (simp add: potential_def rethrow_to_frame)
  qed
next
  case start
  have "finite (ld_running ld)" "ld_sequence ld < records"
    using assms(2) start(2) window_ok_facts(1) [of processed RECORD_PROCESS_WINDOW_SIZE "ld_tasks ld"] by (auto simp: loader_ok_def)
  then have "card (insert (ld_sequence ld) (ld_running ld)) \<le> Suc (card (ld_running ld))" by (simp add: card_insert_if)
  then show ?thesis using start \<open>ld_sequence ld < records\<close> by (simp add: potential_def start_record_def start_task_def)
next
  case (drained t)
  then obtain n where "ld' = rethrow_to (Returned (\<not> t)) (commit_completed n ld)"
    by (auto simp: drain_round_def split: option.splits)
  then show ?thesis
    using drained(1) rethrow_to_frame(4) [of "Returned (\<not> t)" "commit_completed n ld"] by (simp add: potential_def rethrow_to_frame)
next
  case (completed s exc)
  then have "finite (ld_running ld)"
    using assms(2) window_ok_facts(1) [of processed RECORD_PROCESS_WINDOW_SIZE "ld_tasks ld"] by (auto simp: loader_ok_def)
  then have "0 < card (ld_running ld)" using completed(2) by (auto simp: card_gt_0_iff)
  then show ?thesis
    using completed by (simp add: potential_def complete_record_def finish_task_mono(4) card_Diff_singleton)
qed (auto simp: potential_def)

lemma loader_steps_bound:
  fixes ld :: "'e loader"
  assumes "(loader_step records ^^ n) (loader_init processed) ld" "processed \<le> records"
  shows "loader_reach processed records ld \<and>
    n + potential records ld \<le> potential records (loader_init processed :: 'e loader)"
  using assms(1)
proof (induction n arbitrary: ld)
  case 0
  then show ?case by (auto intro: loader_reach.init)
next
  case (Suc n)
  then obtain ld1 where 1: "(loader_step records ^^ n) (loader_init processed) ld1" "loader_step records ld1 ld" by auto
  with Suc.IH have IH: "loader_reach processed records ld1"
    "n + potential records ld1 \<le> potential records (loader_init processed :: 'e loader)" by auto
  have "potential records ld < potential records ld1"
    using loader_step_potential [OF 1(2) loader_reach_ok [OF IH(1) assms(2)]] .
  then show ?case using IH 1(2) loader_reach.step by fastforce
qed

text \<open>The thread of the loop is blocked only while operations are in flight.\<close>

lemma loader_not_stuck:
  assumes "loader_ok processed records ld" "ld_phase ld \<noteq> Returned True" "ld_phase ld \<noteq> Returned False"
    "\<And>e. ld_phase ld \<noteq> Thrown e"
  shows "\<exists>ld'. loader_step records ld ld'"
proof (cases "ld_running ld = {}")
  case False
  then show ?thesis by (auto intro: loader_step.completed)
next
  case True
  have landed: "all_landed (ld_tasks ld)" using assms(1) True by (simp add: loader_ok_def window_ok_def all_landed_def)
  then have "wait_round ld \<noteq> None" "\<And>t. drain_round t ld \<noteq> None"
    by (auto simp: wait_round_def wait_progress_def progress_ready_def all_landed_def drain_round_def drain_def)
  moreover have "ld_sequence ld \<le> records" "ld_phase ld \<noteq> Undefined" using assms(1) by (auto simp: loader_ok_def)
  moreover have "\<exists>ld'. loader_step records ld ld'" if "ld_phase ld = Draining t" for t
    using \<open>drain_round t ld \<noteq> None\<close> that by (auto intro: loader_step.drained)
  ultimately show ?thesis
    using assms(2-4) loader_step.intros(1-5) [where ld = ld and records = records]
    by (cases "ld_phase ld") (auto dest: le_neq_implies_less)
qed

section \<open>Properties\<close>

text \<open>
  C5. Whatever the interleaving, the number of processed lines that the loop keeps counts only
  records that were processed together with all records before them, so a resumed file loses none; the
  statistics count exactly these records, no null exception is rethrown, and the loop reports the
  file as fully processed only when all its records are.
\<close>

theorem loader_loses_no_record:
  assumes "loader_reach processed records ld" "processed \<le> records"
  shows "{processed..<ld_processed_lines_count ld} \<subseteq> ld_done ld \<and>
    ld_processed_records ld = ld_processed_lines_count ld - processed \<and>
    ld_phase ld \<noteq> Undefined \<and>
    (\<forall>r. ld_phase ld = Returned r \<longrightarrow> ld_done ld = {processed..<ld_processed_lines_count ld} \<and> ld_running ld = {}) \<and>
    (ld_phase ld = Returned True \<longrightarrow> ld_processed_lines_count ld = records)"
proof -
  note ok = loader_reach_ok [OF assms]
  have win: "window_ok processed RECORD_PROCESS_WINDOW_SIZE (ld_tasks ld) (ld_running ld) (ld_done ld)"
    using ok by (simp add: loader_ok_def)
  have "{processed..<ld_processed_lines_count ld} \<subseteq> {processed..<ws_committed (ld_tasks ld)}"
    using ok by (auto simp: loader_ok_def)
  moreover have "{processed..<ws_committed (ld_tasks ld)} \<subseteq> ld_done ld" using win unfolding window_ok_def by blast
  moreover have "ld_done ld = {processed..<ld_processed_lines_count ld} \<and> ld_running ld = {}" if "ld_phase ld = Returned r" for r
    using ok win that by (auto simp: loader_ok_def window_ok_def)
  ultimately show ?thesis using ok by (auto simp: loader_ok_def)
qed

definition sample_end :: "nat loader" where
  "sample_end = (complete_record 0 None (start_record (loader_init 0)))\<lparr>ld_phase := Draining False\<rparr>"

lemma sample_run: "loader_reach 0 1 sample_end"
proof -
  let ?ld0 = "loader_init 0 :: nat loader"
  let ?ld1 = "?ld0\<lparr>ld_phase := Filling\<rparr>"
  have "ld_phase ?ld0 = Head" "ld_sequence ?ld0 < 1" by (simp_all add: loader_init_def)
  then have 1: "loader_reach 0 1 ?ld1" by (intro loader_reach.step [OF loader_reach.init] loader_step.active)
  have "\<not> full RECORD_PROCESS_WINDOW_SIZE (ld_tasks ?ld1)"
    by (simp add: full_def loader_init_def OrderedAsyncTaskWindow_def State_def RECORD_PROCESS_WINDOW_SIZE_def)
  then have 2: "loader_reach 0 1 (start_record ?ld1)" by (intro loader_reach.step [OF 1] loader_step.start) simp_all
  have eq: "start_record ?ld1 = start_record ?ld0" by (simp add: start_record_def)
  have "0 \<in> ld_running (start_record ?ld0)" by (simp add: start_record_def loader_init_def)
  then have 3: "loader_reach 0 1 (complete_record 0 None (start_record ?ld0))"
    using 2 eq by (intro loader_reach.step [OF _ loader_step.completed]) auto
  show ?thesis unfolding sample_end_def
    by (rule loader_reach.step [OF 3 loader_step.at_end]) (simp_all add: complete_record_def start_record_def loader_init_def)
qed

theorem loader_loses_no_record_witness:
  "{0..<ld_processed_lines_count sample_end} \<subseteq> ld_done sample_end \<and> ld_phase sample_end \<noteq> Undefined"
  using loader_loses_no_record [OF sample_run] by simp

text \<open>
  C6. Every run of the loop ends: it has at most six steps per record and three more, and a state in
  which no step is possible is one in which the loop has returned or thrown and no operation is in
  flight. In particular the loop never waits for a completion that cannot come.
\<close>

theorem loader_ends:
  fixes ld :: "'e loader"
  assumes "(loader_step records ^^ n) (loader_init processed) ld" "processed \<le> records"
  shows "n \<le> 6 * (records - processed) + 3 \<and>
    ((\<nexists>ld'. loader_step records ld ld') \<longrightarrow>
       ld_running ld = {} \<and> ((\<exists>r. ld_phase ld = Returned r) \<or> (\<exists>e. ld_phase ld = Thrown e)))"
proof
  have "potential records (loader_init processed :: 'e loader) = 6 * (records - processed) + 3"
    by (simp add: potential_def loader_init_def OrderedAsyncTaskWindow_def State_def)
  then show "n \<le> 6 * (records - processed) + 3" using loader_steps_bound [OF assms] by simp
  have ok: "loader_ok processed records ld" using loader_steps_bound [OF assms] loader_reach_ok assms(2) by blast
  show "(\<nexists>ld'. loader_step records ld ld') \<longrightarrow>
      ld_running ld = {} \<and> ((\<exists>r. ld_phase ld = Returned r) \<or> (\<exists>e. ld_phase ld = Thrown e))"
    using loader_not_stuck [OF ok] loader_step.completed [of _ ld records] by (metis (full_types) ex_in_conv)
qed

theorem loader_ends_witness:
  "(loader_step 0 ^^ 1) (loader_init 0 :: nat loader) ((loader_init 0)\<lparr>ld_phase := Draining False\<rparr>) \<and>
   (1::nat) \<le> 6 * (0 - 0) + 3"
proof -
  have "loader_step 0 (loader_init 0 :: nat loader) ((loader_init 0)\<lparr>ld_phase := Draining False\<rparr>)"
    by (rule loader_step.at_end) (simp_all add: loader_init_def)
  then have "(loader_step 0 ^^ 1) (loader_init 0 :: nat loader) ((loader_init 0)\<lparr>ld_phase := Draining False\<rparr>)" by auto
  with loader_ends [OF this] show ?thesis by simp
qed

end
