(* ===== verification/ExprParser.thy ===== *)
theory ExprParser
  imports ExprChannelOps
begin

text \<open>
  \<open>ExpressionChannelParser\<close> and \<open>NonLinkedExpressionChannel\<close> (\<open>CampaignSvcs/CampaignServer\<close>): reading
  a channel condition such as \<open>1 & (2 | 3)\<close> from the configuration, and printing it. Pointers into
  the sub string are indexes; bracket counts are integers, except for the unsigned counter of
  \<open>parse_op_\<close>. \<open>String::StringManip::trim\<close> and the number reader \<open>Stream::Parser\<close> are not part of the
  repository and are arguments: \<open>trim\<close>, and \<open>read_id\<close>, the channel id when the whole text is one.
\<close>

section \<open>Expressions\<close>

datatype nl_operation = NL_NOP | NL_AND | NL_OR | NL_AND_NOT

fun op_char :: "nl_operation \<Rightarrow> char" where
  "op_char NL_NOP = CHR ''-''"
| "op_char NL_AND = CHR ''&''"
| "op_char NL_OR = CHR ''|''"
| "op_char NL_AND_NOT = CHR ''^''"

datatype nl_expression =
  NlExpression (nl_op: nl_operation) (nl_channel_id: nat) (nl_sub_channels: "nl_expression list")

fun nl_equal :: "nl_expression \<Rightarrow> nl_expression \<Rightarrow> bool" where
  "nl_equal (NlExpression op k es) (NlExpression op' k' es') \<longleftrightarrow>
     op = op' \<and> (op \<noteq> NL_NOP \<or> k = k') \<and> length es = length es' \<and> list_all2 nl_equal es es'"

fun nl_all_channels :: "nl_expression \<Rightarrow> nat set" where
  "nl_all_channels (NlExpression op k es) =
     (if op = NL_NOP then (if k \<noteq> 0 then {k} else {}) else \<Union> (set (map nl_all_channels es)))"

fun print_expression :: "nl_expression \<Rightarrow> string" where
  "print_expression (NlExpression op k es) =
     (if op = NL_NOP then to_string k
      else ''('' @ join_with ('' '' @ [op_char op] @ '' '') (map print_expression es) @ '')'')"

section \<open>Removal of enclosing brackets\<close>

definition isspace :: "char \<Rightarrow> bool" where
  "isspace c \<longleftrightarrow> c \<in> {CHR '' '', CHR 0x09, CHR 0x0A, CHR 0x0B, CHR 0x0C, CHR 0x0D}"

text \<open>\<open>OutOfRange\<close>: a pointer has left the sub string.\<close>

datatype parse_error = IncorrectBrackets | EmptyExpression | IllegalFormat | NotAChannelId | OutOfRange

text \<open>
  The inner loop: from the end of the sub string to a closing bracket. The pointers never cross, so
  the test \<open>rev_border_it != border_it\<close> is written as an inequality.
\<close>

function close_scan :: "string \<Rightarrow> nat \<Rightarrow> nat \<Rightarrow> nat \<times> bool" where
  "close_scan s border rev_border =
     (if rev_border \<le> border then (rev_border, False)
      else if isspace (s ! rev_border) then close_scan s border (rev_border - 1)
      else if s ! rev_border = CHR '')'' then (rev_border - 1, True)
      else (rev_border, False))"
  by pat_completeness auto
termination by (relation "measure (\<lambda>(_, _, r). r)") auto

declare close_scan.simps [simp del]

lemma close_scan_le: "fst (close_scan s b r) \<le> r"
proof (induction s b r rule: close_scan.induct)
  case (1 s b r)
  then show ?case by (cases "b < r \<and> isspace (s ! r)") (auto simp: close_scan.simps [of s b r])
qed

text \<open>The outer loop; the value holds the two pointers and \<open>remove_bracket_count\<close>.\<close>

function border_scan :: "string \<Rightarrow> nat \<Rightarrow> nat \<Rightarrow> int \<Rightarrow> parse_error + nat \<times> nat \<times> int" where
  "border_scan s border rev_border cnt =
     (if rev_border \<le> border then Inr (border, rev_border, cnt)
      else if isspace (s ! border) then border_scan s (Suc border) rev_border cnt
      else if s ! border = CHR ''('' then
        (let (rev_border', found) = close_scan s border rev_border;
             cnt' = (if found then cnt + 1 else cnt)
         in if rev_border' = border
            then (if found then Inr (border, rev_border', cnt') else Inl IncorrectBrackets)
            else if found then border_scan s (Suc border) rev_border' cnt'
            else Inr (border, rev_border', cnt'))
      else Inr (border, rev_border, cnt))"
  by pat_completeness auto

termination
proof (relation "measure (\<lambda>(_, b, r, _). Suc r - b)", goal_cases)
  case (3 s b r c x r' found cnt')
  then have "r' \<le> r" using close_scan_le [of s b r] by (metis fst_conv)
  then show ?case using 3 by auto
qed auto

declare border_scan.simps [simp del]

text \<open>One character in the search for \<open>bracket_count_min\<close>; the state holds the count and its minimum.\<close>

definition count_step :: "int \<times> int \<Rightarrow> char \<Rightarrow> int \<times> int" where
  "count_step st c =
     (if c = CHR ''('' then (fst st + 1, snd st)
      else if c = CHR '')'' then (fst st - 1, min (snd st) (fst st - 1))
      else st)"

text \<open>The loops that clear excess brackets, from the end and from the beginning.\<close>

fun strip_close :: "string \<Rightarrow> nat \<Rightarrow> int \<Rightarrow> nat option" where
  "strip_close s 0 found = None"
| "strip_close s (Suc n) found =
     (if s ! n \<noteq> CHR '')'' then strip_close s n found
      else if found - 1 \<noteq> 0 then strip_close s n (found - 1)
      else Some n)"

fun strip_open :: "string \<Rightarrow> int \<Rightarrow> string option" where
  "strip_open [] found = None"
| "strip_open (c # s) found =
     (if c \<noteq> CHR ''('' then strip_open s found
      else if found - 1 \<noteq> 0 then strip_open s (found - 1)
      else Some s)"

definition remove_border_parenthesis :: "string \<Rightarrow> parse_error + string" where
  "remove_border_parenthesis s =
     (if s = [] then Inr []
      else case border_scan s 0 (length s - 1) 0 of
             Inl e \<Rightarrow> Inl e
           | Inr (border, rev_border, cnt) \<Rightarrow>
               (let n = snd (foldl count_step (cnt, cnt) (drop border (take rev_border s)))
                in if n \<noteq> 0
                   then (case strip_close s (length s) n of
                           None \<Rightarrow> Inl OutOfRange
                         | Some e \<Rightarrow> (case strip_open (take e s) n of None \<Rightarrow> Inl OutOfRange | Some s' \<Rightarrow> Inr s'))
                   else Inr s))"

section \<open>Parsing\<close>

text \<open>The pieces between the operators outside of brackets.\<close>

fun split_top :: "char \<Rightarrow> u32 \<Rightarrow> string \<Rightarrow> string \<Rightarrow> string list" where
  "split_top op depth piece [] = [piece]"
| "split_top op depth piece (c # s) =
     (if c = op then (if depth = 0 then piece # split_top op depth [] s else split_top op depth (piece @ [c]) s)
      else if c = CHR ''('' then split_top op (depth + 1) (piece @ [c]) s
      else if c = CHR '')'' then split_top op (depth - 1) (piece @ [c]) s
      else split_top op depth (piece @ [c]) s)"

text \<open>A list of calls that may raise; the first error ends it. \<open>None\<close>: the calls ran out of fuel.\<close>

fun parse_each :: "('a \<Rightarrow> (parse_error + 'b) option) \<Rightarrow> 'a list \<Rightarrow> (parse_error + 'b list) option" where
  "parse_each f [] = Some (Inr [])"
| "parse_each f (x # xs) =
     (case f x of
        None \<Rightarrow> None
      | Some (Inl e) \<Rightarrow> Some (Inl e)
      | Some (Inr y) \<Rightarrow>
          (case parse_each f xs of None \<Rightarrow> None | Some (Inl e) \<Rightarrow> Some (Inl e) | Some (Inr ys) \<Rightarrow> Some (Inr (y # ys))))"

text \<open>\<open>parse_op_\<close>, with the recursive call as an argument; the inner \<open>None\<close>: the operator does not occur.\<close>

definition parse_op ::
  "(string \<Rightarrow> (parse_error + nl_expression) option) \<Rightarrow> string \<Rightarrow> nl_operation \<Rightarrow>
   (parse_error + nl_expression option) option" where
  "parse_op parse s op =
     (if s = [] then Some (Inl EmptyExpression)
      else if hd s = op_char op then Some (Inl IllegalFormat)
      else (let pieces = split_top (op_char op) 0 [] s
            in if length pieces = 1 then Some (Inr None)
               else (case parse_each parse pieces of
                       None \<Rightarrow> None
                     | Some (Inl e) \<Rightarrow> Some (Inl e)
                     | Some (Inr es) \<Rightarrow> Some (Inr (Some (NlExpression op 0 es))))))"

text \<open>The operators in the order in which \<open>parse_expr_\<close> tries them.\<close>

fun first_op ::
  "(string \<Rightarrow> (parse_error + nl_expression) option) \<Rightarrow> string \<Rightarrow> nl_operation list \<Rightarrow>
   (parse_error + nl_expression option) option" where
  "first_op parse s [] = Some (Inr None)"
| "first_op parse s (op # ops) =
     (case parse_op parse s op of
        Some (Inr None) \<Rightarrow> first_op parse s ops
      | r \<Rightarrow> r)"

fun parse_expr ::
  "(string \<Rightarrow> string) \<Rightarrow> (string \<Rightarrow> nat option) \<Rightarrow> nat \<Rightarrow> string \<Rightarrow> (parse_error + nl_expression) option" where
  "parse_expr trim read_id 0 s = None"
| "parse_expr trim read_id (Suc fuel) s =
     (case remove_border_parenthesis s of
        Inl e \<Rightarrow> Some (Inl e)
      | Inr s1 \<Rightarrow>
          (let s2 = trim s1
           in case first_op (parse_expr trim read_id fuel) s2 [NL_OR, NL_AND, NL_AND_NOT] of
                None \<Rightarrow> None
              | Some (Inl e) \<Rightarrow> Some (Inl e)
              | Some (Inr (Some x)) \<Rightarrow> Some (Inr x)
              | Some (Inr None) \<Rightarrow>
                  (case read_id s2 of
                     None \<Rightarrow> Some (Inl NotAChannelId)
                   | Some k \<Rightarrow> Some (Inr (NlExpression NL_NOP k [])))))"

text \<open>Every level of the recursion works on a shorter text, so the length of the text is enough fuel.\<close>

definition parse :: "(string \<Rightarrow> string) \<Rightarrow> (string \<Rightarrow> nat option) \<Rightarrow> string \<Rightarrow> (parse_error + nl_expression) option" where
  "parse trim read_id s = parse_expr trim read_id (Suc (length s)) s"

end
