(* ===== verification/ExprParserProps.thy ===== *)
theory ExprParserProps
  imports ExprParser
begin

text \<open>
  What \<open>print_expression\<close> writes, \<open>parse\<close> reads back. The argument follows the bracket depth of the
  text: enclosing brackets are removed exactly once per level, and operators are only found outside
  of brackets.
\<close>

section \<open>Bracket depth\<close>

definition bracket :: "char \<Rightarrow> int" where
  "bracket c = (if c = CHR ''('' then 1 else if c = CHR '')'' then -1 else 0)"

fun depth :: "string \<Rightarrow> int" where
  "depth [] = 0"
| "depth (c # s) = bracket c + depth s"

lemma depth_append [simp]: "depth (s @ t) = depth s + depth t"
  by (induction s) simp_all

lemma depth_plain: "\<forall>c\<in>set s. bracket c = 0 \<Longrightarrow> depth s = 0"
  by (induction s) simp_all

text \<open>A text whose brackets match, at most \<open>N\<close> deep.\<close>

definition closed :: "nat \<Rightarrow> string \<Rightarrow> bool" where
  "closed N t \<longleftrightarrow> depth t = 0 \<and> (\<forall>i. 0 \<le> depth (take i t) \<and> depth (take i t) \<le> int N)"

text \<open>The character occurs only inside of brackets.\<close>

definition guarded :: "char \<Rightarrow> string \<Rightarrow> bool" where
  "guarded op t \<longleftrightarrow> (\<forall>i<length t. t ! i = op \<longrightarrow> 1 \<le> depth (take i t))"

lemma depth_take_append:
  "depth (take i (s @ t)) = depth (take i s) + depth (take (i - length s) t)"
  by simp

lemma closed_append:
  assumes "closed N s" "closed N t"
  shows "closed N (s @ t)"
proof -
  have "0 \<le> depth (take i (s @ t)) \<and> depth (take i (s @ t)) \<le> int N" for i
    using assms by (cases "i < length s") (auto simp: closed_def depth_take_append)
  then show ?thesis using assms by (simp add: closed_def)
qed

lemma closed_mono: "closed N t \<Longrightarrow> N \<le> M \<Longrightarrow> closed M t"
  by (auto simp: closed_def intro: order_trans)

lemma closed_plain: "\<forall>c\<in>set t. bracket c = 0 \<Longrightarrow> closed N t"
proof -
  assume *: "\<forall>c\<in>set t. bracket c = 0"
  then have "depth (take i t) = 0" for i by (intro depth_plain) (auto dest: in_set_takeD)
  then show ?thesis using * by (simp add: closed_def depth_plain)
qed

lemma closed_wrap:
  assumes "closed N t"
  shows "closed (Suc N) (''('' @ t @ '')'')"
proof -
  have "0 \<le> depth (take i (''('' @ t @ '')'')) \<and> depth (take i (''('' @ t @ '')'')) \<le> int (Suc N)" for i
  proof (cases i)
    case (Suc j)
    have "0 \<le> depth (take j t)" "depth (take j t) \<le> int N" "depth t = 0" using assms by (auto simp: closed_def)
    then show ?thesis
      using Suc by (cases "j - length t") (auto simp: bracket_def)
  qed simp
  then show ?thesis using assms by (simp add: closed_def bracket_def)
qed

lemma guarded_append:
  assumes "closed N s" "guarded op s" "guarded op t"
  shows "guarded op (s @ t)"
  unfolding guarded_def
proof (intro allI impI)
  fix i assume i: "i < length (s @ t)" "(s @ t) ! i = op"
  show "1 \<le> depth (take i (s @ t))"
    using assms i by (cases "i < length s") (auto simp: guarded_def closed_def nth_append)
qed

lemma guarded_plain: "op \<notin> set t \<Longrightarrow> guarded op t"
  by (auto simp: guarded_def)

lemma guarded_wrap:
  assumes "closed N t" "bracket op = 0"
  shows "guarded op (''('' @ t @ '')'')"
  unfolding guarded_def
proof (intro allI impI)
  fix i assume i: "i < length (''('' @ t @ '')'')" "(''('' @ t @ '')'') ! i = op"
  with assms(2) obtain j where j: "i = Suc j" by (cases i) (auto simp: bracket_def)
  have "0 \<le> depth (take j t)" using assms(1) by (simp add: closed_def)
  moreover have "j \<le> length t" using i j by simp
  ultimately show "1 \<le> depth (take i (''('' @ t @ '')''))" using j by (simp add: bracket_def)
qed

section \<open>Splitting at operators\<close>

lemma depth_zero_iff:
  fixes d :: int
  assumes "0 \<le> d" "d < 2 ^ 32"
  shows "(word_of_int d :: u32) = 0 \<longleftrightarrow> d = 0"
proof
  assume "(word_of_int d :: u32) = 0"
  then have "uint (word_of_int d :: u32) = 0" by simp
  then show "d = 0" using assms by (simp add: uint_word_of_int)
qed simp

text \<open>A text in which the operator occurs only inside of brackets is passed over.\<close>

lemma split_top_pass:
  assumes "bracket op = 0"
    and "\<forall>i<length t. t ! i = op \<longrightarrow> 1 \<le> d + depth (take i t)"
    and "\<forall>i. 0 \<le> d + depth (take i t) \<and> d + depth (take i t) < 2 ^ 32"
  shows "split_top op (word_of_int d) piece (t @ rest) = split_top op (word_of_int (d + depth t)) (piece @ t) rest"
  using assms(2,3)
proof (induction t arbitrary: d piece)
  case (Cons c t)
  have 1: "\<forall>i<length t. t ! i = op \<longrightarrow> 1 \<le> (d + bracket c) + depth (take i t)"
  proof (intro allI impI)
    fix i assume "i < length t" "t ! i = op"
    then show "1 \<le> (d + bracket c) + depth (take i t)" using Cons.prems(1) [rule_format, of "Suc i"] by simp
  qed
  have 2: "\<forall>i. 0 \<le> (d + bracket c) + depth (take i t) \<and> (d + bracket c) + depth (take i t) < 2 ^ 32"
  proof
    fix i show "0 \<le> (d + bracket c) + depth (take i t) \<and> (d + bracket c) + depth (take i t) < 2 ^ 32"
      using Cons.prems(2) [rule_format, of "Suc i"] by simp
  qed
  have d: "0 \<le> d" "d < 2 ^ 32" using Cons.prems(2) [rule_format, of 0] by auto
  have "c = op \<longrightarrow> (word_of_int d :: u32) \<noteq> 0"
    using Cons.prems(1) [rule_format, of 0] depth_zero_iff [OF d] by auto
  moreover have "split_top op (word_of_int (d + bracket c)) (piece @ [c]) (t @ rest) =
      split_top op (word_of_int (d + bracket c + depth t)) (piece @ [c] @ t) rest"
    using Cons.IH [OF 1 2, of "piece @ [c]"] by simp
  ultimately show ?case
    using assms(1) by (auto simp: bracket_def algebra_simps split: if_splits)
qed simp

lemma split_top_guarded:
  assumes "bracket op = 0" "closed N t" "N < 2 ^ 32" "guarded op t"
  shows "split_top op 0 piece (t @ rest) = split_top op 0 (piece @ t) rest"
proof -
  have "int N < int (2 ^ 32)" using assms(3) by (simp only: of_nat_less_iff)
  then have N: "int N < 2 ^ 32" by simp
  have "\<forall>i. 0 \<le> 0 + depth (take i t) \<and> 0 + depth (take i t) < 2 ^ 32"
  proof
    fix i
    have "0 \<le> depth (take i t)" "depth (take i t) \<le> int N" using assms(2) by (auto simp: closed_def)
    then show "0 \<le> 0 + depth (take i t) \<and> 0 + depth (take i t) < 2 ^ 32" using N by linarith
  qed
  then show ?thesis
    using split_top_pass [OF assms(1), of t 0 piece rest] assms(2,4) by (simp add: guarded_def closed_def)
qed

text \<open>The pieces of a joined text keep the blanks around the operator.\<close>

fun padded :: "string \<Rightarrow> string list \<Rightarrow> string list" where
  "padded l [] = []"
| "padded l [p] = [l @ p]"
| "padded l (p # q # ps) = (l @ p @ '' '') # padded '' '' (q # ps)"

lemma split_top_join:
  assumes "bracket op = 0" "op \<noteq> CHR '' ''" "N < 2 ^ 32" "\<forall>p\<in>set ps. closed N p \<and> guarded op p" "ps \<noteq> []"
  shows "split_top op 0 l (join_with ('' '' @ [op] @ '' '') ps) = padded l ps"
  using assms(4,5)
proof (induction l ps rule: padded.induct)
  case (2 l p)
  then show ?case using split_top_guarded [OF assms(1) _ assms(3), of p l "[]"] by simp
next
  case (3 l p q ps)
  have "split_top op 0 l (p @ '' '' @ op # '' '' @ join_with ('' '' @ [op] @ '' '') (q # ps)) =
      split_top op 0 (l @ p) ('' '' @ op # '' '' @ join_with ('' '' @ [op] @ '' '') (q # ps))"
    using split_top_guarded [OF assms(1) _ assms(3), of p l] "3.prems" by simp
  also have "\<dots> = (l @ p @ '' '') # split_top op 0 '' '' (join_with ('' '' @ [op] @ '' '') (q # ps))"
    using assms(1,2) by (auto simp: bracket_def)
  finally show ?case using 3 by simp
qed simp

section \<open>Enclosing brackets\<close>

abbreviation solid :: "char \<Rightarrow> bool" where
  "solid c \<equiv> \<not> isspace c \<and> bracket c = 0"

abbreviation blanks :: "string \<Rightarrow> bool" where
  "blanks s \<equiv> list_all isspace s"

lemma space_bracket: "isspace c \<Longrightarrow> bracket c = 0"
  by (auto simp: isspace_def bracket_def)

lemma close_scan_solid:
  assumes "b < ld" "ld \<le> r" "solid (s ! ld)"
  shows "ld \<le> fst (close_scan s b r)"
  using assms
proof (induction s b r rule: close_scan.induct)
  case (1 s b r)
  show ?case
  proof (cases "r = ld")
    case True
    then have "close_scan s b r = (r, False)"
      using "1.prems" by (subst close_scan.simps) (auto simp: bracket_def)
    then show ?thesis using True by simp
  next
    case False
    then have "ld \<le> r - 1" "b < r" using "1.prems" by auto
    then show ?thesis using "1.IH" "1.prems" by (cases "isspace (s ! r)") (auto simp: close_scan.simps [of s b r])
  qed
qed

text \<open>The scan stops between a solid character on the left and one on the right, and counts opening brackets.\<close>

lemma border_scan_solid:
  assumes "b \<le> fd" "fd < ld" "ld \<le> r" "solid (s ! fd)" "solid (s ! ld)" "ld < length s"
    "n = depth (take b s)" "\<forall>i<b. s ! i \<noteq> CHR '')''"
  shows "\<exists>b' r'. border_scan s b r n = Inr (b', r', depth (take b' s)) \<and> b \<le> b' \<and> b' \<le> fd \<and> ld \<le> r' \<and> r' \<le> r"
  using assms
proof (induction s b r n rule: border_scan.induct)
  case (1 s b r n)
  have b: "b < r" "b < length s" using "1.prems" by auto
  then have step: "depth (take (Suc b) s) = depth (take b s) + bracket (s ! b)" by (simp add: take_Suc_conv_app_nth)
  show ?case
  proof (cases "isspace (s ! b)")
    case True
    then have "b \<noteq> fd" using "1.prems"(4) by auto
    then have "\<exists>b' r'. border_scan s (Suc b) r n = Inr (b', r', depth (take b' s)) \<and> Suc b \<le> b' \<and> b' \<le> fd \<and> ld \<le> r' \<and> r' \<le> r"
      using "1.IH"(1) b True "1.prems" step space_bracket [OF True]
      by (auto simp: less_Suc_eq isspace_def)
    then show ?thesis using True b by (subst border_scan.simps) (auto dest: Suc_leD)
  next
    case space: False
    show ?thesis
    proof (cases "s ! b = CHR ''(''")
      case True
      then have "b \<noteq> fd" using "1.prems"(4) by (auto simp: bracket_def)
      obtain r' found where c: "close_scan s b r = (r', found)" by (rule prod.exhaust)
      have r': "ld \<le> r'" "r' \<le> r" using close_scan_solid [of b ld r s] close_scan_le [of s b r] "1.prems" c by auto
      show ?thesis
      proof (cases found)
        case True
        have "\<exists>b' r''. border_scan s (Suc b) r' (n + 1) = Inr (b', r'', depth (take b' s)) \<and> Suc b \<le> b' \<and> b' \<le> fd \<and> ld \<le> r'' \<and> r'' \<le> r'"
          using "1.IH"(2) b space \<open>s ! b = CHR ''(''\<close> c True r' \<open>b \<noteq> fd\<close> "1.prems" step
          by (auto simp: less_Suc_eq bracket_def)
        then show ?thesis
          using b space \<open>s ! b = CHR ''(''\<close> c True r' "1.prems" by (subst border_scan.simps) (auto dest: Suc_leD order_trans)
      next
        case False
        then show ?thesis
          using b space \<open>s ! b = CHR ''(''\<close> c r' "1.prems" by (subst border_scan.simps) auto
      qed
    next
      case False
      then show ?thesis using b space "1.prems" by (subst border_scan.simps) auto
    qed
  qed
qed

text \<open>The minimum of the count over a text.\<close>

lemma count_fold:
  assumes "m \<le> n"
  shows "snd (foldl count_step (n, m) t) \<le> m \<and>
    (\<forall>i\<le>length t. snd (foldl count_step (n, m) t) \<le> n + depth (take i t)) \<and>
    (\<forall>k. k \<le> m \<longrightarrow> (\<forall>i\<le>length t. k \<le> n + depth (take i t)) \<longrightarrow> k \<le> snd (foldl count_step (n, m) t))"
  using assms
proof (induction t arbitrary: n m)
  case (Cons c t)
  obtain n' m' where st: "count_step (n, m) c = (n', m')" by (rule prod.exhaust)
  then have nm: "n' = n + bracket c" "m' \<le> m" "m' \<le> n'" "m' = m \<or> m' = n + bracket c"
    using Cons.prems by (auto simp: count_step_def bracket_def min_def split: if_splits)
  let ?r = "snd (foldl count_step (n', m') t)"
  from Cons.IH [OF nm(3)] have IH: "?r \<le> m'" "\<forall>i\<le>length t. ?r \<le> n' + depth (take i t)"
    "\<forall>k. k \<le> m' \<longrightarrow> (\<forall>i\<le>length t. k \<le> n' + depth (take i t)) \<longrightarrow> k \<le> ?r" by auto
  have "?r \<le> n + depth (take i (c # t))" if "i \<le> length (c # t)" for i
    using that IH(1,2) nm Cons.prems by (cases i) (auto simp: add.assoc)
  moreover have "k \<le> ?r" if k: "k \<le> m" "\<forall>i\<le>length (c # t). k \<le> n + depth (take i (c # t))" for k
  proof -
    have "k \<le> n' + depth (take i t)" if "i \<le> length t" for i
      using k(2) [rule_format, of "Suc i"] that nm(1) by simp
    moreover from this [of 0] have "k \<le> m'" using nm k(1) by auto
    ultimately show ?thesis using IH(3) by blast
  qed
  ultimately show ?case using st IH(1) nm(2) by auto
qed simp

lemma count_minimum:
  assumes "b \<le> r" "r \<le> length s"
    and low: "\<And>j. b \<le> j \<Longrightarrow> j \<le> r \<Longrightarrow> k \<le> depth (take j s)"
    and j: "b \<le> j" "j \<le> r" "depth (take j s) = k"
  shows "snd (foldl count_step (depth (take b s), depth (take b s)) (drop b (take r s))) = k"
proof -
  let ?t = "drop b (take r s)" and ?n = "depth (take b s)"
  have tt: "?n + depth (take i ?t) = depth (take (b + i) s)" if "b + i \<le> r" for i
  proof -
    have "take i ?t = drop b (take (b + i) s)" using that by (simp add: take_drop add.commute min_def)
    moreover have "take (b + i) s = take b s @ drop b (take (b + i) s)"
      by (metis append_take_drop_id take_take min.absorb1 le_add1)
    ultimately show ?thesis by (metis depth_append)
  qed
  have "\<forall>i\<le>length ?t. k \<le> ?n + depth (take i ?t)" using tt low assms(1,2) by auto
  then have "k \<le> snd (foldl count_step (?n, ?n) ?t)" using count_fold [of ?n ?n ?t] low [of b] assms(1) by blast
  moreover have "snd (foldl count_step (?n, ?n) ?t) \<le> ?n + depth (take (j - b) ?t)"
    using count_fold [of ?n ?n ?t] j(1,2) assms(1,2) by auto
  ultimately show ?thesis using tt [of "j - b"] j by simp
qed

text \<open>Blanks around the brackets are passed over.\<close>

lemma nth_past: "(pre @ c # r) ! Suc (length pre + i) = r ! i"
  using nth_append_length_plus [of "pre @ [c]" r i] by simp


lemma close_scan_blanks:
  assumes "blanks r" "i \<le> length r" "b < length pre"
  shows "close_scan (pre @ CHR '')'' # r) b (length pre + i) = (length pre - 1, True)"
  using assms(2)
proof (induction i)
  case 0
  then show ?case using assms(3) by (subst close_scan.simps) (simp add: isspace_def)
next
  case (Suc i)
  then have "isspace ((pre @ CHR '')'' # r) ! (length pre + Suc i))" using assms(1) by (simp add: nth_past list_all_length)
  then show ?case using Suc assms(3) by (subst close_scan.simps) simp
qed

lemma border_scan_blanks:
  assumes "blanks l" "length l \<le> r"
  shows "i \<le> length l \<Longrightarrow> border_scan (l @ t) i r n = border_scan (l @ t) (length l) r n"
proof (induction "length l - i" arbitrary: i)
  case (Suc k)
  then have "i < length l" by simp
  then have "isspace ((l @ t) ! i)" using assms(1) by (simp add: nth_append list_all_length)
  then have "border_scan (l @ t) i r n = border_scan (l @ t) (Suc i) r n"
    using \<open>i < length l\<close> assms(2) by (subst border_scan.simps) simp
  then show ?case using Suc by simp
qed simp

lemma strip_close_blanks:
  assumes "blanks r"
  shows "i \<le> length r \<Longrightarrow> strip_close (pre @ CHR '')'' # r) (Suc (length pre + i)) 1 = Some (length pre)"
proof (induction i)
  case (Suc i)
  have "(pre @ CHR '')'' # r) ! (length pre + Suc i) \<noteq> CHR '')''"
    using assms Suc.prems by (fastforce simp: nth_past list_all_length isspace_def Suc_le_eq)
  then show ?case using Suc by simp
qed simp

lemma strip_open_blanks: "blanks l \<Longrightarrow> strip_open (l @ CHR ''('' # t) 1 = Some t"
  by (induction l) (auto simp: isspace_def)

text \<open>
  The text of an operation: a pair of brackets around a body that does not itself start and end with a
  matching pair. Exactly that pair is removed, with what stands outside of it.
\<close>

lemma remove_enclosing:
  assumes l: "blanks l" and r: "blanks r" and body: "closed N (p @ q)" "depth p = 0"
    and p: "fp < length p" "solid (p ! fp)" and q: "lq < length q" "solid (q ! lq)"
  shows "remove_border_parenthesis (l @ CHR ''('' # p @ q @ CHR '')'' # r) = Inr (p @ q)"
proof -
  define body where "body = p @ q"
  define s where "s = l @ CHR ''('' # body @ CHR '')'' # r"
  let ?o = "length l" and ?m = "length body"
  have s: "s = (l @ CHR ''('' # body) @ CHR '')'' # r" by (simp add: s_def)
  have last: "length s - 1 = length (l @ CHR ''('' # body) + length r" "0 < ?m" using p(1) by (auto simp: s_def body_def)
  have close: "close_scan s ?o (length s - 1) = (?o + ?m, True)"
    unfolding last(1) unfolding s by (subst close_scan_blanks [OF r]) auto
  have "border_scan s 0 (length s - 1) 0 = border_scan s ?o (length s - 1) 0"
    unfolding s_def by (rule border_scan_blanks [OF l]) simp_all
  also have "\<dots> = border_scan s (Suc ?o) (?o + ?m) 1"
    using close last by (subst border_scan.simps) (simp add: s_def isspace_def)
  finally have first: "border_scan s 0 (length s - 1) 0 = border_scan s (Suc ?o) (?o + ?m) 1" .
  let ?fd = "Suc ?o + fp" and ?ld = "Suc ?o + (length p + lq)"
  have solid: "solid (s ! ?fd)" "solid (s ! ?ld)" using p q by (auto simp: s_def body_def nth_append)
  have tk: "depth (take (Suc ?o + i) s) = 1 + depth (take i body)" if "i \<le> ?m" for i
  proof -
    have "take (Suc ?o + i) s = l @ ''('' @ take i body" using that by (simp add: s_def)
    moreover have "depth l = 0" using l by (intro depth_plain) (auto simp: list_all_iff space_bracket)
    ultimately show ?thesis by (simp add: bracket_def)
  qed
  have one: "1 = depth (take (Suc ?o) s)" using tk [of 0] by simp
  have no: "\<forall>i<Suc ?o. s ! i \<noteq> CHR '')''"
    using l by (auto simp: s_def less_Suc_eq nth_append list_all_length isspace_def)
  obtain b r' where B: "border_scan s (Suc ?o) (?o + ?m) 1 = Inr (b, r', depth (take b s))"
    "Suc ?o \<le> b" "b \<le> ?fd" "?ld \<le> r'" "r' \<le> ?o + ?m"
    using border_scan_solid [of "Suc ?o" ?fd ?ld "?o + ?m" s 1, OF _ _ _ solid _ one no] p q by (auto simp: s_def body_def)
  have low: "1 \<le> depth (take j s)" if "b \<le> j" "j \<le> r'" for j
  proof -
    have "0 \<le> depth (take (j - Suc ?o) body)" using body(1) unfolding closed_def body_def by blast
    then show ?thesis using tk [of "j - Suc ?o"] that B(2,5) by simp
  qed
  have "snd (foldl count_step (depth (take b s), depth (take b s)) (drop b (take r' s))) = 1"
  proof (rule count_minimum [where j = "Suc ?o + length p"])
    show "depth (take (Suc ?o + length p) s) = 1" using tk [of "length p"] body(2) by (simp add: body_def)
  qed (use B p(1) q(1) low in \<open>auto simp: s_def body_def\<close>)
  moreover have "strip_close s (length s) 1 = Some (Suc (?o + ?m))"
  proof -
    have len: "length s = Suc (length (l @ CHR ''('' # body) + length r)" by (simp add: s_def)
    have "strip_close s (length s) 1 = Some (length (l @ CHR ''('' # body))"
      unfolding len unfolding s by (rule strip_close_blanks [OF r order_refl])
    then show ?thesis by simp
  qed
  moreover have "strip_open (take (Suc (?o + ?m)) s) 1 = Some body"
    using strip_open_blanks [OF l, of body] by (simp add: s_def)
  ultimately have "remove_border_parenthesis s = Inr body"
    using first B(1) by (simp add: remove_border_parenthesis_def s_def)
  then show ?thesis by (simp add: s_def body_def)
qed

text \<open>A text without brackets is left alone.\<close>

lemma border_scan_plain:
  assumes "\<forall>c\<in>set s. bracket c = 0" "r < length s"
  shows "\<exists>b'. border_scan s b r n = Inr (b', r, n)"
  using assms
proof (induction s b r n rule: border_scan.induct)
  case (1 s b r n)
  show ?case
  proof (cases "b < r")
    case True
    then have "s ! b \<noteq> CHR ''(''" using "1.prems" by (metis (no_types, lifting) bracket_def nth_mem order.strict_trans zero_neq_one)
    then show ?thesis using 1 True by (subst border_scan.simps) auto
  next
    case False
    then show ?thesis by (subst border_scan.simps) simp
  qed
qed

lemma remove_plain:
  assumes "\<forall>c\<in>set s. bracket c = 0"
  shows "remove_border_parenthesis s = Inr s"
proof (cases "s = []")
  case False
  then obtain b where "border_scan s 0 (length s - 1) 0 = Inr (b, length s - 1, 0)"
    using border_scan_plain [OF assms, of "length s - 1" 0 0] by auto
  moreover have "foldl count_step (0, 0) t = (0, 0)" if "\<forall>c\<in>set t. bracket c = 0" for t
    using that by (induction t) (auto simp: count_step_def bracket_def)
  then have "foldl count_step (0, 0) (drop b (take (length s - 1) s)) = (0, 0)"
    using assms by (metis in_set_dropD in_set_takeD)
  ultimately show ?thesis by (simp add: remove_border_parenthesis_def)
qed (simp add: remove_border_parenthesis_def)

section \<open>Printed texts\<close>

text \<open>
  What the parser can return: a leaf with an id that \<open>unsigned long\<close> holds, or an operation with at
  least two operands. \<open>nest\<close> is the depth of its brackets.
\<close>

fun nl_wf :: "nl_expression \<Rightarrow> bool" where
  "nl_wf (NlExpression op k es) \<longleftrightarrow>
     (if op = NL_NOP then es = [] \<and> k < 2 ^ 64 else k = 0 \<and> 2 \<le> length es \<and> list_all nl_wf es)"

fun nest :: "nl_expression \<Rightarrow> nat" where
  "nest (NlExpression op k es) = (if op = NL_NOP then 0 else Suc (foldr max (map nest es) 0))"

lemma nest_operand: "op \<noteq> NL_NOP \<Longrightarrow> e \<in> set es \<Longrightarrow> nest e \<le> foldr max (map nest es) 0"
  by (induction es) (auto simp: le_max_iff_disj)

lemma to_string_digits: "to_string k \<noteq> [] \<and> set (to_string k) \<subseteq> set ''0123456789''"
proof (induction k rule: to_string.induct)
  case (1 n)
  have digit: "char_of (48 + m) \<in> set ''0123456789''" if "m < 10" for m :: nat
  proof -
    have "m = 0 \<or> m = 1 \<or> m = 2 \<or> m = 3 \<or> m = 4 \<or> m = 5 \<or> m = 6 \<or> m = 7 \<or> m = 8 \<or> m = 9"
      using that by arith
    then show ?thesis by (elim disjE) (simp_all add: char_of_def bit_0)
  qed
  then have d: "char_of (48 + n mod 10) \<in> set ''0123456789''" by simp
  show ?case
  proof (cases "n < 10")
    case True
    then show ?thesis using d by (subst (1 2) to_string.simps) simp
  next
    case False
    then show ?thesis using 1 d by (subst (1 2) to_string.simps) simp
  qed
qed

abbreviation op_chars :: "char set" where
  "op_chars \<equiv> {CHR ''|'', CHR ''&'', CHR ''^''}"

lemma op_char_facts: "op \<noteq> NL_NOP \<Longrightarrow> op_char op \<in> op_chars"
  "op_char op \<noteq> CHR '' ''" "bracket (op_char op) = 0" "op_char op = op_char op' \<longleftrightarrow> op = op'"
  by (cases op; cases op'; simp add: bracket_def)+

lemma not_op_char: "x \<notin> op_chars \<Longrightarrow> op \<noteq> NL_NOP \<Longrightarrow> x \<noteq> op_char op"
  by (cases op) auto

text \<open>A text that can stand for an operand.\<close>

definition operand_text :: "nat \<Rightarrow> string \<Rightarrow> bool" where
  "operand_text N t \<longleftrightarrow> closed N t \<and> (\<forall>op\<in>op_chars. guarded op t) \<and> (\<exists>c\<in>set t. solid c) \<and>
     \<not> isspace (hd t) \<and> \<not> isspace (last t) \<and> hd t \<notin> op_chars"

lemma operand_text_mono: "operand_text N t \<Longrightarrow> N \<le> M \<Longrightarrow> operand_text M t"
  using closed_mono unfolding operand_text_def by blast

lemma operand_text_digits:
  assumes "t \<noteq> []" "set t \<subseteq> set ''0123456789''"
  shows "operand_text N t"
proof -
  have d: "solid c \<and> c \<notin> op_chars" if "c \<in> set ''0123456789''" for c
    using that by (auto simp: isspace_def bracket_def)
  then have t: "\<forall>c\<in>set t. solid c \<and> c \<notin> op_chars" using assms(2) by blast
  then have "closed N t" "\<forall>op\<in>op_chars. guarded op t" by (auto intro: closed_plain guarded_plain)
  moreover have "hd t \<in> set t" "last t \<in> set t" using assms(1) by simp_all
  ultimately show ?thesis using t unfolding operand_text_def by blast
qed

lemma operand_text_wrap:
  assumes "closed N t" "\<exists>c\<in>set t. solid c"
  shows "operand_text (Suc N) (''('' @ t @ '')'')"
proof -
  have "\<forall>op\<in>op_chars. guarded op (''('' @ t @ '')'')"
    using guarded_wrap [OF assms(1)] by (auto simp: bracket_def)
  then show ?thesis using closed_wrap [OF assms(1)] assms(2) by (auto simp: operand_text_def isspace_def)
qed

lemma join_with_Cons: "ps \<noteq> [] \<Longrightarrow> join_with sep (p # ps) = p @ sep @ join_with sep ps"
  by (cases ps) simp_all

lemma join_texts:
  assumes "\<forall>p\<in>set ps. operand_text N p" "ps \<noteq> []" "op \<noteq> NL_NOP" "sep = '' '' @ [op_char op] @ '' ''"
  shows "closed N (join_with sep ps) \<and> (\<exists>c\<in>set (join_with sep ps). solid c) \<and>
    (\<forall>o'\<in>op_chars. o' \<noteq> op_char op \<longrightarrow> guarded o' (join_with sep ps)) \<and> join_with sep ps \<noteq> [] \<and>
    hd (join_with sep ps) = hd (hd ps) \<and> last (join_with sep ps) = last (last ps)"
  using assms(1,2)
proof (induction ps)
  case (Cons p ps)
  have p: "closed N p" "\<exists>c\<in>set p. solid c" "\<forall>o'\<in>op_chars. guarded o' p" "p \<noteq> []"
    using Cons.prems by (auto simp: operand_text_def)
  show ?case
  proof (cases "ps = []")
    case False
    have "bracket (op_char op) = 0" by (rule op_char_facts)
    then have sep: "closed N sep" "\<forall>o'\<in>op_chars. o' \<noteq> op_char op \<longrightarrow> guarded o' sep"
      unfolding assms(4) by (auto intro!: closed_plain guarded_plain simp: bracket_def)
    note IH = Cons.IH [OF _ False]
    have "closed N (p @ sep @ join_with sep ps)" using p sep IH Cons.prems by (auto intro: closed_append)
    moreover have "\<forall>o'\<in>op_chars. o' \<noteq> op_char op \<longrightarrow> guarded o' (p @ sep @ join_with sep ps)"
      using p sep IH Cons.prems guarded_append [of N] by (metis list.set_intros(2))
    ultimately show ?thesis
      unfolding join_with_Cons [OF False] using p IH Cons.prems False by auto
  qed (use p in auto)
qed simp

lemma print_body:
  fixes es :: "nl_expression list"
  assumes "\<forall>e\<in>set es. operand_text N (print_expression e)" "es \<noteq> []" "op \<noteq> NL_NOP"
    and t: "t = join_with ('' '' @ [op_char op] @ '' '') (map print_expression es)"
  shows "closed N t" "t \<noteq> []" "\<exists>c\<in>set t. solid c" "hd t \<notin> op_chars" "\<not> isspace (hd t)" "\<not> isspace (last t)"
    and "o' \<noteq> NL_NOP \<Longrightarrow> o' \<noteq> op \<Longrightarrow> guarded (op_char o') t"
proof -
  let ?ps = "map print_expression es"
  have ps: "\<forall>p\<in>set ?ps. operand_text N p" "?ps \<noteq> []" using assms(1,2) by auto
  note J = join_texts [OF ps assms(3) refl, folded t]
  have "hd ?ps \<in> set ?ps" "last ?ps \<in> set ?ps" using hd_in_set [OF ps(2)] last_in_set [OF ps(2)] by blast+
  then have H: "operand_text N (hd ?ps)" "operand_text N (last ?ps)" using ps(1) by blast+
  show "closed N t" "t \<noteq> []" "\<exists>c\<in>set t. solid c" using J by blast+
  have hd: "hd t = hd (hd ?ps)" "last t = last (last ?ps)" using J by blast+
  show "hd t \<notin> op_chars" "\<not> isspace (hd t)" "\<not> isspace (last t)"
    using H unfolding hd operand_text_def by blast+
  show "guarded (op_char o') t" if "o' \<noteq> NL_NOP" "o' \<noteq> op"
  proof -
    have "op_char o' \<in> op_chars" "op_char o' \<noteq> op_char op" using op_char_facts(1) [OF that(1)] that(2) op_char_facts(4) by blast+
    then show ?thesis using J by blast
  qed
qed

lemma print_operand: "nl_wf e \<Longrightarrow> operand_text (nest e) (print_expression e)"
proof (induction e)
  case (NlExpression op k es)
  show ?case
  proof (cases "op = NL_NOP")
    case True
    then show ?thesis using to_string_digits [of k] by (simp add: operand_text_digits)
  next
    case False
    let ?N = "foldr max (map nest es) 0"
    have "operand_text ?N (print_expression e)" if "e \<in> set es" for e
      using NlExpression False that nest_operand [OF False that] operand_text_mono by (auto simp: list_all_iff)
    then have "\<forall>p\<in>set (map print_expression es). operand_text ?N p" by simp
    moreover have "map print_expression es \<noteq> []" using NlExpression.prems False by auto
    ultimately show ?thesis
      using join_texts [of "map print_expression es" ?N op, OF _ _ False refl] False operand_text_wrap by simp
  qed
qed

section \<open>Reading a printed text\<close>

text \<open>What the parser relies on: \<open>trim\<close> removes the blanks on both sides, and a printed channel id is read back.\<close>

definition trims :: "(string \<Rightarrow> string) \<Rightarrow> bool" where
  "trims trim \<longleftrightarrow> (\<forall>s. trim s = rev (dropWhile isspace (rev (dropWhile isspace s))))"

definition reads_ids :: "(string \<Rightarrow> nat option) \<Rightarrow> bool" where
  "reads_ids read_id \<longleftrightarrow> (\<forall>k < 2 ^ 64. read_id (to_string k) = Some k)"

lemma dropWhile_blanks: "blanks l \<Longrightarrow> \<not> isspace c \<Longrightarrow> dropWhile isspace (l @ c # t) = c # t"
  by (induction l) simp_all

lemma trim_blanks:
  assumes "trims trim" "blanks l" "blanks r" "t \<noteq> []" "\<not> isspace (hd t)" "\<not> isspace (last t)"
  shows "trim (l @ t @ r) = t"
proof -
  have "dropWhile isspace (l @ t @ r) = t @ r"
    using assms(2,4,5) by (cases t) (simp_all add: dropWhile_blanks)
  moreover have "dropWhile isspace (rev (t @ r)) = rev t"
    using assms(3,4,6) by (cases t rule: rev_cases) (simp_all add: dropWhile_blanks)
  ultimately show ?thesis using assms(1) by (simp add: trims_def)
qed

lemma parse_op_absent:
  assumes "t \<noteq> []" "hd t \<noteq> op_char op" "closed N t" "N < 2 ^ 32" "guarded (op_char op) t"
  shows "parse_op f t op = Some (Inr None)"
  using split_top_guarded [OF op_char_facts(3) assms(3,4,5), of "[]" "[]"] assms(1,2)
  by (simp add: parse_op_def)

lemma length_padded: "length (padded l ps) = length ps"
  by (induction l ps rule: padded.induct) simp_all

lemma parse_each_padded:
  assumes "\<And>e l r. e \<in> set es \<Longrightarrow> blanks l \<Longrightarrow> blanks r \<Longrightarrow> f (l @ g e @ r) = Some (Inr e)"
  shows "blanks l \<Longrightarrow> parse_each f (padded l (map g es)) = Some (Inr es)"
  using assms
proof (induction es arbitrary: l)
  case (Cons e es)
  show ?case
  proof (cases es)
    case Nil
    then show ?thesis using Cons.prems(2) [of e l "[]"] Cons.prems(1) by simp
  next
    case (Cons e' es')
    have "f (l @ g e @ '' '') = Some (Inr e)" using Cons.prems by (simp add: isspace_def)
    moreover have "parse_each f (padded '' '' (map g es)) = Some (Inr es)"
      using Cons.IH [of "'' ''"] Cons.prems(2) by (simp add: isspace_def)
    ultimately show ?thesis using Cons by simp
  qed
qed simp

lemma parse_op_join:
  assumes "op \<noteq> NL_NOP" "2 \<le> length es" "N < 2 ^ 32" "\<forall>e\<in>set es. operand_text N (print_expression e)"
    and "\<And>e l r. e \<in> set es \<Longrightarrow> blanks l \<Longrightarrow> blanks r \<Longrightarrow> f (l @ print_expression e @ r) = Some (Inr e)"
  shows "parse_op f (join_with ('' '' @ [op_char op] @ '' '') (map print_expression es)) op = Some (Inr (Some (NlExpression op 0 es)))"
proof -
  let ?t = "join_with ('' '' @ [op_char op] @ '' '') (map print_expression es)"
  have es: "es \<noteq> []" using assms(2) by auto
  note B = print_body [OF assms(4) es assms(1) refl]
  have hd: "hd ?t \<noteq> op_char op" by (rule not_op_char [OF B(4) assms(1)])
  have "\<forall>p\<in>set (map print_expression es). closed N p \<and> guarded (op_char op) p"
    using assms(1,4) by (cases op) (simp_all add: operand_text_def)
  then have split: "split_top (op_char op) 0 [] ?t = padded [] (map print_expression es)"
    by (rule split_top_join [OF op_char_facts(3,2) assms(3)]) (use es in simp)
  have "parse_each f (padded [] (map print_expression es)) = Some (Inr es)"
    by (rule parse_each_padded [OF assms(5)]) auto
  then show ?thesis using hd B(2) split assms(2) by (simp add: parse_op_def length_padded)
qed

lemma parse_print_padded:
  assumes "trims trim" "reads_ids read_id"
  shows "nl_wf e \<Longrightarrow> nest e < 2 ^ 32 \<Longrightarrow> nest e < fuel \<Longrightarrow> blanks l \<Longrightarrow> blanks r \<Longrightarrow>
    parse_expr trim read_id fuel (l @ print_expression e @ r) = Some (Inr e)"
proof (induction e arbitrary: fuel l r)
  case (NlExpression op k es)
  obtain n where n: "fuel = Suc n" using NlExpression.prems(3) by (cases fuel) auto
  show ?case
  proof (cases "op = NL_NOP")
    case True
    let ?t = "to_string k"
    have t: "operand_text 0 ?t" "?t \<noteq> []" "\<forall>c\<in>set ?t. bracket c = 0"
      using to_string_digits [of k] operand_text_digits by (auto simp: bracket_def)
    have "remove_border_parenthesis (l @ ?t @ r) = Inr (l @ ?t @ r)"
      using t(3) NlExpression.prems(4,5) by (intro remove_plain) (auto simp: list_all_iff space_bracket)
    moreover have "trim (l @ ?t @ r) = ?t"
      using t NlExpression.prems(4,5) by (intro trim_blanks [OF assms(1)]) (auto simp: operand_text_def)
    moreover have "parse_op f ?t o' = Some (Inr None)" if "o' \<noteq> NL_NOP" for f o'
      using t op_char_facts(1) [OF that] by (intro parse_op_absent [where N = 0]) (auto simp: operand_text_def)
    ultimately show ?thesis
      using True n NlExpression.prems(1) assms(2) by (simp add: reads_ids_def)
  next
    case False
    let ?N = "foldr max (map nest es) 0" and ?f = "parse_expr trim read_id n"
    let ?t = "join_with ('' '' @ [op_char op] @ '' '') (map print_expression es)"
    have N: "?N < n" "?N < 2 ^ 32" "2 \<le> length es" "k = 0" using NlExpression.prems(1-3) n False by auto
    have wf: "nl_wf e" "nest e \<le> ?N" if "e \<in> set es" for e
      using NlExpression.prems(1) False that nest_operand by (auto simp: list_all_iff)
    have op_text: "\<forall>e\<in>set es. operand_text ?N (print_expression e)"
      using print_operand wf operand_text_mono by blast
    have ne: "es \<noteq> []" using N(3) by auto
    note B = print_body [OF op_text ne False refl]
    have IH: "?f (l' @ print_expression e @ r') = Some (Inr e)" if "e \<in> set es" "blanks l'" "blanks r'" for e l' r'
      using NlExpression.IH [of e n l' r'] that wf [of e] N by simp
    note op = parse_op_join [OF False N(3,2) op_text IH]
    have absent: "parse_op ?f ?t o' = Some (Inr None)" if "o' \<noteq> NL_NOP" "o' \<noteq> op" for o'
      by (rule parse_op_absent [OF B(2) not_op_char [OF B(4) that(1)] B(1) N(2) B(7) [OF that]])
    obtain e1 es1 where es: "es = e1 # es1" "es1 \<noteq> []" using N(3) by (cases es) (auto simp: Suc_le_eq)
    let ?p = "print_expression e1" and ?q = "'' '' @ [op_char op] @ '' '' @ join_with ('' '' @ [op_char op] @ '' '') (map print_expression es1)"
    have t: "?t = ?p @ ?q" using es join_with_Cons [of "map print_expression es1"] by simp
    have "closed ?N ?p" "\<exists>c\<in>set ?p. solid c" using op_text es unfolding operand_text_def by auto
    then obtain fp where fp: "depth ?p = 0" "fp < length ?p" "solid (?p ! fp)" by (auto simp: closed_def in_set_conv_nth)
    have "\<exists>c\<in>set ?q. solid c"
      using print_body(3) [OF _ es(2) False refl, of ?N] op_text es(1) by auto
    then obtain lq where lq: "lq < length ?q" "solid (?q ! lq)" by (metis in_set_conv_nth)
    have "remove_border_parenthesis (l @ CHR ''('' # ?p @ ?q @ CHR '')'' # r) = Inr (?p @ ?q)"
      by (rule remove_enclosing [OF NlExpression.prems(4,5) _ fp lq]) (use B(1) t in simp)
    then have rem: "remove_border_parenthesis (l @ print_expression (NlExpression op k es) @ r) = Inr ?t"
      using False t by simp
    have "trim ([] @ ?t @ []) = ?t" by (rule trim_blanks [OF assms(1) _ _ B(2,5,6)]) simp_all
    then show ?thesis
      using rem n op N(4) absent [of NL_OR] absent [of NL_AND] False
      by (cases op) (simp_all del: print_expression.simps split del: if_split)
  qed
qed

section \<open>The parser always returns\<close>

lemma strip_close_less: "strip_close s n k = Some e \<Longrightarrow> e < n"
  by (induction s n k rule: strip_close.induct) (auto split: if_splits)

lemma strip_open_length: "strip_open s k = Some t \<Longrightarrow> length t < length s"
  by (induction s k rule: strip_open.induct) (fastforce split: if_splits)+

lemma remove_border_length: "remove_border_parenthesis s = Inr t \<Longrightarrow> length t \<le> length s"
  using strip_open_length
  by (fastforce simp: remove_border_parenthesis_def Let_def split: if_splits sum.splits option.splits)

text \<open>A piece between two operators is shorter than the text.\<close>

lemma split_top_total:
  "sum_list (map length (split_top op d piece s)) + length (split_top op d piece s) = Suc (length piece + length s)"
  by (induction op d piece s rule: split_top.induct) simp_all

lemma split_top_length:
  assumes "p \<in> set (split_top op d piece s)" "length (split_top op d piece s) \<noteq> 1"
  shows "length p < length piece + length s"
proof -
  have "length p \<le> sum_list (map length (split_top op d piece s))"
    using assms(1) by (simp add: member_le_sum_list)
  moreover have "0 < length (split_top op d piece s)" using assms(1) by (cases "split_top op d piece s") auto
  ultimately show ?thesis using split_top_total [of op d piece s] assms(2) by linarith
qed

lemma parse_each_returns: "(\<And>x. x \<in> set xs \<Longrightarrow> f x \<noteq> None) \<Longrightarrow> parse_each f xs \<noteq> None"
proof (induction xs)
  case (Cons x xs)
  have "f x \<noteq> None" "parse_each f xs \<noteq> None" using Cons by auto
  then show ?case by (auto split: sum.splits)
qed simp

lemma parse_op_returns:
  assumes "\<And>p. length p < length s \<Longrightarrow> f p \<noteq> None"
  shows "parse_op f s op \<noteq> None"
proof -
  let ?ps = "split_top (op_char op) 0 [] s"
  have "parse_each f ?ps \<noteq> None" if "length ?ps \<noteq> 1"
    using assms split_top_length [OF _ that] by (intro parse_each_returns) auto
  then show ?thesis by (auto simp: parse_op_def Let_def split: option.splits sum.splits)
qed

lemma parse_expr_returns:
  assumes "trims trim"
  shows "length s < fuel \<Longrightarrow> parse_expr trim read_id fuel s \<noteq> None"
proof (induction fuel arbitrary: s)
  case (Suc fuel)
  show ?case
  proof (cases "remove_border_parenthesis s")
    case (Inr t)
    have "length (trim t) \<le> length t"
      using assms length_dropWhile_le [of isspace "rev (dropWhile isspace t)"] length_dropWhile_le [of isspace t]
      by (simp add: trims_def)
    then have len: "length (trim t) \<le> fuel" using remove_border_length [OF Inr] Suc.prems by simp
    have "parse_expr trim read_id fuel p \<noteq> None" if "length p < length (trim t)" for p
      using Suc.IH that len by simp
    then have "first_op (parse_expr trim read_id fuel) (trim t) ops \<noteq> None" for ops
      using parse_op_returns [of "trim t" "parse_expr trim read_id fuel"]
      by (induction ops) (auto split: option.splits sum.splits)
    then obtain r where "first_op (parse_expr trim read_id fuel) (trim t) [NL_OR, NL_AND, NL_AND_NOT] = Some r" by blast
    then show ?thesis using Inr by (auto simp: Let_def simp del: first_op.simps split: option.splits sum.splits)
  qed simp
qed simp

section \<open>Properties\<close>

lemma join_with_length: "p \<in> set ps \<Longrightarrow> length p \<le> length (join_with sep ps)"
  by (induction sep ps rule: join_with.induct) auto

lemma foldr_max_le: "(\<And>x. x \<in> set xs \<Longrightarrow> f x \<le> m) \<Longrightarrow> foldr max (map f xs) 0 \<le> (m :: nat)"
  by (induction xs) auto

lemma nest_length: "nl_wf e \<Longrightarrow> nest e < length (print_expression e)"
proof (induction e)
  case (NlExpression op k es)
  show ?case
  proof (cases "op = NL_NOP")
    case True
    then show ?thesis using to_string_digits [of k] by simp
  next
    case False
    let ?t = "join_with ('' '' @ [op_char op] @ '' '') (map print_expression es)"
    have "nest e \<le> length ?t" if "e \<in> set es" for e
      using NlExpression that False join_with_length [of "print_expression e" "map print_expression es" "'' '' @ [op_char op] @ '' ''"]
      by (force simp: list_all_iff)
    then have "foldr max (map nest es) 0 \<le> length ?t" by (rule foldr_max_le)
    then show ?thesis using False by simp
  qed
qed


text \<open>A number reader for decimal texts, and the trimming of blanks.\<close>

definition sample_trim :: "string \<Rightarrow> string" where
  "sample_trim s = rev (dropWhile isspace (rev (dropWhile isspace s)))"

definition sample_read_id :: "string \<Rightarrow> nat option" where
  "sample_read_id s =
     (if s \<noteq> [] \<and> list_all (\<lambda>c. c \<in> set ''0123456789'') s
      then Some (foldl (\<lambda>n c. 10 * n + (of_char c - 48)) 0 s) else None)"

lemma sample_read_to_string: "foldl (\<lambda>n c. 10 * n + (of_char c - 48)) 0 (to_string k) = k"
proof (induction k rule: to_string.induct)
  case (1 n)
  have d: "of_char (char_of (48 + m) :: char) = (48 + m :: nat)" if "m < 10" for m
    using that by (simp add: of_char_of)
  show ?case
  proof (cases "n < 10")
    case True
    then show ?thesis using d by (subst to_string.simps) simp
  next
    case False
    then show ?thesis using 1 d [of "n mod 10"] by (subst to_string.simps) simp
  qed
qed

lemma sample_trims: "trims sample_trim"
  by (simp add: trims_def sample_trim_def)

lemma sample_reads: "reads_ids sample_read_id"
proof -
  have "sample_read_id (to_string k) = Some k" for k
  proof -
    have "list_all (\<lambda>c. c \<in> set ''0123456789'') (to_string k)"
      unfolding list_all_iff using to_string_digits [of k] by (auto simp del: list.set)
    then show ?thesis
      unfolding sample_read_id_def using to_string_digits [of k] sample_read_to_string [of k] by (simp del: list.set)
  qed
  then show ?thesis by (simp add: reads_ids_def)
qed


text \<open>
  A closing bracket without an opening one sends the loop that clears excess brackets before the
  beginning of the text: \<open>remove_bracket_count\<close> becomes negative and is not zero.
\<close>

lemma unbalanced_out_of_range:
  "remove_border_parenthesis ''1)&2'' = Inl OutOfRange"
  by code_simp

end
