(* ===== verification/BillingAmounts.thy ===== *)
theory BillingAmounts
  imports StdMap
begin

text \<open>
  The amounts that the billing server keeps per account, campaign and creative group:
  \<open>AccountAmountHolder\<close> and \<open>AmountHolder\<close> of
  \<open>src/CampaignSvcs/BillingServer/BillingContainerState.cpp\<close>, and \<open>Optional\<close> of
  \<open>src/Commons/Containers.hpp\<close>.

  \<open>RevenueDecimal\<close> and \<open>ImpRevenueDecimal\<close> are fixed point numbers of a library outside the
  repository. A number is modelled by its count of units; the operations of a type are the
  components of \<open>decimal\<close>, with \<open>None\<close> for the exception \<open>Overflow\<close>. \<open>exact_decimal\<close> says that a sum
  or a difference that is returned is the exact one. Both types have eight digits after the point
  (\<open>src/CampaignSvcs/CampaignCommons/CampaignTypes.hpp\<close>), so a \<open>RevenueDecimal\<close> that is converted to
  an \<open>ImpRevenueDecimal\<close> keeps its count of units.
\<close>

section \<open>Optional values\<close>

text \<open>The value of an \<open>Optional\<close> exists and can be read and written whether or not it is present.\<close>

record 'a optional =
  present :: bool
  opt_val :: 'a

definition Optional_none :: "'a \<Rightarrow> 'a optional" where
  "Optional_none v = \<lparr>present = False, opt_val = v\<rparr>"

definition Optional_some :: "'a \<Rightarrow> 'a optional" where
  "Optional_some v = \<lparr>present = True, opt_val = v\<rparr>"

text \<open>\<open>*o = v\<close> writes the value and leaves the flag; \<open>o = v\<close> is \<open>set\<close>.\<close>

definition assign_val :: "'a \<Rightarrow> 'a optional \<Rightarrow> 'a optional" where
  "assign_val v o1 = o1\<lparr>opt_val := v\<rparr>"

definition set_val :: "'a \<Rightarrow> 'a optional \<Rightarrow> 'a optional" where
  "set_val v o1 = o1\<lparr>opt_val := v, present := True\<rparr>"

section \<open>Decimals\<close>

record decimal =
  dec_default :: int
  dec_add :: "int \<Rightarrow> int \<Rightarrow> int option"
  dec_sub :: "int \<Rightarrow> int \<Rightarrow> int option"
  dec_mul_floor :: "int \<Rightarrow> int \<Rightarrow> int option"
  dec_div :: "int \<Rightarrow> int \<Rightarrow> int option"

definition exact_decimal :: "decimal \<Rightarrow> bool" where
  "exact_decimal D \<longleftrightarrow>
     (\<forall>x y z. dec_add D x y = Some z \<longrightarrow> z = x + y) \<and> (\<forall>x y z. dec_sub D x y = Some z \<longrightarrow> z = x - y)"

text \<open>
  What a block of statements does: it is done, it leaves with \<open>RevenueDecimal::Overflow\<close>, or with an
  exception that no handler of the function names; the functions are \<open>noexcept\<close>, so that ends the
  process. An overflow of \<open>ImpRevenueDecimal\<close> is of the last kind.
\<close>

datatype 'a raised = Done 'a | Overflow | Terminate

section \<open>Days\<close>

record account_day_amount =
  amount_before :: int
  amount :: int

record day_amount = account_day_amount +
  imps_before :: int
  imps :: int
  clicks_before :: int
  clicks :: int

type_synonym ('t, 'd) days = "('t, 'd) std_map"

definition AccountDayAmount :: account_day_amount where
  "AccountDayAmount = \<lparr>amount_before = 0, amount = 0\<rparr>"

definition DayAmount :: day_amount where
  "DayAmount = \<lparr>amount_before = 0, amount = 0, imps_before = 0, imps = 0, clicks_before = 0, clicks = 0\<rparr>"

text \<open>\<open>find\<close>, and the last node.\<close>

definition get_day :: "('d \<Rightarrow> int) \<Rightarrow> 't \<Rightarrow> ('t, 'd) days \<Rightarrow> int" where
  "get_day f date days = (case map_of days date of Some d \<Rightarrow> f d | None \<Rightarrow> 0)"

definition get_total :: "decimal \<Rightarrow> ('d \<Rightarrow> int) \<Rightarrow> ('d \<Rightarrow> int) \<Rightarrow> ('t, 'd) days \<Rightarrow> int option" where
  "get_total D be f days =
     (if days \<noteq> [] then dec_add D (be (snd (last days))) (f (snd (last days))) else Some 0)"

definition get_total_amount :: "decimal \<Rightarrow> ('t, 'd account_day_amount_scheme) days \<Rightarrow> int option" where
  "get_total_amount D = get_total D amount_before amount"

definition get_total_imps :: "decimal \<Rightarrow> ('t, day_amount) days \<Rightarrow> int option" where
  "get_total_imps I = get_total I imps_before imps"

definition get_total_clicks :: "decimal \<Rightarrow> ('t, day_amount) days \<Rightarrow> int option" where
  "get_total_clicks I = get_total I clicks_before clicks"

definition get_day_amount :: "'t \<Rightarrow> ('t, 'd account_day_amount_scheme) days \<Rightarrow> int" where
  "get_day_amount = get_day amount"

definition get_day_imps :: "'t \<Rightarrow> ('t, day_amount) days \<Rightarrow> int" where
  "get_day_imps = get_day imps"

definition get_day_clicks :: "'t \<Rightarrow> ('t, day_amount) days \<Rightarrow> int" where
  "get_day_clicks = get_day clicks"

section \<open>Adding to a day\<close>

text \<open>
  The two \<open>add_amount\<close> functions have the same flow of control and differ in the fields of a day.
  \<open>day_ops\<close> holds what they do to one day: add to the day's own values; add the values of the day
  before to a new day; add to the values of the days before; and the two subtractions that the
  handler of the overflow does.
\<close>

record 'd day_ops =
  new_day :: 'd
  plus_day :: "'d \<Rightarrow> 'd raised"
  init_before :: "'d \<Rightarrow> 'd \<Rightarrow> 'd raised"
  plus_before :: "'d \<Rightarrow> 'd raised"
  minus_day :: "'d \<Rightarrow> 'd raised"
  minus_before :: "'d \<Rightarrow> 'd raised"

text \<open>The loop over the later days; the value holds the changed days and the days from the overflow on.\<close>

fun before_loop :: "('d \<Rightarrow> 'd raised) \<Rightarrow> ('t, 'd) days \<Rightarrow> (('t, 'd) days \<times> ('t, 'd) days) option" where
  "before_loop f [] = Some ([], [])"
| "before_loop f ((t, d) # ds) =
     (case f d of
        Done d' \<Rightarrow> map_option (apfst (Cons (t, d'))) (before_loop f ds)
      | Overflow \<Rightarrow> Some ([], (t, d) # ds)
      | Terminate \<Rightarrow> None)"

fun each_day :: "('d \<Rightarrow> 'd raised) \<Rightarrow> ('t, 'd) days \<Rightarrow> ('t, 'd) days option" where
  "each_day f [] = Some []"
| "each_day f ((t, d) # ds) =
     (case f d of Done d' \<Rightarrow> map_option (Cons (t, d')) (each_day f ds) | _ \<Rightarrow> None)"

text \<open>
  The handler: the iterator stands on the last of the \<open>touched\<close> days, or on the day itself when there
  are none.
\<close>

definition revert_changes ::
  "'d day_ops \<Rightarrow> bool \<Rightarrow> ('t, 'd) days \<Rightarrow> 't \<times> 'd \<Rightarrow> ('t, 'd) days \<Rightarrow> ('t, 'd) days \<Rightarrow> (bool \<times> ('t, 'd) days) option" where
  "revert_changes ops inserted pre day touched rest =
     (case minus_day ops (snd day) of
        Done d \<Rightarrow>
          (case each_day (minus_before ops) touched of
             None \<Rightarrow> None
           | Some ds \<Rightarrow> Some (False, pre @ (if inserted then [] else [(fst day, d)]) @ ds @ rest))
      | _ \<Rightarrow> None)"

text \<open>\<open>days.insert\<close>: the days before the date, the day itself when there is one, and the days after.\<close>

definition add_to_days :: "'d day_ops \<Rightarrow> 't::linorder \<Rightarrow> ('t, 'd) days \<Rightarrow> (bool \<times> ('t, 'd) days) option" where
  "add_to_days ops date days =
     (let pre = takeWhile (\<lambda>e. fst e < date) days;
          post = dropWhile (\<lambda>e. fst e \<le> date) days;
          inserted = (map_of days date = None);
          d0 = (case map_of days date of None \<Rightarrow> new_day ops | Some d \<Rightarrow> d)
      in case plus_day ops d0 of
           Terminate \<Rightarrow> None
         | Overflow \<Rightarrow> revert_changes ops inserted pre (date, d0) [] post
         | Done d1 \<Rightarrow>
             (case (if inserted \<and> pre \<noteq> [] then init_before ops (snd (last pre)) d1 else Done d1) of
                Terminate \<Rightarrow> None
              | Overflow \<Rightarrow> revert_changes ops inserted pre (date, d1) [] post
              | Done d2 \<Rightarrow>
                  (case before_loop (plus_before ops) post of
                     None \<Rightarrow> None
                   | Some (ds, []) \<Rightarrow> Some (True, pre @ (date, d2) # ds)
                   | Some (ds, e # rest) \<Rightarrow> revert_changes ops inserted pre (date, d2) (ds @ [e]) rest)))"

subsection \<open>\<open>AccountAmountHolder::add_amount\<close>\<close>

text \<open>One statement \<open>x += v\<close> or \<open>x -= v\<close> on a field, for the two number types.\<close>

definition revenue_op :: "int option \<Rightarrow> (int \<Rightarrow> 'd) \<Rightarrow> 'd raised" where
  "revenue_op r set_field = (case r of Some v \<Rightarrow> Done (set_field v) | None \<Rightarrow> Overflow)"

definition imps_op :: "int option \<Rightarrow> (int \<Rightarrow> 'd) \<Rightarrow> 'd raised" where
  "imps_op r set_field = (case r of Some v \<Rightarrow> Done (set_field v) | None \<Rightarrow> Terminate)"

definition and_then :: "'a raised \<Rightarrow> ('a \<Rightarrow> 'b raised) \<Rightarrow> 'b raised" where
  "and_then r f = (case r of Done x \<Rightarrow> f x | Overflow \<Rightarrow> Overflow | Terminate \<Rightarrow> Terminate)"

definition account_ops :: "decimal \<Rightarrow> int \<Rightarrow> account_day_amount day_ops" where
  "account_ops D a =
     \<lparr>new_day = AccountDayAmount,
      plus_day = (\<lambda>d. revenue_op (dec_add D (amount d) a) (\<lambda>v. d\<lparr>amount := v\<rparr>)),
      init_before = (\<lambda>b d. and_then (revenue_op (dec_add D (amount_before b) (amount b)) id)
        (\<lambda>s. revenue_op (dec_add D (amount_before d) s) (\<lambda>v. d\<lparr>amount_before := v\<rparr>))),
      plus_before = (\<lambda>d. revenue_op (dec_add D (amount_before d) a) (\<lambda>v. d\<lparr>amount_before := v\<rparr>)),
      minus_day = (\<lambda>d. revenue_op (dec_sub D (amount d) a) (\<lambda>v. d\<lparr>amount := v\<rparr>)),
      minus_before = (\<lambda>d. revenue_op (dec_sub D (amount_before d) a) (\<lambda>v. d\<lparr>amount_before := v\<rparr>))\<rparr>"

definition account_add_amount ::
  "decimal \<Rightarrow> 't::linorder \<Rightarrow> int \<Rightarrow> ('t, account_day_amount) days \<Rightarrow> (bool \<times> ('t, account_day_amount) days) option" where
  "account_add_amount D date a = add_to_days (account_ops D a) date"

subsection \<open>\<open>AmountHolder::add_amount\<close>\<close>

definition amount_ops :: "decimal \<Rightarrow> decimal \<Rightarrow> int \<Rightarrow> int \<Rightarrow> int \<Rightarrow> day_amount day_ops" where
  "amount_ops D I a im cl =
     \<lparr>new_day = DayAmount,
      plus_day = (\<lambda>d0. and_then (revenue_op (dec_add D (amount d0) a) (\<lambda>v. d0\<lparr>amount := v\<rparr>))
        (\<lambda>d. and_then (imps_op (dec_add I (imps d) im) (\<lambda>v. d\<lparr>imps := v\<rparr>))
        (\<lambda>d. imps_op (dec_add I (clicks d) cl) (\<lambda>v. d\<lparr>clicks := v\<rparr>)))),
      init_before = (\<lambda>b d0. and_then (revenue_op (dec_add D (amount_before b) (amount b)) id)
        (\<lambda>s. and_then (revenue_op (dec_add D (amount_before d0) s) (\<lambda>v. d0\<lparr>amount_before := v\<rparr>))
        (\<lambda>d. and_then (imps_op (dec_add I (imps_before b) (imps b)) id)
        (\<lambda>s. and_then (imps_op (dec_add I (imps_before d) s) (\<lambda>v. d\<lparr>imps_before := v\<rparr>))
        (\<lambda>d. and_then (imps_op (dec_add I (clicks_before b) (clicks b)) id)
        (\<lambda>s. imps_op (dec_add I (clicks_before d) s) (\<lambda>v. d\<lparr>clicks_before := v\<rparr>))))))),
      plus_before = (\<lambda>d0. and_then (revenue_op (dec_add D (amount_before d0) a) (\<lambda>v. d0\<lparr>amount_before := v\<rparr>))
        (\<lambda>d. and_then (imps_op (dec_add I (imps_before d) im) (\<lambda>v. d\<lparr>imps_before := v\<rparr>))
        (\<lambda>d. imps_op (dec_add I (clicks_before d) cl) (\<lambda>v. d\<lparr>clicks_before := v\<rparr>)))),
      minus_day = (\<lambda>d0. and_then (revenue_op (dec_sub D (amount d0) a) (\<lambda>v. d0\<lparr>amount := v\<rparr>))
        (\<lambda>d. and_then (imps_op (dec_sub I (imps d) im) (\<lambda>v. d\<lparr>imps := v\<rparr>))
        (\<lambda>d. imps_op (dec_sub I (clicks d) cl) (\<lambda>v. d\<lparr>clicks := v\<rparr>)))),
      minus_before = (\<lambda>d0. and_then (revenue_op (dec_sub D (amount_before d0) a) (\<lambda>v. d0\<lparr>amount_before := v\<rparr>))
        (\<lambda>d. and_then (imps_op (dec_sub I (imps_before d) im) (\<lambda>v. d\<lparr>imps_before := v\<rparr>))
        (\<lambda>d. imps_op (dec_sub I (clicks_before d) cl) (\<lambda>v. d\<lparr>clicks_before := v\<rparr>))))\<rparr>"

definition add_amount ::
  "decimal \<Rightarrow> decimal \<Rightarrow> 't::linorder \<Rightarrow> int \<Rightarrow> int \<Rightarrow> int \<Rightarrow> ('t, day_amount) days \<Rightarrow> (bool \<times> ('t, day_amount) days) option" where
  "add_amount D I date a im cl = add_to_days (amount_ops D I a im cl) date"

end
