(* ===== verification/BillingAmountsProps.thy ===== *)
theory BillingAmountsProps
  imports BillingAmounts
begin

text \<open>
  What an addition does to the days of an account, a campaign or a creative group: the total grows by
  the added amount, the day of the addition too, and the days stay linked: each day starts with what
  the day before ended with.
\<close>

section \<open>Linked days\<close>

text \<open>The total of the last day, without the overflow check.\<close>

definition total_of :: "('d \<Rightarrow> int) \<Rightarrow> ('d \<Rightarrow> int) \<Rightarrow> ('t, 'd) days \<Rightarrow> int" where
  "total_of be am days = (if days = [] then 0 else be (snd (last days)) + am (snd (last days)))"

fun linked :: "('d \<Rightarrow> int) \<Rightarrow> ('d \<Rightarrow> int) \<Rightarrow> ('t, 'd) days \<Rightarrow> bool" where
  "linked be am (e # e' # ds) \<longleftrightarrow> be (snd e') = be (snd e) + am (snd e) \<and> linked be am (e' # ds)"
| "linked be am _ \<longleftrightarrow> True"

lemma linked_append:
  "linked be am (ds @ es) \<longleftrightarrow>
     linked be am ds \<and> linked be am es \<and>
     (ds \<noteq> [] \<and> es \<noteq> [] \<longrightarrow> be (snd (hd es)) = be (snd (last ds)) + am (snd (last ds)))"
proof (induction ds)
  case (Cons e ds)
  then show ?case by (cases ds; cases es) auto
qed (cases es; simp)

lemma total_of_snoc [simp]: "total_of be am (ds @ [e]) = be (snd e) + am (snd e)"
  by (simp add: total_of_def)

lemma total_of_append: "es \<noteq> [] \<Longrightarrow> total_of be am (ds @ es) = total_of be am es"
  by (simp add: total_of_def)

lemma total_of_linked:
  "linked be am (e # ds) \<Longrightarrow> total_of be am (e # ds) = be (snd e) + sum_list (map (\<lambda>e. am (snd e)) (e # ds))"
proof (induction ds arbitrary: e)
  case (Cons e' ds)
  then show ?case by (simp add: total_of_def split: if_splits)
qed (simp add: total_of_def)

lemma get_total_exact:
  "exact_decimal D \<Longrightarrow> get_total D be am days = Some v \<Longrightarrow> v = total_of be am days"
  by (auto simp: get_total_def total_of_def exact_decimal_def split: if_splits)

section \<open>The laws of one field\<close>

text \<open>
  What the two kinds of days promise for one pair of fields, the day's own value and the value of the
  days before: under \<open>exact\<close>, every operation that is done adds the amount where it says.
\<close>

locale day_field =
  fixes exact :: bool and ops :: "'d day_ops" and am be :: "'d \<Rightarrow> int" and a :: int
  assumes new: "am (new_day ops) = 0 \<and> be (new_day ops) = 0"
    and plus: "exact \<Longrightarrow> plus_day ops d = Done d' \<Longrightarrow> am d' = am d + a \<and> be d' = be d"
    and init: "exact \<Longrightarrow> init_before ops b d = Done d' \<Longrightarrow> am d' = am d \<and> be d' = be d + (be b + am b)"
    and before: "exact \<Longrightarrow> plus_before ops d = Done d' \<Longrightarrow> am d' = am d \<and> be d' = be d + a"
    and minus: "exact \<Longrightarrow> minus_day ops d = Done d' \<Longrightarrow> am d' = am d - a \<and> be d' = be d"
    and unbefore: "exact \<Longrightarrow> minus_before ops d = Done d' \<Longrightarrow> am d' = am d \<and> be d' = be d - a"
begin

lemma before_loop_done:
  "exact \<Longrightarrow> before_loop (plus_before ops) ds = Some (ds', []) \<Longrightarrow>
     list_all2 (\<lambda>e e'. fst e' = fst e \<and> am (snd e') = am (snd e) \<and> be (snd e') = be (snd e) + a) ds ds'"
  by (induction "plus_before ops" ds arbitrary: ds' rule: before_loop.induct)
    (auto dest: before split: raised.splits)

end

lemma shifted_days:
  assumes "list_all2 (\<lambda>e e'. fst e' = fst e \<and> am (snd e') = am (snd e) \<and> be (snd e') = be (snd e) + (a :: int)) ds ds'"
  shows "map fst ds' = map fst ds" "total_of be am ds' = total_of be am ds + (if ds = [] then 0 else a)"
    "get_day am t ds' = get_day am t ds" "linked be am ds' = linked be am ds"
    "ds \<noteq> [] \<Longrightarrow> be (snd (hd ds')) = be (snd (hd ds)) + a" "ds' = [] \<longleftrightarrow> ds = []"
proof -
  show "map fst ds' = map fst ds" using assms by (induction ds ds' rule: list_all2_induct) simp_all
  show "total_of be am ds' = total_of be am ds + (if ds = [] then 0 else a)"
    using assms by (induction ds ds' rule: list_all2_induct) (auto simp: total_of_def)
  show "get_day am t ds' = get_day am t ds"
    using assms by (induction ds ds' rule: list_all2_induct) (auto simp: get_day_def)
  show "linked be am ds' = linked be am ds"
    using assms
  proof (induction ds ds' rule: list_all2_induct)
    case (Cons e ds e' ds')
    then show ?case by (cases ds; cases ds') auto
  qed simp
  show "ds \<noteq> [] \<Longrightarrow> be (snd (hd ds')) = be (snd (hd ds)) + a" "ds' = [] \<longleftrightarrow> ds = []"
    using assms by (auto simp: list_all2_Cons1 list_all2_Nil neq_Nil_conv)
qed

section \<open>A successful addition\<close>

lemma split_day:
  assumes "map_ok days"
  shows "days = takeWhile (\<lambda>e. fst e < date) days @ (case map_of days date of None \<Rightarrow> [] | Some d \<Rightarrow> [(date, d)]) @
      dropWhile (\<lambda>e. fst e \<le> date) days"
  using assms
proof (induction days)
  case (Cons e days)
  obtain t d where e: "e = (t, d)" by (rule prod.exhaust)
  show ?case
  proof (cases "t < date")
    case True
    then show ?thesis using Cons e by auto
  next
    case False
    then have "\<forall>x\<in>set days. date < fst x" using Cons.prems e by auto
    then have "dropWhile (\<lambda>e. fst e \<le> date) days = days" "map_of days date = None" by (cases days; auto)+
    then show ?thesis using False e by simp
  qed
qed simp

lemma split_day_order:
  assumes "map_ok days"
  shows "\<forall>e\<in>set (takeWhile (\<lambda>e. fst e < date) days). fst e < date"
    "\<forall>e\<in>set (dropWhile (\<lambda>e. fst e \<le> date) days). date < fst e"
proof -
  show "\<forall>e\<in>set (takeWhile (\<lambda>e. fst e < date) days). fst e < date" using set_takeWhileD by fastforce
  show "\<forall>e\<in>set (dropWhile (\<lambda>e. fst e \<le> date) days). date < fst e"
    using assms
  proof (induction days)
    case (Cons e days)
    then show ?case by (auto simp: not_le intro: less_trans)
  qed simp
qed

lemma add_to_days_True:
  assumes "add_to_days ops date days = Some (True, days')"
  shows "\<exists>d1 d2 ds.
    plus_day ops (case map_of days date of None \<Rightarrow> new_day ops | Some d \<Rightarrow> d) = Done d1 \<and>
    (if map_of days date = None \<and> takeWhile (\<lambda>e. fst e < date) days \<noteq> []
     then init_before ops (snd (last (takeWhile (\<lambda>e. fst e < date) days))) d1 else Done d1) = Done d2 \<and>
    before_loop (plus_before ops) (dropWhile (\<lambda>e. fst e \<le> date) days) = Some (ds, []) \<and>
    days' = takeWhile (\<lambda>e. fst e < date) days @ (date, d2) # ds"
proof -
  have no: "revert_changes ops i pre day tc rest \<noteq> Some (True, days')" for i pre day tc rest
    by (simp add: revert_changes_def split: raised.split option.split)
  show ?thesis
    using assms no unfolding add_to_days_def Let_def
    by (auto split: raised.split_asm option.split_asm prod.split_asm list.split_asm)
qed


text \<open>The addition as a change of the list, with the fields that the laws speak of.\<close>

context day_field
begin

lemma add_to_days_shape:
  assumes exact "map_ok days" "add_to_days ops date days = Some (True, days')"
  defines "pre \<equiv> takeWhile (\<lambda>e. fst e < date) days" and "post \<equiv> dropWhile (\<lambda>e. fst e \<le> date) days"
  shows "\<exists>d ds. days' = pre @ (date, d) # ds \<and>
    list_all2 (\<lambda>e e'. fst e' = fst e \<and> am (snd e') = am (snd e) \<and> be (snd e') = be (snd e) + a) post ds \<and>
    am d = get_day am date days + a \<and>
    be d = (case map_of days date of Some d0 \<Rightarrow> be d0 | None \<Rightarrow> total_of be am pre)"
proof -
  obtain d1 d2 ds where d:
    "plus_day ops (case map_of days date of None \<Rightarrow> new_day ops | Some d \<Rightarrow> d) = Done d1"
    "(if map_of days date = None \<and> pre \<noteq> [] then init_before ops (snd (last pre)) d1 else Done d1) = Done d2"
    "before_loop (plus_before ops) post = Some (ds, [])" "days' = pre @ (date, d2) # ds"
    using add_to_days_True [OF assms(3)] unfolding pre_def post_def by blast
  have "am d2 = get_day am date days + a \<and>
      be d2 = (case map_of days date of Some d0 \<Rightarrow> be d0 | None \<Rightarrow> total_of be am pre)"
    using plus [OF assms(1) d(1)] d(2) init [OF assms(1), of "snd (last pre)" d1 d2] new
    by (auto simp: get_day_def total_of_def split: option.splits if_splits)
  then show ?thesis using before_loop_done [OF assms(1) d(3)] d(4) by blast
qed

lemma add_to_days_sums:
  assumes exact "map_ok days" "add_to_days ops date days = Some (True, days')"
  shows "map_ok days'" "fst ` set days' = insert date (fst ` set days)"
    "total_of be am days' = total_of be am days + a"
    "get_day am t days' = get_day am t days + (if t = date then a else 0)"
    "linked be am days \<Longrightarrow> days = [] \<or> fst (hd days) \<le> date \<or> be (snd (hd days)) = 0 \<Longrightarrow> linked be am days'"
proof -
  define pre where "pre = takeWhile (\<lambda>e. fst e < date) days"
  define post where "post = dropWhile (\<lambda>e. fst e \<le> date) days"
  define found where "found = map_of days date"
  define mid where "mid = (case found of None \<Rightarrow> [] | Some d \<Rightarrow> [(date, d)])"
  obtain d ds where d: "days' = pre @ (date, d) # ds"
    "list_all2 (\<lambda>e e'. fst e' = fst e \<and> am (snd e') = am (snd e) \<and> be (snd e') = be (snd e) + a) post ds"
    "am d = (case found of Some d0 \<Rightarrow> am d0 | None \<Rightarrow> 0) + a"
    "be d = (case found of Some d0 \<Rightarrow> be d0 | None \<Rightarrow> total_of be am pre)"
    using add_to_days_shape [OF assms] unfolding pre_def post_def found_def get_day_def by blast
  note sh = shifted_days [OF d(2)]
  have days: "days = pre @ mid @ post" using split_day [OF assms(2)] unfolding pre_def post_def mid_def found_def .
  have ord: "\<forall>e\<in>set pre. fst e < date" "\<forall>e\<in>set post. date < fst e"
    using split_day_order [OF assms(2)] unfolding pre_def post_def by blast+
  have keys: "fst ` set ds = fst ` set post" using sh(1) by (metis list.set_map)
  have "map_ok ds = map_ok post" using sh(1) by (simp add: key_sorted_def)
  moreover have "\<forall>x\<in>set ds. date < fst x" using ord(2) keys by (metis (no_types, lifting) image_iff)
  ultimately show "map_ok days'"
    using assms(2) days ord(1) unfolding d(1) by (auto intro: less_trans)
  show "fst ` set days' = insert date (fst ` set days)"
    unfolding d(1) days mid_def using keys by (auto split: option.splits)
  have none: "map_of pre date = None" "map_of post date = None" using ord by (auto simp: map_of_eq_None_iff)
  show total: "total_of be am days' = total_of be am days + a"
  proof (cases "post = []")
    case True
    then show ?thesis
      using d sh(6) unfolding days
      by (cases found) (auto simp: mid_def total_of_def)
  next
    case False
    then show ?thesis
      using sh(2,6) total_of_append [of ds be am "pre @ [(date, d)]"] total_of_append [of post be am "pre @ mid"]
      unfolding d(1) days by simp
  qed
  show "get_day am t days' = get_day am t days + (if t = date then a else 0)"
  proof (cases "t = date")
    case True
    then show ?thesis using d(3) none unfolding d(1) get_day_def found_def by (simp add: map_add_def)
  next
    case False
    then have "get_day am t days = (case map_of pre t of Some d \<Rightarrow> am d | None \<Rightarrow> get_day am t post)"
      unfolding days by (auto simp: get_day_def mid_def map_add_def split: option.splits)
    moreover have "get_day am t days' = (case map_of pre t of Some d \<Rightarrow> am d | None \<Rightarrow> get_day am t ds)"
      using False unfolding d(1) by (auto simp: get_day_def map_add_def split: option.splits)
    ultimately show ?thesis using sh(3) False by (auto split: option.split)
  qed
  assume link: "linked be am days" and start: "days = [] \<or> fst (hd days) \<le> date \<or> be (snd (hd days)) = 0"
  have l: "linked be am pre" "linked be am ds"
    "pre \<noteq> [] \<Longrightarrow> mid @ post \<noteq> [] \<Longrightarrow> be (snd (hd (mid @ post))) = total_of be am pre"
    "mid \<noteq> [] \<Longrightarrow> post \<noteq> [] \<Longrightarrow> be (snd (hd post)) = be (snd (last mid)) + am (snd (last mid))"
    using link sh(4) unfolding days by (auto simp: linked_append total_of_def)
  have first: "pre \<noteq> [] \<Longrightarrow> be d = total_of be am pre"
    using d(4) l(3) by (cases found) (auto simp: mid_def)
  have "be (snd (hd post)) = be d + am d - a" if "post \<noteq> []"
  proof (cases found)
    case None
    then have "pre = [] \<Longrightarrow> be (snd (hd post)) = 0"
      using start ord(2) that days by (cases post) (auto simp: mid_def)
    then show ?thesis using None d(3,4) l(3) that by (cases "pre = []") (auto simp: mid_def total_of_def)
  next
    case (Some d0)
    then show ?thesis using d(3,4) l(4) that by (simp add: mid_def)
  qed
  then have "ds \<noteq> [] \<Longrightarrow> be (snd (hd ds)) = be d + am d" using sh(5,6) by simp
  then have "linked be am ((date, d) # ds)" using l(2) by (cases ds) simp_all
  then show "linked be am days'"
    using l(1) first unfolding d(1) by (simp add: linked_append total_of_def)
qed

end

section \<open>A rejected addition\<close>

text \<open>
  An addition that is rejected for an overflow does not restore the days: it can take the amount off
  the day that did not get it. The total stays, or loses the amount.
\<close>

context day_field
begin

lemma before_loop_total:
  assumes exact "before_loop (plus_before ops) ds = Some (ds', r)"
  shows "\<exists>q. ds = q @ r \<and> list_all2 (\<lambda>e e'. fst e' = fst e \<and> am (snd e') = am (snd e) \<and> be (snd e') = be (snd e) + a) q ds'"
  using assms(2)
proof (induction "plus_before ops" ds arbitrary: ds' rule: before_loop.induct)
  case (2 t d ds)
  show ?case
  proof (cases "plus_before ops d")
    case (Done d')
    then obtain ds1 where ds1: "before_loop (plus_before ops) ds = Some (ds1, r)" "ds' = (t, d') # ds1"
      using "2.prems" by (auto simp: apfst_def map_prod_def)
    from "2.hyps" [OF Done ds1(1)] obtain q where "ds = q @ r"
      "list_all2 (\<lambda>e e'. fst e' = fst e \<and> am (snd e') = am (snd e) \<and> be (snd e') = be (snd e) + a) q ds1" by blast
    then show ?thesis using ds1(2) before [OF assms(1) Done] by (intro exI [of _ "(t, d) # q"]) simp
  qed (use "2.prems" in auto)
qed simp

lemma each_day_minus:
  assumes exact "each_day (minus_before ops) ds = Some ds'"
  shows "list_all2 (\<lambda>e e'. fst e' = fst e \<and> am (snd e') = am (snd e) \<and> be (snd e') = be (snd e) + - a) ds ds'"
  using assms(2)
proof (induction ds arbitrary: ds')
  case (Cons e ds)
  obtain t d where e: "e = (t, d)" by (rule prod.exhaust)
  then obtain d' ds1 where "minus_before ops d = Done d'" "each_day (minus_before ops) ds = Some ds1" "ds' = (t, d') # ds1"
    using Cons.prems by (auto split: raised.splits)
  then show ?case using Cons.IH e unbefore [OF assms(1)] by auto
qed simp

lemma revert_total:
  assumes exact "revert_changes ops inserted pre (date, d) touched rest = Some (b, days')"
  shows "b = False" "\<exists>d' ts. days' = pre @ (if inserted then [] else [(date, d')]) @ ts @ rest \<and> am d' = am d - a \<and> be d' = be d \<and>
    list_all2 (\<lambda>e e'. fst e' = fst e \<and> am (snd e') = am (snd e) \<and> be (snd e') = be (snd e) + - a) touched ts"
proof -
  obtain d' ts where d: "minus_day ops d = Done d'" "each_day (minus_before ops) touched = Some ts"
    "b = False" "days' = pre @ (if inserted then [] else [(date, d')]) @ ts @ rest"
    using assms(2) by (auto simp: revert_changes_def split: raised.splits option.splits)
  then show "b = False" "\<exists>d' ts. days' = pre @ (if inserted then [] else [(date, d')]) @ ts @ rest \<and> am d' = am d - a \<and> be d' = be d \<and>
    list_all2 (\<lambda>e e'. fst e' = fst e \<and> am (snd e') = am (snd e) \<and> be (snd e') = be (snd e) + - a) touched ts"
    using minus [OF assms(1) d(1)] each_day_minus [OF assms(1) d(2)] by blast+
qed

lemma add_to_days_rejected:
  assumes exact "map_ok days" "add_to_days ops date days = Some (False, days')"
  shows "map fst days' = map fst days \<and> (total_of be am days' = total_of be am days \<or> total_of be am days' = total_of be am days - a)"
proof -
  define pre where "pre = takeWhile (\<lambda>e. fst e < date) days"
  define post where "post = dropWhile (\<lambda>e. fst e \<le> date) days"
  define found where "found = map_of days date"
  define d0 where "d0 = (case found of None \<Rightarrow> new_day ops | Some d \<Rightarrow> d)"
  have days: "days = pre @ (if found = None then [] else [(date, d0)]) @ post"
    using split_day [OF assms(2), of date] unfolding pre_def post_def d0_def found_def by (cases "map_of days date") auto
  have step: "(case plus_day ops d0 of
           Terminate \<Rightarrow> None
         | Overflow \<Rightarrow> revert_changes ops (found = None) pre (date, d0) [] post
         | Done d1 \<Rightarrow>
             (case (if found = None \<and> pre \<noteq> [] then init_before ops (snd (last pre)) d1 else Done d1) of
                Terminate \<Rightarrow> None
              | Overflow \<Rightarrow> revert_changes ops (found = None) pre (date, d1) [] post
              | Done d2 \<Rightarrow>
                  (case before_loop (plus_before ops) post of
                     None \<Rightarrow> None
                   | Some (ds, []) \<Rightarrow> Some (True, pre @ (date, d2) # ds)
                   | Some (ds, e # rest) \<Rightarrow> revert_changes ops (found = None) pre (date, d2) (ds @ [e]) rest))) = Some (False, days')"
    using assms(3) unfolding add_to_days_def Let_def pre_def [symmetric] post_def [symmetric] found_def [symmetric] d0_def [symmetric] .
  consider (day) "revert_changes ops (found = None) pre (date, d0) [] post = Some (False, days')"
    | (first) d1 where "found = None" "revert_changes ops (found = None) pre (date, d1) [] post = Some (False, days')"
    | (loop) d2 ds e rest where "before_loop (plus_before ops) post = Some (ds, e # rest)"
        "revert_changes ops (found = None) pre (date, d2) (ds @ [e]) rest = Some (False, days')"
    using step by (cases "plus_day ops d0") (fastforce split: raised.splits option.splits prod.splits list.splits if_splits)+
  then show ?thesis
  proof cases
    case day
    from revert_total(2) [OF assms(1) day] obtain d' where
      "days' = pre @ (if found = None then [] else [(date, d')]) @ post" "am d' = am d0 - a" "be d' = be d0" by auto
    then show ?thesis unfolding days by (cases "post = []") (auto simp: total_of_def)
  next
    case first
    from revert_total(2) [OF assms(1) first(2)] show ?thesis using first(1) unfolding days by auto
  next
    case loop
    obtain q where q: "post = q @ e # rest"
      "list_all2 (\<lambda>e e'. fst e' = fst e \<and> am (snd e') = am (snd e) \<and> be (snd e') = be (snd e) + a) q ds"
      using before_loop_total [OF assms(1) loop(1)] by blast
    obtain d' ts where ts: "days' = pre @ (if found = None then [] else [(date, d')]) @ ts @ rest"
      "list_all2 (\<lambda>e e'. fst e' = fst e \<and> am (snd e') = am (snd e) \<and> be (snd e') = be (snd e) + - a) (ds @ [e]) ts"
      using revert_total(2) [OF assms(1) loop(2)] by blast
    obtain ts1 e' where e': "ts = ts1 @ [e']" "fst e' = fst e" "am (snd e') = am (snd e)" "be (snd e') = be (snd e) + - a"
      using ts(2) by (auto simp: list_all2_append1 list_all2_Cons1)
    have "map fst ts = map fst (ds @ [e])" by (rule shifted_days(1) [OF ts(2)])
    then have "map fst ts = map fst q @ [fst e]" using shifted_days(1) [OF q(2)] by simp
    then show ?thesis
      using e' unfolding days ts(1) q(1) by (cases "rest = []") (auto simp: total_of_def)
  qed
qed

end

section \<open>The two kinds of days\<close>

lemma and_then_Done: "and_then r f = Done y \<longleftrightarrow> (\<exists>x. r = Done x \<and> f x = Done y)"
  by (auto simp: and_then_def split: raised.splits)

lemma field_op_Done:
  "revenue_op r f = Done y \<longleftrightarrow> (\<exists>v. r = Some v \<and> y = f v)"
  "imps_op r f = Done y \<longleftrightarrow> (\<exists>v. r = Some v \<and> y = f v)"
  by (auto simp: revenue_op_def imps_op_def split: option.splits)

lemmas op_Done = and_then_Done field_op_Done exact_decimal_def

interpretation account: day_field "exact_decimal D" "account_ops D a" amount amount_before a for D a
  by unfold_locales (auto simp: account_ops_def AccountDayAmount_def op_Done)

interpretation revenue: day_field "exact_decimal D \<and> exact_decimal I" "amount_ops D I a im cl" amount amount_before a
  for D I a im cl
  by unfold_locales (auto simp: amount_ops_def DayAmount_def op_Done)

interpretation imps: day_field "exact_decimal D \<and> exact_decimal I" "amount_ops D I a im cl" imps imps_before im
  for D I a im cl
  by unfold_locales (auto simp: amount_ops_def DayAmount_def op_Done)

interpretation clicks: day_field "exact_decimal D \<and> exact_decimal I" "amount_ops D I a im cl" clicks clicks_before cl
  for D I a im cl
  by unfold_locales (auto simp: amount_ops_def DayAmount_def op_Done)

end
