(* ===== verification/BillingLimits.thy ===== *)
theory BillingLimits
  imports BillingAmountsProps "HOL-Library.Monad_Syntax" "HOL-Library.Signed_Division"
begin

text \<open>
  The delivery limits of campaigns and creative groups, and their check: \<open>DeliveryLimitsChecker\<close> and
  \<open>adapt_delivery_limits_\<close> of \<open>src/CampaignSvcs/BillingServer/BillingContainer.cpp\<close>.

  What the code observes of a \<open>Generics::Time\<close> is in \<open>billing_time\<close>: the date and the hour of a time,
  its seconds, the seconds of a day, and the spans of hours and seconds. \<open>of_int1\<close> is the constructor of the two decimal types from an
  integer.
\<close>

section \<open>Configuration\<close>

record 't billing_time =
  gm_date :: "'t \<Rightarrow> 't"
  gm_hour :: "'t \<Rightarrow> nat"
  time_sec :: "'t \<Rightarrow> int"
  one_day_sec :: int
  hours_span :: "nat \<Rightarrow> 't"
  seconds_span :: "int \<Rightarrow> 't"

record 't delivery_limits =
  dl_active :: bool
  time_offset :: 't
  date_end :: 't
  budget :: "int optional"
  daily_budget :: "int optional"
  delivery_pacing :: char
  limit_imps :: "nat optional"
  limit_daily_imps :: "nat optional"
  limit_clicks :: "nat optional"
  limit_daily_clicks :: "nat optional"
  imps_dec :: "int option"
  daily_imps_dec :: "int option"
  clicks_dec :: "int option"
  daily_clicks_dec :: "int option"
  adv_tz_date_end :: 't

text \<open>\<open>adapt_delivery_limits_\<close>: this server's share of the limits; \<open>noexcept\<close>.\<close>

definition share_dec :: "decimal \<Rightarrow> (int \<Rightarrow> int) \<Rightarrow> int \<Rightarrow> nat optional \<Rightarrow> int option \<Rightarrow> int option option" where
  "share_dec I of_int1 c cnt old =
     (if present cnt then map_option Some (dec_mul_floor I (of_int1 (int (opt_val cnt))) c) else Some old)"

definition share_amount :: "decimal \<Rightarrow> int \<Rightarrow> int optional \<Rightarrow> int optional option" where
  "share_amount D c b = (if present b then do { v \<leftarrow> dec_mul_floor D (opt_val b) c; Some (set_val v b) } else Some b)"

definition adapt_delivery_limits ::
  "decimal \<Rightarrow> decimal \<Rightarrow> ('t::{zero,plus}) billing_time \<Rightarrow> (int \<Rightarrow> int) \<Rightarrow> int \<Rightarrow> 't delivery_limits \<Rightarrow> 't delivery_limits option" where
  "adapt_delivery_limits D I T of_int1 c dl = do {
     db \<leftarrow> share_amount D c (daily_budget dl);
     b \<leftarrow> share_amount D c (budget dl);
     di \<leftarrow> share_dec I of_int1 c (limit_daily_imps dl) (daily_imps_dec dl);
     i \<leftarrow> share_dec I of_int1 c (limit_imps dl) (imps_dec dl);
     dc \<leftarrow> share_dec I of_int1 c (limit_daily_clicks dl) (daily_clicks_dec dl);
     k \<leftarrow> share_dec I of_int1 c (limit_clicks dl) (clicks_dec dl);
     Some (dl\<lparr>daily_budget := db, budget := b, daily_imps_dec := di, imps_dec := i, daily_clicks_dec := dc, clicks_dec := k,
       adv_tz_date_end := if date_end dl \<noteq> 0 then gm_date T (date_end dl + time_offset dl) else 0\<rparr>) }"

section \<open>The checker\<close>

definition get_date_in_adv_tz :: "('t::plus) billing_time \<Rightarrow> 't \<Rightarrow> 't \<Rightarrow> 't" where
  "get_date_in_adv_tz T offset now = gm_date T (now + offset)"

record 't limits_checker =
  lc_limits :: "'t delivery_limits"
  adv_tz_now_date :: 't
  remain_days :: int

text \<open>The constructor; \<open>of_int1\<close> is the constructor of \<open>RevenueDecimal\<close> from an integer.\<close>

definition DeliveryLimitsChecker ::
  "decimal \<Rightarrow> ('t::{zero,plus,minus}) billing_time \<Rightarrow> (int \<Rightarrow> int) \<Rightarrow> 't delivery_limits \<Rightarrow> 't \<Rightarrow> 't limits_checker" where
  "DeliveryLimitsChecker D T of_int1 dl now =
     (let today = get_date_in_adv_tz T (time_offset dl) now
      in \<lparr>lc_limits = dl, adv_tz_now_date = today,
          remain_days =
            if (present (budget dl) \<or> present (daily_budget dl)) \<and> delivery_pacing dl = CHR ''D'' \<and> date_end dl \<noteq> 0
            then of_int1 (time_sec T (adv_tz_date_end dl - today) sdiv one_day_sec T + 1)
            else dec_default D\<rparr>)"

definition check_required :: "'t delivery_limits \<Rightarrow> bool" where
  "check_required dl \<longleftrightarrow>
     present (budget dl) \<or> present (daily_budget dl) \<or> imps_dec dl \<noteq> None \<or> daily_imps_dec dl \<noteq> None \<or>
     clicks_dec dl \<noteq> None \<or> daily_clicks_dec dl \<noteq> None"

text \<open>
  The values behind the pointers \<open>allowed_amount\<close>, \<open>allowed_imps\<close> and \<open>allowed_clicks\<close>, which are null
  together. A step of the check goes on or leaves with \<open>false\<close>; the value \<open>None\<close> is an overflow of
  \<open>ImpRevenueDecimal\<close>, which no handler names.
\<close>

type_synonym allowed = "(int \<times> int \<times> int) option"

abbreviation (input) stop :: "allowed \<Rightarrow> (bool \<times> allowed) option" where
  "stop al \<equiv> Some (False, al)"

definition then_check :: "(bool \<times> allowed) option \<Rightarrow> (allowed \<Rightarrow> (bool \<times> allowed) option) \<Rightarrow> (bool \<times> allowed) option" where
  "then_check r f = (case r of Some (True, al) \<Rightarrow> f al | _ \<Rightarrow> r)"

definition UNLIMITED_IMPS :: "(int \<Rightarrow> int) \<Rightarrow> int" where
  "UNLIMITED_IMPS of_int1 = of_int1 1000000"

text \<open>\<open>*allowed = std::min(limit - value, *allowed)\<close> for the three numbers.\<close>

definition lower_amount :: "decimal \<Rightarrow> int \<Rightarrow> int \<Rightarrow> allowed \<Rightarrow> (bool \<times> allowed) option" where
  "lower_amount D limit val al =
     (case al of
        None \<Rightarrow> Some (True, None)
      | Some (a, i, k) \<Rightarrow> (case dec_sub D limit val of None \<Rightarrow> stop al | Some v \<Rightarrow> Some (True, Some (min v a, i, k))))"

definition lower_imps :: "decimal \<Rightarrow> int \<Rightarrow> int \<Rightarrow> allowed \<Rightarrow> (bool \<times> allowed) option" where
  "lower_imps I limit val al =
     (case al of
        None \<Rightarrow> Some (True, None)
      | Some (a, i, k) \<Rightarrow> map_option (\<lambda>v. (True, Some (a, min v i, k))) (dec_sub I limit val))"

definition lower_clicks :: "decimal \<Rightarrow> int \<Rightarrow> int \<Rightarrow> allowed \<Rightarrow> (bool \<times> allowed) option" where
  "lower_clicks I limit val al =
     (case al of
        None \<Rightarrow> Some (True, None)
      | Some (a, i, k) \<Rightarrow> map_option (\<lambda>v. (True, Some (a, i, min v k))) (dec_sub I limit val))"

definition reached :: "int option \<Rightarrow> int \<Rightarrow> bool" where
  "reached limit val = (case limit of None \<Rightarrow> False | Some l \<Rightarrow> val \<ge> l)"

text \<open>The daily limits of a positive amount.\<close>

definition check_daily ::
  "decimal \<Rightarrow> decimal \<Rightarrow> 't delivery_limits \<Rightarrow> int \<Rightarrow> int \<Rightarrow> int \<Rightarrow> allowed \<Rightarrow> (bool \<times> allowed) option" where
  "check_daily D I dl today_amount today_imps today_clicks al =
     then_check
       (if delivery_pacing dl = CHR ''F'' \<and> present (daily_budget dl)
        then (if today_amount \<ge> opt_val (daily_budget dl) then stop al
              else lower_amount D (opt_val (daily_budget dl)) today_amount al)
        else Some (True, al))
     (\<lambda>al. then_check
       (case daily_imps_dec dl of
          None \<Rightarrow> Some (True, al)
        | Some l \<Rightarrow> if today_imps \<ge> l then stop al else lower_imps I l today_imps al)
     (\<lambda>al. (case daily_clicks_dec dl of
          None \<Rightarrow> Some (True, al)
        | Some l \<Rightarrow> if today_clicks \<ge> l then stop al else lower_clicks I l today_clicks al)))"

definition raise_allowed :: "int \<Rightarrow> int \<Rightarrow> int \<Rightarrow> allowed \<Rightarrow> allowed" where
  "raise_allowed am im cl = map_option (\<lambda>(a, i, k). (max (- am) a, max (- im) i, max (- cl) k))"

text \<open>A negative amount is checked against what was spent.\<close>

definition check_spent :: "int \<Rightarrow> int \<Rightarrow> int \<Rightarrow> allowed \<Rightarrow> (bool \<times> allowed) option" where
  "check_spent am im cl al =
     (if am \<le> 0 \<or> im \<le> 0 \<or> cl \<le> 0 then stop al else Some (True, raise_allowed am im cl al))"

definition dynamic_daily_budget :: "decimal \<Rightarrow> 't limits_checker \<Rightarrow> int \<Rightarrow> int \<Rightarrow> int option" where
  "dynamic_daily_budget D lc total_amount today_amount =
     (if remain_days lc > 0
      then do { x \<leftarrow> dec_sub D (opt_val (budget (lc_limits lc))) total_amount;
                y \<leftarrow> dec_add D x today_amount;
                dec_div D y (remain_days lc) }
      else Some 0)"

text \<open>The total limits of a positive amount; without a limit of the impressions the daily one is forgotten.\<close>

definition check_total ::
  "decimal \<Rightarrow> decimal \<Rightarrow> (int \<Rightarrow> int) \<Rightarrow> ('t::zero) limits_checker \<Rightarrow> int \<Rightarrow> int \<Rightarrow> int \<Rightarrow> int \<Rightarrow> allowed \<Rightarrow> (bool \<times> allowed) option" where
  "check_total D I of_int1 lc today_amount total_amount total_imps total_clicks al =
     (let dl = lc_limits lc
      in if total_amount \<ge> opt_val (budget dl) \<or> reached (imps_dec dl) total_imps \<or> reached (clicks_dec dl) total_clicks
         then stop al
         else then_check (lower_amount D (opt_val (budget dl)) total_amount al)
           (\<lambda>al. then_check (case imps_dec dl of
                None \<Rightarrow> Some (True, map_option (\<lambda>(a, i, k). (a, UNLIMITED_IMPS of_int1, k)) al)
              | Some l \<Rightarrow> lower_imps I l total_imps al)
           (\<lambda>al. then_check (case clicks_dec dl of
                None \<Rightarrow> Some (True, map_option (\<lambda>(a, i, k). (a, i, UNLIMITED_IMPS of_int1)) al)
              | Some l \<Rightarrow> lower_clicks I l total_clicks al)
           (\<lambda>al. if delivery_pacing dl = CHR ''D'' \<and> date_end dl \<noteq> 0
                 then (case dynamic_daily_budget D lc total_amount today_amount of
                         None \<Rightarrow> stop al
                       | Some b \<Rightarrow> if today_amount \<ge> b then stop al else lower_amount D b today_amount al)
                 else Some (True, al)))))"

text \<open>\<open>check_\<close>; a null holder has the same amounts as an empty one.\<close>

definition check_limits ::
  "decimal \<Rightarrow> decimal \<Rightarrow> (int \<Rightarrow> int) \<Rightarrow> ('t::{linorder,zero}) limits_checker \<Rightarrow> ('t, day_amount) days \<Rightarrow> bool \<Rightarrow> allowed \<Rightarrow> (bool \<times> allowed) option" where
  "check_limits D I of_int1 lc days positive al0 =
     (let date = adv_tz_now_date lc; dl = lc_limits lc;
          today_amount = get_day_amount date days; today_imps = get_day_imps date days; today_clicks = get_day_clicks date days;
          al1 = map_option (\<lambda>(a, _, _). (a, UNLIMITED_IMPS of_int1, UNLIMITED_IMPS of_int1)) al0
      in then_check
           (if positive then check_daily D I dl today_amount today_imps today_clicks al1
            else check_spent today_amount today_imps today_clicks al1)
           (\<lambda>al. if \<not> positive \<or> present (budget dl) \<or> imps_dec dl \<noteq> None \<or> clicks_dec dl \<noteq> None
                 then (case get_total_amount D days of
                         None \<Rightarrow> stop al
                       | Some total_amount \<Rightarrow>
                           do { total_imps \<leftarrow> get_total_imps I days;
                                total_clicks \<leftarrow> get_total_clicks I days;
                                if positive
                                then check_total D I of_int1 lc today_amount total_amount total_imps total_clicks al
                                else check_spent total_amount total_imps total_clicks al })
                 else Some (True, al)))"

definition check :: "decimal \<Rightarrow> decimal \<Rightarrow> (int \<Rightarrow> int) \<Rightarrow> ('t::{linorder,zero}) limits_checker \<Rightarrow> ('t, day_amount) days \<Rightarrow> bool option" where
  "check D I of_int1 lc days = map_option fst (check_limits D I of_int1 lc days True None)"

text \<open>
  \<open>confirm_amount\<close>. The three optional values are written through \<open>operator*\<close>, so none of them is
  present afterwards: the allowed values are computed and not used. (For the two \<open>std::optional\<close>
  values that write is undefined behaviour by the standard; the model is the one of an implementation
  that writes the storage.)
\<close>

definition check_allowed ::
  "decimal \<Rightarrow> decimal \<Rightarrow> (int \<Rightarrow> int) \<Rightarrow> ('t::{linorder,zero}) limits_checker \<Rightarrow> ('t, day_amount) days \<Rightarrow> int \<Rightarrow> int \<Rightarrow> int \<Rightarrow>
   (bool \<times> int optional \<times> int optional \<times> int optional) option" where
  "check_allowed D I of_int1 lc days am im cl =
     (if \<not> check_required (lc_limits lc)
      then Some (True, Optional_none (dec_default D), Optional_none (dec_default I), Optional_none (dec_default I))
      else do {
        (res, al) \<leftarrow> check_limits D I of_int1 lc days (am > 0) (Some (am, im, cl));
        (case al of
           None \<Rightarrow> None
         | Some (a, i, k) \<Rightarrow>
             Some (res, assign_val a (Optional_none (dec_default D)), assign_val i (Optional_none (dec_default I)),
               assign_val k (Optional_none (dec_default I)))) })"

definition confirm_amount ::
  "decimal \<Rightarrow> decimal \<Rightarrow> (int \<Rightarrow> int) \<Rightarrow> ('t::{linorder,zero}) limits_checker \<Rightarrow> ('t, day_amount) days \<Rightarrow> int \<Rightarrow> int \<Rightarrow> int \<Rightarrow> bool \<Rightarrow>
   (bool \<times> ('t, day_amount) days \<times> int \<times> int \<times> int) option" where
  "confirm_amount D I of_int1 lc days am im cl forced = do {
     (check_result, allowed_am, allowed_im, allowed_cl) \<leftarrow> check_allowed D I of_int1 lc days am im cl;
     if check_result \<or> forced
     then (let res_am = (if present allowed_am then opt_val allowed_am else am);
               res_im = (if present allowed_im then opt_val allowed_im else im);
               res_cl = (if present allowed_cl then opt_val allowed_cl else cl)
           in do { (added, days') \<leftarrow> add_amount D I (adv_tz_now_date lc) res_am res_im res_cl days;
                   am' \<leftarrow> dec_sub D am res_am;
                   im' \<leftarrow> dec_sub I im res_im;
                   cl' \<leftarrow> dec_sub I cl res_cl;
                   Some (check_result \<and> added, days', am', im', cl') })
     else Some (check_result, days, am, im, cl) }"

end
