(* ===== verification/BillingReplace.thy ===== *)
theory BillingReplace
  imports BillingAmountsProps "HOL-Library.Monad_Syntax"
begin

text \<open>
  The replacement of local amounts by the confirmed statistics
  (\<open>BillingContainer::replace_account_amount_\<close>, \<open>replace_amount_\<close>, \<open>replace_account_amounts_\<close> and
  \<open>replace_amounts_\<close> of \<open>src/CampaignSvcs/BillingServer/BillingContainer.cpp\<close>). All four are
  \<open>noexcept\<close> and handle no overflow, so \<open>None\<close> is the end of the process.
\<close>

section \<open>The statistics\<close>

record amount_count =
  ac_amount :: int
  ac_imps :: int
  ac_clicks :: int

record 't amount_distribution =
  prev_days_amount :: int
  prev_day :: 't
  day_amounts :: "('t, int) std_map"

record 't amount_count_distribution =
  prev_days_amounts :: amount_count
  counts_prev_day :: 't
  day_amount_counts :: "('t, amount_count) std_map"

section \<open>One object\<close>

text \<open>
  The two functions for one object have the same flow of control. \<open>replace_ops\<close> holds what they do to
  the fields: the amounts before the first day of the statistics; a day of the statistics scaled by
  \<open>limit_coef_\<close>; adding a scaled day to the amounts before; adding the amounts before to a local day;
  and taking the amounts before the first remaining day off a local day. The local variables
  \<open>amount_before\<close>, \<open>imps_before\<close> and \<open>clicks_before\<close> are the fields of these names of a day.
\<close>

record ('s, 'd) replace_ops =
  rp_prev :: "'d option"
  rp_scale :: "'d \<Rightarrow> 's \<Rightarrow> 'd option"
  rp_acc :: "'d \<Rightarrow> 'd \<Rightarrow> 'd option"
  rp_add :: "'d \<Rightarrow> 'd \<Rightarrow> 'd option"
  rp_sub :: "'d \<Rightarrow> 'd \<Rightarrow> 'd option"

fun map_days :: "('d \<Rightarrow> 'd option) \<Rightarrow> ('t, 'd) days \<Rightarrow> ('t, 'd) days option" where
  "map_days f [] = Some []"
| "map_days f ((t, d) # ds) = do { d' \<leftarrow> f d; ds' \<leftarrow> map_days f ds; Some ((t, d') # ds') }"

text \<open>The erased days, and the values of the remaining ones without them.\<close>

definition erase_replaced :: "('s, 'd) replace_ops \<Rightarrow> 't::linorder \<Rightarrow> ('t, 'd) days \<Rightarrow> ('t, 'd) days option" where
  "erase_replaced ops end_date days =
     (case dropWhile (\<lambda>e. fst e < end_date) days of
        [] \<Rightarrow> Some []
      | e # rest \<Rightarrow> map_days (rp_sub ops (snd e)) (e # rest))"

text \<open>The sum over the days of the statistics, and the insertion of these days.\<close>

fun sum_source :: "('s, 'd) replace_ops \<Rightarrow> 'd \<Rightarrow> ('t \<times> 's) list \<Rightarrow> 'd option" where
  "sum_source ops acc [] = Some acc"
| "sum_source ops acc ((t, x) # xs) = do { d \<leftarrow> rp_scale ops acc x; acc' \<leftarrow> rp_acc ops acc d; sum_source ops acc' xs }"

fun insert_source ::
  "('s, 'd) replace_ops \<Rightarrow> 'd \<Rightarrow> ('t::linorder, 'd) days \<Rightarrow> ('t \<times> 's) list \<Rightarrow> ('t, 'd) days option" where
  "insert_source ops acc days [] = Some days"
| "insert_source ops acc days ((t, x) # xs) =
     do { d \<leftarrow> rp_scale ops acc x; acc' \<leftarrow> rp_acc ops acc d; insert_source ops acc' (map_insert t d days) xs }"

definition replace_days ::
  "('s, 'd) replace_ops \<Rightarrow> ('t::{linorder,zero} \<times> ('t, 's) std_map) option \<Rightarrow> 't \<Rightarrow> ('t, 'd) days \<Rightarrow> (bool \<times> ('t, 'd) days) option" where
  "replace_days ops source end_date days =
     (if source = None \<or> fst (the source) < end_date then
        do { rest \<leftarrow> erase_replaced ops end_date days;
             days' \<leftarrow> (case source of
               None \<Rightarrow> Some rest
             | Some (prev, xs) \<Rightarrow>
                 do { acc0 \<leftarrow> rp_prev ops;
                      acc \<leftarrow> sum_source ops acc0 (takeWhile (\<lambda>e. fst e < end_date) xs);
                      rest' \<leftarrow> map_days (rp_add ops acc) rest;
                      insert_source ops acc0 (if prev \<noteq> 0 then map_insert prev acc0 rest' else rest')
                        (takeWhile (\<lambda>e. fst e < end_date) xs) });
             Some (days' \<noteq> [], days') }
      else Some (False, days))"

subsection \<open>Accounts\<close>

definition account_replace_ops :: "decimal \<Rightarrow> int \<Rightarrow> int \<Rightarrow> (int, account_day_amount) replace_ops" where
  "account_replace_ops D c prev =
     \<lparr>rp_prev = do { v \<leftarrow> dec_mul_floor D prev c; Some (AccountDayAmount\<lparr>amount_before := v\<rparr>) },
      rp_scale = (\<lambda>acc x. do { v \<leftarrow> dec_mul_floor D x c; Some (acc\<lparr>amount := v\<rparr>) }),
      rp_acc = (\<lambda>acc d. do { v \<leftarrow> dec_add D (amount_before acc) (amount d); Some (acc\<lparr>amount_before := v\<rparr>) }),
      rp_add = (\<lambda>acc d. do { v \<leftarrow> dec_add D (amount_before d) (amount_before acc); Some (d\<lparr>amount_before := v\<rparr>) }),
      rp_sub = (\<lambda>e d. do { v \<leftarrow> dec_sub D (amount_before d) (amount_before e); Some (d\<lparr>amount_before := v\<rparr>) })\<rparr>"

definition replace_account_amount ::
  "decimal \<Rightarrow> int \<Rightarrow> ('t::{linorder,zero}, account_day_amount) days \<Rightarrow> 't amount_distribution option \<Rightarrow> 't \<Rightarrow>
   (bool \<times> ('t, account_day_amount) days) option" where
  "replace_account_amount D c days source end_date =
     replace_days (account_replace_ops D c (case source of Some s \<Rightarrow> prev_days_amount s | None \<Rightarrow> 0))
       (map_option (\<lambda>s. (prev_day s, day_amounts s)) source) end_date days"

subsection \<open>Campaigns and creative groups\<close>

definition amount_replace_ops :: "decimal \<Rightarrow> decimal \<Rightarrow> int \<Rightarrow> amount_count \<Rightarrow> (amount_count, day_amount) replace_ops" where
  "amount_replace_ops D I c prev =
     \<lparr>rp_prev = do { v \<leftarrow> dec_mul_floor D (ac_amount prev) c; i \<leftarrow> dec_mul_floor I (ac_imps prev) c;
        k \<leftarrow> dec_mul_floor I (ac_clicks prev) c;
        Some (DayAmount\<lparr>amount_before := v, imps_before := i, clicks_before := k\<rparr>) },
      rp_scale = (\<lambda>acc x. do { v \<leftarrow> dec_mul_floor D (ac_amount x) c; i \<leftarrow> dec_mul_floor I (ac_imps x) c;
        k \<leftarrow> dec_mul_floor I (ac_clicks x) c; Some (acc\<lparr>amount := v, imps := i, clicks := k\<rparr>) }),
      rp_acc = (\<lambda>acc d. do { v \<leftarrow> dec_add D (amount_before acc) (amount d); i \<leftarrow> dec_add I (imps_before acc) (imps d);
        k \<leftarrow> dec_add I (clicks_before acc) (clicks d);
        Some (acc\<lparr>amount_before := v, imps_before := i, clicks_before := k\<rparr>) }),
      rp_add = (\<lambda>acc d. do { v \<leftarrow> dec_add D (amount_before d) (amount_before acc);
        i \<leftarrow> dec_add I (imps_before d) (imps_before acc); k \<leftarrow> dec_add I (clicks_before d) (clicks_before acc);
        Some (d\<lparr>amount_before := v, imps_before := i, clicks_before := k\<rparr>) }),
      rp_sub = (\<lambda>e d. do { v \<leftarrow> dec_sub D (amount_before d) (amount_before e);
        i \<leftarrow> dec_sub I (imps_before d) (imps_before e); k \<leftarrow> dec_sub I (clicks_before d) (clicks_before e);
        Some (d\<lparr>amount_before := v, imps_before := i, clicks_before := k\<rparr>) })\<rparr>"

definition replace_amount ::
  "decimal \<Rightarrow> decimal \<Rightarrow> int \<Rightarrow> ('t::{linorder,zero}, day_amount) days \<Rightarrow> 't amount_count_distribution option \<Rightarrow> 't \<Rightarrow>
   (bool \<times> ('t, day_amount) days) option" where
  "replace_amount D I c days source end_date =
     replace_days (amount_replace_ops D I c (case source of Some s \<Rightarrow> prev_days_amounts s | None \<Rightarrow> \<lparr>ac_amount = 0, ac_imps = 0, ac_clicks = 0\<rparr>))
       (map_option (\<lambda>s. (counts_prev_day s, day_amount_counts s)) source) end_date days"

section \<open>All objects\<close>

definition REPLACE_PORTION_SIZE :: nat where
  "REPLACE_PORTION_SIZE = 100"

text \<open>
  \<open>use_source_end_date\<close>: \<open>base\<close> is the time \<open>stat_delay_\<close> ago, \<open>offsets\<close> are the time offsets of the
  configuration, if there is one, \<open>gm_date\<close> is the date of a time, \<open>hour14\<close> fourteen hours.
\<close>

definition use_source_end_date :: "('t::ab_group_add \<Rightarrow> 't) \<Rightarrow> 't \<Rightarrow> 't \<Rightarrow> (nat \<Rightarrow> 't option) option \<Rightarrow> nat \<Rightarrow> 't" where
  "use_source_end_date gm_date hour14 base offsets k =
     (case offsets of
        None \<Rightarrow> gm_date (base - hour14)
      | Some f \<Rightarrow> (case f k of None \<Rightarrow> gm_date (base - hour14) | Some off \<Rightarrow> gm_date (base + off)))"

text \<open>
  One round of the merge of local keys with the keys of the statistics. The iterator \<open>cur_it\<close> splits
  the map into the nodes before it and the rest; a new node is inserted in front of it, since its key
  lies between them. \<open>rep\<close> replaces the days of one object, \<open>end_for\<close> is the end date of an object.
\<close>

definition replace_round ::
  "(('t, 'd) days \<Rightarrow> 's option \<Rightarrow> 't \<Rightarrow> (bool \<times> ('t, 'd) days) option) \<Rightarrow> (nat \<Rightarrow> 't) \<Rightarrow>
   (nat, ('t, 'd) days) std_map \<times> (nat, ('t, 'd) days) std_map \<times> (nat, 's) std_map \<Rightarrow>
   ((nat, ('t, 'd) days) std_map \<times> (nat, ('t, 'd) days) std_map \<times> (nat, 's) std_map) option" where
  "replace_round rep end_for st =
     (case st of (pre, cur, src) \<Rightarrow>
        (let end_date = end_for (if cur \<noteq> [] then fst (hd cur) else fst (hd src))
         in if cur = [] \<or> (src \<noteq> [] \<and> fst (hd src) < fst (hd cur))
            then do { (used, days) \<leftarrow> rep [] (Some (snd (hd src))) end_date;
                      Some (if used then pre @ [(fst (hd src), days)] else pre, cur, tl src) }
            else do { (used, days) \<leftarrow>
                        (if src = [] \<or> fst (hd cur) < fst (hd src) then rep (snd (hd cur)) None end_date
                         else rep (snd (hd cur)) (Some (snd (hd src))) end_date);
                      Some (if days = [] then pre else pre @ [(fst (hd cur), days)], tl cur,
                        if src = [] \<or> fst (hd cur) < fst (hd src) then src else tl src) }))"

text \<open>The rounds under one lock: at most \<open>n\<close> of them.\<close>

fun replace_portion ::
  "(('t, 'd) days \<Rightarrow> 's option \<Rightarrow> 't \<Rightarrow> (bool \<times> ('t, 'd) days) option) \<Rightarrow> (nat \<Rightarrow> 't) \<Rightarrow> nat \<Rightarrow>
   (nat, ('t, 'd) days) std_map \<times> (nat, ('t, 'd) days) std_map \<times> (nat, 's) std_map \<Rightarrow>
   ((nat, ('t, 'd) days) std_map \<times> (nat, ('t, 'd) days) std_map \<times> (nat, 's) std_map) option" where
  "replace_portion rep end_for 0 st = Some st"
| "replace_portion rep end_for (Suc n) st =
     (if fst (snd st) \<noteq> [] \<or> snd (snd st) \<noteq> []
      then do { st' \<leftarrow> replace_round rep end_for st; replace_portion rep end_for n st' }
      else Some st)"

text \<open>The outer loop: the map is locked again, and the iterator is found again by the last key.\<close>

partial_function (option) replace_loop ::
  "(('t, 'd) days \<Rightarrow> 's option \<Rightarrow> 't \<Rightarrow> (bool \<times> ('t, 'd) days) option) \<Rightarrow> (nat \<Rightarrow> 't) \<Rightarrow> nat \<Rightarrow>
   (nat, ('t, 'd) days) std_map \<times> (nat, ('t, 'd) days) std_map \<times> (nat, 's) std_map \<Rightarrow>
   (nat, ('t, 'd) days) std_map option" where
  "replace_loop rep end_for n st =
     do { st' \<leftarrow> replace_portion rep end_for n st;
          if fst (snd st') = [] \<and> snd (snd st') = [] then Some (fst st')
          else (let m = fst st' @ fst (snd st');
                    lower = (if fst (snd st') = [] then length m
                             else length (takeWhile (\<lambda>e. fst e < fst (hd (fst (snd st')))) m))
                in replace_loop rep end_for n (take lower m, drop lower m, snd (snd st'))) }"

definition replace_account_amounts ::
  "decimal \<Rightarrow> int \<Rightarrow> (nat \<Rightarrow> 't::{linorder,zero}) \<Rightarrow> (nat, ('t, account_day_amount) days) std_map \<Rightarrow>
   (nat, 't amount_distribution) std_map \<Rightarrow> (nat, ('t, account_day_amount) days) std_map option" where
  "replace_account_amounts D c end_for amounts source =
     replace_loop (replace_account_amount D c) end_for REPLACE_PORTION_SIZE ([], amounts, source)"

definition replace_amounts ::
  "decimal \<Rightarrow> decimal \<Rightarrow> int \<Rightarrow> (nat \<Rightarrow> 't::{linorder,zero}) \<Rightarrow> (nat, ('t, day_amount) days) std_map \<Rightarrow>
   (nat, 't amount_count_distribution) std_map \<Rightarrow> (nat, ('t, day_amount) days) std_map option" where
  "replace_amounts D I c end_for amounts source =
     replace_loop (replace_amount D I c) end_for REPLACE_PORTION_SIZE ([], amounts, source)"

end
