(* ===== verification/BillingReplaceProps.thy ===== *)
theory BillingReplaceProps
  imports BillingReplace
begin

text \<open>
  What the replacement by the statistics leaves: the days of the statistics before the end date and
  the local days from it on, linked, with the total of both; and that the loop over all objects does
  this for every object, whatever the size of its portions.
\<close>

section \<open>Lists of days\<close>

lemma map_insert_middle:
  "\<forall>e\<in>set P. fst e < t \<Longrightarrow> \<forall>e\<in>set R. t < fst e \<Longrightarrow> map_insert t d (P @ R) = P @ (t, d) # R"
proof (induction P)
  case Nil
  then show ?case by (cases R) auto
next
  case (Cons e P)
  then show ?case by (cases e) auto
qed

text \<open>The shift of \<open>shifted_days\<close>, as a relation.\<close>

definition shifts :: "('d \<Rightarrow> int) \<Rightarrow> ('d \<Rightarrow> int) \<Rightarrow> int \<Rightarrow> ('t, 'd) days \<Rightarrow> ('t, 'd) days \<Rightarrow> bool" where
  "shifts be am a = list_all2 (\<lambda>e e'. fst e' = fst e \<and> am (snd e') = am (snd e) \<and> be (snd e') = be (snd e) + a)"

lemma shifts_facts:
  assumes "shifts be am a ds ds'"
  shows "map fst ds' = map fst ds" "linked be am ds' = linked be am ds" "get_day am t ds' = get_day am t ds"
    "ds \<noteq> [] \<Longrightarrow> be (snd (hd ds')) = be (snd (hd ds)) + a" "ds' = [] \<longleftrightarrow> ds = []"
    "map (\<lambda>e. am (snd e)) ds' = map (\<lambda>e. am (snd e)) ds"
proof -
  note sh = shifted_days [OF assms [unfolded shifts_def]]
  show "map fst ds' = map fst ds" "linked be am ds' = linked be am ds" "get_day am t ds' = get_day am t ds"
    "ds \<noteq> [] \<Longrightarrow> be (snd (hd ds')) = be (snd (hd ds)) + a" "ds' = [] \<longleftrightarrow> ds = []"
    using sh by auto
  show "map (\<lambda>e. am (snd e)) ds' = map (\<lambda>e. am (snd e)) ds"
    using assms unfolding shifts_def by (induction rule: list_all2_induct) simp_all
qed

lemma shifts_trans: "shifts be am a ds ds' \<Longrightarrow> shifts be am b ds' ds'' \<Longrightarrow> shifts be am (a + b) ds ds''"
  unfolding shifts_def
  by (erule list_all2_trans [rotated 2, where ?P1.0 = "\<lambda>e e'. fst e' = fst e \<and> am (snd e') = am (snd e) \<and> be (snd e') = be (snd e) + a"]) auto

lemma map_days_shifts:
  assumes "\<And>d d'. f d = Some d' \<Longrightarrow> am d' = am d \<and> be d' = be d + a"
  shows "map_days f ds = Some ds' \<Longrightarrow> shifts be am a ds ds'"
proof (induction ds arbitrary: ds')
  case (Cons e ds)
  obtain t d where e: "e = (t, d)" by (rule prod.exhaust)
  then obtain d' ds1 where "f d = Some d'" "map_days f ds = Some ds1" "ds' = (t, d') # ds1"
    using Cons.prems by (auto split: bind_splits)
  then show ?case using Cons.IH assms e by (simp add: shifts_def)
qed (simp add: shifts_def)

text \<open>The local days from the end date on.\<close>

abbreviation days_from :: "'t::linorder \<Rightarrow> ('t, 'd) days \<Rightarrow> ('t, 'd) days" where
  "days_from end_date days \<equiv> dropWhile (\<lambda>e. fst e < end_date) days"

abbreviation days_before :: "'t::linorder \<Rightarrow> ('t, 's) std_map \<Rightarrow> ('t, 's) std_map" where
  "days_before end_date days \<equiv> takeWhile (\<lambda>e. fst e < end_date) days"

lemma days_cut:
  assumes "map_ok days"
  shows "\<forall>e\<in>set (days_before t days). fst e < t" "\<forall>e\<in>set (days_from t days). t \<le> fst e"
    "map_ok (days_from t days)" "map_ok (days_before t days)"
proof -
  show "\<forall>e\<in>set (days_before t days). fst e < t" using set_takeWhileD by fastforce
  show "\<forall>e\<in>set (days_from t days). t \<le> fst e"
    using assms by (induction days) (auto simp: not_less intro: order_trans less_imp_le)
  have "map_ok (days_before t days @ days_from t days)" using assms by simp
  then show "map_ok (days_from t days)" "map_ok (days_before t days)" unfolding key_sorted_append by blast+
qed

lemma linked_days_from: "linked be am days \<Longrightarrow> linked be am (days_from t days)"
  using linked_append [of be am "days_before t days" "days_from t days"] by simp

section \<open>The laws of one field\<close>

locale replace_field =
  fixes exact :: bool and ops :: "('s, 'd) replace_ops" and am be :: "'d \<Rightarrow> int" and prev :: int and scale :: "'s \<Rightarrow> int"
  assumes prev: "rp_prev ops = Some d \<Longrightarrow> be d = prev \<and> am d = 0"
    and scale: "rp_scale ops acc x = Some d \<Longrightarrow> am d = scale x \<and> be d = be acc"
    and acc: "exact \<Longrightarrow> rp_acc ops acc d = Some acc' \<Longrightarrow> be acc' = be acc + am d \<and> am acc' = am acc"
    and add: "exact \<Longrightarrow> rp_add ops acc d = Some d' \<Longrightarrow> am d' = am d \<and> be d' = be d + be acc"
    and sub: "exact \<Longrightarrow> rp_sub ops e d = Some d' \<Longrightarrow> am d' = am d \<and> be d' = be d + - be e"
begin

lemma sum_source_value:
  "exact \<Longrightarrow> sum_source ops a xs = Some a' \<Longrightarrow> be a' = be a + sum_list (map (\<lambda>e. scale (snd e)) xs)"
proof (induction xs arbitrary: a)
  case (Cons e xs)
  obtain t x where e: "e = (t, x)" by (rule prod.exhaust)
  then obtain d a1 where d: "rp_scale ops a x = Some d" "rp_acc ops a d = Some a1" "sum_source ops a1 xs = Some a'"
    using Cons.prems(2) by (auto split: bind_splits)
  then show ?case using Cons.IH [OF Cons.prems(1) d(3)] scale [OF d(1)] acc [OF Cons.prems(1) d(2)] e by simp
qed simp

lemma erase_replaced_shifts:
  assumes exact "erase_replaced ops end_date days = Some rest"
  shows "\<exists>a. shifts be am a (days_from end_date days) rest"
    "rest \<noteq> [] \<Longrightarrow> be (snd (hd rest)) = 0"
proof -
  have rest: "shifts be am (- be (snd e)) (e # es) rest" if "days_from end_date days = e # es" for e es
  proof -
    have "map_days (rp_sub ops (snd e)) (e # es) = Some rest" using assms(2) that by (simp add: erase_replaced_def)
    then show ?thesis by (rule map_days_shifts [rotated]) (rule sub [OF assms(1)])
  qed
  show "\<exists>a. shifts be am a (days_from end_date days) rest"
  proof (cases "days_from end_date days")
    case Nil
    then have "rest = []" using assms(2) unfolding erase_replaced_def Nil by simp
    then show ?thesis unfolding Nil shifts_def by simp
  qed (use rest in auto)
  show "rest \<noteq> [] \<Longrightarrow> be (snd (hd rest)) = 0"
  proof (cases "days_from end_date days")
    case (Cons e es)
    then show ?thesis using shifts_facts(4) [OF rest] by simp
  next
    case Nil
    then have "rest = []" using assms(2) unfolding erase_replaced_def Nil by simp
    then show "rest \<noteq> [] \<Longrightarrow> be (snd (hd rest)) = 0" by simp
  qed
qed

lemma insert_source_shape:
  assumes exact
  shows "map_ok xs \<Longrightarrow> \<forall>e\<in>set P. \<forall>x\<in>set xs. fst e < fst x \<Longrightarrow> \<forall>e\<in>set R. \<forall>x\<in>set xs. fst x < fst e \<Longrightarrow>
    insert_source ops a (P @ R) xs = Some days \<Longrightarrow>
    \<exists>N. days = P @ N @ R \<and> map fst N = map fst xs \<and> map (\<lambda>e. am (snd e)) N = map (\<lambda>e. scale (snd e)) xs \<and>
      linked be am N \<and> (N \<noteq> [] \<longrightarrow> be (snd (hd N)) = be a)"
proof (induction xs arbitrary: a P)
  case (Cons e xs)
  obtain t x where e: "e = (t, x)" by (rule prod.exhaust)
  obtain d a' where d: "rp_scale ops a x = Some d" "rp_acc ops a d = Some a'"
    "insert_source ops a' (map_insert t d (P @ R)) xs = Some days"
    using Cons.prems(4) e by (auto split: bind_splits)
  have "map_insert t d (P @ R) = (P @ [(t, d)]) @ R"
    using map_insert_middle [of P t R d] Cons.prems(2,3) e by simp
  then have "insert_source ops a' ((P @ [(t, d)]) @ R) xs = Some days" using d(3) by simp
  then obtain N where N: "days = (P @ [(t, d)]) @ N @ R" "map fst N = map fst xs"
    "map (\<lambda>e. am (snd e)) N = map (\<lambda>e. scale (snd e)) xs" "linked be am N" "N \<noteq> [] \<longrightarrow> be (snd (hd N)) = be a'"
    using Cons.IH [of "P @ [(t, d)]" a'] Cons.prems(1-3) e by auto
  have "linked be am ((t, d) # N)"
    using N(4,5) acc [OF assms d(2)] scale [OF d(1)] by (cases N) auto
  then show ?case
    using N scale [OF d(1)] e by (intro exI [of _ "(t, d) # N"]) auto
qed auto

text \<open>The days of one object after the replacement.\<close>

lemma replace_days_linked:
  fixes days days' :: "('t::{linorder,zero}, 'd) days"
  assumes exact "map_ok days" "linked be am days" "replace_days ops source end_date days = Some (b, days')"
    "case source of None \<Rightarrow> True | Some (p, xs) \<Rightarrow> p < end_date \<and> map_ok xs \<and> (\<forall>x\<in>set xs. p < fst x)"
  defines "src \<equiv> case source of None \<Rightarrow> [] | Some (p, xs) \<Rightarrow> days_before end_date xs"
    and "p0 \<equiv> case source of None \<Rightarrow> 0 | Some _ \<Rightarrow> prev"
  shows "\<exists>Q N R. days' = Q @ N @ R \<and> linked be am days' \<and> map_ok days' \<and>
    map fst R = map fst (days_from end_date days) \<and> get_day am t R = get_day am t (days_from end_date days) \<and>
    map (\<lambda>e. am (snd e)) R = map (\<lambda>e. am (snd e)) (days_from end_date days) \<and>
    map fst N = map fst src \<and> map (\<lambda>e. am (snd e)) N = map (\<lambda>e. scale (snd e)) src \<and>
    map fst Q = (case source of None \<Rightarrow> [] | Some (p, _) \<Rightarrow> if p \<noteq> 0 then [p] else []) \<and>
    (\<forall>e\<in>set Q. am (snd e) = 0) \<and> (days' \<noteq> [] \<longrightarrow> be (snd (hd days')) = p0) \<and> (b \<longleftrightarrow> days' \<noteq> [])"
proof (cases source)
  case None
  then have rest: "erase_replaced ops end_date days = Some days'" "b \<longleftrightarrow> days' \<noteq> []"
    using assms(4) by (auto simp: replace_days_def split: bind_splits)
  obtain a where a: "shifts be am a (days_from end_date days) days'" using erase_replaced_shifts(1) [OF assms(1) rest(1)] ..
  have "map_ok days'" using days_cut(3) [OF assms(2)] shifts_facts(1) [OF a] by (simp add: key_sorted_def)
  then show ?thesis
    using None rest(2) shifts_facts [OF a] linked_days_from [OF assms(3)] erase_replaced_shifts(2) [OF assms(1) rest(1)]
    by (intro exI [of _ "[]"] exI [of _ days']) (simp add: src_def p0_def)
next
  case (Some s)
  obtain p xs where s: "s = (p, xs)" by (rule prod.exhaust)
  let ?xs = "days_before end_date xs"
  have p: "p < end_date" "map_ok xs" "\<forall>x\<in>set xs. p < fst x" using assms(5) Some s by auto
  obtain rest acc0 acc1 rest' where r: "erase_replaced ops end_date days = Some rest" "rp_prev ops = Some acc0"
    "sum_source ops acc0 ?xs = Some acc1" "map_days (rp_add ops acc1) rest = Some rest'"
    "insert_source ops acc0 (if p \<noteq> 0 then map_insert p acc0 rest' else rest') ?xs = Some days'" "b \<longleftrightarrow> days' \<noteq> []"
    using assms(4) Some s p(1) by (auto simp: replace_days_def simp del: bind_eq_Some_conv split: bind_splits)
  obtain a where a: "shifts be am a (days_from end_date days) rest" using erase_replaced_shifts(1) [OF assms(1) r(1)] ..
  have a': "shifts be am (be acc1) rest rest'" by (rule map_days_shifts [OF add [OF assms(1)] r(4)])
  note F = shifts_facts [OF shifts_trans [OF a a']]
  have keys: "fst ` set rest' = fst ` set (days_from end_date days)" using F(1) by (metis list.set_map)
  have late: "\<forall>e\<in>set rest'. end_date \<le> fst e"
  proof
    fix e assume "e \<in> set rest'"
    then have "fst e \<in> fst ` set (days_from end_date days)" using keys by blast
    then show "end_date \<le> fst e" using days_cut(2) [OF assms(2)] by fastforce
  qed
  have early: "\<forall>x\<in>set ?xs. fst x < end_date \<and> p < fst x"
    using days_cut(1) [OF p(2)] p(3) set_takeWhileD by metis
  define Q where "Q = (if p \<noteq> 0 then [(p, acc0)] else [])"
  have ins: "(if p \<noteq> 0 then map_insert p acc0 rest' else rest') = Q @ rest'"
    using map_insert_middle [of "[]" p rest' acc0] late p(1) by (fastforce simp: Q_def)
  have "\<forall>e\<in>set Q. \<forall>x\<in>set ?xs. fst e < fst x" using early by (simp add: Q_def)
  moreover have "\<forall>e\<in>set rest'. \<forall>x\<in>set ?xs. fst x < fst e" using early late by (meson less_le_trans)
  moreover have "insert_source ops acc0 (Q @ rest') ?xs = Some days'" using r(5) ins by simp
  ultimately obtain N where N: "days' = Q @ N @ rest'" "map fst N = map fst ?xs" "map (\<lambda>e. am (snd e)) N = map (\<lambda>e. scale (snd e)) ?xs"
    "linked be am N" "N \<noteq> [] \<longrightarrow> be (snd (hd N)) = be acc0"
    using insert_source_shape [OF assms(1) days_cut(4) [OF p(2)]] by blast
  have sum: "be acc1 = be acc0 + sum_list (map (\<lambda>e. scale (snd e)) ?xs)" by (rule sum_source_value [OF assms(1) r(3)])
  have start: "be (snd (hd rest')) = be acc1" if "rest' \<noteq> []"
    using erase_replaced_shifts(2) [OF assms(1) r(1)] shifts_facts(4,5) [OF a'] that by simp
  have lN: "be (snd (last N)) + am (snd (last N)) = be acc1" if "N \<noteq> []"
    using that N(3-5) sum by (cases N) (auto simp: total_of_def dest!: total_of_linked)
  have empty: "be acc1 = be acc0" if "N = []" using that N(2) sum by simp
  have acc0: "be acc0 = prev" "am acc0 = 0" using prev [OF r(2)] by auto
  have linkN: "linked be am (N @ rest')"
    using N(4) F(2) linked_days_from [OF assms(3)] start lN by (simp add: linked_append)
  have "linked be am days'"
    using linkN N(1,5) start empty acc0
    by (cases "N = []"; cases "rest' = []") (auto simp: linked_append Q_def)
  moreover have "map_ok days'"
  proof -
    have "map_ok N" using N(2) days_cut(4) [OF p(2)] by (simp add: key_sorted_def)
    moreover have "map_ok rest'" using F(1) days_cut(3) [OF assms(2)] by (simp add: key_sorted_def)
    moreover have "fst ` set N = fst ` set ?xs" using N(2) by (metis list.set_map)
    then have "\<forall>k\<in>fst ` set N. k < end_date \<and> p < k" using early by auto
    ultimately show ?thesis using late p(1) unfolding N(1) by (auto simp: Q_def intro: less_le_trans)
  qed
  moreover have "be (snd (hd days')) = prev" if "days' \<noteq> []"
    using that N(1,5) acc0 start empty by (cases "N = []") (auto simp: Q_def hd_append)
  ultimately show ?thesis
    using N(1-3) F r(6) Some s acc0
    by (intro exI [of _ Q] exI [of _ N] exI [of _ rest']) (simp add: src_def p0_def Q_def)
qed

end

section \<open>Days and totals\<close>

lemma get_day_absent: "\<forall>e\<in>set days. fst e \<noteq> t \<Longrightarrow> get_day f t days = 0"
  by (induction days) (auto simp: get_day_def)

lemma get_day_zero: "\<forall>e\<in>set days. f (snd e) = 0 \<Longrightarrow> get_day f t days = 0"
  by (induction days) (auto simp: get_day_def)

lemma get_day_append: "map_ok (xs @ ys) \<Longrightarrow> get_day f t (xs @ ys) = get_day f t xs + get_day f t ys"
proof (induction xs)
  case (Cons e xs)
  show ?case
  proof (cases "fst e = t")
    case True
    have "fst e < fst x" if "x \<in> set ys" for x using Cons.prems that by simp
    then have "\<forall>x\<in>set ys. fst x \<noteq> t" using True by (metis less_irrefl)
    then show ?thesis using True get_day_absent [of ys t f] by (simp add: get_day_def)
  next
    case False
    then show ?thesis using Cons by (auto simp: get_day_def)
  qed
qed (simp add: get_day_def)

lemma get_day_mapped:
  "map fst N = map fst xs \<Longrightarrow> map (\<lambda>e. f (snd e)) N = map (\<lambda>e. g (snd e)) xs \<Longrightarrow>
     get_day f t N = (case map_of xs t of Some x \<Rightarrow> g x | None \<Rightarrow> 0)"
  by (induction N xs rule: list_induct2') (auto simp: get_day_def)

lemma get_day_from:
  assumes "map_ok days"
  shows "get_day f t (days_from end_date days) = (if end_date \<le> t then get_day f t days else 0)"
proof -
  have "get_day f t days = get_day f t (days_before end_date days) + get_day f t (days_from end_date days)"
    using get_day_append [of "days_before end_date days" "days_from end_date days"] assms by simp
  moreover have "get_day f t (days_before end_date days) = 0" if "end_date \<le> t"
    using days_cut(1) [OF assms, of end_date] that by (intro get_day_absent) auto
  moreover have "get_day f t (days_from end_date days) = 0" if "\<not> end_date \<le> t"
    using days_cut(2) [OF assms, of end_date] that by (intro get_day_absent) auto
  ultimately show ?thesis by simp
qed

text \<open>The value of the statistics on a day before the end date.\<close>

definition source_day :: "('s \<Rightarrow> int) \<Rightarrow> 't::linorder \<Rightarrow> ('t, 's) std_map \<Rightarrow> 't \<Rightarrow> int" where
  "source_day scale end_date xs t = (if t < end_date then case map_of xs t of Some x \<Rightarrow> scale x | None \<Rightarrow> 0 else 0)"

lemma map_of_days_before: "map_ok xs \<Longrightarrow> map_of (days_before end_date xs) t = (if t < end_date then map_of xs t else None)"
proof (induction xs)
  case (Cons e xs)
  have "map_of xs t = None" if "t < end_date" "end_date \<le> fst e"
    using Cons.prems that by (auto simp: map_of_eq_None_iff)
  then show ?case using Cons by (auto simp: not_less)
qed simp

definition source_ok :: "'t::linorder \<Rightarrow> 't \<Rightarrow> ('t, 's) std_map \<Rightarrow> bool" where
  "source_ok end_date p xs \<longleftrightarrow> p < end_date \<and> map_ok xs \<and> (\<forall>x\<in>set xs. p < fst x)"

context replace_field
begin

lemma replace_days_sums:
  fixes days days' :: "('t::{linorder,zero}, 'd) days"
  assumes exact "map_ok days" "linked be am days" "replace_days ops (Some (p, xs)) end_date days = Some (b, days')"
    "source_ok end_date p xs"
  shows "linked be am days' \<and> map_ok days' \<and> (b \<longleftrightarrow> days' \<noteq> []) \<and>
    get_day am t days' = source_day scale end_date xs t + (if end_date \<le> t then get_day am t days else 0) \<and>
    (days' \<noteq> [] \<longrightarrow> total_of be am days' =
       prev + (\<Sum>e\<leftarrow>days_before end_date xs. scale (snd e)) + (\<Sum>e\<leftarrow>days_from end_date days. am (snd e)))"
proof -
  obtain Q N R where S: "days' = Q @ N @ R" "linked be am days'" "map_ok days'"
    "get_day am t R = get_day am t (days_from end_date days)"
    "map (\<lambda>e. am (snd e)) R = map (\<lambda>e. am (snd e)) (days_from end_date days)"
    "map fst N = map fst (days_before end_date xs)" "map (\<lambda>e. am (snd e)) N = map (\<lambda>e. scale (snd e)) (days_before end_date xs)"
    "\<forall>e\<in>set Q. am (snd e) = 0" "days' \<noteq> [] \<longrightarrow> be (snd (hd days')) = prev" "b \<longleftrightarrow> days' \<noteq> []"
    using replace_days_linked [OF assms(1-4), where t = t, unfolded option.case prod.case] assms(5)
    unfolding source_ok_def by blast
  have "get_day am t days' = get_day am t Q + (get_day am t N + get_day am t R)"
    using S(3) get_day_append [of Q "N @ R" am t] get_day_append [of N R am t] unfolding S(1) by simp
  moreover have "get_day am t Q = 0" by (rule get_day_zero [OF S(8)])
  moreover have "get_day am t N = source_day scale end_date xs t"
    using get_day_mapped [OF S(6,7)] assms(5) by (simp add: source_ok_def source_day_def map_of_days_before)
  moreover have "get_day am t R = (if end_date \<le> t then get_day am t days else 0)"
    using S(4) get_day_from [OF assms(2)] by simp
  moreover have "total_of be am days' =
      prev + (\<Sum>e\<leftarrow>days_before end_date xs. scale (snd e)) + (\<Sum>e\<leftarrow>days_from end_date days. am (snd e))"
    if ne: "days' \<noteq> []"
  proof -
    have "total_of be am days' = prev + (\<Sum>e\<leftarrow>days'. am (snd e))"
      using ne S(2,9) total_of_linked [of be am "hd days'" "tl days'"] by simp
    moreover have "(\<Sum>e\<leftarrow>Q. am (snd e)) = 0" using S(8) by (induction Q) auto
    ultimately show ?thesis using S(5,7) unfolding S(1) by simp
  qed
  ultimately show ?thesis using S(2,3,10) by simp
qed

lemma replace_days_without_source:
  fixes days days' :: "('t::{linorder,zero}, 'd) days"
  assumes exact "map_ok days" "linked be am days" "replace_days ops None end_date days = Some (b, days')"
  shows "linked be am days' \<and> map_ok days' \<and> (b \<longleftrightarrow> days' \<noteq> []) \<and>
    get_day am t days' = (if end_date \<le> t then get_day am t days else 0) \<and>
    total_of be am days' = (\<Sum>e\<leftarrow>days_from end_date days. am (snd e))"
proof -
  obtain R where S: "days' = R" "linked be am days'" "map_ok days'"
    "get_day am t R = get_day am t (days_from end_date days)"
    "map (\<lambda>e. am (snd e)) R = map (\<lambda>e. am (snd e)) (days_from end_date days)"
    "days' \<noteq> [] \<longrightarrow> be (snd (hd days')) = 0" "b \<longleftrightarrow> days' \<noteq> []"
    using replace_days_linked [OF assms(1-4), where t = t] by auto
  have "total_of be am days' = (\<Sum>e\<leftarrow>days'. am (snd e))"
    using S(2,6) total_of_linked [of be am "hd days'" "tl days'"] by (cases "days' = []") (auto simp: total_of_def)
  then show ?thesis using S get_day_from [OF assms(2)] by simp
qed

end

interpretation account_replace: replace_field "exact_decimal D" "account_replace_ops D c p" amount amount_before
  "the (dec_mul_floor D p c)" "\<lambda>x. the (dec_mul_floor D x c)" for D c p
  by unfold_locales (auto simp: account_replace_ops_def AccountDayAmount_def exact_decimal_def split: bind_splits)

interpretation revenue_replace: replace_field "exact_decimal D \<and> exact_decimal I" "amount_replace_ops D I c p" amount amount_before
  "the (dec_mul_floor D (ac_amount p) c)" "\<lambda>x. the (dec_mul_floor D (ac_amount x) c)" for D I c p
  by unfold_locales (auto simp: amount_replace_ops_def DayAmount_def exact_decimal_def split: bind_splits)

interpretation imps_replace: replace_field "exact_decimal D \<and> exact_decimal I" "amount_replace_ops D I c p" imps imps_before
  "the (dec_mul_floor I (ac_imps p) c)" "\<lambda>x. the (dec_mul_floor I (ac_imps x) c)" for D I c p
  by unfold_locales (auto simp: amount_replace_ops_def DayAmount_def exact_decimal_def split: bind_splits)

interpretation clicks_replace: replace_field "exact_decimal D \<and> exact_decimal I" "amount_replace_ops D I c p" clicks clicks_before
  "the (dec_mul_floor I (ac_clicks p) c)" "\<lambda>x. the (dec_mul_floor I (ac_clicks x) c)" for D I c p
  by unfold_locales (auto simp: amount_replace_ops_def DayAmount_def exact_decimal_def split: bind_splits)

end
