(* ===== verification/BillingReplaceLoop.thy ===== *)
theory BillingReplaceLoop
  imports BillingReplaceProps
begin

text \<open>
  The loop over all objects: it ends, whatever the size of its portions, and replaces every object on
  its own.
\<close>

section \<open>The replacement of every object on its own\<close>

text \<open>
  The object whose time offset is used: the iterator stands on the object itself when it is stored
  locally, and otherwise on the next stored one, if there is one.
\<close>

definition offset_key :: "(nat, 'v) std_map \<Rightarrow> nat \<Rightarrow> nat" where
  "offset_key cur k = (case dropWhile (\<lambda>e. fst e < k) cur of [] \<Rightarrow> k | e # _ \<Rightarrow> fst e)"

definition replace_call ::
  "(('t, 'd) days \<Rightarrow> 's option \<Rightarrow> 't \<Rightarrow> (bool \<times> ('t, 'd) days) option) \<Rightarrow> (nat \<Rightarrow> 't) \<Rightarrow>
   (nat, ('t, 'd) days) std_map \<Rightarrow> (nat, 's) std_map \<Rightarrow> nat \<Rightarrow> (bool \<times> ('t, 'd) days) option" where
  "replace_call rep end_for cur src k =
     (if map_of cur k = None \<and> map_of src k = None then Some (False, [])
      else rep (case map_of cur k of None \<Rightarrow> [] | Some days \<Rightarrow> days) (map_of src k) (end_for (offset_key cur k)))"

definition replaced ::
  "(('t, 'd) days \<Rightarrow> 's option \<Rightarrow> 't \<Rightarrow> (bool \<times> ('t, 'd) days) option) \<Rightarrow> (nat \<Rightarrow> 't) \<Rightarrow>
   (nat, ('t, 'd) days) std_map \<Rightarrow> (nat, 's) std_map \<Rightarrow> nat \<Rightarrow> ('t, 'd) days option" where
  "replaced rep end_for cur src k =
     (case replace_call rep end_for cur src k of
        None \<Rightarrow> None
      | Some (used, days) \<Rightarrow> if (if map_of cur k = None then used else days \<noteq> []) then Some days else None)"

section \<open>One round\<close>

definition round_ok ::
  "(nat, 'v) std_map \<times> (nat, 'v) std_map \<times> (nat, 's) std_map \<Rightarrow> bool" where
  "round_ok st \<longleftrightarrow> (case st of (pre, cur, src) \<Rightarrow>
     map_ok (pre @ cur) \<and> map_ok src \<and> (\<forall>e\<in>set pre. \<forall>x\<in>set src. fst e < fst x))"

definition left_over :: "'a list \<times> 'b list \<times> 'c list \<Rightarrow> nat" where
  "left_over st = length (fst (snd st)) + length (snd (snd st))"

text \<open>The key that a round handles: the least of the two.\<close>

definition round_key :: "(nat, 'v) std_map \<Rightarrow> (nat, 's) std_map \<Rightarrow> nat" where
  "round_key cur src =
     (if cur = [] \<or> (src \<noteq> [] \<and> fst (hd src) < fst (hd cur)) then fst (hd src) else fst (hd cur))"

lemma map_of_Cons_sorted: "map_ok (e # m) \<Longrightarrow> k < fst e \<Longrightarrow> map_of (e # m) k = None"
  by (auto simp: map_of_eq_None_iff)

lemma map_of_least: "map_ok m \<Longrightarrow> m = [] \<or> k < fst (hd m) \<Longrightarrow> map_of m k = None"
  by (cases m) (auto simp: map_of_eq_None_iff)

lemma offset_key_tl: "k \<noteq> fst e \<Longrightarrow> fst e < k \<Longrightarrow> offset_key (e # cur) k = offset_key cur k"
  by (simp add: offset_key_def)

lemma offset_key_hd: "cur \<noteq> [] \<Longrightarrow> k \<le> fst (hd cur) \<Longrightarrow> offset_key cur k = fst (hd cur)"
  by (cases cur) (auto simp: offset_key_def)

lemma replace_round_step:
  assumes "round_ok (pre, cur, src)" "cur \<noteq> [] \<or> src \<noteq> []"
  defines "k \<equiv> round_key cur src"
  shows "replace_round rep end_for (pre, cur, src) =
    (case replace_call rep end_for cur src k of
       None \<Rightarrow> None
     | Some (used, days) \<Rightarrow>
         Some (if (if map_of cur k = None then used else days \<noteq> []) then pre @ [(k, days)] else pre,
           if map_of cur k = None then cur else tl cur, if map_of src k = None then src else tl src))"
proof -
  have s: "map_ok cur" "map_ok src" using assms(1) by (auto simp: round_ok_def)
  show ?thesis
  proof (cases "cur = [] \<or> (src \<noteq> [] \<and> fst (hd src) < fst (hd cur))")
    case True
    then obtain x xs where src: "src = (k, x) # xs" using assms(2) by (cases src) (auto simp: k_def round_key_def)
    then have "map_of cur k = None" using map_of_least [OF s(1), of k] True by auto
    moreover have "offset_key cur k = (if cur \<noteq> [] then fst (hd cur) else k)"
      using offset_key_hd [of cur k] True src by (auto simp: offset_key_def)
    ultimately show ?thesis
      using True src by (auto simp: replace_round_def replace_call_def Let_def split: option.split bind_split)
  next
    case False
    then obtain d ds where cur: "cur = (k, d) # ds" by (cases cur) (auto simp: k_def round_key_def)
    have off: "offset_key cur k = k" using offset_key_hd [of cur k] cur by simp
    show ?thesis
    proof (cases "src = [] \<or> k < fst (hd src)")
      case True
      then have "map_of src k = None" by (rule map_of_least [OF s(2)])
      then show ?thesis
        using False True cur off by (auto simp: replace_round_def replace_call_def Let_def split: option.split bind_split)
    next
      case eq: False
      then obtain x xs where "src = (k, x) # xs" using False cur by (cases src) auto
      then show ?thesis
        using cur off by (auto simp: replace_round_def replace_call_def Let_def split: option.split bind_split)
    qed
  qed
qed

text \<open>Passing over the least key.\<close>

definition drop_key :: "nat \<Rightarrow> (nat, 'v) std_map \<Rightarrow> (nat, 'v) std_map" where
  "drop_key k m = (if map_of m k = None then m else tl m)"

lemma drop_key_facts:
  assumes "map_ok m" "m = [] \<or> k \<le> fst (hd m)"
  shows "map_of (drop_key k m) j = (if j = k then None else map_of m j)" "map_ok (drop_key k m)"
    "\<forall>e\<in>set (drop_key k m). k < fst e" "k < j \<Longrightarrow> offset_key (drop_key k m) j = offset_key m j"
    "j < k \<Longrightarrow> map_of m j = None" "length (drop_key k m) \<le> length m" "map_of m k \<noteq> None \<Longrightarrow> length (drop_key k m) < length m"
    "set (drop_key k m) \<subseteq> set m"
proof -
  have *: "m = [] \<or> k < fst (hd m) \<or> fst (hd m) = k" using assms(2) by auto
  have late: "m \<noteq> [] \<Longrightarrow> \<forall>e\<in>set (tl m). fst (hd m) < fst e" using assms(1) by (cases m) auto
  have none: "map_of m k = None \<longleftrightarrow> m = [] \<or> k < fst (hd m)"
    using * map_of_least [OF assms(1)] by (cases m) auto
  show "map_of (drop_key k m) j = (if j = k then None else map_of m j)"
    using none * late by (cases m) (auto simp: drop_key_def map_of_eq_None_iff)
  show "map_ok (drop_key k m)" using assms(1) by (cases m) (auto simp: drop_key_def)
  show "\<forall>e\<in>set (drop_key k m). k < fst e"
    using none * late assms(1) by (cases m) (auto simp: drop_key_def intro: less_trans)
  show "k < j \<Longrightarrow> offset_key (drop_key k m) j = offset_key m j"
    using none * by (cases m) (auto simp: drop_key_def offset_key_def)
  show "j < k \<Longrightarrow> map_of m j = None" using map_of_least [OF assms(1), of j] * by auto
  show "length (drop_key k m) \<le> length m" "map_of m k \<noteq> None \<Longrightarrow> length (drop_key k m) < length m" "set (drop_key k m) \<subseteq> set m"
    using none by (cases m; auto simp: drop_key_def)+
qed

lemma round_key_least:
  assumes "cur \<noteq> [] \<or> src \<noteq> []"
  shows "cur = [] \<or> round_key cur src \<le> fst (hd cur)" "src = [] \<or> round_key cur src \<le> fst (hd src)"
    "map_of cur (round_key cur src) \<noteq> None \<or> map_of src (round_key cur src) \<noteq> None"
proof -
  show "cur = [] \<or> round_key cur src \<le> fst (hd cur)" "src = [] \<or> round_key cur src \<le> fst (hd src)"
    by (auto simp: round_key_def)
  show "map_of cur (round_key cur src) \<noteq> None \<or> map_of src (round_key cur src) \<noteq> None"
    using assms by (cases cur; cases src) (auto simp: round_key_def)
qed

text \<open>The other objects do not see the round.\<close>

lemma replace_call_step:
  assumes "map_ok cur" "map_ok src" "cur \<noteq> [] \<or> src \<noteq> []"
  defines "k \<equiv> round_key cur src"
  shows "replace_call rep end_for (drop_key k cur) (drop_key k src) j =
    (if j = k then Some (False, []) else replace_call rep end_for cur src j)"
proof -
  note least = round_key_least [OF assms(3), folded k_def]
  note C = drop_key_facts [OF assms(1) least(1)] and S = drop_key_facts [OF assms(2) least(2)]
  show ?thesis
    using C(1,4,5) S(1,5) by (cases "j < k"; cases "j = k") (auto simp: replace_call_def)
qed

lemma replace_round_drop:
  assumes "round_ok (pre, cur, src)" "cur \<noteq> [] \<or> src \<noteq> []"
  defines "k \<equiv> round_key cur src"
  shows "replace_round rep end_for (pre, cur, src) =
    (case replace_call rep end_for cur src k of
       None \<Rightarrow> None
     | Some (used, days) \<Rightarrow>
         Some (if (if map_of cur k = None then used else days \<noteq> []) then pre @ [(k, days)] else pre,
           drop_key k cur, drop_key k src))"
  unfolding k_def drop_key_def by (rule replace_round_step [OF assms(1,2)])

lemma round_pre_below:
  assumes "round_ok (pre, cur, src)" "cur \<noteq> [] \<or> src \<noteq> []"
  shows "\<forall>e\<in>set pre. fst e < round_key cur src"
  using assms by (cases cur; cases src) (auto simp: round_ok_def round_key_def)

lemma replace_round_ok:
  assumes "round_ok st" "fst (snd st) \<noteq> [] \<or> snd (snd st) \<noteq> []" "replace_round rep end_for st = Some st'"
  shows "round_ok st'" "left_over st' < left_over st"
proof -
  obtain pre cur src where st: "st = (pre, cur, src)" by (rule prod_cases3)
  let ?k = "round_key cur src"
  have ne: "cur \<noteq> [] \<or> src \<noteq> []" using assms(2) st by simp
  have ok: "round_ok (pre, cur, src)" "map_ok cur" "map_ok src" using assms(1) st by (auto simp: round_ok_def)
  note least = round_key_least [OF ne]
  note C = drop_key_facts [OF ok(2) least(1)] and S = drop_key_facts [OF ok(3) least(2)]
  obtain used days where st': "st' = (if (if map_of cur ?k = None then used else days \<noteq> []) then pre @ [(?k, days)] else pre,
      drop_key ?k cur, drop_key ?k src)"
    using assms(3) replace_round_drop [OF ok(1) ne] st by (auto split: option.splits)
  have pre: "\<forall>e\<in>set pre. fst e < ?k" by (rule round_pre_below [OF ok(1) ne])
  define pre' where "pre' = fst st'"
  have "map_ok pre" using ok(1) by (simp add: round_ok_def)
  then have "map_ok pre'" "\<forall>e\<in>set pre'. fst e \<le> ?k" using pre by (auto simp: pre'_def st' less_imp_le)
  moreover have "st' = (pre', drop_key ?k cur, drop_key ?k src)" by (simp add: pre'_def st')
  ultimately show "round_ok st'"
    unfolding round_ok_def using C(2,3) S(2,3) by (auto intro: le_less_trans)
  show "left_over st' < left_over st"
    unfolding st' st left_over_def using C(6,7) S(6,7) least(3) by fastforce
qed

section \<open>Many rounds\<close>

lemma replace_portion_ok:
  assumes "round_ok st" "replace_portion rep end_for n st = Some st'"
  shows "round_ok st'" "left_over st' \<le> left_over st - n"
proof -
  have "round_ok st' \<and> left_over st' \<le> left_over st - n"
    using assms
  proof (induction n arbitrary: st)
    case (Suc n)
    show ?case
    proof (cases "fst (snd st) \<noteq> [] \<or> snd (snd st) \<noteq> []")
      case True
      then obtain st1 where st1: "replace_round rep end_for st = Some st1" "replace_portion rep end_for n st1 = Some st'"
        using Suc.prems(2) by (auto split: bind_splits)
      show ?thesis
        using Suc.IH [OF replace_round_ok(1) [OF Suc.prems(1) True st1(1)] st1(2)] replace_round_ok(2) [OF Suc.prems(1) True st1(1)]
        by linarith
    next
      case False
      then show ?thesis using Suc.prems by (simp add: left_over_def)
    qed
  qed simp
  then show "round_ok st'" "left_over st' \<le> left_over st - n" by auto
qed

lemma replace_portion_add:
  "replace_portion rep end_for (n + k) st = Option.bind (replace_portion rep end_for n st) (replace_portion rep end_for k)"
proof (induction n arbitrary: st)
  case (Suc n)
  have "replace_portion rep end_for k st = Some st" if "\<not> (fst (snd st) \<noteq> [] \<or> snd (snd st) \<noteq> [])"
    using that by (cases k) auto
  then show ?case by (cases "replace_round rep end_for st") (auto simp: Suc)
qed simp

lemma replace_portion_stable:
  assumes "round_ok st" "left_over st \<le> k"
  shows "replace_portion rep end_for k st = replace_portion rep end_for (left_over st) st"
proof -
  obtain j where k: "k = left_over st + j" using assms(2) le_Suc_ex by blast
  have "replace_portion rep end_for j st' = Some st'" if "replace_portion rep end_for (left_over st) st = Some st'" for st'
    using replace_portion_ok(2) [OF assms(1) that] by (cases j) (auto simp: left_over_def)
  then show ?thesis
    unfolding k replace_portion_add by (cases "replace_portion rep end_for (left_over st) st") auto
qed

text \<open>Finding the iterator again.\<close>

lemma iterator_found:
  assumes "map_ok (pre @ cur)" "lower = (if cur = [] then length (pre @ cur) else length (takeWhile (\<lambda>e. fst e < fst (hd cur)) (pre @ cur)))"
  shows "take lower (pre @ cur) = pre" "drop lower (pre @ cur) = cur"
proof -
  have "lower = length pre"
  proof (cases cur)
    case (Cons e es)
    then have "\<forall>x\<in>set pre. fst x < fst e" using assms(1) by auto
    then have "takeWhile (\<lambda>x. fst x < fst e) (pre @ e # es) = pre" by (simp add: takeWhile_append2)
    then show ?thesis using assms(2) Cons by simp
  qed (simp add: assms(2))
  then show "take lower (pre @ cur) = pre" "drop lower (pre @ cur) = cur" by simp_all
qed

lemma replace_loop_portion:
  assumes "round_ok st" "0 < n"
  shows "replace_loop rep end_for n st = map_option fst (replace_portion rep end_for (left_over st) st)"
  using assms(1)
proof (induction "left_over st" arbitrary: st rule: less_induct)
  case less
  show ?case
  proof (cases "replace_portion rep end_for n st")
    case None
    then have "replace_portion rep end_for (n + left_over st) st = None" by (simp add: replace_portion_add)
    then have "replace_portion rep end_for (left_over st) st = None"
      using replace_portion_stable [OF less.prems, of "n + left_over st" rep end_for] by simp
    then show ?thesis using None by (simp add: replace_loop.simps)
  next
    case (Some st')
    note ok = replace_portion_ok [OF less.prems Some]
    obtain pre cur src where st': "st' = (pre, cur, src)" by (rule prod_cases3)
    have more: "replace_portion rep end_for (left_over st) st = replace_portion rep end_for (left_over st') st'"
    proof -
      have "replace_portion rep end_for (left_over st) st = replace_portion rep end_for (n + left_over st) st"
        by (rule replace_portion_stable [OF less.prems, symmetric]) simp
      also have "\<dots> = replace_portion rep end_for (left_over st) st'" by (simp add: replace_portion_add Some)
      also have "\<dots> = replace_portion rep end_for (left_over st') st'"
        using ok(2) by (intro replace_portion_stable [OF ok(1)]) simp
      finally show ?thesis .
    qed
    show ?thesis
    proof (cases "cur = [] \<and> src = []")
      case True
      then show ?thesis using Some more st' by (simp add: replace_loop.simps left_over_def)
    next
      case False
      then have "0 < left_over st" using ok(2) st' by (auto simp: left_over_def)
      then have "left_over st' < left_over st" using ok(2) assms(2) by linarith
      then have "replace_loop rep end_for n st' = map_option fst (replace_portion rep end_for (left_over st') st')"
        using less.hyps ok(1) by blast
      moreover have "map_ok (pre @ cur)" using ok(1) st' by (simp add: round_ok_def)
      ultimately show ?thesis
        using False Some more st' iterator_found [of pre cur, OF _ refl]
        by (subst replace_loop.simps) (auto simp: Let_def)
    qed
  qed
qed

section \<open>The result\<close>

text \<open>A round moves one object from the rest to the result.\<close>

lemma round_moves:
  assumes "round_ok (pre, cur, src)" "cur \<noteq> [] \<or> src \<noteq> []"
    "replace_round rep end_for (pre, cur, src) = Some (pre', cur', src')"
  shows "(\<exists>j. replace_call rep end_for cur' src' j = None) \<longleftrightarrow> (\<exists>j. replace_call rep end_for cur src j = None)"
    "(case map_of pre' j of Some d \<Rightarrow> Some d | None \<Rightarrow> replaced rep end_for cur' src' j) =
     (case map_of pre j of Some d \<Rightarrow> Some d | None \<Rightarrow> replaced rep end_for cur src j)"
proof -
  let ?k = "round_key cur src"
  have ok: "map_ok cur" "map_ok src" using assms(1) by (auto simp: round_ok_def)
  obtain used days where call: "replace_call rep end_for cur src ?k = Some (used, days)"
    and st': "pre' = (if (if map_of cur ?k = None then used else days \<noteq> []) then pre @ [(?k, days)] else pre)"
      "cur' = drop_key ?k cur" "src' = drop_key ?k src"
    using assms(3) replace_round_drop [OF assms(1,2)] by (auto split: option.splits)
  note other = replace_call_step [OF ok assms(2), of rep end_for]
  show "(\<exists>j. replace_call rep end_for cur' src' j = None) \<longleftrightarrow> (\<exists>j. replace_call rep end_for cur src j = None)"
    unfolding st' other using call by (metis option.distinct(1))
  have lookup: "map_of cur' j = (if j = ?k then None else map_of cur j)"
    unfolding st' by (rule drop_key_facts(1) [OF ok(1) round_key_least(1) [OF assms(2)]])
  show "(case map_of pre' j of Some d \<Rightarrow> Some d | None \<Rightarrow> replaced rep end_for cur' src' j) =
     (case map_of pre j of Some d \<Rightarrow> Some d | None \<Rightarrow> replaced rep end_for cur src j)"
  proof (cases "j = ?k")
    case True
    have "map_of pre ?k = None" using round_pre_below [OF assms(1,2)] by (auto simp: map_of_eq_None_iff)
    then show ?thesis
      using True call lookup by (simp add: st' replaced_def other map_add_def)
  next
    case False
    then show ?thesis using lookup by (simp add: st'(1) replaced_def other st'(2,3) map_add_def split: option.split)
  qed
qed

lemma replace_portion_spec:
  "round_ok (pre, cur, src) \<Longrightarrow> left_over (pre, cur, src) \<le> n \<Longrightarrow>
    (replace_portion rep end_for n (pre, cur, src) = None \<longleftrightarrow> (\<exists>j. replace_call rep end_for cur src j = None)) \<and>
    (\<forall>st'. replace_portion rep end_for n (pre, cur, src) = Some st' \<longrightarrow>
      map_ok (fst st') \<and> (\<forall>j. map_of (fst st') j = (case map_of pre j of Some d \<Rightarrow> Some d | None \<Rightarrow> replaced rep end_for cur src j)))"
proof (induction n arbitrary: pre cur src)
  case 0
  then show ?case
    by (auto simp: left_over_def replaced_def replace_call_def round_ok_def split: option.split)
next
  case (Suc n)
  show ?case
  proof (cases "cur \<noteq> [] \<or> src \<noteq> []")
    case False
    then show ?thesis
      using Suc.prems(1) by (auto simp: replaced_def replace_call_def round_ok_def split: option.split)
  next
    case True
    show ?thesis
    proof (cases "replace_round rep end_for (pre, cur, src)")
      case None
      then have "replace_call rep end_for cur src (round_key cur src) = None"
        using replace_round_drop [OF Suc.prems(1) True] by (auto split: option.splits)
      then show ?thesis using True None by auto
    next
      case (Some st1)
      obtain pre' cur' src' where st1: "st1 = (pre', cur', src')" by (rule prod_cases3)
      have R: "replace_round rep end_for (pre, cur, src) = Some (pre', cur', src')" using Some st1 by simp
      have ok: "round_ok (pre', cur', src')" "left_over (pre', cur', src') \<le> n"
        using replace_round_ok [OF Suc.prems(1) _ R] True Suc.prems(2) by auto
      have "replace_portion rep end_for (Suc n) (pre, cur, src) = replace_portion rep end_for n (pre', cur', src')"
        using True R by simp
      then show ?thesis
        using Suc.IH [OF ok] round_moves [OF Suc.prems(1) True R] by simp
    qed
  qed
qed

text \<open>The loop returns unless a replacement ends the process, and replaces every object on its own.\<close>

lemma replace_loop_replaces:
  assumes "map_ok amounts" "map_ok source" "0 < n"
  shows "replace_loop rep end_for n ([], amounts, source) = None \<longleftrightarrow> (\<exists>k. replace_call rep end_for amounts source k = None)"
    "replace_loop rep end_for n ([], amounts, source) = Some m \<Longrightarrow>
      map_ok m \<and> map_of m k = replaced rep end_for amounts source k"
proof -
  have ok: "round_ok ([], amounts, source)" using assms(1,2) by (simp add: round_ok_def)
  note S = replace_portion_spec [OF ok order_refl, of rep end_for] and L = replace_loop_portion [OF ok assms(3), of rep end_for]
  show "replace_loop rep end_for n ([], amounts, source) = None \<longleftrightarrow> (\<exists>k. replace_call rep end_for amounts source k = None)"
    using S unfolding L by simp
  show "replace_loop rep end_for n ([], amounts, source) = Some m \<Longrightarrow>
      map_ok m \<and> map_of m k = replaced rep end_for amounts source k"
    using S unfolding L by auto
qed

end
