(* ===== verification/BillingConfirm.thy ===== *)
theory BillingConfirm
  imports BillingLimits BillingReplaceLoop
begin

text \<open>
  The bid operations of \<open>BillingContainer\<close>
  (\<open>src/CampaignSvcs/BillingServer/BillingContainer.cpp\<close>): the configuration a bid resolves to, the
  reasons for which a bid is not available, and the confirmation of a bid on the levels of the
  account, the campaign and the creative group. An operation that is \<open>noexcept\<close> and meets an
  overflow ends the process: \<open>None\<close>.
\<close>

section \<open>Configuration and bids\<close>

record 't account_config =
  ca_active :: bool
  ca_time_offset :: 't
  ca_budget :: int

record 't internal_config =
  cf_accounts :: "nat \<Rightarrow> 't account_config option"
  cf_campaigns :: "nat \<Rightarrow> 't delivery_limits option"
  cf_ccgs :: "nat \<Rightarrow> 't delivery_limits option"

record 't bid =
  bid_time :: 't
  bid_account_id :: nat
  bid_advertiser_id :: nat
  bid_campaign_id :: nat
  bid_ccg_id :: nat
  bid_ctr :: int

record 't resolve_result =
  rr_account :: "'t account_config option"
  rr_advertiser :: "'t account_config option"
  rr_campaign :: "'t delivery_limits option"
  rr_ccg :: "'t delivery_limits option"

definition resolve_account :: "'t internal_config \<Rightarrow> nat \<Rightarrow> 't account_config option" where
  "resolve_account cf = cf_accounts cf"

definition resolve_bid :: "'t internal_config \<Rightarrow> 't bid \<Rightarrow> 't resolve_result" where
  "resolve_bid cf bid =
     \<lparr>rr_account = resolve_account cf (bid_account_id bid),
      rr_advertiser = (if bid_advertiser_id bid \<noteq> 0 then resolve_account cf (bid_advertiser_id bid) else None),
      rr_campaign = cf_campaigns cf (bid_campaign_id bid),
      rr_ccg = cf_ccgs cf (bid_ccg_id bid)\<rparr>"

text \<open>What a forced confirmation uses for an object that is not configured.\<close>

definition DEFAULT_FORCED_ACCOUNT_TRAITS :: "decimal \<Rightarrow> 't::zero account_config" where
  "DEFAULT_FORCED_ACCOUNT_TRAITS D = \<lparr>ca_active = False, ca_time_offset = 0, ca_budget = dec_default D\<rparr>"

definition init_forced_entity_config :: "decimal \<Rightarrow> 't::zero delivery_limits" where
  "init_forced_entity_config D =
     \<lparr>dl_active = False, time_offset = 0, date_end = 0, budget = Optional_none (dec_default D),
      daily_budget = Optional_none (dec_default D), delivery_pacing = CHR ''F'',
      limit_imps = Optional_none 0, limit_daily_imps = Optional_none 0, limit_clicks = Optional_none 0,
      limit_daily_clicks = Optional_none 0, imps_dec = None, daily_imps_dec = None, clicks_dec = None,
      daily_clicks_dec = None, adv_tz_date_end = 0\<rparr>"

section \<open>State\<close>

record 't hour_amount =
  ha_amount :: int
  ha_use_time :: 't

record 't rate_goal_holder =
  last_eval_min_rate_goal_time :: 't
  min_rate_goal :: int
  free_budget_distribution :: "int list"
  free_amount_distribution :: "'t hour_amount list"

record 't hour_activity =
  act_imps :: int
  act_clicks :: int
  act_use_time :: 't

record 't rate_distribution_holder =
  rates :: "(int, 't hour_activity list) std_map"
  free_rates :: "(int, 't hour_activity list) std_map"

record 't billing_state =
  accounts :: "(nat, ('t, account_day_amount) days) std_map"
  campaigns :: "(nat, ('t, day_amount) days) std_map"
  ccgs :: "(nat, ('t, day_amount) days) std_map"
  campaign_rate_goals :: "(nat, 't rate_goal_holder) std_map"
  ccg_rate_amounts :: "(nat \<times> nat, ('t, 't rate_distribution_holder) std_map) std_map"

definition RateGoalHolder :: "'t::zero rate_goal_holder" where
  "RateGoalHolder =
     \<lparr>last_eval_min_rate_goal_time = 0, min_rate_goal = 0, free_budget_distribution = replicate 24 0,
      free_amount_distribution = replicate 24 \<lparr>ha_amount = 0, ha_use_time = 0\<rparr>\<rparr>"

definition HourActivityDistribution :: "'t::zero hour_activity list" where
  "HourActivityDistribution = replicate 24 \<lparr>act_imps = 0, act_clicks = 0, act_use_time = 0\<rparr>"

section \<open>Checks of a bid\<close>

text \<open>\<open>BidUnavailableReason\<close> without \<open>UNSPECIFIED\<close>, which is \<open>None\<close> below.\<close>

datatype unavailable_reason =
    ACCOUNT_NOT_FOUND | ACCOUNT_INACTIVE | ADVERTISER_NOT_FOUND | ADVERTISER_INACTIVE
  | CAMPAIGN_NOT_FOUND | CAMPAIGN_INACTIVE | CCG_NOT_FOUND | CCG_INACTIVE
  | ACCOUNT_BUDGET_BLOCKED | CAMPAIGN_BUDGET_BLOCKED | CCG_BUDGET_BLOCKED

definition check_available_account_budget ::
  "decimal \<Rightarrow> (nat, ('t, account_day_amount) days) std_map \<Rightarrow> nat \<Rightarrow> 't account_config \<Rightarrow> bool option" where
  "check_available_account_budget D amounts k cfg = do {
     total \<leftarrow> (case map_of amounts k of Some days \<Rightarrow> get_total_amount D days | None \<Rightarrow> Some 0);
     Some (total < ca_budget cfg) }"

definition check_available_budget ::
  "decimal \<Rightarrow> decimal \<Rightarrow> ('t::{linordered_ab_group_add}) billing_time \<Rightarrow> (int \<Rightarrow> int) \<Rightarrow> (nat, ('t, day_amount) days) std_map \<Rightarrow> nat \<Rightarrow>
   't delivery_limits \<Rightarrow> 't \<Rightarrow> bool option" where
  "check_available_budget D I T of_int1 amounts k dl now =
     (let lc = DeliveryLimitsChecker D T of_int1 dl now
      in if \<not> check_required (lc_limits lc) then Some True
         else check D I of_int1 lc (map_at [] k amounts))"

text \<open>
  The part of \<open>check_available_bid\<close> that decides whether the bid is available; the rest evaluates the
  rate goal that is returned with an available bid.
\<close>

definition entity_reason ::
  "'c option \<Rightarrow> ('c \<Rightarrow> bool) \<Rightarrow> unavailable_reason \<Rightarrow> unavailable_reason \<Rightarrow> unavailable_reason option" where
  "entity_reason entity active not_found inactive =
     (case entity of None \<Rightarrow> Some not_found | Some c \<Rightarrow> if \<not> active c then Some inactive else None)"

definition or_reason :: "unavailable_reason option \<Rightarrow> unavailable_reason option \<Rightarrow> unavailable_reason option" where
  "or_reason r r' = (case r of Some _ \<Rightarrow> r | None \<Rightarrow> r')"

definition inactive_reason :: "'t bid \<Rightarrow> 't resolve_result \<Rightarrow> unavailable_reason option" where
  "inactive_reason bid rr =
     or_reason (entity_reason (rr_account rr) ca_active ACCOUNT_NOT_FOUND ACCOUNT_INACTIVE)
     (or_reason (if bid_advertiser_id bid \<noteq> 0
                 then entity_reason (rr_advertiser rr) ca_active ADVERTISER_NOT_FOUND ADVERTISER_INACTIVE else None)
     (or_reason (entity_reason (rr_campaign rr) dl_active CAMPAIGN_NOT_FOUND CAMPAIGN_INACTIVE)
                (entity_reason (rr_ccg rr) dl_active CCG_NOT_FOUND CCG_INACTIVE)))"

definition unavailable ::
  "decimal \<Rightarrow> decimal \<Rightarrow> ('t::{linordered_ab_group_add}) billing_time \<Rightarrow> (int \<Rightarrow> int) \<Rightarrow> 't billing_state \<Rightarrow> 't internal_config \<Rightarrow>
   't bid \<Rightarrow> unavailable_reason option option" where
  "unavailable D I T of_int1 st cf bid =
     (let rr = resolve_bid cf bid
      in case inactive_reason bid rr of
           Some r \<Rightarrow> Some (Some r)
         | None \<Rightarrow> do {
             a \<leftarrow> check_available_account_budget D (accounts st) (bid_account_id bid) (the (rr_account rr));
             if \<not> a then Some (Some ACCOUNT_BUDGET_BLOCKED)
             else do {
               c \<leftarrow> check_available_budget D I T of_int1 (campaigns st) (bid_campaign_id bid) (the (rr_campaign rr)) (bid_time bid);
               if \<not> c then Some (Some CAMPAIGN_BUDGET_BLOCKED)
               else do {
                 g \<leftarrow> check_available_budget D I T of_int1 (ccgs st) (bid_ccg_id bid) (the (rr_ccg rr)) (bid_time bid);
                 Some (if \<not> g then Some CCG_BUDGET_BLOCKED else None) } } })"

section \<open>Confirmation on one level\<close>

text \<open>\<open>confirm_account_bid_\<close>: whether the limit still holds, the accounts, and the confirmed amount.\<close>

definition confirm_account_bid ::
  "decimal \<Rightarrow> ('t::linordered_ab_group_add) billing_time \<Rightarrow> (nat, ('t, account_day_amount) days) std_map \<Rightarrow> int \<Rightarrow> nat \<Rightarrow>
   't account_config \<Rightarrow> 't \<Rightarrow> bool \<Rightarrow> (bool \<times> (nat, ('t, account_day_amount) days) std_map \<times> int) option" where
  "confirm_account_bid D T amounts confirm k cfg now forced =
     (let date = get_date_in_adv_tz T (ca_time_offset cfg) now; days = map_at [] k amounts
      in do {
        total \<leftarrow> (case map_of amounts k of Some days \<Rightarrow> get_total_amount D days | None \<Rightarrow> Some 0);
        if total < ca_budget cfg \<or> forced
        then do {
          full \<leftarrow> (if forced then Some True else do { rest \<leftarrow> dec_sub D (ca_budget cfg) total; Some (rest > confirm) });
          if full
          then do { (_, days') \<leftarrow> account_add_amount D date confirm days;
                    Some (total < ca_budget cfg, map_put k days' amounts, confirm) }
          else do { rest \<leftarrow> dec_sub D (ca_budget cfg) total;
                    (_, days') \<leftarrow> account_add_amount D date rest days;
                    Some (False, map_put k days' amounts, rest) } }
        else Some (total < ca_budget cfg, amounts, 0) })"

text \<open>\<open>confirm_bid_\<close>: the result, the objects, and what was confirmed of the amount, the impressions and the clicks.\<close>

definition confirm_object_bid ::
  "decimal \<Rightarrow> decimal \<Rightarrow> ('t::linordered_ab_group_add) billing_time \<Rightarrow> (int \<Rightarrow> int) \<Rightarrow> (nat, ('t, day_amount) days) std_map \<Rightarrow>
   int \<Rightarrow> int \<Rightarrow> int \<Rightarrow> nat \<Rightarrow> 't delivery_limits \<Rightarrow> 't \<Rightarrow> bool \<Rightarrow>
   (bool \<times> (nat, ('t, day_amount) days) std_map \<times> int \<times> int \<times> int) option" where
  "confirm_object_bid D I T of_int1 amounts am im cl k dl now forced = do {
     (res, days, am', im', cl') \<leftarrow>
       confirm_amount D I of_int1 (DeliveryLimitsChecker D T of_int1 dl now) (map_at [] k amounts) am im cl forced;
     a \<leftarrow> dec_sub D am am';
     i \<leftarrow> dec_sub I im im';
     c \<leftarrow> dec_sub I cl cl';
     Some (res, if map_of amounts k \<noteq> None \<or> res \<or> forced then map_put k days amounts else amounts, a, i, c) }"

text \<open>
  \<open>revert_account_confirmed_bid_\<close> and \<open>revert_confirmed_bid_\<close>. The asserts that the object exists and that
  the addition succeeds are the \<open>None\<close> cases. The second function negates the impressions and the
  clicks, and adds the ones that it was given.
\<close>

definition revert_account_confirmed_bid ::
  "decimal \<Rightarrow> ('t::linordered_ab_group_add) billing_time \<Rightarrow> (nat, ('t, account_day_amount) days) std_map \<Rightarrow> nat \<Rightarrow> 't account_config \<Rightarrow>
   't \<Rightarrow> int \<Rightarrow> (nat, ('t, account_day_amount) days) std_map option" where
  "revert_account_confirmed_bid D T amounts k cfg now am = do {
     days \<leftarrow> map_of amounts k;
     (added, days') \<leftarrow> account_add_amount D (get_date_in_adv_tz T (ca_time_offset cfg) now) (- am) days;
     if added then Some (map_put k days' amounts) else None }"

definition revert_confirmed_bid ::
  "decimal \<Rightarrow> decimal \<Rightarrow> ('t::linordered_ab_group_add) billing_time \<Rightarrow> (nat, ('t, day_amount) days) std_map \<Rightarrow> nat \<Rightarrow> 't delivery_limits \<Rightarrow>
   't \<Rightarrow> int \<Rightarrow> int \<Rightarrow> int \<Rightarrow> (nat, ('t, day_amount) days) std_map option" where
  "revert_confirmed_bid D I T amounts k dl now am im cl = do {
     days \<leftarrow> map_of amounts k;
     (added, days') \<leftarrow> add_amount D I (get_date_in_adv_tz T (time_offset dl) now) (- am) im cl days;
     if added then Some (map_put k days' amounts) else None }"

section \<open>The rates\<close>

definition rate_add ::
  "decimal \<Rightarrow> nat \<Rightarrow> int \<Rightarrow> bool \<Rightarrow> int \<Rightarrow> int \<Rightarrow> ('t::{linorder,zero}) \<Rightarrow> 't rate_distribution_holder \<Rightarrow> 't rate_distribution_holder option" where
  "rate_add I hour rate free_budget im cl use_time h =
     (let m = (if free_budget then free_rates h else rates h);
          hs = map_at HourActivityDistribution rate m;
          act = hs ! hour
      in do { i \<leftarrow> dec_add I (act_imps act) im;
              c \<leftarrow> dec_add I (act_clicks act) cl;
              let m' = map_put rate (hs[hour := \<lparr>act_imps = i, act_clicks = c, act_use_time = max (act_use_time act) use_time\<rparr>]) m;
              Some (if free_budget then h\<lparr>free_rates := m'\<rparr> else h\<lparr>rates := m'\<rparr>) })"

text \<open>\<open>confirm_bid_rate_\<close>; \<open>gm_hour\<close> is less than 24, the length of the distributions.\<close>

definition confirm_bid_rate ::
  "decimal \<Rightarrow> decimal \<Rightarrow> ('t::linordered_ab_group_add) billing_time \<Rightarrow> 't billing_state \<Rightarrow> int \<Rightarrow> int \<Rightarrow> int \<Rightarrow> int \<Rightarrow> nat \<Rightarrow> nat \<Rightarrow>
   't delivery_limits \<Rightarrow> 't \<Rightarrow> 't billing_state option" where
  "confirm_bid_rate D I T st rate im cl am k_campaign k_ccg dl now =
     (let adv_tz_now = now + time_offset dl;
          date = gm_date T adv_tz_now; hour = gm_hour T adv_tz_now;
          hour_time = seconds_span T (time_sec T (adv_tz_now - date - hours_span T hour + seconds_span T 1));
          positive = (im > 0 \<or> cl > 0);
          g = map_at RateGoalHolder k_campaign (campaign_rate_goals st);
          fa = free_amount_distribution g ! hour;
          free_amount = (ha_amount fa < free_budget_distribution g ! hour)
      in do {
        g' \<leftarrow> (if free_amount
              then do { v \<leftarrow> dec_add D (ha_amount fa) am;
                        Some (g\<lparr>free_amount_distribution := (free_amount_distribution g)[hour := fa\<lparr>ha_amount := v\<rparr>]\<rparr>) }
              else Some g);
        let dates = map_at [] (k_campaign, k_ccg) (ccg_rate_amounts st);
        h \<leftarrow> rate_add I hour rate free_amount im cl
              (if free_amount then hour_time else if positive then hours_span T 1 else 0)
              (map_at \<lparr>rates = [], free_rates = []\<rparr> date dates);
        Some (st\<lparr>campaign_rate_goals := map_put k_campaign g' (campaign_rate_goals st),
                 ccg_rate_amounts := map_put (k_campaign, k_ccg) (map_put date h dates) (ccg_rate_amounts st)\<rparr>) })"

section \<open>Confirmation of a bid\<close>

text \<open>
  \<open>ConfirmAmountHolder\<close> and \<open>CampaignConfirmAmountHolder\<close>. The reverted impressions and clicks are never
  set after their initialisation with zero.
\<close>

record confirm_amount_holder =
  available_amount :: int
  confirmed_amount :: int
  revert_amount :: int

record campaign_confirm_amount_holder = confirm_amount_holder +
  available_imps :: int
  confirmed_imps :: int
  revert_imps :: int
  available_clicks :: int
  confirmed_clicks :: int
  revert_clicks :: int

definition min_share :: "decimal \<Rightarrow> bool \<Rightarrow> int \<Rightarrow> int \<Rightarrow> int \<Rightarrow> int option" where
  "min_share D confirmed whole part share =
     (if confirmed \<and> whole \<noteq> 0 then do { v \<leftarrow> dec_div D part whole; Some (min share v) } else Some share)"

text \<open>The target of one level: what is above it is reverted, or it becomes the available amount.\<close>

definition retarget :: "decimal \<Rightarrow> bool \<Rightarrow> int \<Rightarrow> int \<Rightarrow> 'a confirm_amount_holder_scheme \<Rightarrow> 'a confirm_amount_holder_scheme option" where
  "retarget D confirmed share whole h = do {
     target \<leftarrow> dec_mul_floor D share whole;
     rv \<leftarrow> (if confirmed \<and> target \<noteq> confirmed_amount h then dec_sub D (confirmed_amount h) target else Some (revert_amount h));
     Some (h\<lparr>revert_amount := rv, available_amount := (if \<not> confirmed then target else 0)\<rparr>) }"

definition recalc_remind_amounts ::
  "decimal \<Rightarrow> int \<Rightarrow> confirm_amount_holder \<Rightarrow> campaign_confirm_amount_holder \<Rightarrow> campaign_confirm_amount_holder \<Rightarrow>
   bool \<Rightarrow> bool \<Rightarrow> bool \<Rightarrow> int \<Rightarrow> int \<Rightarrow>
   (confirm_amount_holder \<times> campaign_confirm_amount_holder \<times> campaign_confirm_amount_holder) option" where
  "recalc_remind_amounts D one account campaign ccg account_done campaign_done ccg_done account_bid_amount bid_amount = do {
     s1 \<leftarrow> min_share D account_done account_bid_amount (confirmed_amount account) one;
     s2 \<leftarrow> min_share D campaign_done bid_amount (confirmed_amount campaign) s1;
     s3 \<leftarrow> min_share D ccg_done bid_amount (confirmed_amount ccg) s2;
     account' \<leftarrow> retarget D account_done s3 account_bid_amount account;
     campaign' \<leftarrow> retarget D campaign_done s3 bid_amount campaign;
     ccg' \<leftarrow> retarget D ccg_done s3 bid_amount ccg;
     Some (account', campaign', ccg') }"

text \<open>The variables of \<open>confirm_bid\<close>: the state, the three holders and \<open>res\<close>.\<close>

record 't confirm_vars =
  cv_state :: "'t billing_state"
  cv_account :: confirm_amount_holder
  cv_campaign :: campaign_confirm_amount_holder
  cv_ccg :: campaign_confirm_amount_holder
  cv_res :: bool

text \<open>What follows a level that did not confirm all of its amount.\<close>

definition not_confirmed ::
  "decimal \<Rightarrow> int \<Rightarrow> bool \<Rightarrow> bool \<Rightarrow> bool \<Rightarrow> int \<Rightarrow> int \<Rightarrow> 't confirm_vars \<Rightarrow> 't confirm_vars option" where
  "not_confirmed D one forced campaign_done ccg_done account_bid_amount bid_amount v =
     (if forced then Some (v\<lparr>cv_res := False\<rparr>)
      else do { (a, c, g) \<leftarrow> recalc_remind_amounts D one (cv_account v) (cv_campaign v) (cv_ccg v)
                  True campaign_done ccg_done account_bid_amount bid_amount;
                Some (v\<lparr>cv_account := a, cv_campaign := c, cv_ccg := g, cv_res := False\<rparr>) })"

definition confirm_account_level ::
  "decimal \<Rightarrow> ('t::linordered_ab_group_add) billing_time \<Rightarrow> int \<Rightarrow> 't bid \<Rightarrow> 't account_config \<Rightarrow> bool \<Rightarrow> int \<Rightarrow> int \<Rightarrow> 't confirm_vars \<Rightarrow>
   't confirm_vars option" where
  "confirm_account_level D T one bid cfg forced account_bid_amount bid_amount v =
     (if available_amount (cv_account v) \<noteq> 0
      then do {
        (ok, m, am) \<leftarrow> confirm_account_bid D T (accounts (cv_state v)) (available_amount (cv_account v))
          (bid_account_id bid) cfg (bid_time bid) forced;
        let v' = v\<lparr>cv_state := (cv_state v)\<lparr>accounts := m\<rparr>, cv_account := (cv_account v)\<lparr>confirmed_amount := am\<rparr>\<rparr>;
        if ok then Some v' else not_confirmed D one forced False False account_bid_amount bid_amount v' }
      else Some v)"

definition confirm_campaign_level ::
  "decimal \<Rightarrow> decimal \<Rightarrow> ('t::linordered_ab_group_add) billing_time \<Rightarrow> (int \<Rightarrow> int) \<Rightarrow> int \<Rightarrow> 't bid \<Rightarrow> 't delivery_limits \<Rightarrow> bool \<Rightarrow> int \<Rightarrow> int \<Rightarrow>
   't confirm_vars \<Rightarrow> 't confirm_vars option" where
  "confirm_campaign_level D I T of_int1 one bid dl forced account_bid_amount bid_amount v =
     (let h = cv_campaign v
      in if available_amount h \<noteq> 0
         then do {
           (ok, m, am, im, cl) \<leftarrow> confirm_object_bid D I T of_int1 (campaigns (cv_state v)) (available_amount h) (available_imps h)
             (available_clicks h) (bid_campaign_id bid) dl (bid_time bid) forced;
           let v' = v\<lparr>cv_state := (cv_state v)\<lparr>campaigns := m\<rparr>,
                      cv_campaign := h\<lparr>confirmed_amount := am, confirmed_imps := im, confirmed_clicks := cl\<rparr>\<rparr>;
           if ok then Some v' else not_confirmed D one forced True False account_bid_amount bid_amount v' }
         else Some v)"

definition confirm_ccg_level ::
  "decimal \<Rightarrow> decimal \<Rightarrow> ('t::linordered_ab_group_add) billing_time \<Rightarrow> (int \<Rightarrow> int) \<Rightarrow> int \<Rightarrow> 't bid \<Rightarrow> 't delivery_limits \<Rightarrow> bool \<Rightarrow> int \<Rightarrow> int \<Rightarrow>
   't confirm_vars \<Rightarrow> 't confirm_vars option" where
  "confirm_ccg_level D I T of_int1 one bid dl forced account_bid_amount bid_amount v =
     (let h = cv_ccg v
      in if available_amount h \<noteq> 0
         then do {
           (ok, m, am, im, cl) \<leftarrow> confirm_object_bid D I T of_int1 (ccgs (cv_state v)) (available_amount h) (available_imps h)
             (available_clicks h) (bid_ccg_id bid) dl (bid_time bid) forced;
           let v' = v\<lparr>cv_state := (cv_state v)\<lparr>ccgs := m\<rparr>,
                      cv_ccg := h\<lparr>confirmed_amount := am, confirmed_imps := im, confirmed_clicks := cl\<rparr>\<rparr>;
           if ok then Some v' else not_confirmed D one forced True True account_bid_amount bid_amount v' }
         else Some v)"

text \<open>The reverts at the end; the creative group keeps its confirmed amount, which is not used any more.\<close>

definition revert_levels ::
  "decimal \<Rightarrow> decimal \<Rightarrow> ('t::linordered_ab_group_add) billing_time \<Rightarrow> 't bid \<Rightarrow> 't account_config \<Rightarrow> 't delivery_limits \<Rightarrow> 't delivery_limits \<Rightarrow>
   't confirm_vars \<Rightarrow> 't confirm_vars option" where
  "revert_levels D I T bid acfg cdl gdl v0 = do {
     v1 \<leftarrow> (let h = cv_ccg v0
           in if revert_amount h \<noteq> 0
              then do { m \<leftarrow> revert_confirmed_bid D I T (ccgs (cv_state v0)) (bid_ccg_id bid) gdl (bid_time bid)
                          (revert_amount h) (revert_imps h) (revert_clicks h);
                        Some (v0\<lparr>cv_state := (cv_state v0)\<lparr>ccgs := m\<rparr>\<rparr>) }
              else Some v0);
     v2 \<leftarrow> (let h = cv_campaign v1
           in if revert_amount h \<noteq> 0
              then do { m \<leftarrow> revert_confirmed_bid D I T (campaigns (cv_state v1)) (bid_campaign_id bid) cdl (bid_time bid)
                          (revert_amount h) (revert_imps h) (revert_clicks h);
                        am \<leftarrow> dec_sub D (confirmed_amount h) (revert_amount h);
                        Some (v1\<lparr>cv_state := (cv_state v1)\<lparr>campaigns := m\<rparr>, cv_campaign := h\<lparr>confirmed_amount := am\<rparr>\<rparr>) }
              else Some v1);
     (let h = cv_account v2
      in if revert_amount h \<noteq> 0
         then do { m \<leftarrow> revert_account_confirmed_bid D T (accounts (cv_state v2)) (bid_account_id bid) acfg (bid_time bid) (revert_amount h);
                   am \<leftarrow> dec_sub D (confirmed_amount h) (revert_amount h);
                   Some (v2\<lparr>cv_state := (cv_state v2)\<lparr>accounts := m\<rparr>, cv_account := h\<lparr>confirmed_amount := am\<rparr>\<rparr>) }
         else Some v2) }"

datatype confirm_error = ConfigNotBound

text \<open>A forced confirmation replaces what is not configured.\<close>

definition or_forced :: "bool \<Rightarrow> 'c option \<Rightarrow> 'c \<Rightarrow> 'c option" where
  "or_forced forced x dflt = (case x of None \<Rightarrow> if forced then Some dflt else None | Some c \<Rightarrow> Some c)"

text \<open>
  The part of \<open>confirm_bid\<close> after the bid was resolved; the result holds the answer, the state, and
  the amounts, impressions and clicks that remain. \<open>one\<close> is \<open>REVENUE_ONE\<close>, \<open>round_rate\<close> is \<open>round_rate_\<close>.
\<close>

definition confirm_resolved_bid ::
  "decimal \<Rightarrow> decimal \<Rightarrow> ('t::linordered_ab_group_add) billing_time \<Rightarrow> (int \<Rightarrow> int) \<Rightarrow> int \<Rightarrow> (int \<Rightarrow> int) \<Rightarrow> 't billing_state \<Rightarrow>
   't account_config \<Rightarrow> 't delivery_limits \<Rightarrow> 't delivery_limits \<Rightarrow> int \<Rightarrow> int \<Rightarrow> int \<Rightarrow> int \<Rightarrow> 't bid \<Rightarrow> bool \<Rightarrow>
   (bool \<times> 't billing_state \<times> int \<times> int \<times> int \<times> int) option" where
  "confirm_resolved_bid D I T of_int1 one round_rate st acfg cdl gdl account_bid_amount bid_amount im cl bid forced = do {
     let h = \<lparr>available_amount = bid_amount, confirmed_amount = 0, revert_amount = 0, available_imps = im, confirmed_imps = 0,
              revert_imps = 0, available_clicks = cl, confirmed_clicks = 0, revert_clicks = 0\<rparr>;
     let v0 = \<lparr>cv_state = st,
              cv_account = \<lparr>available_amount = account_bid_amount, confirmed_amount = 0, revert_amount = 0\<rparr>,
              cv_campaign = h, cv_ccg = h, cv_res = True\<rparr>;
     v1 \<leftarrow> confirm_account_level D T one bid acfg forced account_bid_amount bid_amount v0;
     v2 \<leftarrow> confirm_campaign_level D I T of_int1 one bid cdl forced account_bid_amount bid_amount v1;
     v3 \<leftarrow> confirm_ccg_level D I T of_int1 one bid gdl forced account_bid_amount bid_amount v2;
     (ci, cc) \<leftarrow> (if bid_amount \<noteq> 0
                 then do { share \<leftarrow> dec_div D (confirmed_amount (cv_ccg v3)) bid_amount;
                           i \<leftarrow> dec_mul_floor I share im;
                           c \<leftarrow> dec_mul_floor I share cl;
                           Some (i, c) }
                 else Some (im, cl));
     st4 \<leftarrow> confirm_bid_rate D I T (cv_state v3) (round_rate (bid_ctr bid)) ci cc (confirmed_amount (cv_ccg v3))
            (bid_campaign_id bid) (bid_ccg_id bid) cdl (bid_time bid);
     v5 \<leftarrow> revert_levels D I T bid acfg cdl gdl (v3\<lparr>cv_state := st4\<rparr>);
     a' \<leftarrow> dec_sub D account_bid_amount (confirmed_amount (cv_account v5));
     b' \<leftarrow> dec_sub D bid_amount (confirmed_amount (cv_campaign v5));
     i' \<leftarrow> dec_sub I im ci;
     c' \<leftarrow> dec_sub I cl cc;
     Some (cv_res v5, cv_state v5, a', b', i', c') }"

definition confirm_bid ::
  "decimal \<Rightarrow> decimal \<Rightarrow> ('t::linordered_ab_group_add) billing_time \<Rightarrow> (int \<Rightarrow> int) \<Rightarrow> int \<Rightarrow> (int \<Rightarrow> int) \<Rightarrow> 't billing_state \<Rightarrow>
   't internal_config option \<Rightarrow> int \<Rightarrow> int \<Rightarrow> int \<Rightarrow> int \<Rightarrow> 't bid \<Rightarrow> bool \<Rightarrow>
   (confirm_error + bool \<times> 't billing_state \<times> int \<times> int \<times> int \<times> int) option" where
  "confirm_bid D I T of_int1 one round_rate st config account_bid_amount bid_amount im cl bid forced =
     (if config = None \<and> \<not> forced then Some (Inl ConfigNotBound)
      else (let rr = (case config of Some cf \<Rightarrow> resolve_bid cf bid
                      | None \<Rightarrow> \<lparr>rr_account = None, rr_advertiser = None, rr_campaign = None, rr_ccg = None\<rparr>)
            in case (or_forced forced (rr_account rr) (DEFAULT_FORCED_ACCOUNT_TRAITS D),
                     or_forced forced (rr_campaign rr) (init_forced_entity_config D),
                     or_forced forced (rr_ccg rr) (init_forced_entity_config D)) of
                 (Some acfg, Some cdl, Some gdl) \<Rightarrow>
                   map_option Inr (confirm_resolved_bid D I T of_int1 one round_rate st acfg cdl gdl
                     account_bid_amount bid_amount im cl bid forced)
               | _ \<Rightarrow> Some (Inr (False, st, account_bid_amount, bid_amount, im, cl))))"

end
