(* ===== verification/BillingProps.thy ===== *)
theory BillingProps
  imports BillingConfirm
begin

text \<open>
  Properties of the billing amounts: what an addition does to the days of an object and what a
  rejected one leaves behind, and what the replacement by the confirmed statistics results in.
\<close>

section \<open>Numbers for the examples\<close>

text \<open>Numbers up to \<open>bound\<close>, whose products are scaled by ten.\<close>

definition bounded_decimal :: "int \<Rightarrow> decimal" where
  "bounded_decimal bound =
     \<lparr>dec_default = 0,
      dec_add = (\<lambda>x y. if \<bar>x + y\<bar> \<le> bound then Some (x + y) else None),
      dec_sub = (\<lambda>x y. if \<bar>x - y\<bar> \<le> bound then Some (x - y) else None),
      dec_mul_floor = (\<lambda>x y. if \<bar>x * y div 10\<bar> \<le> bound then Some (x * y div 10) else None),
      dec_div = (\<lambda>x y. if y \<noteq> 0 then Some (x * 10 div y) else None)\<rparr>"

lemma bounded_decimal_exact [simp]: "exact_decimal (bounded_decimal b)"
  by (simp add: exact_decimal_def bounded_decimal_def)

section \<open>Additions\<close>

lemmas add_defs = account_add_amount_def add_amount_def get_day_amount_def get_day_imps_def get_day_clicks_def


definition sample_days :: "(int, day_amount) days" where
  "sample_days =
     [(2, DayAmount\<lparr>amount := 5, imps := 2, clicks := 1\<rparr>),
      (4, DayAmount\<lparr>amount_before := 5, imps_before := 2, clicks_before := 1, amount := 1, imps := 1\<rparr>)]"


text \<open>
  C39. When the amount of an existing day cannot take an addition, the addition is answered with
  \<open>false\<close>, and the handler that should revert all changes takes the amount off the day.
\<close>

theorem rejected_amount_is_subtracted:
  assumes "map_ok days" "map_of days date = Some d" "dec_add D (amount d) a = None" "dec_sub D (amount d) a = Some v"
  shows "account_add_amount D date a days = Some (False, map_put date (d\<lparr>amount := v\<rparr>) days)"
proof -
  define pre where "pre = takeWhile (\<lambda>e. fst e < date) days"
  define post where "post = dropWhile (\<lambda>e. fst e \<le> date) days"
  have days: "days = pre @ (date, d) # post"
    using split_day [OF assms(1), of date] assms(2) unfolding pre_def post_def by simp
  have "map_put date d' (pre @ (date, d) # post) = pre @ (date, d') # post" if "\<forall>e\<in>set pre. fst e < date" for d'
    using that by (induction pre) auto
  then have "map_put date (d\<lparr>amount := v\<rparr>) days = pre @ (date, d\<lparr>amount := v\<rparr>) # post"
    using split_day_order(1) [OF assms(1), of date] days unfolding pre_def by metis
  then show ?thesis
    using assms(2-4)
    by (simp add: account_add_amount_def add_to_days_def account_ops_def revert_changes_def revenue_op_def
        pre_def [symmetric] post_def [symmetric])
qed

theorem rejected_amount_is_subtracted_witness:
  "account_add_amount (bounded_decimal 9) (3 :: int) 7 [(3, AccountDayAmount\<lparr>amount := 5\<rparr>)] =
     Some (False, [(3, AccountDayAmount\<lparr>amount := -2\<rparr>)])"
  using rejected_amount_is_subtracted
    [of "[(3 :: int, AccountDayAmount\<lparr>amount := 5\<rparr>)]" 3 "AccountDayAmount\<lparr>amount := 5\<rparr>" "bounded_decimal 9" 7 "-2"]
  by (simp add: bounded_decimal_def AccountDayAmount_def)

section \<open>Replacement by the statistics\<close>

text \<open>
  C17. After the replacement by the confirmed statistics the days of an account hold the statistics
  (this server's share of them) before the end date and the local amounts from it on; they are linked,
  and the total is the sum of both and of the amount before the statistics. Without statistics only
  the local amounts from the end date on remain.
\<close>

theorem replace_account_amount_totals:
  assumes "exact_decimal D" "map_ok days" "linked amount_before amount days"
    "replace_account_amount D c days source end_date = Some (b, days')"
    "case source of None \<Rightarrow> True | Some s \<Rightarrow> source_ok end_date (prev_day s) (day_amounts s)"
  defines "share \<equiv> \<lambda>x. the (dec_mul_floor D x c)"
    and "xs \<equiv> case source of None \<Rightarrow> [] | Some s \<Rightarrow> day_amounts s"
    and "before \<equiv> case source of None \<Rightarrow> 0 | Some s \<Rightarrow> prev_days_amount s"
  shows "map_ok days' \<and> linked amount_before amount days' \<and> (b \<longleftrightarrow> days' \<noteq> []) \<and>
    (\<forall>t. get_day_amount t days' =
       source_day share end_date xs t + (if end_date \<le> t then get_day_amount t days else 0)) \<and>
    (days' \<noteq> [] \<longrightarrow> total_of amount_before amount days' =
       (if source = None then 0 else share before) + (\<Sum>e\<leftarrow>days_before end_date xs. share (snd e)) +
       (\<Sum>e\<leftarrow>days_from end_date days. amount (snd e)))"
proof (cases source)
  case None
  note R = account_replace.replace_days_without_source
    [OF assms(1-3) assms(4) [unfolded None replace_account_amount_def option.map(1)]]
  show ?thesis
    unfolding get_day_amount_def using R None by (auto simp: xs_def source_day_def)
next
  case (Some s)
  have "source_ok end_date (prev_day s) (day_amounts s)" using assms(5) Some by simp
  note R = account_replace.replace_days_sums
    [OF assms(1-3) assms(4) [unfolded Some replace_account_amount_def option.map(2)] this]
  show ?thesis
    unfolding get_day_amount_def using R Some by (auto simp: xs_def before_def share_def)
qed

definition sample_account_days :: "(int, account_day_amount) days" where
  "sample_account_days =
     [(2, AccountDayAmount\<lparr>amount := 5\<rparr>), (4, AccountDayAmount\<lparr>amount_before := 5, amount := 3\<rparr>)]"

definition sample_source :: "int amount_distribution" where
  "sample_source = \<lparr>prev_days_amount = 20, prev_day = 1, day_amounts = [(2, 40), (5, 70)]\<rparr>"

lemma sample_replace:
  "replace_account_amount (bounded_decimal 1000) 5 sample_account_days (Some sample_source) 4 =
     Some (True, [(1, \<lparr>amount_before = 10, amount = 0\<rparr>), (2, \<lparr>amount_before = 10, amount = 20\<rparr>),
       (4, \<lparr>amount_before = 30, amount = 3\<rparr>)])"
  by (simp add: replace_account_amount_def replace_days_def account_replace_ops_def sample_source_def sample_account_days_def
      erase_replaced_def bounded_decimal_def AccountDayAmount_def)

theorem replace_account_amount_totals_witness:
  "\<exists>b days'. replace_account_amount (bounded_decimal 1000) 5 sample_account_days (Some sample_source) 4 = Some (b, days') \<and>
     linked amount_before amount days' \<and> b = (days' \<noteq> [])"
proof -
  have "map_ok sample_account_days" "linked amount_before amount sample_account_days"
    "case Some sample_source of None \<Rightarrow> True | Some s \<Rightarrow> source_ok 4 (prev_day s) (day_amounts s)"
    by (simp_all add: sample_account_days_def sample_source_def source_ok_def AccountDayAmount_def)
  from replace_account_amount_totals [OF bounded_decimal_exact this(1,2) sample_replace this(3)]
  show ?thesis using sample_replace by blast
qed

text \<open>
  C15. The loops over all accounts and over all campaigns or creative groups, which work in portions
  under a lock, return unless a replacement ends the process, and replace every object on its own,
  with the end date of the object (or, for an object that is only in the statistics, of the next
  stored one).
\<close>

theorem replace_amounts_each:
  fixes amounts :: "(nat, ('t::{linorder,zero}, account_day_amount) days) std_map"
    and counts :: "(nat, ('t, day_amount) days) std_map"
  assumes "map_ok amounts" "map_ok source" "map_ok counts" "map_ok sources"
  shows "(replace_account_amounts D c end_for amounts source = None \<longleftrightarrow>
       (\<exists>k. replace_call (replace_account_amount D c) end_for amounts source k = None)) \<and>
     (\<forall>m. replace_account_amounts D c end_for amounts source = Some m \<longrightarrow>
       map_ok m \<and> (\<forall>k. map_of m k = replaced (replace_account_amount D c) end_for amounts source k)) \<and>
     (replace_amounts D I c end_for counts sources = None \<longleftrightarrow>
       (\<exists>k. replace_call (replace_amount D I c) end_for counts sources k = None)) \<and>
     (\<forall>m. replace_amounts D I c end_for counts sources = Some m \<longrightarrow>
       map_ok m \<and> (\<forall>k. map_of m k = replaced (replace_amount D I c) end_for counts sources k))"
proof -
  have "0 < REPLACE_PORTION_SIZE" by (simp add: REPLACE_PORTION_SIZE_def)
  note R = replace_loop_replaces [OF assms(1,2) this] and A = replace_loop_replaces [OF assms(3,4) this]
  show ?thesis unfolding replace_account_amounts_def replace_amounts_def using R A by blast
qed

theorem replace_amounts_each_witness:
  "\<exists>m. replace_account_amounts (bounded_decimal 1000) 5 (\<lambda>_. 4) [(7, sample_account_days)] [(7, sample_source)] = Some m \<and>
     map_of m 7 = replaced (replace_account_amount (bounded_decimal 1000) 5) (\<lambda>_. 4) [(7, sample_account_days)] [(7, sample_source)] 7"
proof -
  let ?call = "replace_call (replace_account_amount (bounded_decimal 1000) 5) (\<lambda>_. 4 :: int) [(7, sample_account_days)] [(7, sample_source)]"
  have "?call k \<noteq> None" for k
    using sample_replace by (cases "k = 7") (simp_all add: replace_call_def)
  moreover have "map_ok [(7 :: nat, sample_account_days)]" "map_ok [(7 :: nat, sample_source)]"
    "map_ok ([] :: (nat, (int, day_amount) days) std_map)" "map_ok ([] :: (nat, int amount_count_distribution) std_map)"
    by simp_all
  note R = replace_amounts_each [OF this, of "bounded_decimal 1000" 5 "\<lambda>_. 4" "bounded_decimal 1000"]
  ultimately show ?thesis using R by blast
qed

text \<open>An object that is only in the statistics is cut at the end date of another one.\<close>

lemma offset_of_next_object: "offset_key [(9, days)] 7 = 9"
  by (simp add: offset_key_def)

end
