(* ===== verification/BillingConfirmProps.thy ===== *)
theory BillingConfirmProps
  imports BillingProps
begin

text \<open>
  Properties of the confirmation of bids: budgets, the agreement of the check and the confirmation,
  and the conservation of amounts.
\<close>

section \<open>Totals of an object\<close>

definition account_total :: "nat \<Rightarrow> (nat, ('t, account_day_amount) days) std_map \<Rightarrow> int" where
  "account_total k m = total_of amount_before amount (map_at [] k m)"

definition object_total :: "nat \<Rightarrow> (nat, ('t, day_amount) days) std_map \<Rightarrow> int" where
  "object_total k m = total_of amount_before amount (map_at [] k m)"

definition stored_ok :: "(nat, ('t::linorder, 'd) days) std_map \<Rightarrow> bool" where
  "stored_ok m \<longleftrightarrow> map_ok m \<and> (\<forall>e\<in>set m. map_ok (snd e))"

lemma map_at_put [simp]: "map_ok m \<Longrightarrow> map_at d k (map_put j v m) = (if k = j then v else map_at d k m)"
  by (simp add: map_at_def map_of_map_put)

lemma stored_ok_put: "stored_ok m \<Longrightarrow> map_ok v \<Longrightarrow> stored_ok (map_put k v m)"
  using set_map_put [of k v m] unfolding stored_ok_def by fastforce

lemma stored_ok_at: "stored_ok m \<Longrightarrow> map_ok (map_at [] k m)"
  by (auto simp: stored_ok_def map_at_def dest!: map_of_SomeD split: option.split)

lemma account_total_read:
  assumes "exact_decimal D" "(case map_of amounts k of Some days \<Rightarrow> get_total_amount D days | None \<Rightarrow> Some 0) = Some tot"
  shows "tot = account_total k amounts"
proof (cases "map_of amounts k")
  case None
  then show ?thesis using assms(2) by (simp add: account_total_def map_at_def total_of_def)
next
  case (Some days)
  then show ?thesis using assms(2) get_total_exact [OF assms(1)]
    by (simp add: account_total_def map_at_def get_total_amount_def)
qed

section \<open>Additions, accepted or not\<close>

lemma account_add:
  assumes "exact_decimal D" "map_ok days" "account_add_amount D date a days = Some (b, days')"
  shows "map_ok days' \<and> (if b then total_of amount_before amount days' = total_of amount_before amount days + a
    else total_of amount_before amount days' \<in> {total_of amount_before amount days, total_of amount_before amount days - a})"
proof (cases b)
  case True
  then show ?thesis using account.add_to_days_sums(1,3) [OF assms(1,2)] assms(3) by (simp add: account_add_amount_def)
next
  case False
  then have "add_to_days (account_ops D a) date days = Some (False, days')" using assms(3) by (simp add: account_add_amount_def)
  then show ?thesis using account.add_to_days_rejected [OF assms(1,2)] False assms(2) by (auto simp: key_sorted_def)
qed

lemma object_add:
  assumes "exact_decimal D" "exact_decimal I" "map_ok days" "add_amount D I date a im cl days = Some (b, days')"
  shows "map_ok days' \<and> (if b then total_of amount_before amount days' = total_of amount_before amount days + a
    else total_of amount_before amount days' \<in> {total_of amount_before amount days, total_of amount_before amount days - a})"
proof (cases b)
  case True
  then show ?thesis
    using revenue.add_to_days_sums(1,3) [of D I, OF _ assms(3)] assms(1,2,4) by (simp add: add_amount_def)
next
  case False
  then have "add_to_days (amount_ops D I a im cl) date days = Some (False, days')" using assms(4) by (simp add: add_amount_def)
  then show ?thesis
    using revenue.add_to_days_rejected [of D I, OF _ assms(3)] assms(1-3) False by (auto simp: key_sorted_def)
qed

section \<open>The budget of an account\<close>

text \<open>
  C11. A confirmation that is not forced does not bring an account above its budget, whatever
  additions are rejected: the total is at most the larger one of the budget and the old total. What it
  confirms lies between zero and the amount to confirm, and it is all of it when the answer is true.
\<close>

theorem account_budget_kept:
  assumes "exact_decimal D" "stored_ok amounts" "0 \<le> confirm"
    "confirm_account_bid D T amounts confirm k cfg now False = Some (res, amounts', c)"
  shows "account_total k amounts' \<le> max (account_total k amounts) (ca_budget cfg) \<and>
    0 \<le> c \<and> c \<le> confirm \<and> (res \<longrightarrow> c = confirm) \<and> (0 < confirm \<longrightarrow> (0 < c \<longleftrightarrow> account_total k amounts < ca_budget cfg)) \<and>
    stored_ok amounts' \<and> (\<forall>j. j \<noteq> k \<longrightarrow> map_of amounts' j = map_of amounts j)"
proof -
  let ?days = "map_at [] k amounts" and ?total = "account_total k amounts"
  have m: "map_ok amounts" "map_ok ?days" using assms(2) stored_ok_at by (auto simp: stored_ok_def)
  obtain tot where total: "(case map_of amounts k of Some days \<Rightarrow> get_total_amount D days | None \<Rightarrow> Some 0) = Some tot"
    using assms(4) by (auto simp: confirm_account_bid_def Let_def split: bind_splits)
  have t: "tot = ?total" by (rule account_total_read [OF assms(1) total])
  show ?thesis
  proof (cases "?total < ca_budget cfg")
    case False
    then have "amounts' = amounts" "c = 0" "\<not> res" using assms(4) total t by (auto simp: confirm_account_bid_def Let_def)
    then show ?thesis using False assms(2,3) by auto
  next
    case True
    obtain rest where rest: "dec_sub D (ca_budget cfg) ?total = Some rest"
      using assms(4) total t True by (auto simp: confirm_account_bid_def Let_def split: bind_splits)
    then have r: "rest = ca_budget cfg - ?total" using assms(1) by (simp add: exact_decimal_def)
    let ?add = "if confirm < rest then confirm else rest"
    obtain b days' where add: "account_add_amount D (get_date_in_adv_tz T (ca_time_offset cfg) now) ?add ?days = Some (b, days')"
      and res: "amounts' = map_put k days' amounts" "c = ?add" "res \<longrightarrow> confirm < rest"
      using assms(4) total t True rest by (auto simp: confirm_account_bid_def Let_def split: bind_splits if_splits)
    note A = account_add [OF assms(1) m(2) add]
    have "account_total k amounts' = total_of amount_before amount days'" using res(1) m(1) by (simp add: account_total_def)
    moreover have "0 \<le> ?add" using assms(3) True r by auto
    ultimately have "account_total k amounts' \<le> ?total + ?add"
      using A by (cases b) (auto simp: account_total_def)
    moreover have "stored_ok amounts'" using res(1) stored_ok_put [OF assms(2)] A by simp
    ultimately show ?thesis using res r True assms(3) m(1)
      by (cases "confirm < rest") (auto simp: map_of_map_put)
  qed
qed


text \<open>A calendar with a day per unit of time.\<close>

definition sample_time :: "int billing_time" where
  "sample_time = \<lparr>gm_date = id, gm_hour = (\<lambda>_. 0), time_sec = id, one_day_sec = 1, hours_span = (\<lambda>_. 0), seconds_span = (\<lambda>_. 0)\<rparr>"

definition sample_account_config :: "int account_config" where
  "sample_account_config = \<lparr>ca_active = True, ca_time_offset = 0, ca_budget = 12\<rparr>"

lemma sample_account_confirm:
  "confirm_account_bid (bounded_decimal 1000) sample_time [(7, sample_account_days)] 6 7 sample_account_config 4 False =
   Some (False, [(7, [(2, AccountDayAmount\<lparr>amount := 5\<rparr>), (4, AccountDayAmount\<lparr>amount_before := 5, amount := 7\<rparr>)])], 4)"
  by (simp add: confirm_account_bid_def sample_time_def sample_account_config_def Let_def get_date_in_adv_tz_def sample_account_days_def get_total_amount_def get_total_def
      bounded_decimal_def AccountDayAmount_def account_add_amount_def add_to_days_def account_ops_def revenue_op_def and_then_def
      map_at_def)

theorem account_budget_kept_witness:
  "\<exists>res amounts' c.
     confirm_account_bid (bounded_decimal 1000) sample_time [(7, sample_account_days)] 6 7 sample_account_config 4 False = Some (res, amounts', c) \<and>
     account_total 7 amounts' \<le> max (account_total 7 [(7, sample_account_days)]) 12"
proof -
  have "stored_ok [(7 :: nat, sample_account_days)]" by (simp add: stored_ok_def sample_account_days_def)
  moreover have "ca_budget sample_account_config = 12" by (simp add: sample_account_config_def)
  ultimately show ?thesis
    using account_budget_kept [OF bounded_decimal_exact _ _ sample_account_confirm] sample_account_confirm by fastforce
qed

end
