(* ===== verification/BillingConservation.thy ===== *)
theory BillingConservation
  imports BillingConfirmProps
begin

text \<open>
  What the confirmation of a bid does to campaigns and creative groups, and the conservation of the
  amounts through the levels and the reverts.
\<close>

section \<open>One level of the campaign or the creative group\<close>

text \<open>Decimals without overflow; the product and the quotient stay parameters.\<close>

definition unbounded_decimal :: "decimal \<Rightarrow> bool" where
  "unbounded_decimal D \<longleftrightarrow> dec_add D = (\<lambda>x y. Some (x + y)) \<and> dec_sub D = (\<lambda>x y. Some (x - y))"

lemma unbounded_exact: "unbounded_decimal D \<Longrightarrow> exact_decimal D"
  by (simp add: unbounded_decimal_def exact_decimal_def)

text \<open>Without overflow no addition is rejected.\<close>

lemma each_done:
  assumes "\<And>d. \<exists>d'. f d = Done d'"
  shows "\<exists>ds'. before_loop f ds = Some (ds', [])"
proof (induction ds)
  case (Cons e ds)
  then show ?case using assms [of "snd e"] by (cases e) auto
qed simp

lemma add_to_days_accepts:
  assumes "\<And>d. \<exists>d'. plus_day ops d = Done d'" "\<And>b d. \<exists>d'. init_before ops b d = Done d'" "\<And>d. \<exists>d'. plus_before ops d = Done d'"
    "add_to_days ops date days = Some (b, days')"
  shows b
proof -
  let ?d0 = "case map_of days date of None \<Rightarrow> new_day ops | Some d \<Rightarrow> d" and ?pre = "takeWhile (\<lambda>e. fst e < date) days"
  obtain d1 where d1: "plus_day ops ?d0 = Done d1" using assms(1) by blast
  obtain d2 where d2: "(if map_of days date = None \<and> ?pre \<noteq> [] then init_before ops (snd (last ?pre)) d1 else Done d1) = Done d2"
    using assms(2) by (metis (full_types))
  obtain ds where ds: "before_loop (plus_before ops) (dropWhile (\<lambda>e. fst e \<le> date) days) = Some (ds, [])"
    using each_done [of "plus_before ops", OF assms(3)] by blast
  show ?thesis using assms(4) unfolding add_to_days_def Let_def d1 raised.case d2 ds by simp
qed


lemma unbounded_account_add:
  assumes "unbounded_decimal D" "account_add_amount D date a days = Some (b, days')"
  shows b
proof -
  have "\<exists>d'. plus_day (account_ops D a) d = Done d'" "\<exists>d'. init_before (account_ops D a) e d = Done d'"
    "\<exists>d'. plus_before (account_ops D a) d = Done d'" for e d
    using assms(1) by (simp_all add: account_ops_def unbounded_decimal_def revenue_op_def and_then_def)
  then show ?thesis using add_to_days_accepts assms(2) unfolding account_add_amount_def by blast
qed

lemma unbounded_object_add:
  assumes "unbounded_decimal D" "unbounded_decimal I" "add_amount D I date a im cl days = Some (b, days')"
  shows b
proof -
  have "\<exists>d'. plus_day (amount_ops D I a im cl) d = Done d'" "\<exists>d'. init_before (amount_ops D I a im cl) e d = Done d'"
    "\<exists>d'. plus_before (amount_ops D I a im cl) d = Done d'" for e d
    using assms(1,2) by (simp_all add: amount_ops_def unbounded_decimal_def revenue_op_def imps_op_def and_then_def)
  then show ?thesis using add_to_days_accepts assms(3) unfolding add_amount_def by blast
qed

text \<open>What passing the check means for a positive amount.\<close>

lemma then_check_True:
  "then_check r f = Some (True, al) \<longleftrightarrow> (\<exists>al'. r = Some (True, al') \<and> f al' = Some (True, al))"
  by (auto simp: then_check_def split: option.splits bool.splits prod.splits)

lemma check_limits_passed:
  assumes "exact_decimal D" "check_limits D I of_int1 lc days True al0 = Some (True, al)"
  shows "(delivery_pacing (lc_limits lc) = CHR ''F'' \<and> present (daily_budget (lc_limits lc)) \<longrightarrow>
      get_day_amount (adv_tz_now_date lc) days < opt_val (daily_budget (lc_limits lc))) \<and>
    (present (budget (lc_limits lc)) \<longrightarrow> total_of amount_before amount days < opt_val (budget (lc_limits lc)))"
proof -
  let ?dl = "lc_limits lc"
  obtain al1 al2 where daily: "check_daily D I ?dl (get_day_amount (adv_tz_now_date lc) days) (get_day_imps (adv_tz_now_date lc) days)
      (get_day_clicks (adv_tz_now_date lc) days) al1 = Some (True, al2)"
    and tot: "present (budget ?dl) \<Longrightarrow> \<exists>t i c. get_total_amount D days = Some t \<and>
      check_total D I of_int1 lc (get_day_amount (adv_tz_now_date lc) days) t i c al2 = Some (True, al)"
    using assms(2) unfolding check_limits_def Let_def
    by (auto simp: then_check_True split: if_splits option.splits bind_splits)
  have "delivery_pacing ?dl = CHR ''F'' \<and> present (daily_budget ?dl) \<longrightarrow>
      get_day_amount (adv_tz_now_date lc) days < opt_val (daily_budget ?dl)"
    using daily by (auto simp: check_daily_def then_check_True split: if_splits)
  moreover have "total_of amount_before amount days < opt_val (budget ?dl)" if b: "present (budget ?dl)"
  proof -
    obtain t i c where "get_total_amount D days = Some t"
      "check_total D I of_int1 lc (get_day_amount (adv_tz_now_date lc) days) t i c al2 = Some (True, al)"
      using tot [OF b] by blast
    then have "t < opt_val (budget ?dl)" "t = total_of amount_before amount days"
      using get_total_exact [OF assms(1), of amount_before amount days t]
      by (auto simp: check_total_def Let_def get_total_amount_def split: if_splits)
    then show ?thesis by simp
  qed
  ultimately show ?thesis by blast
qed

lemma exact_sub: "exact_decimal D \<Longrightarrow> dec_sub D x y = Some z \<Longrightarrow> z = x - y"
  by (simp add: exact_decimal_def)

text \<open>Because the allowed values are never present, a level confirms all of what it is given, or nothing.\<close>

lemma confirm_amount_cases:
  assumes "exact_decimal D" "exact_decimal I"
    "confirm_amount D I of_int1 lc days am im cl forced = Some (res, days', am', im', cl')"
  shows "(\<exists>passed added. (if check_required (lc_limits lc)
        then \<exists>al. check_limits D I of_int1 lc days (am > 0) (Some (am, im, cl)) = Some (passed, al) else passed) \<and>
      (if passed \<or> forced
       then add_amount D I (adv_tz_now_date lc) am im cl days = Some (added, days') \<and> am' = 0 \<and> im' = 0 \<and> cl' = 0 \<and>
         res = (passed \<and> added)
       else \<not> res \<and> days' = days \<and> am' = am \<and> im' = im \<and> cl' = cl))"
proof -
  obtain passed oa oi oc where alloc: "check_allowed D I of_int1 lc days am im cl = Some (passed, oa, oi, oc)"
    using assms(3) unfolding confirm_amount_def by (auto split: bind_splits)
  have none: "\<not> present oa" "\<not> present oi" "\<not> present oc" and
    req: "if check_required (lc_limits lc)
        then \<exists>al. check_limits D I of_int1 lc days (am > 0) (Some (am, im, cl)) = Some (passed, al) else passed"
    using alloc unfolding check_allowed_def by (auto simp: Optional_none_def assign_val_def split: if_splits bind_splits option.splits prod.splits)
  have "if passed \<or> forced
       then \<exists>added. add_amount D I (adv_tz_now_date lc) am im cl days = Some (added, days') \<and> am' = 0 \<and> im' = 0 \<and> cl' = 0 \<and>
         res = (passed \<and> added)
       else \<not> res \<and> days' = days \<and> am' = am \<and> im' = im \<and> cl' = cl"
  proof (cases "passed \<or> forced")
    case True
    then have "do { (added, days') \<leftarrow> add_amount D I (adv_tz_now_date lc) am im cl days;
                   am' \<leftarrow> dec_sub D am am; im' \<leftarrow> dec_sub I im im; cl' \<leftarrow> dec_sub I cl cl;
                   Some (passed \<and> added, days', am', im', cl') } = Some (res, days', am', im', cl')"
      using assms(3) none unfolding confirm_amount_def alloc by (simp add: Let_def)
    then obtain added where added: "add_amount D I (adv_tz_now_date lc) am im cl days = Some (added, days')" "res = (passed \<and> added)"
      "dec_sub D am am = Some am'" "dec_sub I im im = Some im'" "dec_sub I cl cl = Some cl'"
      by (force simp: Option.bind_eq_Some_conv)
    moreover from this have "am' = 0" "im' = 0" "cl' = 0"
      using exact_sub [OF assms(1), of am am am'] exact_sub [OF assms(2), of im im im'] exact_sub [OF assms(2), of cl cl cl']
      by simp_all
    ultimately show ?thesis using True by simp
  next
    case False
    then show ?thesis using assms(3) unfolding confirm_amount_def alloc by auto
  qed
  then show ?thesis using req by (auto split: if_splits)
qed


lemma limits_of_checker [simp]: "lc_limits (DeliveryLimitsChecker D T of_int1 dl now) = dl"
  "adv_tz_now_date (DeliveryLimitsChecker D T of_int1 dl now) = get_date_in_adv_tz T (time_offset dl) now"
  by (simp_all add: DeliveryLimitsChecker_def Let_def)

text \<open>One level as an addition of all that it is given, or as nothing.\<close>

lemma confirm_object_cases:
  assumes "exact_decimal D" "exact_decimal I" "stored_ok amounts"
    "confirm_object_bid D I T of_int1 amounts am im cl k dl now forced = Some (res, amounts', a, i, c)"
  shows "stored_ok amounts' \<and> (\<forall>j. j \<noteq> k \<longrightarrow> map_of amounts' j = map_of amounts j) \<and>
    (if res then a = am \<and> i = im \<and> c = cl \<and> object_total k amounts' = object_total k amounts + am
     else (a, i, c) = (0, 0, 0) \<and> object_total k amounts' = object_total k amounts \<or>
       forced \<or> (a, i, c) = (am, im, cl) \<and> object_total k amounts' \<in> {object_total k amounts, object_total k amounts - am}) \<and>
    (unbounded_decimal D \<and> unbounded_decimal I \<longrightarrow> object_total k amounts' = object_total k amounts + a)"
proof -
  let ?days = "map_at [] k amounts" and ?lc = "DeliveryLimitsChecker D T of_int1 dl now"
  obtain days' am' im' cl' where level: "confirm_amount D I of_int1 ?lc ?days am im cl forced = Some (res, days', am', im', cl')"
    and out: "a = am - am'" "i = im - im'" "c = cl - cl'"
      "amounts' = (if map_of amounts k \<noteq> None \<or> res \<or> forced then map_put k days' amounts else amounts)"
    using assms(4) exact_sub [OF assms(1)] exact_sub [OF assms(2)] unfolding confirm_object_bid_def
    by (auto split: bind_splits)
  have ok: "map_ok amounts" "map_ok ?days" using assms(3) stored_ok_at by (auto simp: stored_ok_def)
  obtain passed added where P: "if passed \<or> forced
       then add_amount D I (get_date_in_adv_tz T (time_offset dl) now) am im cl ?days = Some (added, days') \<and>
         am' = 0 \<and> im' = 0 \<and> cl' = 0 \<and> res = (passed \<and> added)
       else \<not> res \<and> days' = ?days \<and> am' = am \<and> im' = im \<and> cl' = cl"
    using confirm_amount_cases [OF assms(1,2) level] unfolding limits_of_checker by blast
  show ?thesis
  proof (cases "passed \<or> forced")
    case True
    then have add: "add_amount D I (get_date_in_adv_tz T (time_offset dl) now) am im cl ?days = Some (added, days')"
      and zero: "am' = 0" "im' = 0" "cl' = 0" "res = (passed \<and> added)" using P by auto
    note A = object_add [OF assms(1,2) ok(2) add]
    note U = unbounded_object_add [OF _ _ add]
    show ?thesis
    proof (cases "map_of amounts k \<noteq> None \<or> res \<or> forced")
      case True
      then have put: "amounts' = map_put k days' amounts" using out(4) by simp
      then have "stored_ok amounts'" using stored_ok_put [OF assms(3)] A by simp
      moreover have "object_total k amounts' = total_of amount_before amount days'"
        using put ok(1) by (simp add: object_total_def)
      ultimately show ?thesis using A put ok(1) out(1-3) zero \<open>passed \<or> forced\<close>
        U by (cases added) (auto simp: map_of_map_put object_total_def)
    next
      case False
      then have "amounts' = amounts" using out(4) by simp
      then show ?thesis using False assms(3) out(1-3) zero U \<open>passed \<or> forced\<close> by auto
    qed
  next
    case False
    then have same: "\<not> res" "days' = ?days" "am' = am" "im' = im" "cl' = cl" using P by auto
    moreover have "object_total k amounts' = object_total k amounts"
      using out(4) same ok(1) by (simp add: object_total_def)
    moreover have "stored_ok amounts'" using out(4) same stored_ok_put [OF assms(3) ok(2)] assms(3) by auto
    ultimately show ?thesis using out ok(1) by (auto simp: map_of_map_put)
  qed
qed


text \<open>A positive amount passes only when the total and the amount of the day are below their limits.\<close>

lemma confirm_object_passed:
  assumes "exact_decimal D" "exact_decimal I" "0 < am"
    "confirm_object_bid D I T of_int1 amounts am im cl k dl now forced = Some (True, amounts', a, i, c)"
  shows "(present (budget dl) \<longrightarrow> object_total k amounts < opt_val (budget dl)) \<and>
    (delivery_pacing dl = CHR ''F'' \<and> present (daily_budget dl) \<longrightarrow>
       get_day_amount (get_date_in_adv_tz T (time_offset dl) now) (map_at [] k amounts) < opt_val (daily_budget dl))"
proof -
  let ?days = "map_at [] k amounts" and ?lc = "DeliveryLimitsChecker D T of_int1 dl now"
  obtain days' am' im' cl' where "confirm_amount D I of_int1 ?lc ?days am im cl forced = Some (True, days', am', im', cl')"
    using assms(4) unfolding confirm_object_bid_def by (auto split: bind_splits)
  from confirm_amount_cases [OF assms(1,2) this]
  obtain passed added where P: "if check_required dl
      then \<exists>al. check_limits D I of_int1 ?lc ?days (am > 0) (Some (am, im, cl)) = Some (passed, al) else passed"
    and Q: "if passed \<or> forced
       then add_amount D I (get_date_in_adv_tz T (time_offset dl) now) am im cl ?days = Some (added, days') \<and>
         am' = 0 \<and> im' = 0 \<and> cl' = 0 \<and> True = (passed \<and> added)
       else \<not> True \<and> days' = ?days \<and> am' = am \<and> im' = im \<and> cl' = cl"
    unfolding limits_of_checker by blast
  have "passed" using Q by (simp split: if_splits)
  show ?thesis
  proof (cases "check_required dl")
    case True
    then obtain al where "check_limits D I of_int1 ?lc ?days True (Some (am, im, cl)) = Some (True, al)"
      using P \<open>passed\<close> assms(3) by auto
    from check_limits_passed [OF assms(1) this] show ?thesis unfolding limits_of_checker object_total_def by blast
  qed (simp add: check_required_def)
qed


section \<open>Conservation\<close>

definition conserved :: "'t billing_state \<Rightarrow> nat \<Rightarrow> nat \<Rightarrow> ('t::linorder) confirm_vars \<Rightarrow> bool" where
  "conserved st ka kc v \<longleftrightarrow>
     stored_ok (accounts (cv_state v)) \<and> stored_ok (campaigns (cv_state v)) \<and>
     account_total ka (accounts (cv_state v)) = account_total ka (accounts st) + confirmed_amount (cv_account v) \<and>
     object_total kc (campaigns (cv_state v)) = object_total kc (campaigns st) + confirmed_amount (cv_campaign v)"


lemma confirm_account_conserves:
  assumes "unbounded_decimal D" "stored_ok amounts" "confirm_account_bid D T amounts confirm k cfg now forced = Some (res, amounts', c)"
  shows "stored_ok amounts' \<and> account_total k amounts' = account_total k amounts + c"
proof -
  let ?days = "map_at [] k amounts"
  have m: "map_ok amounts" "map_ok ?days" using assms(2) stored_ok_at by (auto simp: stored_ok_def)
  have "amounts' = amounts \<and> c = 0 \<or>
      (\<exists>b days'. account_add_amount D (get_date_in_adv_tz T (ca_time_offset cfg) now) c ?days = Some (b, days') \<and>
        amounts' = map_put k days' amounts)"
    using assms(3) unfolding confirm_account_bid_def Let_def by (auto split: bind_splits if_splits)
  then show ?thesis
  proof
    assume "\<exists>b days'. account_add_amount D (get_date_in_adv_tz T (ca_time_offset cfg) now) c ?days = Some (b, days') \<and>
        amounts' = map_put k days' amounts"
    then obtain b days' where add: "account_add_amount D (get_date_in_adv_tz T (ca_time_offset cfg) now) c ?days = Some (b, days')"
      and put: "amounts' = map_put k days' amounts" by blast
    show ?thesis
      using account_add [OF unbounded_exact [OF assms(1)] m(2) add] unbounded_account_add [OF assms(1) add]
        stored_ok_put [OF assms(2)] put m(1)
      by (simp add: account_total_def)
  qed (use assms(2) in simp)
qed

lemma conserved_retarget:
  assumes "retarget D done share whole h = Some h'"
  shows "confirmed_amount h' = confirmed_amount h"
  using assms by (auto simp: retarget_def split: bind_splits)

lemma not_confirmed_keeps:
  assumes "not_confirmed D one forced cd gd ab bb v = Some v'"
  shows "cv_state v' = cv_state v" "confirmed_amount (cv_account v') = confirmed_amount (cv_account v)"
    "confirmed_amount (cv_campaign v') = confirmed_amount (cv_campaign v)" "confirmed_amount (cv_ccg v') = confirmed_amount (cv_ccg v)"
  using assms unfolding not_confirmed_def recalc_remind_amounts_def
  by (auto split: if_splits bind_splits dest: conserved_retarget)

lemma account_level_conserves:
  assumes "unbounded_decimal D" "conserved st (bid_account_id bid) kc v" "confirmed_amount (cv_account v) = 0"
    "confirm_account_level D T one bid cfg forced ab bb v = Some v'"
  shows "conserved st (bid_account_id bid) kc v' \<and> confirmed_amount (cv_campaign v') = confirmed_amount (cv_campaign v)"
proof (cases "available_amount (cv_account v) = 0")
  case False
  then obtain ok m am v1 where bid: "confirm_account_bid D T (accounts (cv_state v)) (available_amount (cv_account v))
          (bid_account_id bid) cfg (bid_time bid) forced = Some (ok, m, am)"
    and v1: "v1 = v\<lparr>cv_state := (cv_state v)\<lparr>accounts := m\<rparr>, cv_account := (cv_account v)\<lparr>confirmed_amount := am\<rparr>\<rparr>"
    and next1: "(if ok then Some v1 else not_confirmed D one forced False False ab bb v1) = Some v'"
    using assms(4) unfolding confirm_account_level_def by (auto simp: Let_def split: bind_splits)
  have "conserved st (bid_account_id bid) kc v1 \<and> confirmed_amount (cv_campaign v1) = confirmed_amount (cv_campaign v)"
    using confirm_account_conserves [OF assms(1) _ bid] assms(2,3) unfolding conserved_def v1 by simp
  then show ?thesis using next1 not_confirmed_keeps [of D one forced False False ab bb v1 v']
    by (cases ok) (auto simp: conserved_def)
qed (use assms(2,4) in \<open>simp add: confirm_account_level_def\<close>)

lemma campaign_level_conserves:
  assumes "unbounded_decimal D" "unbounded_decimal I" "conserved st ka (bid_campaign_id bid) v" "confirmed_amount (cv_campaign v) = 0"
    "confirm_campaign_level D I T of_int1 one bid dl forced ab bb v = Some v'"
  shows "conserved st ka (bid_campaign_id bid) v'"
proof (cases "available_amount (cv_campaign v) = 0")
  case False
  let ?h = "cv_campaign v"
  obtain ok m am im cl v1 where bid: "confirm_object_bid D I T of_int1 (campaigns (cv_state v)) (available_amount ?h) (available_imps ?h)
             (available_clicks ?h) (bid_campaign_id bid) dl (bid_time bid) forced = Some (ok, m, am, im, cl)"
    and v1: "v1 = v\<lparr>cv_state := (cv_state v)\<lparr>campaigns := m\<rparr>,
                      cv_campaign := ?h\<lparr>confirmed_amount := am, confirmed_imps := im, confirmed_clicks := cl\<rparr>\<rparr>"
    and next1: "(if ok then Some v1 else not_confirmed D one forced True False ab bb v1) = Some v'"
    using assms(5) False unfolding confirm_campaign_level_def by (auto simp: Let_def split: bind_splits)
  have "conserved st ka (bid_campaign_id bid) v1"
    using confirm_object_cases [OF unbounded_exact [OF assms(1)] unbounded_exact [OF assms(2)] _ bid] assms(1-4)
    unfolding conserved_def v1 by simp
  then show ?thesis using next1 not_confirmed_keeps [of D one forced True False ab bb v1 v']
    by (cases ok) (auto simp: conserved_def)
qed (use assms(3,5) in \<open>simp add: confirm_campaign_level_def\<close>)

lemma ccg_level_conserves:
  assumes "conserved st ka kc v" "confirm_ccg_level D I T of_int1 one bid dl forced ab bb v = Some v'"
  shows "conserved st ka kc v'"
proof (cases "available_amount (cv_ccg v) = 0")
  case False
  let ?h = "cv_ccg v"
  obtain ok m am im cl v1 where v1: "v1 = v\<lparr>cv_state := (cv_state v)\<lparr>ccgs := m\<rparr>,
                      cv_ccg := ?h\<lparr>confirmed_amount := am, confirmed_imps := im, confirmed_clicks := cl\<rparr>\<rparr>"
    and next1: "(if ok then Some v1 else not_confirmed D one forced True True ab bb v1) = Some v'"
    using assms(2) False unfolding confirm_ccg_level_def by (auto simp: Let_def split: bind_splits)
  have "conserved st ka kc v1" using assms(1) unfolding conserved_def v1 by simp
  then show ?thesis using next1 not_confirmed_keeps [of D one forced True True ab bb v1 v']
    by (cases ok) (auto simp: conserved_def)
qed (use assms in \<open>simp add: confirm_ccg_level_def\<close>)


lemma confirm_bid_rate_keeps:
  assumes "confirm_bid_rate D I T st rate im cl am kc kg dl now = Some st'"
  shows "accounts st' = accounts st" "campaigns st' = campaigns st" "ccgs st' = ccgs st"
  using assms unfolding confirm_bid_rate_def Let_def by (auto split: bind_splits if_splits)

lemma revert_account_conserves:
  assumes "unbounded_decimal D" "stored_ok amounts" "revert_account_confirmed_bid D T amounts k cfg now am = Some m"
  shows "stored_ok m \<and> account_total k m = account_total k amounts - am"
proof -
  obtain days days' where days: "map_of amounts k = Some days"
    and add: "account_add_amount D (get_date_in_adv_tz T (ca_time_offset cfg) now) (- am) days = Some (True, days')"
    and put: "m = map_put k days' amounts"
    using assms(3) unfolding revert_account_confirmed_bid_def by (auto split: bind_splits if_splits)
  have at: "days = map_at [] k amounts" using days by (simp add: map_at_def)
  have m: "map_ok amounts" "map_ok days" using stored_ok_at [OF assms(2), of k] assms(2) at by (simp_all add: stored_ok_def)
  from account_add [OF unbounded_exact [OF assms(1)] m(2) add] show ?thesis
    using stored_ok_put [OF assms(2)] put m(1) by (simp add: account_total_def at)
qed

lemma revert_object_conserves:
  assumes "unbounded_decimal D" "unbounded_decimal I" "stored_ok amounts"
    "revert_confirmed_bid D I T amounts k dl now am im cl = Some m"
  shows "stored_ok m \<and> object_total k m = object_total k amounts - am"
proof -
  obtain days days' where days: "map_of amounts k = Some days"
    and add: "add_amount D I (get_date_in_adv_tz T (time_offset dl) now) (- am) im cl days = Some (True, days')"
    and put: "m = map_put k days' amounts"
    using assms(4) unfolding revert_confirmed_bid_def by (auto split: bind_splits if_splits)
  have at: "days = map_at [] k amounts" using days by (simp add: map_at_def)
  have m: "map_ok amounts" "map_ok days" using stored_ok_at [OF assms(3), of k] assms(3) at by (simp_all add: stored_ok_def)
  from object_add [OF unbounded_exact [OF assms(1)] unbounded_exact [OF assms(2)] m(2) add] show ?thesis
    using stored_ok_put [OF assms(3)] put m(1) by (simp add: object_total_def at)
qed

lemma revert_levels_conserves:
  assumes U: "unbounded_decimal D" "unbounded_decimal I" and c0: "conserved st (bid_account_id bid) (bid_campaign_id bid) v0"
    and rv: "revert_levels D I T bid acfg cdl gdl v0 = Some v3"
  shows "conserved st (bid_account_id bid) (bid_campaign_id bid) v3"
proof -
  have sub: "dec_sub D x y = Some (x - y)" for x y using U(1) by (simp add: unbounded_decimal_def)
  obtain v1 v2 where
    v1: "v1 = v0 \<or> (\<exists>m. v1 = v0\<lparr>cv_state := (cv_state v0)\<lparr>ccgs := m\<rparr>\<rparr>)"
    and v2: "v2 = v1 \<or> (\<exists>m. revert_confirmed_bid D I T (campaigns (cv_state v1)) (bid_campaign_id bid) cdl (bid_time bid)
          (revert_amount (cv_campaign v1)) (revert_imps (cv_campaign v1)) (revert_clicks (cv_campaign v1)) = Some m \<and>
        v2 = v1\<lparr>cv_state := (cv_state v1)\<lparr>campaigns := m\<rparr>,
          cv_campaign := (cv_campaign v1)\<lparr>confirmed_amount := confirmed_amount (cv_campaign v1) - revert_amount (cv_campaign v1)\<rparr>\<rparr>)"
    and v3: "v3 = v2 \<or> (\<exists>m. revert_account_confirmed_bid D T (accounts (cv_state v2)) (bid_account_id bid) acfg (bid_time bid)
          (revert_amount (cv_account v2)) = Some m \<and>
        v3 = v2\<lparr>cv_state := (cv_state v2)\<lparr>accounts := m\<rparr>,
          cv_account := (cv_account v2)\<lparr>confirmed_amount := confirmed_amount (cv_account v2) - revert_amount (cv_account v2)\<rparr>\<rparr>)"
    using rv unfolding revert_levels_def Let_def sub by (auto split: bind_splits if_splits)
  have "conserved st (bid_account_id bid) (bid_campaign_id bid) v1" using v1 c0 unfolding conserved_def by auto
  then have "conserved st (bid_account_id bid) (bid_campaign_id bid) v2"
    using v2 revert_object_conserves [OF U, of "campaigns (cv_state v1)"] unfolding conserved_def by auto
  then show ?thesis
    using v3 revert_account_conserves [OF U(1), of "accounts (cv_state v2)"] unfolding conserved_def by auto
qed

text \<open>
  C2. No money is lost or made by the confirmation of a bid, on whatever level it is confirmed partly,
  refused or reverted: while no number overflows, what remains of the amount of the account and what
  the account has in total are together what they were before, and so are the amount of the bid and the
  total of the campaign.
\<close>

theorem confirmation_conserves:
  assumes "unbounded_decimal D" "unbounded_decimal I" "stored_ok (accounts st)" "stored_ok (campaigns st)"
    "confirm_resolved_bid D I T of_int1 one round_rate st acfg cdl gdl account_amount bid_amount im cl bid forced =
       Some (res, st', account_rest, bid_rest, im_rest, cl_rest)"
  shows "account_total (bid_account_id bid) (accounts st') + account_rest =
      account_total (bid_account_id bid) (accounts st) + account_amount \<and>
    object_total (bid_campaign_id bid) (campaigns st') + bid_rest =
      object_total (bid_campaign_id bid) (campaigns st) + bid_amount \<and>
    stored_ok (accounts st') \<and> stored_ok (campaigns st')"
proof -
  let ?ka = "bid_account_id bid" and ?kc = "bid_campaign_id bid"
  let ?h = "\<lparr>available_amount = bid_amount, confirmed_amount = 0, revert_amount = 0, available_imps = im, confirmed_imps = 0,
              revert_imps = 0, available_clicks = cl, confirmed_clicks = 0, revert_clicks = 0\<rparr>"
  let ?v0 = "\<lparr>cv_state = st, cv_account = \<lparr>available_amount = account_amount, confirmed_amount = 0, revert_amount = 0\<rparr>,
              cv_campaign = ?h, cv_ccg = ?h, cv_res = True\<rparr>"
  have sub: "dec_sub D x y = Some (x - y)" for x y using assms(1) by (simp add: unbounded_decimal_def)
  obtain v1 v2 v3 st4 v5 ci cc where
    v1: "confirm_account_level D T one bid acfg forced account_amount bid_amount ?v0 = Some v1"
    and v2: "confirm_campaign_level D I T of_int1 one bid cdl forced account_amount bid_amount v1 = Some v2"
    and v3: "confirm_ccg_level D I T of_int1 one bid gdl forced account_amount bid_amount v2 = Some v3"
    and st4: "confirm_bid_rate D I T (cv_state v3) (round_rate (bid_ctr bid)) ci cc (confirmed_amount (cv_ccg v3))
            (bid_campaign_id bid) (bid_ccg_id bid) cdl (bid_time bid) = Some st4"
    and v5: "revert_levels D I T bid acfg cdl gdl (v3\<lparr>cv_state := st4\<rparr>) = Some v5"
    and out: "st' = cv_state v5" "account_rest = account_amount - confirmed_amount (cv_account v5)"
      "bid_rest = bid_amount - confirmed_amount (cv_campaign v5)"
    using assms(5) unfolding confirm_resolved_bid_def Let_def sub by (auto split: bind_splits)
  have "conserved st ?ka ?kc ?v0" using assms(3,4) by (simp add: conserved_def)
  then have "conserved st ?ka ?kc v1" and "confirmed_amount (cv_campaign v1) = 0"
    using account_level_conserves [OF assms(1) _ _ v1] by simp_all
  then have "conserved st ?ka ?kc v3"
    using campaign_level_conserves [OF assms(1,2) _ _ v2] ccg_level_conserves [OF _ v3] by blast
  then have "conserved st ?ka ?kc (v3\<lparr>cv_state := st4\<rparr>)"
    using confirm_bid_rate_keeps [OF st4] by (simp add: conserved_def)
  from revert_levels_conserves [OF assms(1,2) this v5] show ?thesis unfolding out by (simp add: conserved_def)
qed


section \<open>A bid on an example\<close>

text \<open>Decimals with a scale of one, without bounds.\<close>

definition sample_decimal :: decimal where
  "sample_decimal = \<lparr>dec_default = 0, dec_add = (\<lambda>x y. Some (x + y)), dec_sub = (\<lambda>x y. Some (x - y)),
     dec_mul_floor = (\<lambda>x y. Some (x * y div 10)), dec_div = (\<lambda>x y. Some (x * 10 div y))\<rparr>"

lemma sample_unbounded: "unbounded_decimal sample_decimal"
  by (simp add: sample_decimal_def unbounded_decimal_def)

definition sample_limits :: "int delivery_limits" where
  "sample_limits = (init_forced_entity_config sample_decimal)\<lparr>dl_active := True, budget := Optional_some 12\<rparr>"

definition sample_object_days :: "(int, day_amount) days" where
  "sample_object_days = [(2, DayAmount\<lparr>amount := 8\<rparr>)]"

lemma sample_object_confirm:
  "\<exists>amounts'. confirm_object_bid sample_decimal sample_decimal sample_time id [(3, sample_object_days)] 6 1 0 3 sample_limits 4 False =
     Some (True, amounts', 6, 1, 0)"
  by (simp add: confirm_object_bid_def confirm_amount_def check_allowed_def check_limits_def check_daily_def check_total_def
      DeliveryLimitsChecker_def sample_limits_def init_forced_entity_config_def sample_object_days_def sample_time_def sample_decimal_def
      check_required_def Optional_none_def Optional_some_def assign_val_def Let_def get_date_in_adv_tz_def then_check_def
      lower_amount_def lower_imps_def lower_clicks_def reached_def get_total_amount_def get_total_imps_def get_total_clicks_def
      get_total_def get_day_amount_def get_day_imps_def get_day_clicks_def get_day_def DayAmount_def map_at_def add_amount_def
      add_to_days_def amount_ops_def revenue_op_def imps_op_def and_then_def UNLIMITED_IMPS_def)


definition sample_state :: "int billing_state" where
  "sample_state = \<lparr>accounts = [(7, sample_account_days)], campaigns = [(3, sample_object_days)], ccgs = [],
     campaign_rate_goals = [], ccg_rate_amounts = []\<rparr>"

definition sample_bid :: "int bid" where
  "sample_bid = \<lparr>bid_time = 4, bid_account_id = 7, bid_advertiser_id = 0, bid_campaign_id = 3, bid_ccg_id = 5, bid_ctr = 1\<rparr>"


text \<open>The account confirms four of six, and one more is reverted because the share is rounded.\<close>

lemma sample_confirmed:
  "map_option (\<lambda>r. (fst r, snd (snd r))) (confirm_resolved_bid sample_decimal sample_decimal sample_time id 10 id sample_state
     sample_account_config sample_limits sample_limits 6 6 1 0 sample_bid False) = Some (False, 3, 3, 1, 0)"
  by code_simp

theorem confirmation_conserves_witness:
  "\<exists>st'. confirm_resolved_bid sample_decimal sample_decimal sample_time id 10 id sample_state sample_account_config
       sample_limits sample_limits 6 6 1 0 sample_bid False = Some (False, st', 3, 3, 1, 0) \<and>
     account_total 7 (accounts st') = account_total 7 (accounts sample_state) + 3"
proof -
  obtain st' where confirmed: "confirm_resolved_bid sample_decimal sample_decimal sample_time id 10 id sample_state sample_account_config
       sample_limits sample_limits 6 6 1 0 sample_bid False = Some (False, st', 3, 3, 1, 0)"
    using sample_confirmed by auto
  have "stored_ok (accounts sample_state)" "stored_ok (campaigns sample_state)"
    by (simp_all add: sample_state_def stored_ok_def sample_account_days_def sample_object_days_def)
  from confirmation_conserves [OF sample_unbounded sample_unbounded this confirmed]
  show ?thesis using confirmed by (simp add: sample_bid_def)
qed

end
