(* ===== verification/StatAmounts.thy ===== *)
theory StatAmounts
  imports BillingAmountsProps "HOL-Library.Monad_Syntax"
begin

text \<open>
  The statistics of campaigns: \<open>StatSource::Stat\<close> of \<open>src/CampaignSvcs/CampaignServer/StatSource.hpp\<close>,
  and their sum. \<open>D\<close> is \<open>RevenueDecimal\<close> and \<open>I\<close> is \<open>ImpRevenueDecimal\<close>. The operators are \<open>noexcept\<close>:
  \<open>None\<close> is an overflow, which ends the process. The assertion of \<open>Stat::add\<close> is left out.
\<close>

section \<open>Statistics\<close>

record creative_stat =
  cst_impressions :: int
  cst_clicks :: int
  cst_actions :: int

record amount_stat =
  as_amount :: int
  as_comm_amount :: int
  as_daily_amount :: int
  as_daily_comm_amount :: int

record publisher_stat =
  ps_amount :: int
  ps_daily_amount :: int

record tag_hour_stat =
  th_isp_pub_amount :: int
  th_adv_amount :: int
  th_adv_comm_amount :: int

record tag_stat =
  ts_prev_hour_stat :: tag_hour_stat
  ts_current_hour_stat :: tag_hour_stat

record ccg_stat = amount_stat +
  cg_impressions :: int
  cg_clicks :: int
  cg_actions :: int
  cg_creatives :: "(nat, creative_stat) std_map"
  cg_publisher_amounts :: "(nat, publisher_stat) std_map"
  cg_prev_hour_amount :: int
  cg_prev_hour_comm_amount :: int
  cg_cur_hour_amount :: int
  cg_cur_hour_comm_amount :: int
  cg_tag_stats :: "(nat, tag_stat) std_map"
  cg_ctr_reset_stats :: "(nat, int) std_map"

record campaign_stat = amount_stat +
  cm_ccgs :: "(nat, ccg_stat) std_map"

record account_stat =
  aa_amount :: int
  aa_comm_amount :: int

record 't stat =
  st_timestamp :: 't
  st_check_time :: 't
  st_campaign_stats :: "(nat, campaign_stat) std_map"
  st_account_amounts :: "(nat, account_stat) std_map"

definition ZERO_TAG_HOUR_STAT :: tag_hour_stat where
  "ZERO_TAG_HOUR_STAT = \<lparr>th_isp_pub_amount = 0, th_adv_amount = 0, th_adv_comm_amount = 0\<rparr>"

section \<open>Sums\<close>

fun sum_collections :: "('v \<Rightarrow> 'v \<Rightarrow> 'v option) \<Rightarrow> ('k::linorder, 'v) std_map \<Rightarrow> ('k, 'v) std_map \<Rightarrow> ('k, 'v) std_map option" where
  "sum_collections add target [] = Some target"
| "sum_collections add target ((k, v) # source) =
     (case map_of target k of
        None \<Rightarrow> sum_collections add (map_insert k v target) source
      | Some w \<Rightarrow> do { x \<leftarrow> add w v; sum_collections add (map_put k x target) source })"

definition creative_plus :: "decimal \<Rightarrow> creative_stat \<Rightarrow> creative_stat \<Rightarrow> creative_stat option" where
  "creative_plus I x y = do {
     i \<leftarrow> dec_add I (cst_impressions x) (cst_impressions y);
     c \<leftarrow> dec_add I (cst_clicks x) (cst_clicks y);
     a \<leftarrow> dec_add I (cst_actions x) (cst_actions y);
     Some \<lparr>cst_impressions = i, cst_clicks = c, cst_actions = a\<rparr> }"

definition publisher_plus :: "decimal \<Rightarrow> publisher_stat \<Rightarrow> publisher_stat \<Rightarrow> publisher_stat option" where
  "publisher_plus D x y = do {
     a \<leftarrow> dec_add D (ps_amount x) (ps_amount y);
     d \<leftarrow> dec_add D (ps_daily_amount x) (ps_daily_amount y);
     Some \<lparr>ps_amount = a, ps_daily_amount = d\<rparr> }"

definition amount_plus :: "decimal \<Rightarrow> 'a amount_stat_scheme \<Rightarrow> 'b amount_stat_scheme \<Rightarrow> 'a amount_stat_scheme option" where
  "amount_plus D x y = do {
     d \<leftarrow> dec_add D (as_daily_amount x) (as_daily_amount y);
     dc \<leftarrow> dec_add D (as_daily_comm_amount x) (as_daily_comm_amount y);
     a \<leftarrow> dec_add D (as_amount x) (as_amount y);
     c \<leftarrow> dec_add D (as_comm_amount x) (as_comm_amount y);
     Some (x\<lparr>as_daily_amount := d, as_daily_comm_amount := dc, as_amount := a, as_comm_amount := c\<rparr>) }"

definition tag_hour_plus :: "decimal \<Rightarrow> tag_hour_stat \<Rightarrow> tag_hour_stat \<Rightarrow> tag_hour_stat option" where
  "tag_hour_plus D x y = do {
     i \<leftarrow> dec_add D (th_isp_pub_amount x) (th_isp_pub_amount y);
     a \<leftarrow> dec_add D (th_adv_amount x) (th_adv_amount y);
     c \<leftarrow> dec_add D (th_adv_comm_amount x) (th_adv_comm_amount y);
     Some \<lparr>th_isp_pub_amount = i, th_adv_amount = a, th_adv_comm_amount = c\<rparr> }"

definition tag_plus :: "decimal \<Rightarrow> tag_stat \<Rightarrow> tag_stat \<Rightarrow> tag_stat option" where
  "tag_plus D x y = do {
     p \<leftarrow> tag_hour_plus D (ts_prev_hour_stat x) (ts_prev_hour_stat y);
     c \<leftarrow> tag_hour_plus D (ts_current_hour_stat x) (ts_current_hour_stat y);
     Some \<lparr>ts_prev_hour_stat = p, ts_current_hour_stat = c\<rparr> }"

definition ccg_plus :: "decimal \<Rightarrow> decimal \<Rightarrow> ccg_stat \<Rightarrow> ccg_stat \<Rightarrow> ccg_stat option" where
  "ccg_plus D I x y = do {
     x \<leftarrow> amount_plus D x y;
     i \<leftarrow> dec_add I (cg_impressions x) (cg_impressions y);
     c \<leftarrow> dec_add I (cg_clicks x) (cg_clicks y);
     a \<leftarrow> dec_add I (cg_actions x) (cg_actions y);
     cr \<leftarrow> sum_collections (creative_plus I) (cg_creatives x) (cg_creatives y);
     p \<leftarrow> dec_add D (cg_prev_hour_amount x) (cg_prev_hour_amount y);
     pc \<leftarrow> dec_add D (cg_prev_hour_comm_amount x) (cg_prev_hour_comm_amount y);
     h \<leftarrow> dec_add D (cg_cur_hour_amount x) (cg_cur_hour_amount y);
     hc \<leftarrow> dec_add D (cg_cur_hour_comm_amount x) (cg_cur_hour_comm_amount y);
     pub \<leftarrow> sum_collections (publisher_plus D) (cg_publisher_amounts x) (cg_publisher_amounts y);
     t \<leftarrow> sum_collections (tag_plus D) (cg_tag_stats x) (cg_tag_stats y);
     r \<leftarrow> sum_collections (dec_add I) (cg_ctr_reset_stats x) (cg_ctr_reset_stats y);
     Some (x\<lparr>cg_impressions := i, cg_clicks := c, cg_actions := a, cg_creatives := cr,
       cg_prev_hour_amount := p, cg_prev_hour_comm_amount := pc, cg_cur_hour_amount := h, cg_cur_hour_comm_amount := hc,
       cg_publisher_amounts := pub, cg_tag_stats := t, cg_ctr_reset_stats := r\<rparr>) }"

definition campaign_plus :: "decimal \<Rightarrow> decimal \<Rightarrow> campaign_stat \<Rightarrow> campaign_stat \<Rightarrow> campaign_stat option" where
  "campaign_plus D I x y = do {
     x \<leftarrow> amount_plus D x y;
     c \<leftarrow> sum_collections (ccg_plus D I) (cm_ccgs x) (cm_ccgs y);
     Some (x\<lparr>cm_ccgs := c\<rparr>) }"

definition account_plus :: "decimal \<Rightarrow> account_stat \<Rightarrow> account_stat \<Rightarrow> account_stat option" where
  "account_plus D x y = do {
     a \<leftarrow> dec_add D (aa_amount x) (aa_amount y);
     c \<leftarrow> dec_add D (aa_comm_amount x) (aa_comm_amount y);
     Some \<lparr>aa_amount = a, aa_comm_amount = c\<rparr> }"

definition stat_add :: "decimal \<Rightarrow> decimal \<Rightarrow> 't stat \<Rightarrow> 't stat \<Rightarrow> 't stat option" where
  "stat_add D I x y = do {
     a \<leftarrow> sum_collections (account_plus D) (st_account_amounts x) (st_account_amounts y);
     c \<leftarrow> sum_collections (campaign_plus D I) (st_campaign_stats x) (st_campaign_stats y);
     Some (x\<lparr>st_timestamp := st_timestamp y, st_account_amounts := a, st_campaign_stats := c\<rparr>) }"

section \<open>Sums by key\<close>

text \<open>The value of a key, zero where there is none.\<close>

definition at :: "('v \<Rightarrow> int) \<Rightarrow> ('k, 'v) std_map \<Rightarrow> 'k \<Rightarrow> int" where
  "at f m k = (case map_of m k of None \<Rightarrow> 0 | Some v \<Rightarrow> f v)"

text \<open>What one level of the statistics promises to the level above: the operator adds each of \<open>fields\<close>.\<close>

locale summed =
  fixes exact :: bool
    and ok :: "'v \<Rightarrow> bool"
    and add :: "'v \<Rightarrow> 'v \<Rightarrow> 'v option"
    and fields :: "('v \<Rightarrow> int) set"
  assumes add_ok: "exact \<Longrightarrow> ok x \<Longrightarrow> ok y \<Longrightarrow> add x y = Some z \<Longrightarrow> ok z"
    and add_adds: "exact \<Longrightarrow> ok x \<Longrightarrow> ok y \<Longrightarrow> add x y = Some z \<Longrightarrow> f \<in> fields \<Longrightarrow> f z = f x + f y"
begin

definition map_fine :: "('k::linorder, 'v) std_map \<Rightarrow> bool" where
  "map_fine m \<longleftrightarrow> map_ok m \<and> (\<forall>e\<in>set m. ok (snd e))"

lemma fine_lookup: "map_fine m \<Longrightarrow> map_of m k = Some v \<Longrightarrow> ok v"
  by (force simp: map_fine_def dest: map_of_SomeD)

lemma fine_put: "map_fine m \<Longrightarrow> ok v \<Longrightarrow> map_fine (map_put k v m)"
  using set_map_put [of k v m] by (auto simp: map_fine_def)

lemma fine_insert: "map_fine m \<Longrightarrow> ok v \<Longrightarrow> map_fine (map_insert k v m)"
  using set_map_insert [of k v m] by (auto simp: map_fine_def)

lemma sum_collections_sums:
  assumes exact "map_fine target" "map_fine source" "sum_collections add target source = Some r"
  shows "map_fine r \<and> fst ` set r = fst ` set target \<union> fst ` set source \<and>
    (\<forall>f\<in>fields. \<forall>k. at f r k = at f target k + at f source k)"
  using assms(2-)
proof (induction source arbitrary: target)
  case (Cons e source)
  obtain k v where e: "e = (k, v)" by (rule prod.exhaust)
  have src: "map_fine source" "ok v" "map_of source k = None" "map_ok target"
    using Cons.prems(1,2) unfolding e map_fine_def by (auto simp: map_of_eq_None_iff)
  show ?case
  proof (cases "map_of target k")
    case None
    have fine: "map_fine (map_insert k v target)" using Cons.prems(1) src(2) by (rule fine_insert)
    have "sum_collections add (map_insert k v target) source = Some r" using Cons.prems(3) None e by simp
    note IH = Cons.IH [OF fine src(1) this]
    have "at f (map_insert k v target) k' + at f source k' = at f target k' + at f (e # source) k'" for f k'
      using src(3) None by (auto simp: at_def e map_of_map_insert [OF src(4)])
    then show ?thesis using IH by (auto simp: e)
  next
    case (Some w)
    obtain x where x: "add w v = Some x" "sum_collections add (map_put k x target) source = Some r"
      using Cons.prems(3) Some e by (auto split: bind_splits)
    have w: "ok w" using fine_lookup Cons.prems(1) Some by blast
    have fine: "map_fine (map_put k x target)" using Cons.prems(1) add_ok [OF assms(1) w src(2) x(1)] by (rule fine_put)
    note IH = Cons.IH [OF fine src(1) x(2)]
    have "at f (map_put k x target) k' + at f source k' = at f target k' + at f (e # source) k'" if "f \<in> fields" for f k'
      using src(3) Some add_adds [OF assms(1) w src(2) x(1) that] by (auto simp: at_def e map_of_map_put [OF src(4)])
    moreover have "k \<in> fst ` set target" using Some by (force dest: map_of_SomeD)
    ultimately show ?thesis using IH by (auto simp: e)
  qed
qed (simp add: at_def)

end

definition creative_fields :: "(creative_stat \<Rightarrow> int) set" where
  "creative_fields = {cst_impressions, cst_clicks, cst_actions}"

definition publisher_fields :: "(publisher_stat \<Rightarrow> int) set" where
  "publisher_fields = {ps_amount, ps_daily_amount}"

definition amount_fields :: "('a amount_stat_scheme \<Rightarrow> int) set" where
  "amount_fields = {as_amount, as_comm_amount, as_daily_amount, as_daily_comm_amount}"

definition tag_fields :: "(tag_stat \<Rightarrow> int) set" where
  "tag_fields = (\<Union>f\<in>{th_isp_pub_amount, th_adv_amount, th_adv_comm_amount}. {f \<circ> ts_prev_hour_stat, f \<circ> ts_current_hour_stat})"

definition ccg_fields :: "(ccg_stat \<Rightarrow> int) set" where
  "ccg_fields = amount_fields \<union>
     {cg_impressions, cg_clicks, cg_actions, cg_prev_hour_amount, cg_prev_hour_comm_amount, cg_cur_hour_amount, cg_cur_hour_comm_amount} \<union>
     {\<lambda>x. at f (cg_creatives x) k | f k. f \<in> creative_fields} \<union>
     {\<lambda>x. at f (cg_publisher_amounts x) k | f k. f \<in> publisher_fields} \<union>
     {\<lambda>x. at f (cg_tag_stats x) k | f k. f \<in> tag_fields} \<union>
     {\<lambda>x. at id (cg_ctr_reset_stats x) k | k. True}"

definition campaign_fields :: "(campaign_stat \<Rightarrow> int) set" where
  "campaign_fields = amount_fields \<union> {\<lambda>x. at f (cm_ccgs x) k | f k. f \<in> ccg_fields}"

definition account_fields :: "(account_stat \<Rightarrow> int) set" where
  "account_fields = {aa_amount, aa_comm_amount}"

definition ccg_ok :: "ccg_stat \<Rightarrow> bool" where
  "ccg_ok x \<longleftrightarrow> map_ok (cg_creatives x) \<and> map_ok (cg_publisher_amounts x) \<and> map_ok (cg_tag_stats x) \<and> map_ok (cg_ctr_reset_stats x)"

definition campaign_ok :: "campaign_stat \<Rightarrow> bool" where
  "campaign_ok x \<longleftrightarrow> map_ok (cm_ccgs x) \<and> (\<forall>e\<in>set (cm_ccgs x). ccg_ok (snd e))"

definition stat_ok :: "'t stat \<Rightarrow> bool" where
  "stat_ok s \<longleftrightarrow> map_ok (st_account_amounts s) \<and> map_ok (st_campaign_stats s) \<and> (\<forall>e\<in>set (st_campaign_stats s). campaign_ok (snd e))"

lemma exact_add: "exact_decimal D \<Longrightarrow> dec_add D x y = Some z \<Longrightarrow> z = x + y"
  by (simp add: exact_decimal_def)

interpretation creative_sum: summed "exact_decimal I" "\<lambda>_. True" "creative_plus I" creative_fields for I
  by unfold_locales (auto simp: creative_plus_def creative_fields_def exact_decimal_def split: bind_splits)

interpretation publisher_sum: summed "exact_decimal D" "\<lambda>_. True" "publisher_plus D" publisher_fields for D
  by unfold_locales (auto simp: publisher_plus_def publisher_fields_def exact_decimal_def split: bind_splits)

interpretation account_sum: summed "exact_decimal D" "\<lambda>_. True" "account_plus D" account_fields for D
  by unfold_locales (auto simp: account_plus_def account_fields_def exact_decimal_def split: bind_splits)

interpretation reset_sum: summed "exact_decimal I" "\<lambda>_. True" "dec_add I" "{id}" for I
  by unfold_locales (auto simp: exact_decimal_def)

lemma tag_hour_plus_adds:
  "exact_decimal D \<Longrightarrow> tag_hour_plus D x y = Some z \<Longrightarrow> f \<in> {th_isp_pub_amount, th_adv_amount, th_adv_comm_amount} \<Longrightarrow> f z = f x + f y"
  by (auto simp: tag_hour_plus_def exact_decimal_def split: bind_splits)

interpretation tag_sum: summed "exact_decimal D" "\<lambda>_. True" "tag_plus D" tag_fields for D
proof unfold_locales
  fix x y z f
  assume D: "exact_decimal D" and z: "tag_plus D x y = Some z" and f: "f \<in> tag_fields"
  obtain p c where "tag_hour_plus D (ts_prev_hour_stat x) (ts_prev_hour_stat y) = Some p"
    "tag_hour_plus D (ts_current_hour_stat x) (ts_current_hour_stat y) = Some c"
    "z = \<lparr>ts_prev_hour_stat = p, ts_current_hour_stat = c\<rparr>"
    using z by (auto simp: tag_plus_def split: bind_splits)
  then show "f z = f x + f y" using f tag_hour_plus_adds [OF D] by (auto simp: tag_fields_def)
qed simp

lemma amount_plus_adds:
  assumes "exact_decimal D" "amount_plus D x y = Some z"
  shows "as_amount z = as_amount x + as_amount y" "as_comm_amount z = as_comm_amount x + as_comm_amount y"
    "as_daily_amount z = as_daily_amount x + as_daily_amount y" "as_daily_comm_amount z = as_daily_comm_amount x + as_daily_comm_amount y"
  using assms by (auto simp: amount_plus_def exact_decimal_def split: bind_splits)

lemma amount_plus_ccg:
  fixes x w :: ccg_stat
  assumes "amount_plus D x y = Some w"
  shows "cg_creatives w = cg_creatives x" "cg_publisher_amounts w = cg_publisher_amounts x" "cg_tag_stats w = cg_tag_stats x"
    "cg_ctr_reset_stats w = cg_ctr_reset_stats x" "cg_impressions w = cg_impressions x" "cg_clicks w = cg_clicks x"
    "cg_actions w = cg_actions x" "cg_prev_hour_amount w = cg_prev_hour_amount x"
    "cg_prev_hour_comm_amount w = cg_prev_hour_comm_amount x" "cg_cur_hour_amount w = cg_cur_hour_amount x"
    "cg_cur_hour_comm_amount w = cg_cur_hour_comm_amount x"
  using assms by (auto simp: amount_plus_def split: bind_splits)

lemma amount_plus_campaign:
  fixes x w :: campaign_stat
  shows "amount_plus D x y = Some w \<Longrightarrow> cm_ccgs w = cm_ccgs x"
  by (auto simp: amount_plus_def split: bind_splits)

interpretation ccg_sum: summed "exact_decimal D \<and> exact_decimal I" ccg_ok "ccg_plus D I" ccg_fields for D I
proof -
  have "ccg_ok z \<and> (\<forall>f\<in>ccg_fields. f z = f x + f y)"
    if e: "exact_decimal D \<and> exact_decimal I" and ok: "ccg_ok x" "ccg_ok y" and z: "ccg_plus D I x y = Some z" for x y z
  proof -
    have D: "exact_decimal D" and I: "exact_decimal I" using e by simp_all
    obtain w cr pub t r where w: "amount_plus D x y = Some w"
      "sum_collections (creative_plus I) (cg_creatives w) (cg_creatives y) = Some cr"
      "sum_collections (publisher_plus D) (cg_publisher_amounts w) (cg_publisher_amounts y) = Some pub"
      "sum_collections (tag_plus D) (cg_tag_stats w) (cg_tag_stats y) = Some t"
      "sum_collections (dec_add I) (cg_ctr_reset_stats w) (cg_ctr_reset_stats y) = Some r"
      "amount_stat.truncate z = amount_stat.truncate w" "cg_creatives z = cr" "cg_publisher_amounts z = pub" "cg_tag_stats z = t"
      "cg_ctr_reset_stats z = r"
      "cg_impressions z = cg_impressions w + cg_impressions y" "cg_clicks z = cg_clicks w + cg_clicks y"
      "cg_actions z = cg_actions w + cg_actions y"
      "cg_prev_hour_amount z = cg_prev_hour_amount w + cg_prev_hour_amount y"
      "cg_prev_hour_comm_amount z = cg_prev_hour_comm_amount w + cg_prev_hour_comm_amount y"
      "cg_cur_hour_amount z = cg_cur_hour_amount w + cg_cur_hour_amount y"
      "cg_cur_hour_comm_amount z = cg_cur_hour_comm_amount w + cg_cur_hour_comm_amount y"
      using z exact_add [OF D] exact_add [OF I]
      by (auto simp: ccg_plus_def amount_stat.truncate_def split: bind_splits)
    note keep = amount_plus_ccg [OF w(1)] and am = amount_plus_adds [OF D w(1)]
    have fine: "map_ok (cg_creatives x)" "map_ok (cg_creatives y)" "map_ok (cg_publisher_amounts x)" "map_ok (cg_publisher_amounts y)"
      "map_ok (cg_tag_stats x)" "map_ok (cg_tag_stats y)" "map_ok (cg_ctr_reset_stats x)" "map_ok (cg_ctr_reset_stats y)"
      using ok by (simp_all add: ccg_ok_def)
    note cr = creative_sum.sum_collections_sums [OF I, unfolded creative_sum.map_fine_def, OF _ _ w(2)]
      and pub = publisher_sum.sum_collections_sums [OF D, unfolded publisher_sum.map_fine_def, OF _ _ w(3)]
      and tg = tag_sum.sum_collections_sums [OF D, unfolded tag_sum.map_fine_def, OF _ _ w(4)]
      and rs = reset_sum.sum_collections_sums [OF I, unfolded reset_sum.map_fine_def, OF _ _ w(5)]
    have "as_amount z = as_amount w" "as_comm_amount z = as_comm_amount w" "as_daily_amount z = as_daily_amount w"
      "as_daily_comm_amount z = as_daily_comm_amount w"
      using w(6) by (simp_all add: amount_stat.truncate_def)
    then have "f z = f x + f y" if "f \<in> ccg_fields" for f
      using that cr pub tg rs fine w(7-) am unfolding ccg_fields_def amount_fields_def keep by auto
    moreover have "ccg_ok z" using cr pub tg rs fine w(7-10) unfolding ccg_ok_def keep by auto
    ultimately show ?thesis by blast
  qed
  then show "summed (exact_decimal D \<and> exact_decimal I) ccg_ok (ccg_plus D I) ccg_fields"
    by unfold_locales blast+
qed

interpretation campaign_sum: summed "exact_decimal D \<and> exact_decimal I" campaign_ok "campaign_plus D I" campaign_fields for D I
proof -
  have "campaign_ok z \<and> (\<forall>f\<in>campaign_fields. f z = f x + f y)"
    if e: "exact_decimal D \<and> exact_decimal I" and ok: "campaign_ok x" "campaign_ok y" and z: "campaign_plus D I x y = Some z" for x y z
  proof -
    have D: "exact_decimal D" using e by simp
    obtain w c where w: "amount_plus D x y = Some w" "sum_collections (ccg_plus D I) (cm_ccgs w) (cm_ccgs y) = Some c"
      "z = w\<lparr>cm_ccgs := c\<rparr>"
      using z by (auto simp: campaign_plus_def split: bind_splits)
    note keep = amount_plus_campaign [OF w(1)] and am = amount_plus_adds [OF D w(1)]
    note cg = ccg_sum.sum_collections_sums [OF e, unfolded ccg_sum.map_fine_def, OF _ _ w(2)]
    have parts: "map_ok (cm_ccgs w) \<and> (\<forall>e\<in>set (cm_ccgs w). ccg_ok (snd e))" "map_ok (cm_ccgs y) \<and> (\<forall>e\<in>set (cm_ccgs y). ccg_ok (snd e))"
      using ok by (simp_all add: campaign_ok_def keep)
    have cg: "map_ok c" "\<forall>e\<in>set c. ccg_ok (snd e)" "\<forall>f\<in>ccg_fields. \<forall>k. at f c k = at f (cm_ccgs x) k + at f (cm_ccgs y) k"
      using cg [OF parts] unfolding keep by blast+
    have "f z = f x + f y" if field: "f \<in> campaign_fields" for f
    proof -
      consider (amount) "f \<in> amount_fields" | (group) g k where "f = (\<lambda>x. at g (cm_ccgs x) k)" "g \<in> ccg_fields"
        using field unfolding campaign_fields_def by blast
      then show ?thesis
      proof cases
        case amount
        then consider "f = as_amount" | "f = as_comm_amount" | "f = as_daily_amount" | "f = as_daily_comm_amount"
          unfolding amount_fields_def by blast
        then show ?thesis by cases (simp_all add: am w(3))
      next
        case group
        then show ?thesis using cg(3) by (simp add: w(3))
      qed
    qed
    moreover have "campaign_ok z" using cg by (simp add: campaign_ok_def w(3))
    ultimately show ?thesis by blast
  qed
  then show "summed (exact_decimal D \<and> exact_decimal I) campaign_ok (campaign_plus D I) campaign_fields"
    by unfold_locales blast+
qed

section \<open>The property\<close>

text \<open>
  C33. Adding statistics to statistics adds every amount of every account, campaign, group, creative,
  publisher, tag and counter reset, where a missing entry counts as zero, and keeps the maps ordered.
\<close>

theorem stat_add_sums:
  assumes "exact_decimal D" "exact_decimal I" "stat_ok x" "stat_ok y" "stat_add D I x y = Some z"
  shows "stat_ok z \<and>
    (\<forall>f\<in>account_fields. \<forall>k. at f (st_account_amounts z) k = at f (st_account_amounts x) k + at f (st_account_amounts y) k) \<and>
    (\<forall>f\<in>campaign_fields. \<forall>k. at f (st_campaign_stats z) k = at f (st_campaign_stats x) k + at f (st_campaign_stats y) k)"
proof -
  obtain a c where w: "sum_collections (account_plus D) (st_account_amounts x) (st_account_amounts y) = Some a"
    "sum_collections (campaign_plus D I) (st_campaign_stats x) (st_campaign_stats y) = Some c"
    "z = x\<lparr>st_timestamp := st_timestamp y, st_account_amounts := a, st_campaign_stats := c\<rparr>"
    using assms(5) by (auto simp: stat_add_def split: bind_splits)
  note acc = account_sum.sum_collections_sums [OF assms(1), unfolded account_sum.map_fine_def, OF _ _ w(1)]
    and cmp = campaign_sum.sum_collections_sums [OF conjI [OF assms(1,2)], unfolded campaign_sum.map_fine_def, OF _ _ w(2)]
  have acc: "map_ok a" "\<forall>f\<in>account_fields. \<forall>k. at f a k = at f (st_account_amounts x) k + at f (st_account_amounts y) k"
    using acc assms(3,4) unfolding stat_ok_def by blast+
  have "map_ok c \<and> (\<forall>e\<in>set c. campaign_ok (snd e))"
    "\<forall>f\<in>campaign_fields. \<forall>k. at f c k = at f (st_campaign_stats x) k + at f (st_campaign_stats y) k"
    using cmp assms(3,4) unfolding stat_ok_def by blast+
  with acc show ?thesis by (simp add: stat_ok_def w(3))
qed

text \<open>Numbers of \<open>scale\<close> units, without a bound, that round down.\<close>

definition floor_decimal :: "int \<Rightarrow> decimal" where
  "floor_decimal scale =
     \<lparr>dec_default = 0, dec_add = (\<lambda>x y. Some (x + y)), dec_sub = (\<lambda>x y. Some (x - y)),
      dec_mul_floor = (\<lambda>x y. Some (x * y div scale)), dec_div = (\<lambda>x y. if y \<noteq> 0 then Some (x * scale div y) else None)\<rparr>"

lemma floor_decimal_exact [simp]: "exact_decimal (floor_decimal scale)"
  by (simp add: exact_decimal_def floor_decimal_def)

definition sample_ccg_stat :: "int \<Rightarrow> ccg_stat" where
  "sample_ccg_stat a =
     \<lparr>as_amount = a, as_comm_amount = 0, as_daily_amount = a, as_daily_comm_amount = 0, cg_impressions = 5, cg_clicks = 1,
      cg_actions = 0, cg_creatives = [], cg_publisher_amounts = [(7, \<lparr>ps_amount = a, ps_daily_amount = 0\<rparr>)],
      cg_prev_hour_amount = 0, cg_prev_hour_comm_amount = 0, cg_cur_hour_amount = a, cg_cur_hour_comm_amount = 0,
      cg_tag_stats = [], cg_ctr_reset_stats = [(1, 4)]\<rparr>"

definition sample_stat :: "int \<Rightarrow> int stat" where
  "sample_stat a =
     \<lparr>st_timestamp = a, st_check_time = 0,
      st_campaign_stats = [(2, \<lparr>as_amount = a, as_comm_amount = 0, as_daily_amount = a, as_daily_comm_amount = 0,
        cm_ccgs = [(3, sample_ccg_stat a)]\<rparr>)],
      st_account_amounts = [(nat a, \<lparr>aa_amount = a, aa_comm_amount = 0\<rparr>)]\<rparr>"

theorem stat_add_sums_witness:
  "\<exists>z. stat_add (floor_decimal 10) (floor_decimal 10) (sample_stat 3) (sample_stat 4) = Some z \<and>
    at aa_amount (st_account_amounts z) 4 = 4 \<and> at as_amount (st_campaign_stats z) 2 = 7 \<and>
    at (\<lambda>x. at (\<lambda>x. at ps_amount (cg_publisher_amounts x) 7) (cm_ccgs x) 3) (st_campaign_stats z) 2 = 7"
proof -
  obtain z where z: "stat_add (floor_decimal 10) (floor_decimal 10) (sample_stat 3) (sample_stat 4) = Some z"
    by (simp add: stat_add_def sample_stat_def sample_ccg_stat_def floor_decimal_def account_plus_def campaign_plus_def
        amount_plus_def ccg_plus_def creative_plus_def publisher_plus_def tag_plus_def)
  have ok: "stat_ok (sample_stat a)" for a
    by (simp add: stat_ok_def sample_stat_def campaign_ok_def sample_ccg_stat_def ccg_ok_def)
  note sums = stat_add_sums [OF floor_decimal_exact floor_decimal_exact ok ok z]
  have pub: "(\<lambda>x. at (\<lambda>x. at ps_amount (cg_publisher_amounts x) 7) (cm_ccgs x) 3) \<in> campaign_fields"
    unfolding campaign_fields_def ccg_fields_def publisher_fields_def by blast
  have "as_amount \<in> campaign_fields" "aa_amount \<in> account_fields"
    by (simp_all add: campaign_fields_def amount_fields_def account_fields_def)
  with sums pub z show ?thesis
    by (auto simp: at_def sample_stat_def sample_ccg_stat_def)
qed

end
