(* ===== verification/Intervals.thy ===== *)
theory Intervals
  imports Main "HOL-Library.Product_Lexorder"
begin

text \<open>
  \<open>Interval\<close> and \<open>IntervalSet\<close> of \<open>src/Commons/Interval.hpp\<close> for \<open>unsigned long\<close>: the weekly run
  intervals of a campaign, in minutes. An interval holds its minimum and not its maximum; the set is a
  \<open>std::set\<close>, ordered by both.
\<close>

section \<open>The operations\<close>

type_synonym interval = "nat \<times> nat"

definition set_insert :: "interval \<Rightarrow> interval list \<Rightarrow> interval list" where
  "set_insert i s = (if i \<in> set s then s else insort i s)"

fun normalize_loop :: "nat \<Rightarrow> nat \<Rightarrow> interval list \<Rightarrow> interval list \<Rightarrow> interval list" where
  "normalize_loop mx pmax ints [] = ints"
| "normalize_loop mx pmax ints (i # s) =
     (let rmin = max pmax (fst i); rmax = min (snd i) mx
      in if rmin \<le> rmax
         then normalize_loop mx rmax
           (if rmin = pmax \<and> ints \<noteq> []
            then set_insert (fst (last ints), rmax) (butlast ints)
            else set_insert (rmin, rmax) ints) s
         else normalize_loop mx pmax ints s)"

definition normalize :: "nat \<Rightarrow> nat \<Rightarrow> interval list \<Rightarrow> interval list" where
  "normalize mn mx s = normalize_loop mx mn [] s"

definition contains :: "interval list \<Rightarrow> nat \<Rightarrow> bool" where
  "contains s v =
     (let before = takeWhile (\<lambda>i. i \<le> (v, v)) s; after = dropWhile (\<lambda>i. i \<le> (v, v)) s
      in (after \<noteq> [] \<and> fst (hd after) = v) \<or>
         (before \<noteq> [] \<and> fst (last before) \<le> v \<and> v < snd (last before)))"

text \<open>
  \<open>cross\<close> with one interval: \<open>pre\<close> are the intervals before \<open>min_it\<close> and \<open>mid\<close> those from it to
  \<open>max_it\<close>. When \<open>max_it\<close> is before \<open>min_it\<close>, which needs an empty interval, the code would copy past
  the end; there \<open>mid\<close> is empty.
\<close>

definition cross_interval :: "interval list \<Rightarrow> interval list \<Rightarrow> nat \<Rightarrow> nat \<Rightarrow> interval list" where
  "cross_interval s res mn mx =
     (if mn \<le> mx
      then (let pre = takeWhile (\<lambda>i. i < (mn, 0)) s;
                mid = takeWhile (\<lambda>i. i \<le> (mx, 0)) (dropWhile (\<lambda>i. i < (mn, 0)) s);
                res1 = (if pre \<noteq> [] \<and> mn < snd (last pre) then set_insert (mn, min (snd (last pre)) mx) res else res)
            in if mid \<noteq> []
               then (if mx < snd (last mid)
                     then fold set_insert (butlast mid) (set_insert (fst (last mid), mx) res1)
                     else fold set_insert mid res1)
               else res1)
      else res)"

definition cross :: "interval list \<Rightarrow> interval list \<Rightarrow> interval list" where
  "cross s right = foldl (\<lambda>res i. cross_interval s res (fst i) (snd i)) [] right"

section \<open>Points\<close>

definition points :: "interval list \<Rightarrow> nat set" where
  "points s = (\<Union>i\<in>set s. {fst i..<snd i})"

text \<open>A set that \<open>normalize\<close> returns: no interval starts before the end of another one.\<close>

definition separated :: "interval list \<Rightarrow> bool" where
  "separated s \<longleftrightarrow> sorted s \<and> distinct s \<and> (\<forall>i\<in>set s. fst i \<le> snd i) \<and>
     (\<forall>i\<in>set s. \<forall>j\<in>set s. i < j \<longrightarrow> snd i < fst j)"

lemma points_simps [simp]:
  "points [] = {}" "points (i # s) = {fst i..<snd i} \<union> points s" "points (s @ t) = points s \<union> points t"
  by (auto simp: points_def)

lemma set_set_insert [simp]: "set (set_insert i s) = insert i (set s)"
  by (auto simp: set_insert_def set_insort_key)

lemma points_insert [simp]: "points (set_insert i s) = {fst i..<snd i} \<union> points s"
  by (auto simp: points_def)

lemma ordered_insert: "sorted s \<and> distinct s \<Longrightarrow> sorted (set_insert i s) \<and> distinct (set_insert i s)"
  by (simp add: set_insert_def sorted_insort distinct_insort)

lemma separated_empty [simp]: "separated []"
  by (simp add: separated_def)

lemma separated_insert:
  assumes "separated s" "fst i \<le> snd i" "\<forall>j\<in>set s. j \<noteq> i \<longrightarrow> snd j < fst i \<or> snd i < fst j"
  shows "separated (set_insert i s)"
proof -
  have "snd j < fst i" if "j \<in> set s" "j < i" for j
    using assms that by (cases i; cases j) (fastforce simp: less_prod_def')
  moreover have "snd i < fst j" if "j \<in> set s" "i < j" for j
    using assms that by (cases i; cases j) (fastforce simp: less_prod_def' separated_def)
  ultimately show ?thesis
    using assms(1,2) ordered_insert unfolding separated_def by auto
qed

lemma separated_butlast: "separated s \<Longrightarrow> separated (butlast s)"
  by (auto simp: separated_def sorted_butlast distinct_butlast dest: in_set_butlastD)

lemma separated_last:
  assumes "separated s" "s \<noteq> []" "i \<in> set (butlast s)"
  shows "snd i < fst (last s)"
proof -
  obtain t l where s: "s = t @ [l]" using assms(2) by (metis append_butlast_last_id)
  then have "i \<le> l" "i \<noteq> l" using assms by (auto simp: separated_def sorted_append)
  then show ?thesis using assms s by (auto simp: separated_def)
qed

lemma separated_prefix: "separated (s @ t) \<Longrightarrow> separated s"
  by (auto simp: separated_def sorted_append)

lemma separated_suffix: "separated (s @ t) \<Longrightarrow> separated t"
  by (auto simp: separated_def sorted_append)

section \<open>Membership\<close>

lemma separated_unique:
  assumes "separated s" "i \<in> set s" "j \<in> set s" "fst i \<le> v" "v < snd i" "fst j \<le> v" "v < snd j"
  shows "i = j"
  using assms by (cases i j rule: linorder_cases) (fastforce simp: separated_def)+

lemma contains_iff:
  assumes "separated s"
  shows "contains s v \<longleftrightarrow> v \<in> points s"
proof -
  define before where "before = takeWhile (\<lambda>i. i \<le> (v, v)) s"
  define after where "after = dropWhile (\<lambda>i. i \<le> (v, v)) s"
  have s: "s = before @ after" by (simp add: before_def after_def)
  have after: "(v, v) < i" if "i \<in> set after" for i
  proof -
    have "(v, v) < hd after" using that unfolding after_def by (metis empty_iff hd_dropWhile list.set(1) not_le)
    moreover have "hd after \<le> i"
      using assms that unfolding separated_def s by (cases after) (auto simp: sorted_append)
    ultimately show ?thesis by simp
  qed
  have before: "i \<le> (v, v)" if "i \<in> set before" for i
    using that unfolding before_def by (meson set_takeWhileD)
  have ok: "fst i \<le> snd i" if "i \<in> set s" for i using assms that by (simp add: separated_def)
  show ?thesis
  proof
    assume "contains s v"
    then show "v \<in> points s"
    proof (unfold contains_def Let_def, fold before_def after_def, elim disjE conjE)
      assume "after \<noteq> []" "fst (hd after) = v"
      then have "hd after \<in> set s" "v < snd (hd after)"
        using after [of "hd after"] s by (auto simp: less_prod_def')
      then show ?thesis using \<open>fst (hd after) = v\<close> by (force simp: points_def)
    next
      assume "before \<noteq> []" "fst (last before) \<le> v" "v < snd (last before)"
      then show ?thesis using s by (force simp: points_def)
    qed
  next
    assume "v \<in> points s"
    then obtain i where i: "i \<in> set s" "fst i \<le> v" "v < snd i" by (auto simp: points_def)
    show "contains s v"
    proof (cases "i \<in> set before")
      case True
      have "i = last before"
      proof (rule ccontr)
        assume "i \<noteq> last before"
        then have "i \<in> set (butlast before)" using True by (cases before rule: rev_cases) auto
        then have "snd i < fst (last before)"
          using separated_last [of before i] separated_prefix [of before after] assms True unfolding s by fastforce
        moreover have "last before \<in> set before" using True by (cases before) auto
        from before [OF this] have "fst (last before) \<le> v" by (cases "last before") (auto simp: less_eq_prod_def)
        ultimately show False using i by simp
      qed
      then show ?thesis using i True unfolding contains_def Let_def by (fold before_def after_def) auto
    next
      case False
      then have "i \<in> set after" using i s by auto
      then have "(v, v) < i" "(v, v) < hd after" "hd after \<le> i"
        using after [of i] after [of "hd after"] assms unfolding separated_def s by (cases after; force simp: sorted_append)+
      then have "fst (hd after) = v" using i(2) by (cases i; cases "hd after") (auto simp: less_prod_def' less_eq_prod_def)
      then show ?thesis using \<open>i \<in> set after\<close> unfolding contains_def Let_def by (fold before_def after_def) auto
    qed
  qed
qed

section \<open>Normalisation\<close>

text \<open>What the loop keeps: the result so far holds the points of the \<open>seen\<close> intervals within the bounds.\<close>

definition normal_inv :: "nat \<Rightarrow> nat \<Rightarrow> interval list \<Rightarrow> nat \<Rightarrow> interval list \<Rightarrow> bool" where
  "normal_inv mn mx seen pmax ints \<longleftrightarrow>
     separated ints \<and> points ints = points seen \<inter> {mn..<mx} \<and> mn \<le> pmax \<and> pmax \<le> mx \<and>
     (if ints = [] then pmax = mn else snd (last ints) = pmax \<and> mn \<le> fst (last ints) \<and>
        (fst (last ints) = mn \<or> (\<exists>i\<in>set seen. fst (last ints) = fst i)))"

lemma separated_snoc:
  assumes "separated s" "fst i \<le> snd i" "s \<noteq> [] \<longrightarrow> snd (last s) < fst i"
  shows "separated (set_insert i s)" "last (set_insert i s) = i" "set_insert i s \<noteq> []"
proof -
  have below: "snd j < fst i" if "j \<in> set s" for j
  proof (cases "j = last s")
    case False
    then have "j \<in> set (butlast s)" using that by (cases s rule: rev_cases) auto
    moreover have s: "s \<noteq> []" using that by auto
    ultimately have "snd j < fst (last s)" using separated_last [OF assms(1)] by blast
    moreover have "fst (last s) \<le> snd (last s)" using assms(1) last_in_set [OF s] unfolding separated_def by blast
    ultimately show ?thesis using assms(3) s by simp
  qed (use assms(3) that in force)
  then show sep: "separated (set_insert i s)" using separated_insert [OF assms(1,2)] by blast
  show "set_insert i s \<noteq> []" using set_set_insert [of i s] by (metis empty_iff insertI1 list.set(1))
  then have "last (set_insert i s) \<in> insert i (set s)" using last_in_set [of "set_insert i s"] by simp
  moreover have "i \<le> last (set_insert i s)"
  proof -
    obtain t l where t: "set_insert i s = t @ [l]" using \<open>set_insert i s \<noteq> []\<close> by (metis append_butlast_last_id)
    then have "i \<in> set (t @ [l])" using set_set_insert [of i s] by (metis insertI1)
    then show ?thesis using sep unfolding separated_def t by (auto simp: sorted_append)
  qed
  moreover have "\<not> i \<le> j" if "j \<in> set s" for j
  proof -
    have "fst j \<le> snd j" using assms(1) that by (simp add: separated_def)
    then show ?thesis using below [OF that] by (cases i; cases j) (simp add: less_eq_prod_def)
  qed
  ultimately show "last (set_insert i s) = i" by blast
qed


lemma normal_step:
  assumes "normal_inv mn mx seen pmax ints" "\<forall>j\<in>set seen. fst j \<le> fst i" "fst i \<le> snd i"
  defines "rmin \<equiv> max pmax (fst i)" and "rmax \<equiv> min (snd i) mx"
  shows "if rmin \<le> rmax
    then normal_inv mn mx (seen @ [i]) rmax
      (if rmin = pmax \<and> ints \<noteq> [] then set_insert (fst (last ints), rmax) (butlast ints) else set_insert (rmin, rmax) ints)
    else normal_inv mn mx (seen @ [i]) pmax ints"
proof -
  have inv: "separated ints" "points ints = points seen \<inter> {mn..<mx}" "mn \<le> pmax" "pmax \<le> mx"
    "if ints = [] then pmax = mn else snd (last ints) = pmax \<and> mn \<le> fst (last ints) \<and>
        (fst (last ints) = mn \<or> (\<exists>i\<in>set seen. fst (last ints) = fst i))"
    using assms(1) unfolding normal_inv_def by blast+
  have start: "fst (last ints) = mn \<or> fst (last ints) \<le> fst i" if "ints \<noteq> []" using inv(5) assms(2) that by auto
  have covered: "{max mn (fst i)..<pmax} \<subseteq> points ints"
  proof (cases "ints = []")
    case False
    then have "{fst (last ints)..<pmax} \<subseteq> points ints" using inv(5) by (force simp: points_def)
    then show ?thesis using start [OF False] by auto
  qed (use inv(5) in auto)
  show ?thesis
  proof (cases "rmin \<le> rmax")
    case False
    then have "{fst i..<snd i} \<inter> {mn..<mx} \<subseteq> {max mn (fst i)..<pmax}" using inv(4) by (auto simp: rmin_def rmax_def)
    then have "{fst i..<snd i} \<inter> {mn..<mx} \<subseteq> points ints" using covered by blast
    then have "points ints = points (seen @ [i]) \<inter> {mn..<mx}" using inv(2) by auto
    then show ?thesis using False inv by (auto simp: normal_inv_def)
  next
    case True
    then have r: "pmax \<le> rmax" "rmax \<le> mx" "fst i \<le> rmax" by (auto simp: rmin_def rmax_def)
    show ?thesis
    proof (cases "rmin = pmax \<and> ints \<noteq> []")
      case join: True
      define new where "new = set_insert (fst (last ints), rmax) (butlast ints)"
      obtain t where t: "ints = t @ [last ints]" using join by (metis append_butlast_last_id)
      then have t': "butlast ints = t" by (metis butlast_snoc)
      have l: "snd (last ints) = pmax" "mn \<le> fst (last ints)" "fst (last ints) \<le> pmax"
        using inv(1,5) join unfolding separated_def by auto
      have "snd (last t) < fst (last ints)" if "t \<noteq> []"
        using separated_last [OF inv(1), of "last t"] join t' that by simp
      from separated_snoc [of t "(fst (last ints), rmax)"] this separated_butlast [OF inv(1)] l r(1)
      have new: "separated new" "last new = (fst (last ints), rmax)" "new \<noteq> []" unfolding new_def t' by auto
      have "points ints = points t \<union> {fst (last ints)..<pmax}" using t l(1) by (metis points_simps sup_bot.right_neutral)
      moreover have "points new = points t \<union> {fst (last ints)..<rmax}" by (simp add: new_def t' Un_commute)
      ultimately have "points new = points ints \<union> {pmax..<rmax}"
        using ivl_disj_un_two(3) [OF l(3) r(1)] by (simp add: Un_assoc)
      moreover have "{fst i..<snd i} \<inter> {mn..<mx} \<subseteq> points ints \<union> {pmax..<rmax}"
        using covered by (auto simp: rmax_def not_less)
      moreover have "{pmax..<rmax} \<subseteq> {fst i..<snd i} \<inter> {mn..<mx}" using join inv(3) by (auto simp: rmin_def rmax_def)
      ultimately have "points new = points (seen @ [i]) \<inter> {mn..<mx}" using inv(2) by auto
      moreover have "fst (last ints) = mn \<or> (\<exists>j\<in>set (seen @ [i]). fst (last ints) = fst j)"
        using inv(5) join by auto
      ultimately have "normal_inv mn mx (seen @ [i]) rmax new"
        unfolding normal_inv_def using new l(2) r inv(3) by simp
      then show ?thesis unfolding new_def if_P [OF True] if_P [OF join] .
    next
      case apart: False
      define new where "new = set_insert (rmin, rmax) ints"
      have "pmax \<le> rmin" by (simp add: rmin_def)
      then have gap: "ints \<noteq> [] \<longrightarrow> snd (last ints) < rmin" using apart inv(5) by (cases "ints = []") simp_all
      have "fst (rmin, rmax) \<le> snd (rmin, rmax)" "ints \<noteq> [] \<longrightarrow> snd (last ints) < fst (rmin, rmax)"
        using True gap by simp_all
      note new = separated_snoc [OF inv(1) this, folded new_def]
      have "{fst i..<snd i} \<inter> {mn..<mx} \<subseteq> points ints \<union> {rmin..<rmax}"
        using covered by (auto simp: rmin_def rmax_def)
      moreover have "{rmin..<rmax} \<subseteq> {fst i..<snd i} \<inter> {mn..<mx}" using inv(3) by (auto simp: rmin_def rmax_def)
      ultimately have "points new = points (seen @ [i]) \<inter> {mn..<mx}" using inv(2) unfolding new_def by auto
      moreover have "rmin = mn \<or> rmin = fst i"
      proof (cases "ints = []")
        case True
        then show ?thesis using inv(5) by (auto simp: rmin_def max_def)
      next
        case False
        then have "rmin \<noteq> pmax" using apart by blast
        then show ?thesis by (auto simp: rmin_def max_def)
      qed
      moreover have "mn \<le> rmin" using inv(3) by (simp add: rmin_def)
      ultimately have "normal_inv mn mx (seen @ [i]) rmax new"
        unfolding normal_inv_def using new r inv(3) by auto
      then show ?thesis unfolding new_def if_P [OF True] if_not_P [OF apart] .
    qed
  qed
qed


lemma normalize_loop_inv:
  assumes "normal_inv mn mx seen pmax ints" "sorted s" "\<forall>i\<in>set s. fst i \<le> snd i" "\<forall>i\<in>set s. \<forall>j\<in>set seen. fst j \<le> fst i"
  shows "\<exists>pmax'. normal_inv mn mx (seen @ s) pmax' (normalize_loop mx pmax ints s)"
  using assms
proof (induction mx pmax ints s arbitrary: seen rule: normalize_loop.induct)
  case (2 mx pmax ints i s)
  have later: "\<forall>k\<in>set s. \<forall>j\<in>set (seen @ [i]). fst j \<le> fst k"
    using "2.prems"(2,4) by (auto simp: less_eq_prod_def)
  note step = normal_step [OF "2.prems"(1), of i]
  have pre: "\<forall>j\<in>set seen. fst j \<le> fst i" "fst i \<le> snd i" "sorted s" "\<forall>i\<in>set s. fst i \<le> snd i"
    using "2.prems" by auto
  show ?case
  proof (cases "max pmax (fst i) \<le> min (snd i) mx")
    case True
    note inv = step [OF pre(1,2), unfolded if_P [OF True]]
    show ?thesis
      using "2.IH"(1) [OF refl refl True inv pre(3,4) later]
      unfolding normalize_loop.simps Let_def if_P [OF True] append_assoc append_Cons append_Nil .
  next
    case False
    note inv = step [OF pre(1,2), unfolded if_not_P [OF False]]
    show ?thesis
      using "2.IH"(2) [OF refl refl False inv pre(3,4) later]
      unfolding normalize_loop.simps Let_def if_not_P [OF False] append_assoc append_Cons append_Nil .
  qed
qed auto

lemma normalize_points:
  assumes "sorted s" "\<forall>i\<in>set s. fst i \<le> snd i" "mn \<le> mx"
  shows "separated (normalize mn mx s)" "points (normalize mn mx s) = points s \<inter> {mn..<mx}"
proof -
  have "normal_inv mn mx [] mn []" using assms(3) by (simp add: normal_inv_def)
  from normalize_loop_inv [OF this assms(1,2)] show "separated (normalize mn mx s)"
    "points (normalize mn mx s) = points s \<inter> {mn..<mx}"
    by (auto simp: normalize_def normal_inv_def)
qed

section \<open>Intersection\<close>

definition clip :: "nat \<Rightarrow> nat \<Rightarrow> interval \<Rightarrow> interval" where
  "clip mn mx i = (max mn (fst i), min (snd i) mx)"

lemma set_fold_insert: "set (fold set_insert xs s) = set xs \<union> set s"
  by (induction xs arbitrary: s) auto

lemma ordered_fold_insert: "sorted s \<and> distinct s \<Longrightarrow> sorted (fold set_insert xs s) \<and> distinct (fold set_insert xs s)"
  by (induction xs arbitrary: s) (simp_all add: ordered_insert)

lemma cross_interval_ordered: "sorted res \<and> distinct res \<Longrightarrow> sorted (cross_interval s res mn mx) \<and> distinct (cross_interval s res mn mx)"
  by (simp add: cross_interval_def Let_def ordered_fold_insert ordered_insert)

text \<open>The pieces that one interval adds: the intervals that it touches, cut.\<close>

lemma cross_interval_pieces:
  assumes "separated s" "mn \<le> mx"
  shows "\<exists>q. q \<subseteq> set s \<and> set (cross_interval s res mn mx) = set res \<union> clip mn mx ` q \<and>
    (\<forall>i\<in>q. fst (clip mn mx i) \<le> snd (clip mn mx i)) \<and> points s \<inter> {mn..<mx} = (\<Union>i\<in>q. {fst (clip mn mx i)..<snd (clip mn mx i)})"
proof -
  define pre where "pre = takeWhile (\<lambda>i. i < (mn, 0)) s"
  define rest where "rest = dropWhile (\<lambda>i. i < (mn, 0)) s"
  define mid where "mid = takeWhile (\<lambda>i. i \<le> (mx, 0)) rest"
  define post where "post = dropWhile (\<lambda>i. i \<le> (mx, 0)) rest"
  have s: "s = pre @ rest" "rest = mid @ post" by (simp_all add: pre_def rest_def mid_def post_def)
  have ok: "fst i \<le> snd i" if "i \<in> set s" for i using assms(1) that by (simp add: separated_def)
  have sorted: "sorted s" using assms(1) by (simp add: separated_def)
  have pre: "fst i < mn" if "i \<in> set pre" for i
    using that set_takeWhileD unfolding pre_def by (fastforce simp: less_prod_def')
  have rest: "mn \<le> fst i" if "i \<in> set rest" for i
  proof -
    have "\<not> hd rest < (mn, 0)" using that unfolding rest_def by (metis empty_iff hd_dropWhile list.set(1))
    moreover have "hd rest \<le> i" using sorted that unfolding s(1) by (cases rest) (auto simp: sorted_append)
    ultimately show ?thesis by (cases i; cases "hd rest") (auto simp: less_prod_def' less_eq_prod_def)
  qed
  have mid: "fst i \<le> mx" if "i \<in> set mid" for i
    using that set_takeWhileD unfolding mid_def by (fastforce simp: less_eq_prod_def)
  have post: "mx \<le> fst i" if "i \<in> set post" for i
  proof -
    have "\<not> hd post \<le> (mx, 0)" using that unfolding post_def by (metis empty_iff hd_dropWhile list.set(1))
    moreover have "sorted (pre @ (mid @ post))" using sorted unfolding s(1) by (simp only: s(2))
    then have "hd post \<le> i" using that by (cases post) (auto simp: sorted_append)
    ultimately show ?thesis by (cases i; cases "hd post") (auto simp: less_eq_prod_def)
  qed
  let ?hit = "pre \<noteq> [] \<and> mn < snd (last pre)"
  define q where "q = (if ?hit then {last pre} else {}) \<union> set mid"
  have q: "q \<subseteq> set s"
  proof -
    have "last pre \<in> set pre" if "pre \<noteq> []" using that by simp
    moreover have "set s = set pre \<union> set mid \<union> set post" unfolding s(1) s(2) by auto
    ultimately show ?thesis by (auto simp: q_def)
  qed
  have cut_mid: "fst (clip mn mx i) = fst i" if "i \<in> set mid" for i
    using rest [of i] that by (simp add: clip_def s(2) max_def)
  have cut_pre: "clip mn mx (last pre) = (mn, min (snd (last pre)) mx)" if ?hit
    using pre [of "last pre"] that by (simp add: clip_def max_def)
  have all: "set (cross_interval s res mn mx) = set res \<union> clip mn mx ` q"
  proof -
    define res1 where "res1 = (if ?hit then set_insert (mn, min (snd (last pre)) mx) res else res)"
    have res1: "set res1 = set res \<union> clip mn mx ` (if ?hit then {last pre} else {})"
      using cut_pre by (auto simp: res1_def)
    define out where "out = (if mid \<noteq> []
      then (if mx < snd (last mid) then fold set_insert (butlast mid) (set_insert (fst (last mid), mx) res1) else fold set_insert mid res1)
      else res1)"
    have cross: "cross_interval s res mn mx = out"
      unfolding cross_interval_def Let_def if_P [OF assms(2)] out_def res1_def pre_def mid_def rest_def by (rule refl)
    have "set out = set res1 \<union> clip mn mx ` set mid"
    proof (cases "mid = []")
      case False
      then obtain t l where m: "mid = t @ [l]" by (metis append_butlast_last_id)
      have "clip mn mx i = i" if "i \<in> set t" for i
      proof -
        have "separated mid" using assms(1) separated_suffix separated_prefix unfolding s(1) unfolding s(2) by blast
        then have "snd i < fst l" using separated_last [of mid i] that m by simp
        then have "snd i < mx" using mid [of l] m by simp
        then show ?thesis using cut_mid [of i] that m by (simp add: clip_def prod_eq_iff)
      qed
      then have "clip mn mx ` set t = set t" by force
      moreover have "clip mn mx l = (if mx < snd l then (fst l, mx) else l)"
        using cut_mid [of l] m by (simp add: clip_def prod_eq_iff)
      ultimately show ?thesis by (auto simp: out_def m set_fold_insert)
    qed (simp add: out_def)
    then show ?thesis using cross res1 by (auto simp: q_def)
  qed
  have ordered: "fst (clip mn mx i) \<le> snd (clip mn mx i)" if "i \<in> q" for i
  proof (cases "i \<in> set mid")
    case True
    then show ?thesis using cut_mid [OF True] mid [OF True] ok [of i] q that by (auto simp: clip_def)
  next
    case False
    then have "?hit" "i = last pre" using that by (auto simp: q_def split: if_splits)
    then show ?thesis using cut_pre assms(2) by simp
  qed
  have cut: "{fst (clip mn mx i)..<snd (clip mn mx i)} = {fst i..<snd i} \<inter> {mn..<mx}" for i
    by (auto simp: clip_def)
  have "points s \<inter> {mn..<mx} \<subseteq> (\<Union>i\<in>q. {fst (clip mn mx i)..<snd (clip mn mx i)})"
  proof
    fix v assume v: "v \<in> points s \<inter> {mn..<mx}"
    then obtain i where i: "i \<in> set s" "v \<in> {fst i..<snd i}" by (auto simp: points_def)
    have "i \<in> q"
    proof -
      consider (pre) "i \<in> set pre" | (mid) "i \<in> set mid" | (post) "i \<in> set post"
        using i(1) unfolding s(1) unfolding s(2) by auto
      then show ?thesis
      proof cases
        case pre
        have "i = last pre"
        proof (rule ccontr)
          assume "i \<noteq> last pre"
          then have "i \<in> set (butlast pre)" using pre by (cases pre rule: rev_cases) auto
          then have "snd i < fst (last pre)"
            using separated_last [of pre i] separated_prefix [of pre rest] assms(1) pre unfolding s(1) by fastforce
          moreover have "last pre \<in> set pre" using pre by (cases pre) auto
          then have "fst (last pre) < mn" using \<open>\<And>i. i \<in> set pre \<Longrightarrow> fst i < mn\<close> by blast
          ultimately show False using i(2) v by simp
        qed
        moreover have "mn < snd i" "pre \<noteq> []" using i(2) v pre by auto
        ultimately show ?thesis by (simp add: q_def)
      next
        case mid
        then show ?thesis by (simp add: q_def)
      next
        case post
        then have "mx \<le> fst i" using \<open>\<And>i. i \<in> set post \<Longrightarrow> mx \<le> fst i\<close> by blast
        then show ?thesis using i(2) v by simp
      qed
    qed
    then show "v \<in> (\<Union>i\<in>q. {fst (clip mn mx i)..<snd (clip mn mx i)})" using i(2) v cut by blast
  qed
  moreover have "(\<Union>i\<in>q. {fst (clip mn mx i)..<snd (clip mn mx i)}) \<subseteq> points s \<inter> {mn..<mx}"
  proof
    fix v assume "v \<in> (\<Union>i\<in>q. {fst (clip mn mx i)..<snd (clip mn mx i)})"
    then obtain i where "i \<in> q" "v \<in> {fst i..<snd i} \<inter> {mn..<mx}" using cut by blast
    then show "v \<in> points s \<inter> {mn..<mx}" using q by (force simp: points_def)
  qed
  ultimately have pts: "points s \<inter> {mn..<mx} = (\<Union>i\<in>q. {fst (clip mn mx i)..<snd (clip mn mx i)})"
    by (rule equalityI)
  show ?thesis by (intro exI conjI ballI) (fact q, fact all, erule ordered, fact pts)
qed

text \<open>Pieces of the same two separated sets do not touch.\<close>

definition pieces_of :: "interval list \<Rightarrow> interval list \<Rightarrow> interval list \<Rightarrow> bool" where
  "pieces_of s right res \<longleftrightarrow> (\<forall>p\<in>set res. fst p \<le> snd p \<and> (\<exists>r\<in>set right. \<exists>i\<in>set s. p = clip (fst r) (snd r) i))"

lemma pieces_separated:
  assumes "separated s" "separated right" "pieces_of s right res" "sorted res" "distinct res"
  shows "separated res"
proof -
  have "snd p < fst p'" if p: "p \<in> set res" "p' \<in> set res" "p < p'" for p p'
  proof -
    obtain r i r' i' where c: "r \<in> set right" "i \<in> set s" "p = clip (fst r) (snd r) i"
      "r' \<in> set right" "i' \<in> set s" "p' = clip (fst r') (snd r') i'"
      using assms(3) p(1,2) unfolding pieces_of_def by meson
    have ok: "fst p \<le> snd p" "fst p' \<le> snd p'" using assms(3) p(1,2) unfolding pieces_of_def by auto
    have "fst p \<le> fst p'" using p(3) by (cases p; cases p') (auto simp: less_prod_def')
    have apart: "snd a < fst b \<or> snd b < fst a" if "separated t" "a \<in> set t" "b \<in> set t" "a \<noteq> b" for t a b
      using that unfolding separated_def by (metis linorder_less_linear)
    consider "i \<noteq> i'" | "r \<noteq> r'" using c p(3) by blast
    then have "snd p < fst p' \<or> snd p' < fst p"
    proof cases
      case 1
      from apart [OF assms(1) c(2,5) 1] show ?thesis unfolding c(3,6) by (auto simp: clip_def)
    next
      case 2
      from apart [OF assms(2) c(1,4) 2] show ?thesis unfolding c(3,6) by (auto simp: clip_def)
    qed
    then show ?thesis using ok \<open>fst p \<le> fst p'\<close> by linarith
  qed
  then show ?thesis using assms(3-5) unfolding separated_def pieces_of_def by blast
qed

lemma cross_points:
  assumes "separated s" "separated right"
  shows "separated (cross s right)" "points (cross s right) = points s \<inter> points right"
proof -
  define inv where "inv todo res \<longleftrightarrow> sorted res \<and> distinct res \<and> pieces_of s right res \<and> points res = points s \<inter> points todo"
    for todo res
  have step: "inv (todo @ [r]) (cross_interval s res (fst r) (snd r))" if "inv todo res" "r \<in> set right" for todo res r
  proof -
    have "fst r \<le> snd r" using that(2) assms(2) by (simp add: separated_def)
    from cross_interval_pieces [OF assms(1) this, of res] obtain q
      where q: "q \<subseteq> set s" "set (cross_interval s res (fst r) (snd r)) = set res \<union> clip (fst r) (snd r) ` q"
      "\<forall>i\<in>q. fst (clip (fst r) (snd r) i) \<le> snd (clip (fst r) (snd r) i)"
      "points s \<inter> {fst r..<snd r} = (\<Union>i\<in>q. {fst (clip (fst r) (snd r) i)..<snd (clip (fst r) (snd r) i)})" by blast
    have "points (cross_interval s res (fst r) (snd r)) =
        points res \<union> (\<Union>i\<in>q. {fst (clip (fst r) (snd r) i)..<snd (clip (fst r) (snd r) i)})"
      by (simp add: points_def q(2) UN_Un)
    then have "points (cross_interval s res (fst r) (snd r)) = points res \<union> (points s \<inter> {fst r..<snd r})"
      using q(4) by simp
    moreover have "pieces_of s right (cross_interval s res (fst r) (snd r))"
      using that q(1-3) unfolding inv_def pieces_of_def by blast
    ultimately show ?thesis using that(1) cross_interval_ordered [of res] by (auto simp: inv_def)
  qed
  have "inv (todo @ rs) (foldl (\<lambda>res i. cross_interval s res (fst i) (snd i)) res rs)"
    if "inv todo res" "set rs \<subseteq> set right" for todo res rs
    using that
  proof (induction rs arbitrary: todo res)
    case (Cons r rs)
    then show ?case using step [of todo res r] Cons.IH [of "todo @ [r]" "cross_interval s res (fst r) (snd r)"] by simp
  qed simp
  from this [of "[]" "[]" right] have "inv right (cross s right)"
    by (simp add: inv_def cross_def pieces_of_def)
  then show "separated (cross s right)" "points (cross s right) = points s \<inter> points right"
    using pieces_separated [OF assms] by (auto simp: inv_def)
qed

section \<open>Intervals that are not empty\<close>

definition proper :: "interval list \<Rightarrow> bool" where
  "proper s \<longleftrightarrow> (\<forall>i\<in>set s. fst i < snd i)"

lemma proper_empty [simp]: "proper []"
  by (simp add: proper_def)

lemma proper_insert [simp]: "proper (set_insert i s) \<longleftrightarrow> fst i < snd i \<and> proper s"
  by (simp add: proper_def)

lemma proper_butlast: "proper s \<Longrightarrow> proper (butlast s)"
  by (auto simp: proper_def dest: in_set_butlastD)

lemma proper_points: "proper s \<Longrightarrow> points s = {} \<Longrightarrow> s = []"
  by (cases s) (auto simp: proper_def points_def)

lemma normalize_loop_proper:
  assumes "normal_inv mn mx seen pmax ints" "proper ints" "sorted s" "\<forall>i\<in>set s. \<forall>j\<in>set seen. fst j \<le> fst i"
    "\<forall>i\<in>set s. mn \<le> fst i \<and> fst i < snd i \<and> fst i < mx"
  shows "proper (normalize_loop mx pmax ints s)"
  using assms
proof (induction mx pmax ints s arbitrary: seen rule: normalize_loop.induct)
  case (2 mx pmax ints i s)
  have later: "\<forall>k\<in>set s. \<forall>j\<in>set (seen @ [i]). fst j \<le> fst k"
    using "2.prems"(3,4) by (auto simp: less_eq_prod_def)
  note step = normal_step [OF "2.prems"(1), of i]
  have pre: "\<forall>j\<in>set seen. fst j \<le> fst i" "fst i \<le> snd i" "sorted s"
    "\<forall>i\<in>set s. mn \<le> fst i \<and> fst i < snd i \<and> fst i < mx" "mn \<le> fst i" "fst i < snd i" "fst i < mx"
    using "2.prems" by (auto intro: less_imp_le)
  let ?new = "if max pmax (fst i) = pmax \<and> ints \<noteq> []
    then set_insert (fst (last ints), min (snd i) mx) (butlast ints) else set_insert (max pmax (fst i), min (snd i) mx) ints"
  show ?case
  proof (cases "max pmax (fst i) \<le> min (snd i) mx")
    case True
    note inv = step [OF pre(1,2), unfolded if_P [OF True]]
    have "proper ?new"
    proof (cases "max pmax (fst i) = pmax \<and> ints \<noteq> []")
      case join: True
      have "snd (last ints) = pmax" using "2.prems"(1) join by (simp add: normal_inv_def)
      moreover have "fst (last ints) < snd (last ints)" using "2.prems"(2) join by (simp add: proper_def)
      ultimately have "fst (last ints) < min (snd i) mx" using True by linarith
      then show ?thesis unfolding if_P [OF join] using proper_butlast [OF "2.prems"(2)] by simp
    next
      case apart: False
      have "max pmax (fst i) = fst i"
      proof (cases "ints = []")
        case True
        then have "pmax = mn" using "2.prems"(1) by (simp add: normal_inv_def)
        then show ?thesis using pre(5) by simp
      next
        case False
        then show ?thesis using apart by (simp add: max_def split: if_splits)
      qed
      then show ?thesis unfolding if_not_P [OF apart] using "2.prems"(2) pre(6,7) by simp
    qed
    from "2.IH"(1) [OF refl refl True inv this pre(3) later pre(4)] show ?thesis
      unfolding normalize_loop.simps Let_def if_P [OF True] .
  next
    case False
    note inv = step [OF pre(1,2), unfolded if_not_P [OF False]]
    from "2.IH"(2) [OF refl refl False inv "2.prems"(2) pre(3) later pre(4)] show ?thesis
      unfolding normalize_loop.simps Let_def if_not_P [OF False] .
  qed
qed simp

lemma normalize_proper:
  assumes "sorted s" "\<forall>i\<in>set s. mn \<le> fst i \<and> fst i < snd i \<and> fst i < mx" "mn \<le> mx"
  shows "proper (normalize mn mx s)"
proof -
  have "normal_inv mn mx [] mn []" using assms(3) by (simp add: normal_inv_def)
  from normalize_loop_proper [OF this _ assms(1) _ assms(2)] show ?thesis by (simp add: normalize_def)
qed

lemma proper_fold_insert: "proper (fold set_insert xs s) \<longleftrightarrow> proper xs \<and> proper s"
  by (auto simp: proper_def set_fold_insert)

lemma cross_interval_proper:
  assumes "proper s" "mn < mx" "proper res"
  shows "proper (cross_interval s res mn mx)"
proof -
  define mid where "mid = takeWhile (\<lambda>i. i \<le> (mx, 0)) (dropWhile (\<lambda>i. i < (mn, 0)) s)"
  have mid: "fst i < snd i \<and> fst i < mx" if "i \<in> set mid" for i
  proof -
    have "i \<le> (mx, 0)" "i \<in> set s"
      using set_takeWhileD [OF that [unfolded mid_def]] by (auto dest: set_dropWhileD)
    moreover have "fst i < snd i" using assms(1) \<open>i \<in> set s\<close> unfolding proper_def by blast
    ultimately show ?thesis by (cases i) (auto simp: less_eq_prod_def)
  qed
  then have m: "proper mid" "proper (butlast mid)" by (auto simp: proper_def dest: in_set_butlastD)
  have l: "fst (last mid) < mx" if "mid \<noteq> []" using mid that by simp
  show ?thesis unfolding cross_interval_def Let_def mid_def [symmetric]
    using assms(2,3) m l by (simp add: proper_fold_insert)
qed

lemma cross_proper:
  assumes "proper s" "proper right"
  shows "proper (cross s right)"
proof -
  have "proper (foldl (\<lambda>res i. cross_interval s res (fst i) (snd i)) res right)" if "proper res" for res
    using that assms(2)
  proof (induction right arbitrary: res)
    case (Cons r right)
    have r: "fst r < snd r" "proper right" using Cons.prems(2) unfolding proper_def by simp_all
    from Cons.IH [OF cross_interval_proper [OF assms(1) r(1) Cons.prems(1)] r(2)]
    show ?case unfolding foldl_Cons .
  qed simp
  then show ?thesis by (simp add: cross_def)
qed

text \<open>The length of separated intervals is the number of their points.\<close>

lemma card_points:
  assumes "separated s"
  shows "finite (points s)" "card (points s) = (\<Sum>i\<leftarrow>s. snd i - fst i)"
proof -
  have "card (\<Union>i\<in>set s. {fst i..<snd i}) = (\<Sum>i\<in>set s. card {fst i..<snd i})"
  proof (rule card_UN_disjoint)
    show "\<forall>i\<in>set s. \<forall>j\<in>set s. i \<noteq> j \<longrightarrow> {fst i..<snd i} \<inter> {fst j..<snd j} = {}"
      using separated_unique [OF assms] by fastforce
  qed auto
  moreover have "distinct s" using assms by (simp add: separated_def)
  ultimately show "card (points s) = (\<Sum>i\<leftarrow>s. snd i - fst i)"
    by (simp add: points_def sum_list_distinct_conv_sum_set)
qed (simp add: points_def)

end
