(* ===== verification/WeeklyRuns.thy ===== *)
theory WeeklyRuns
  imports Intervals "HOL-Library.Signed_Division"
begin

text \<open>
  The weekly run intervals of a campaign: \<open>CampaignConfigDBSource.cpp\<close> reads the schedule rows of the
  groups and of their campaigns, moves them from the time zone of the account to GMT and stores their
  intersection; \<open>CampaignIndex::check_campaign_time_\<close> of \<open>CampaignIndex.cpp\<close> asks it at each request.
  Times are \<open>Generics::Time\<close> values of whole seconds.
\<close>

section \<open>Rows\<close>

definition ONE_WEEK :: int where
  "ONE_WEEK = 604800"

definition week_minutes :: nat where
  "week_minutes = 10080"

text \<open>One row of \<open>query_campaign_weekly_runs()\<close>; a null time is \<open>None\<close>.\<close>

record weekly_row =
  wr_ccg_id :: nat
  wr_sch_type :: nat
  wr_time_from :: "nat option"
  wr_time_to :: "nat option"

definition CCG_SCH_TYPE :: nat where
  "CCG_SCH_TYPE = 0"

definition row_tz_offset :: "int option \<Rightarrow> int" where
  "row_tz_offset account_offset =
     (case account_offset of None \<Rightarrow> 0 | Some o' \<Rightarrow> if 0 \<le> o' then o' else ONE_WEEK + o')"

text \<open>\<open>tv_sec / 60\<close> as an \<open>unsigned long\<close>.\<close>

definition to_minutes :: "int \<Rightarrow> nat" where
  "to_minutes t = nat ((t sdiv 60) mod 2 ^ 64)"

definition row_times :: "int \<Rightarrow> weekly_row \<Rightarrow> int \<times> int" where
  "row_times tz r =
     (let time_from = (case wr_time_from r of None \<Rightarrow> 0 | Some n \<Rightarrow> int n * 60);
          time_to = (case wr_time_to r of None \<Rightarrow> ONE_WEEK | Some n \<Rightarrow> (int n + 1) * 60)
      in if \<not> (time_from = 0 \<and> time_to = ONE_WEEK)
         then (if time_from < tz then ONE_WEEK + time_from - tz else time_from - tz,
               if time_to \<le> tz then ONE_WEEK + time_to - tz else time_to - tz)
         else (time_from, time_to))"

definition insert_row :: "int \<Rightarrow> weekly_row \<Rightarrow> interval list \<Rightarrow> interval list" where
  "insert_row tz r target =
     (let (time_from, time_to) = row_times tz r
      in if time_to < time_from
         then set_insert (0, to_minutes time_to) (set_insert (to_minutes time_from, to_minutes ONE_WEEK) target)
         else set_insert (to_minutes time_from, to_minutes time_to) target)"

text \<open>What is stored for a campaign when its last row was read.\<close>

definition final_runs :: "interval list \<Rightarrow> interval list \<Rightarrow> interval list" where
  "final_runs ccg cmp =
     (let week = to_minutes ONE_WEEK;
          ccg = (if ccg = [] then set_insert (0, week) ccg else ccg);
          ccg = normalize 0 week ccg;
          cmp = normalize 0 week cmp;
          ccg = (if cmp \<noteq> [] then cross ccg cmp else ccg)
      in if length ccg = 1 \<and> fst (hd ccg) = 0 \<and> snd (hd ccg) = week then [] else ccg)"

record weekly_campaign =
  wc_account_offset :: "int option"
  wc_weekly_run_intervals :: "interval list"
  wc_timestamp :: int

text \<open>A campaign whose intervals did not change keeps its timestamp.\<close>

definition store_runs :: "int \<Rightarrow> interval list \<Rightarrow> weekly_campaign \<Rightarrow> weekly_campaign" where
  "store_runs sysdate runs c =
     (if \<not> (length runs = length (wc_weekly_run_intervals c) \<and> runs = wc_weekly_run_intervals c)
      then c\<lparr>wc_weekly_run_intervals := runs, wc_timestamp := sysdate\<rparr> else c)"

text \<open>The walk along the active campaigns and the rows; a row of another campaign is skipped.\<close>

fun load_weekly_runs ::
    "int \<Rightarrow> (nat \<times> weekly_campaign) list \<Rightarrow> weekly_row list \<Rightarrow> interval list \<Rightarrow> interval list \<Rightarrow> (nat \<times> weekly_campaign) list" where
  "load_weekly_runs sysdate [] rows ccg cmp = []"
| "load_weekly_runs sysdate ((n, c) # cs) [] ccg cmp =
     (n, store_runs sysdate (final_runs ccg cmp) c) # load_weekly_runs sysdate cs [] [] []"
| "load_weekly_runs sysdate ((n, c) # cs) (r # rows) ccg cmp =
     (if n < wr_ccg_id r
      then (n, store_runs sysdate (final_runs ccg cmp) c) # load_weekly_runs sysdate cs (r # rows) [] []
      else if n = wr_ccg_id r
      then (let tz = row_tz_offset (wc_account_offset c)
            in if wr_sch_type r = CCG_SCH_TYPE
               then load_weekly_runs sysdate ((n, c) # cs) rows (insert_row tz r ccg) cmp
               else load_weekly_runs sysdate ((n, c) # cs) rows ccg (insert_row tz r cmp))
      else load_weekly_runs sysdate ((n, c) # cs) rows ccg cmp)"

section \<open>The check of a request\<close>

text \<open>\<open>tm_wday\<close> counts from Sunday, the week of the schedule from Monday.\<close>

definition week_minute :: "nat \<Rightarrow> nat \<Rightarrow> nat \<Rightarrow> nat" where
  "week_minute tm_wday tm_hour tm_min = (tm_wday + 6) mod 7 * 60 * 24 + tm_hour * 60 + tm_min"

definition check_campaign_time :: "interval list \<Rightarrow> nat \<times> nat \<times> nat \<Rightarrow> bool" where
  "check_campaign_time runs t =
     (case t of (wday, hour, mn) \<Rightarrow> if runs = [] then True else contains runs (week_minute wday hour mn))"

section \<open>What the rows mean\<close>

text \<open>
  The minute \<open>v\<close> of the GMT week is inside the row when the local minute is between its times, both
  included.
\<close>

definition row_covers :: "int \<Rightarrow> weekly_row \<Rightarrow> nat \<Rightarrow> bool" where
  "row_covers account_offset r v \<longleftrightarrow>
     (let l = (int v + account_offset div 60) mod 10080
      in int (case wr_time_from r of None \<Rightarrow> 0 | Some n \<Rightarrow> n) \<le> l \<and>
         l \<le> int (case wr_time_to r of None \<Rightarrow> 10079 | Some n \<Rightarrow> n))"

definition row_ok :: "weekly_row \<Rightarrow> bool" where
  "row_ok r \<longleftrightarrow>
     (case wr_time_from r of None \<Rightarrow> 0 | Some n \<Rightarrow> n) \<le> (case wr_time_to r of None \<Rightarrow> 10079 | Some n \<Rightarrow> n) \<and>
     (case wr_time_to r of None \<Rightarrow> 10079 | Some n \<Rightarrow> n) < (10080 :: nat)"

definition offset_ok :: "int \<Rightarrow> bool" where
  "offset_ok off \<longleftrightarrow> - ONE_WEEK < off \<and> off < ONE_WEEK \<and> off mod 60 = 0"

definition rows_cover :: "int \<Rightarrow> weekly_row list \<Rightarrow> nat \<Rightarrow> bool" where
  "rows_cover off rows v \<longleftrightarrow> rows = [] \<or> (\<exists>r\<in>set rows. row_covers off r v)"

lemma to_minutes_mult: "0 \<le> n \<Longrightarrow> n < 2 ^ 64 \<Longrightarrow> to_minutes (n * 60) = nat n"
  by (cases "n = 0") (simp_all add: to_minutes_def signed_divide_int_def)

lemma week_minutes: "to_minutes ONE_WEEK = week_minutes"
  by (simp add: to_minutes_def signed_divide_int_def ONE_WEEK_def week_minutes_def)

text \<open>The row in minutes: the time zone is \<open>k\<close> minutes before.\<close>

lemma row_times_minutes:
  assumes "row_ok r" "0 \<le> k" "k < 10080"
  obtains a b where "row_times (k * 60) r = (a * 60, b * 60)" "0 \<le> a" "a < 10080" "0 < b" "b \<le> 10080" "a \<noteq> b"
    "\<And>v. v < 10080 \<Longrightarrow> (row_covers (k * 60) r v \<longleftrightarrow>
       (if b < a then int v < b \<or> a \<le> int v else a \<le> int v \<and> int v < b))"
proof -
  define f where "f = int (case wr_time_from r of None \<Rightarrow> 0 | Some n \<Rightarrow> n)"
  define t where "t = int (case wr_time_to r of None \<Rightarrow> 10079 | Some n \<Rightarrow> n) + 1"
  have ft: "0 \<le> f" "f < t" "t \<le> 10080" using assms(1) by (auto simp: row_ok_def f_def t_def)
  have from': "(case wr_time_from r of None \<Rightarrow> 0 | Some n \<Rightarrow> int n * 60) = f * 60"
    by (simp add: f_def split: option.split)
  have to': "(case wr_time_to r of None \<Rightarrow> ONE_WEEK | Some n \<Rightarrow> (int n + 1) * 60) = t * 60"
    by (simp add: t_def ONE_WEEK_def split: option.split)
  have covers: "row_covers (k * 60) r v \<longleftrightarrow> f \<le> (int v + k) mod 10080 \<and> (int v + k) mod 10080 < t" for v
    by (auto simp: row_covers_def Let_def f_def t_def)
  show thesis
  proof (cases "f = 0 \<and> t = 10080")
    case True
    show thesis
    proof (rule that)
      show "row_times (k * 60) r = (0 * 60, 10080 * 60)"
        unfolding row_times_def Let_def from' to' using True by (simp add: ONE_WEEK_def)
    qed (use True covers in auto)
  next
    case False
    define a where "a = (if f < k then 10080 + f - k else f - k)"
    define b where "b = (if t \<le> k then 10080 + t - k else t - k)"
    have "\<not> (f * 60 = 0 \<and> t * 60 = ONE_WEEK)" using False by (simp add: ONE_WEEK_def)
    then have "row_times (k * 60) r = (a * 60, b * 60)"
      unfolding row_times_def Let_def from' to' by (simp add: a_def b_def ONE_WEEK_def)
    moreover have "0 \<le> a" "a < 10080" "0 < b" "b \<le> 10080" "a \<noteq> b"
      using ft assms(2,3) False by (auto simp: a_def b_def)
    moreover have "row_covers (k * 60) r v \<longleftrightarrow> (if b < a then int v < b \<or> a \<le> int v else a \<le> int v \<and> int v < b)"
      if "v < 10080" for v
    proof -
      have "(int v + k) mod 10080 = (if int v + k < 10080 then int v + k else int v + k - 10080)"
      proof (cases "int v + k < 10080")
        case False
        have "(int v + k) mod 10080 = (int v + k - 10080) mod 10080" by simp
        also have "\<dots> = int v + k - 10080" using False that assms(2,3) by (intro mod_pos_pos_trivial) auto
        finally show ?thesis using False by simp
      qed (use assms(2) in auto)
      then show ?thesis unfolding covers a_def b_def using ft assms(2,3) that False by auto
    qed
    ultimately show thesis using that by blast
  qed
qed

lemma insert_row_set:
  assumes "row_ok r" "0 \<le> k" "k < 10080"
  shows "\<exists>new. set (insert_row (k * 60) r s) = set s \<union> new \<and> new \<noteq> {} \<and>
    (\<forall>i\<in>new. fst i < snd i \<and> fst i < week_minutes) \<and>
    (\<forall>v<10080. row_covers (k * 60) r v \<longleftrightarrow> (\<exists>i\<in>new. fst i \<le> v \<and> v < snd i)) \<and>
    (sorted s \<longrightarrow> sorted (insert_row (k * 60) r s))"
proof -
  obtain a b where ab: "row_times (k * 60) r = (a * 60, b * 60)" "0 \<le> a" "a < 10080" "0 < b" "b \<le> 10080" "a \<noteq> b"
    "\<And>v. v < 10080 \<Longrightarrow> (row_covers (k * 60) r v \<longleftrightarrow>
       (if b < a then int v < b \<or> a \<le> int v else a \<le> int v \<and> int v < b))"
    using row_times_minutes [OF assms] by blast
  have m: "to_minutes (a * 60) = nat a" "to_minutes (b * 60) = nat b" using ab(2-5) by (auto intro!: to_minutes_mult)
  define new where "new = (if b < a then {(nat a, week_minutes), (0, nat b)} else {(nat a, nat b)})"
  have "set (insert_row (k * 60) r s) = set s \<union> new"
    by (auto simp: insert_row_def ab(1) m week_minutes new_def)
  moreover have "\<forall>i\<in>new. fst i < snd i \<and> fst i < week_minutes"
    using ab(2-6) by (auto simp: new_def week_minutes_def)
  moreover have "\<forall>v<10080. row_covers (k * 60) r v \<longleftrightarrow> (\<exists>i\<in>new. fst i \<le> v \<and> v < snd i)"
    using ab(2-7) by (auto simp: new_def week_minutes_def)
  moreover have "sorted s \<longrightarrow> sorted (insert_row (k * 60) r s)"
    by (simp add: insert_row_def ab(1) Let_def set_insert_def sorted_insort)
  ultimately show ?thesis by (intro exI [of _ new]) (auto simp: new_def)
qed

text \<open>All rows of one kind.\<close>

definition rows_runs :: "int \<Rightarrow> weekly_row list \<Rightarrow> interval list \<Rightarrow> interval list" where
  "rows_runs tz rows s = fold (insert_row tz) rows s"

definition runs_ok :: "interval list \<Rightarrow> bool" where
  "runs_ok s \<longleftrightarrow> sorted s \<and> (\<forall>i\<in>set s. fst i < snd i \<and> fst i < week_minutes)"

lemma runs_ok_empty [simp]: "runs_ok []"
  by (simp add: runs_ok_def)

lemma rows_runs_covers:
  assumes "\<forall>r\<in>set rows. row_ok r" "0 \<le> k" "k < 10080" "runs_ok s"
  shows "runs_ok (rows_runs (k * 60) rows s) \<and> (rows_runs (k * 60) rows s = [] \<longleftrightarrow> rows = [] \<and> s = []) \<and>
    (\<forall>v<10080. v \<in> points (rows_runs (k * 60) rows s) \<longleftrightarrow> v \<in> points s \<or> (\<exists>r\<in>set rows. row_covers (k * 60) r v))"
  using assms(1,4)
proof (induction rows arbitrary: s)
  case (Cons r rows)
  let ?s = "insert_row (k * 60) r s"
  obtain new where new: "set ?s = set s \<union> new" "new \<noteq> {}" "\<forall>i\<in>new. fst i < snd i \<and> fst i < week_minutes"
    "\<forall>v<10080. row_covers (k * 60) r v \<longleftrightarrow> (\<exists>i\<in>new. fst i \<le> v \<and> v < snd i)" "sorted s \<longrightarrow> sorted ?s"
    using insert_row_set [of r k s] Cons.prems(1) assms(2,3) by auto
  have ok: "runs_ok ?s" using Cons.prems(2) new(1,3,5) by (auto simp: runs_ok_def)
  have ne: "?s \<noteq> []" using new(1,2) by (metis Un_empty list.set(1))
  have here: "v \<in> points ?s \<longleftrightarrow> v \<in> points s \<or> row_covers (k * 60) r v" if "v < 10080" for v
    using new(1,4) that by (auto simp: points_def)
  have "rows_runs (k * 60) (r # rows) s = rows_runs (k * 60) rows ?s" by (simp add: rows_runs_def)
  with Cons.IH [OF _ ok] Cons.prems(1) ne here show ?case by auto
qed (simp add: rows_runs_def)

lemma zone_minutes:
  assumes "offset_ok off"
  obtains k where "row_tz_offset (Some off) = k * 60" "0 \<le> k" "k < 10080" "\<And>r v. row_covers (k * 60) r v = row_covers off r v"
proof -
  obtain m where m: "off = m * 60" using assms by (auto simp: offset_ok_def mod_eq_0_iff_dvd elim: dvdE)
  define k where "k = (if 0 \<le> m then m else 10080 + m)"
  have "row_tz_offset (Some off) = k * 60" by (simp add: row_tz_offset_def m k_def ONE_WEEK_def)
  moreover have "0 \<le> k" "k < 10080" using assms by (auto simp: offset_ok_def m k_def ONE_WEEK_def)
  moreover have "(int v + k) mod 10080 = (int v + m) mod 10080" for v
  proof -
    have "(int v + (10080 + m)) mod 10080 = ((int v + m) + 10080) mod 10080" by (simp add: algebra_simps)
    then show ?thesis by (auto simp: k_def)
  qed
  then have "row_covers (k * 60) r v = row_covers off r v" for r v by (simp add: row_covers_def m)
  ultimately show thesis using that by blast
qed

text \<open>The stored intervals answer for both schedules, unless they have no minute in common.\<close>

lemma normalize_runs:
  assumes "runs_ok s"
  shows "separated (normalize 0 week_minutes s)" "proper (normalize 0 week_minutes s)"
    "points (normalize 0 week_minutes s) = points s \<inter> {0..<week_minutes}" "normalize 0 week_minutes s = [] \<longleftrightarrow> s = []"
proof -
  have s: "sorted s" "\<forall>i\<in>set s. fst i \<le> snd i" "\<forall>i\<in>set s. 0 \<le> fst i \<and> fst i < snd i \<and> fst i < week_minutes"
    using assms by (auto simp: runs_ok_def intro: less_imp_le)
  show "separated (normalize 0 week_minutes s)" and pts: "points (normalize 0 week_minutes s) = points s \<inter> {0..<week_minutes}"
    using normalize_points [OF s(1,2)] by auto
  show "proper (normalize 0 week_minutes s)" by (rule normalize_proper [OF s(1,3)]) simp
  show "normalize 0 week_minutes s = [] \<longleftrightarrow> s = []"
  proof
    assume "normalize 0 week_minutes s = []"
    then have "points s \<inter> {0..<week_minutes} = {}" using pts by simp
    then show "s = []" using s(3) by (cases s) (fastforce simp: points_def)+
  qed (simp add: normalize_def)
qed

lemma full_week: "separated s \<Longrightarrow> length s = 1 \<and> fst (hd s) = 0 \<and> snd (hd s) = week_minutes \<longleftrightarrow> s = [(0, week_minutes)]"
  by (cases s) auto

lemma final_runs_check:
  assumes "runs_ok ccg" "runs_ok cmp" "v < week_minutes"
  defines "both \<equiv> \<lambda>w. (ccg = [] \<or> w \<in> points ccg) \<and> (cmp = [] \<or> w \<in> points cmp)"
  shows "(final_runs ccg cmp = [] \<or> contains (final_runs ccg cmp) v) \<longleftrightarrow> both v \<or> \<not> (\<exists>w<week_minutes. both w)"
proof -
  define c where "c = (if ccg = [] then set_insert (0, week_minutes) ccg else ccg)"
  have c: "runs_ok c" using assms(1) by (auto simp: c_def runs_ok_def set_insert_def week_minutes_def)
  have c_pts: "w \<in> points c \<longleftrightarrow> ccg = [] \<or> w \<in> points ccg" if "w < week_minutes" for w
    using that by (auto simp: c_def set_insert_def)
  define n1 where "n1 = normalize 0 week_minutes c"
  define n2 where "n2 = normalize 0 week_minutes cmp"
  define res where "res = (if n2 \<noteq> [] then cross n1 n2 else n1)"
  have n1: "separated n1" "proper n1" "points n1 = points c \<inter> {0..<week_minutes}"
    and n2: "separated n2" "proper n2" "points n2 = points cmp \<inter> {0..<week_minutes}" "n2 = [] \<longleftrightarrow> cmp = []"
    using normalize_runs [OF c] normalize_runs [OF assms(2)] by (simp_all add: n1_def n2_def)
  have res: "separated res" "proper res"
    using n1(1,2) n2(1,2) cross_points [OF n1(1) n2(1)] cross_proper [OF n1(2) n2(2)] by (simp_all add: res_def)
  have pts: "w \<in> points res \<longleftrightarrow> both w" if "w < week_minutes" for w
    using cross_points(2) [OF n1(1) n2(1)] n1(3) n2(3,4) c_pts [OF that] that by (auto simp: res_def both_def)
  have inside: "points res \<subseteq> {0..<week_minutes}"
    using cross_points(2) [OF n1(1) n2(1)] n1(3) n2(3) by (auto simp: res_def)
  have final: "final_runs ccg cmp = (if res = [(0, week_minutes)] then [] else res)"
    using full_week [OF res(1)] unfolding final_runs_def Let_def week_minutes c_def n1_def n2_def res_def by simp
  show ?thesis
  proof (cases "res = [(0, week_minutes)]")
    case True
    then have "both v" using pts [OF assms(3)] assms(3) by (simp add: week_minutes_def)
    then show ?thesis unfolding final if_P [OF True] by simp
  next
    case False
    have none: "res = [] \<longleftrightarrow> \<not> (\<exists>w<week_minutes. both w)"
      using proper_points [OF res(2)] inside pts by fastforce
    have "contains res v \<longleftrightarrow> both v" using contains_iff [OF res(1)] pts [OF assms(3)] by simp
    then show ?thesis unfolding final if_not_P [OF False] using none by blast
  qed
qed

text \<open>The walk gives every campaign its own rows.\<close>

definition runs_for :: "weekly_row list \<Rightarrow> nat \<Rightarrow> weekly_campaign \<Rightarrow> interval list \<Rightarrow> interval list \<Rightarrow> interval list" where
  "runs_for rows n c ccg cmp =
     (let tz = row_tz_offset (wc_account_offset c)
      in final_runs (rows_runs tz (filter (\<lambda>r. wr_ccg_id r = n \<and> wr_sch_type r = CCG_SCH_TYPE) rows) ccg)
           (rows_runs tz (filter (\<lambda>r. wr_ccg_id r = n \<and> wr_sch_type r \<noteq> CCG_SCH_TYPE) rows) cmp))"

lemma runs_for_skip: "wr_ccg_id r \<noteq> n \<Longrightarrow> runs_for (r # rows) n c ccg cmp = runs_for rows n c ccg cmp"
  by (simp add: runs_for_def)

lemma runs_for_none: "\<forall>r\<in>set rows. n < wr_ccg_id r \<Longrightarrow> runs_for rows n c ccg cmp = final_runs ccg cmp"
proof -
  assume "\<forall>r\<in>set rows. n < wr_ccg_id r"
  then have "filter (\<lambda>r. wr_ccg_id r = n \<and> P r) rows = []" for P by (auto simp: filter_empty_conv)
  then show ?thesis by (simp add: runs_for_def rows_runs_def Let_def)
qed

lemma load_weekly_runs_rows:
  assumes "sorted_wrt (<) (map fst cs)" "sorted (map wr_ccg_id rows)"
  shows "load_weekly_runs now cs rows ccg cmp =
    (case cs of [] \<Rightarrow> []
     | (n, c) # cs' \<Rightarrow> (n, store_runs now (runs_for rows n c ccg cmp) c) #
         map (\<lambda>(n, c). (n, store_runs now (runs_for rows n c [] []) c)) cs')"
  using assms
proof (induction now cs rows ccg cmp rule: load_weekly_runs.induct)
  case (2 now n c cs ccg cmp)
  then show ?case by (cases cs) (auto simp: runs_for_def rows_runs_def)
next
  case (3 now n c cs r rows ccg cmp)
  have rest: "map (\<lambda>(n, c). (n, store_runs now (runs_for (r # rows) n c [] []) c)) cs =
      map (\<lambda>(n, c). (n, store_runs now (runs_for rows n c [] []) c)) cs" if "wr_ccg_id r \<le> n"
    using "3.prems"(1) that by (intro map_cong refl) (auto simp: runs_for_skip)
  consider "n < wr_ccg_id r" | "n = wr_ccg_id r" | "wr_ccg_id r < n" by linarith
  then show ?case
  proof cases
    case 1
    then have "runs_for (r # rows) n c ccg cmp = final_runs ccg cmp"
      using "3.prems"(2) by (intro runs_for_none) auto
    then show ?thesis using "3.IH"(1) [OF 1] "3.prems" 1 by (cases cs) auto
  next
    case 2
    show ?thesis
    proof (cases "wr_sch_type r = CCG_SCH_TYPE")
      case True
      then show ?thesis using "3.IH"(2) [OF _ 2 refl True] "3.prems" 2 rest
        by (simp add: runs_for_def rows_runs_def Let_def)
    next
      case False
      then show ?thesis using "3.IH"(3) [OF _ 2 refl False] "3.prems" 2 rest
        by (simp add: runs_for_def rows_runs_def Let_def)
    qed
  next
    case 3
    then show ?thesis using "3.IH"(4) "3.prems" rest by (simp add: runs_for_skip)
  qed
qed simp

section \<open>The property\<close>

definition group_rows :: "weekly_row list \<Rightarrow> nat \<Rightarrow> weekly_row list" where
  "group_rows rows n = filter (\<lambda>r. wr_ccg_id r = n \<and> wr_sch_type r = CCG_SCH_TYPE) rows"

definition campaign_rows :: "weekly_row list \<Rightarrow> nat \<Rightarrow> weekly_row list" where
  "campaign_rows rows n = filter (\<lambda>r. wr_ccg_id r = n \<and> wr_sch_type r \<noteq> CCG_SCH_TYPE) rows"

text \<open>The minutes that both schedules of a campaign allow.\<close>

definition scheduled :: "int \<Rightarrow> weekly_row list \<Rightarrow> nat \<Rightarrow> nat \<Rightarrow> bool" where
  "scheduled off rows n v \<longleftrightarrow> rows_cover off (group_rows rows n) v \<and> rows_cover off (campaign_rows rows n) v"

lemma runs_for_check:
  assumes "\<forall>r\<in>set rows. row_ok r" "wc_account_offset c = Some off" "offset_ok off" "v < week_minutes"
  shows "(runs_for rows n c [] [] = [] \<or> contains (runs_for rows n c [] []) v) \<longleftrightarrow>
    scheduled off rows n v \<or> \<not> (\<exists>w<week_minutes. scheduled off rows n w)"
proof -
  obtain k where k: "row_tz_offset (Some off) = k * 60" "0 \<le> k" "k < 10080" "\<And>r v. row_covers (k * 60) r v = row_covers off r v"
    using zone_minutes [OF assms(3)] by blast
  have sub: "\<forall>r\<in>set (group_rows rows n). row_ok r" "\<forall>r\<in>set (campaign_rows rows n). row_ok r"
    using assms(1) by (auto simp: group_rows_def campaign_rows_def)
  let ?g = "rows_runs (k * 60) (group_rows rows n) []" and ?c = "rows_runs (k * 60) (campaign_rows rows n) []"
  note g = rows_runs_covers [OF sub(1) k(2,3) runs_ok_empty] and c = rows_runs_covers [OF sub(2) k(2,3) runs_ok_empty]
  have eq: "runs_for rows n c [] [] = final_runs ?g ?c"
    by (simp add: runs_for_def Let_def assms(2) k(1) group_rows_def campaign_rows_def)
  have both: "(?g = [] \<or> w \<in> points ?g) \<and> (?c = [] \<or> w \<in> points ?c) \<longleftrightarrow> scheduled off rows n w" if "w < week_minutes" for w
    using g c that unfolding week_minutes_def scheduled_def rows_cover_def k(4) by auto
  have ok: "runs_ok ?g" "runs_ok ?c" using g c by blast+
  show ?thesis
    unfolding eq final_runs_check [OF ok assms(4)] using both assms(4) by auto
qed

text \<open>
  C7. The intervals that are stored for a campaign answer, at each minute of the GMT week, whether the
  local minute of its account is inside a row of the group and inside a row of the campaign (a schedule
  without rows allows everything), whatever the time zone and also for rows that the shift moves over
  the end of the week. The exception is a campaign whose two schedules have no minute in common: its
  stored set is empty, which the check of a request reads as no restriction, so it runs all the time.
\<close>

theorem weekly_runs_honoured:
  assumes "sorted_wrt (<) (map fst cs)" "sorted (map wr_ccg_id rows)" "\<forall>r\<in>set rows. row_ok r" "(n, c) \<in> set cs"
    "wc_account_offset c = Some off" "offset_ok off" "wday < 7" "hour < 24" "mn < 60"
  shows "\<exists>c'. (n, c') \<in> set (load_weekly_runs now cs rows [] []) \<and>
    (check_campaign_time (wc_weekly_run_intervals c') (wday, hour, mn) \<longleftrightarrow>
      scheduled off rows n (week_minute wday hour mn) \<or> \<not> (\<exists>w<week_minutes. scheduled off rows n w))"
proof -
  have "load_weekly_runs now cs rows [] [] = map (\<lambda>(n, c). (n, store_runs now (runs_for rows n c [] []) c)) cs"
    using load_weekly_runs_rows [OF assms(1,2)] by (cases cs) (auto split: prod.split)
  then have "(n, store_runs now (runs_for rows n c [] []) c) \<in> set (load_weekly_runs now cs rows [] [])"
    using assms(4) by force
  moreover have "wc_weekly_run_intervals (store_runs now (runs_for rows n c [] []) c) = runs_for rows n c [] []"
    by (simp add: store_runs_def)
  moreover have "(wday + 6) mod 7 \<le> 6" by simp
  then have "week_minute wday hour mn < week_minutes"
    using assms(8,9) unfolding week_minute_def week_minutes_def by linarith
  ultimately show ?thesis
    using runs_for_check [OF assms(3,5,6), where n = n and v = "week_minute wday hour mn"]
    by (intro exI [of _ "store_runs now (runs_for rows n c [] []) c"]) (auto simp: check_campaign_time_def)
qed

theorem weekly_runs_honoured_witness:
  "\<exists>c'. (1, c') \<in> set (load_weekly_runs 9
      [(1, \<lparr>wc_account_offset = Some 10800, wc_weekly_run_intervals = [], wc_timestamp = 0\<rparr>)]
      [\<lparr>wr_ccg_id = 1, wr_sch_type = 0, wr_time_from = Some 60, wr_time_to = Some 1000\<rparr>,
       \<lparr>wr_ccg_id = 1, wr_sch_type = 1, wr_time_from = Some 500, wr_time_to = None\<rparr>] [] []) \<and>
    check_campaign_time (wc_weekly_run_intervals c') (1, 10, 0)"
proof -
  have "scheduled 10800 [\<lparr>wr_ccg_id = 1, wr_sch_type = 0, wr_time_from = Some 60, wr_time_to = Some 1000\<rparr>,
       \<lparr>wr_ccg_id = 1, wr_sch_type = 1, wr_time_from = Some 500, wr_time_to = None\<rparr>] 1 (week_minute 1 10 0)"
    by code_simp
  then show ?thesis
    using weekly_runs_honoured [of "[(1, \<lparr>wc_account_offset = Some 10800, wc_weekly_run_intervals = [], wc_timestamp = 0\<rparr>)]"
      "[\<lparr>wr_ccg_id = 1, wr_sch_type = 0, wr_time_from = Some 60, wr_time_to = Some 1000\<rparr>,
        \<lparr>wr_ccg_id = 1, wr_sch_type = 1, wr_time_from = Some 500, wr_time_to = None\<rparr>]"
      1 "\<lparr>wc_account_offset = Some 10800, wc_weekly_run_intervals = [], wc_timestamp = 0\<rparr>" 10800 1 10 0 9]
    by (auto simp: row_ok_def offset_ok_def ONE_WEEK_def)
qed

end
