(* ===== verification/ConfigModifier.thy ===== *)
theory ConfigModifier
  imports StatAmounts WeeklyRuns
begin

text \<open>
  \<open>src/CampaignSvcs/CampaignServer/CampaignConfigModifier.cpp\<close>: the campaign server compares the
  statistics with the budgets, switches accounts, campaigns and creative groups on and off, and reduces
  the delivery of groups and tags that would spend too fast.

  The decimals are parameters (\<open>number\<close>), and so is the calendar (\<open>clock\<close>), with \<open>ck_span\<close> for a time
  of some seconds. \<open>None\<close> is an exception that no handler of the file names, or an overflow in a
  \<open>noexcept\<close> function: the update has no result. The texts of the trace are left out.
\<close>

section \<open>Numbers, time and configuration\<close>

record number =
  nb_dec :: decimal
  nb_of_int :: "int \<Rightarrow> int"
  nb_to_ulong :: "int \<Rightarrow> nat"
  nb_ceil :: "int \<Rightarrow> int option"

record 't clock =
  ck_date :: "'t \<Rightarrow> 't"
  ck_wday :: "'t \<Rightarrow> nat"
  ck_hour :: "'t \<Rightarrow> nat"
  ck_min :: "'t \<Rightarrow> nat"
  ck_sec :: "'t \<Rightarrow> int"
  ck_span :: "int \<Rightarrow> 't"

datatype campaign_mode = CM_RANDOM | CM_NON_RANDOM

record 't campaign_delivery_limits =
  cdl_date_start :: 't
  cdl_date_end :: 't
  cdl_budget :: "int optional"
  cdl_daily_budget :: "int optional"
  cdl_delivery_pacing :: char

record creative_def =
  cd_ccid :: nat
  cd_weight :: nat

record 't campaign_def =
  cf_group_id :: nat
  cf_rate_type :: char
  cf_country :: string
  cf_eval_status :: char
  cf_creatives :: "creative_def list"
  cf_weekly_run_intervals :: "interval list"
  cf_exclude_pub_accounts :: "nat list"
  cf_exclude_tags :: "(nat, nat) std_map"
  cf_delivery_coef :: nat
  cf_creative_optimization :: bool
  cf_account_id :: nat
  cf_advertiser_id :: nat
  cf_campaign_limits :: "'t campaign_delivery_limits"
  cf_ccg_limits :: "'t campaign_delivery_limits"
  cf_max_pub_share :: int
  cf_ctr_reset_id :: nat
  cf_mode :: campaign_mode
  cf_timestamp :: 't

record 't account_def =
  ad_role_id :: nat
  ad_agency_account_id :: nat
  ad_gross :: bool
  ad_use_self_budget :: bool
  ad_time_offset :: 't
  ad_budget :: int
  ad_paid_amount :: int
  ad_eval_status :: char
  ad_timestamp :: 't

definition is_advertiser :: "'t account_def \<Rightarrow> bool" where
  "is_advertiser a \<longleftrightarrow> ad_role_id a = 1"

definition is_agency :: "'t account_def \<Rightarrow> bool" where
  "is_agency a \<longleftrightarrow> ad_role_id a = 4"

definition TAG_DELIVERY_MAX :: nat where
  "TAG_DELIVERY_MAX = 10000"

text \<open>The exclusions of tags that a group keeps from one update to the next.\<close>

record 't tag_exclusion =
  te_time :: 't
  te_priority :: int
  te_adv_amount :: int

type_synonym 't campaign_state = "(nat, 't tag_exclusion) std_map"

record 't modifier_state =
  ms_timestamp :: 't
  ms_campaigns :: "(nat, 't campaign_state option) std_map"

record delivery_calc_params =
  dp_under_coef :: int
  dp_over_coef :: int
  dp_day_part :: int

section \<open>Amounts of a period\<close>

text \<open>An amount with the commission, when the account is a gross one.\<close>

definition with_comm :: "decimal \<Rightarrow> 't account_def \<Rightarrow> int \<Rightarrow> int \<Rightarrow> int option" where
  "with_comm D account am comm = dec_add D am (if ad_gross account then comm else 0)"

definition eval_period_amount :: "decimal \<Rightarrow> 't account_def \<Rightarrow> int \<Rightarrow> int \<Rightarrow> int \<Rightarrow> int \<Rightarrow> int \<Rightarrow> int \<Rightarrow> int option" where
  "eval_period_amount D account prev_amount cur_amount prev_comm cur_comm prev_factor cur_factor = do {
     p \<leftarrow> with_comm D account prev_amount prev_comm;
     c \<leftarrow> with_comm D account cur_amount cur_comm;
     p \<leftarrow> dec_mul_floor D p prev_factor;
     c \<leftarrow> dec_mul_floor D c cur_factor;
     dec_add D p c }"

text \<open>The handler of \<open>Overflow\<close> divides first, which loses precision.\<close>

definition eval_period_budget_limit ::
    "number \<Rightarrow> ('t::zero) clock \<Rightarrow> delivery_calc_params \<Rightarrow> int \<Rightarrow> 't \<Rightarrow> int option" where
  "eval_period_budget_limit N C P daily_budget today_open_time =
     (let D = nb_dec N
      in if today_open_time \<noteq> 0
         then (case do { m \<leftarrow> dec_mul_floor D daily_budget (dp_day_part P); dec_div D m (nb_of_int N (ck_sec C today_open_time)) } of
                 Some r \<Rightarrow> Some r
               | None \<Rightarrow> do { d \<leftarrow> dec_div D (dp_day_part P) (nb_of_int N (ck_sec C (ck_span C 86400)));
                             dec_mul_floor D daily_budget d })
         else Some 0)"

text \<open>The start of the hour of a time in GMT, as \<open>ExtendedTime(year, month, day, hour, 0, 0, 0)\<close>.\<close>

definition hour_start :: "('t::plus) clock \<Rightarrow> 't \<Rightarrow> 't" where
  "hour_start C t = ck_date C t + ck_span C (int (ck_hour C t) * 3600)"

text \<open>The parts of the previous and of the current hour that fall into a period of thirty minutes.\<close>

definition fill_campaign_delivery_check_params :: "number \<Rightarrow> ('t::linordered_ab_group_add) clock \<Rightarrow> 't \<Rightarrow> (int \<times> int) option" where
  "fill_campaign_delivery_check_params N C now =
     (let D = nb_dec N; period = ck_span C (60 * 30); in_cur = now - hour_start C now
      in do {
        cur \<leftarrow> (if in_cur \<le> period then Some (nb_of_int N 1)
                else dec_div D (nb_of_int N (ck_sec C period)) (nb_of_int N (ck_sec C in_cur)));
        let in_prev = (if in_cur \<le> period then period - in_cur else 0);
        prev \<leftarrow> dec_div D (nb_of_int N (ck_sec C in_prev)) (nb_of_int N (ck_sec C (ck_span C 3600)));
        Some (prev, cur) })"

section \<open>Daily budgets and the time that is open\<close>

definition campaign_open_time :: "('t::linordered_ab_group_add) clock \<Rightarrow> 't campaign_def \<Rightarrow> 't \<Rightarrow> 't" where
  "campaign_open_time C campaign now =
     (let limits = cf_campaign_limits campaign;
          day = ck_date C now;
          day_end = day + ck_span C 86400 - ck_span C 1;
          start = max day (cdl_date_start limits);
          stop = (if cdl_date_end limits \<noteq> 0 then min day_end (cdl_date_end limits - ck_span C 1) else day_end)
      in if stop > start then stop - start else 0)"

definition time_to_week_offset :: "'t clock \<Rightarrow> 't \<Rightarrow> nat" where
  "time_to_week_offset C t = (ck_wday C t + 6) mod 7 * 60 * 24 + ck_hour C t * 60 + ck_min C t"

text \<open>The result is whether the daily budget is limited, with the budget, which otherwise stays as it was.\<close>

definition get_daily_budget ::
    "number \<Rightarrow> ('t::linordered_ab_group_add) clock \<Rightarrow> int \<Rightarrow> 't \<Rightarrow> 't campaign_delivery_limits \<Rightarrow> 't \<Rightarrow> int \<Rightarrow> int \<Rightarrow> (bool \<times> int) option" where
  "get_daily_budget N C old now limits time_offset am daily_am =
     (let D = nb_dec N
      in if cdl_delivery_pacing limits = CHR ''F''
         then (if present (cdl_daily_budget limits) then Some (True, opt_val (cdl_daily_budget limits)) else Some (False, old))
         else if cdl_delivery_pacing limits = CHR ''D'' \<and> cdl_date_end limits \<noteq> 0
         then (if present (cdl_budget limits)
               then (let days = ck_sec C (ck_date C (cdl_date_end limits + time_offset) - ck_date C (now + time_offset))
                                  sdiv ck_sec C (ck_span C 86400) + 1;
                         remain_days = nb_of_int N days
                     in if remain_days > 0
                        then do {
                          r \<leftarrow> dec_sub D (opt_val (cdl_budget limits)) am;
                          r \<leftarrow> dec_add D r daily_am;
                          d \<leftarrow> dec_div D r remain_days;
                          Some (True, d) }
                        else Some (True, 0))
               else Some (False, old))
         else Some (False, old))"

text \<open>\<open>today_open_time\<close> of \<open>ccg_is_active_\<close>.\<close>

definition today_open_span :: "('t::linordered_ab_group_add) clock \<Rightarrow> 't campaign_def \<Rightarrow> 't \<Rightarrow> 't \<times> 't" where
  "today_open_span C campaign now =
     (let ccg = cf_ccg_limits campaign; cmp = cf_campaign_limits campaign;
          day = ck_date C now;
          start = max (max day (cdl_date_start ccg)) (cdl_date_start cmp);
          stop = day + ck_span C 86400 - ck_span C 1;
          stop = (if cdl_date_end ccg \<noteq> 0 then min stop (cdl_date_end ccg - ck_span C 1) else stop);
          stop = (if cdl_date_end cmp \<noteq> 0 then min stop (cdl_date_end cmp - ck_span C 1) else stop)
      in (start, stop))"

definition today_open_time :: "('t::linordered_ab_group_add) clock \<Rightarrow> 't campaign_def \<Rightarrow> 't \<Rightarrow> 't" where
  "today_open_time C campaign now =
     (let (start, stop) = today_open_span C campaign now;
          start_offset = time_to_week_offset C start;
          stop_offset = time_to_week_offset C stop
      in if stop_offset \<le> start_offset then 0
         else if cf_weekly_run_intervals campaign \<noteq> []
         then (\<Sum>i\<leftarrow>cross [(start_offset, stop_offset + 1)] (cf_weekly_run_intervals campaign). ck_span C (60 * int (snd i - fst i)))
         else if start \<le> stop then stop - start + ck_span C 1 else 0)"

section \<open>Is a campaign active\<close>

text \<open>The results are the answer, whether there is a daily budget, and the daily budget.\<close>

definition campaign_is_active ::
    "number \<Rightarrow> ('t::linordered_ab_group_add) clock \<Rightarrow> int \<Rightarrow> 't \<Rightarrow> 't account_def \<Rightarrow> 't campaign_def \<Rightarrow> 't stat \<Rightarrow> (bool \<times> bool \<times> int) option" where
  "campaign_is_active N C old now account campaign stat =
     (let D = nb_dec N; limits = cf_campaign_limits campaign
      in if ad_eval_status account \<noteq> CHR ''A'' then Some (False, False, old)
         else do {
           (am, daily_am) \<leftarrow>
             (case map_of (st_campaign_stats stat) (cf_group_id campaign) of
                None \<Rightarrow> Some (0, 0)
              | Some s \<Rightarrow> do {
                  a \<leftarrow> with_comm D account (as_amount s) (as_comm_amount s);
                  d \<leftarrow> with_comm D account (as_daily_amount s) (as_daily_comm_amount s);
                  Some (a, d) });
           if present (cdl_budget limits) \<and> opt_val (cdl_budget limits) \<le> am then Some (False, False, old)
           else do {
             (defined, budget) \<leftarrow> get_daily_budget N C old now limits (ad_time_offset account) am daily_am;
             if defined \<and> budget \<le> daily_am then Some (False, defined, budget)
             else Some (True, defined, budget) } })"

text \<open>\<open>campaign_mode\<close> and the number of impressions since the last reset of the click rate.\<close>

definition ccg_ctr_reset_imps :: "'t campaign_def \<Rightarrow> ccg_stat \<Rightarrow> int" where
  "ccg_ctr_reset_imps campaign s =
     (if cf_ctr_reset_id campaign = 0 then cg_impressions s
      else case map_of (cg_ctr_reset_stats s) (cf_ctr_reset_id campaign) of None \<Rightarrow> 0 | Some i \<Rightarrow> i)"

definition eval_campaign_mode :: "number \<Rightarrow> 't campaign_def \<Rightarrow> int \<Rightarrow> nat \<times> nat \<Rightarrow> campaign_mode" where
  "eval_campaign_mode I campaign imp_count country =
     (if cf_rate_type campaign = CHR ''M'' \<or> cf_rate_type campaign = CHR ''B'' \<or>
         (cf_rate_type campaign = CHR ''C'' \<and> imp_count \<ge> nb_of_int I (int (fst country))) \<or>
         (cf_rate_type campaign = CHR ''A'' \<and> imp_count \<ge> nb_of_int I (int (snd country)))
      then CM_NON_RANDOM else CM_RANDOM)"

text \<open>
  The results of \<open>ccg_is_active_\<close>: whether there is a daily budget, the budget, the open time and the
  mode. What the caller passes in stays when the function returns before it sets it.
\<close>

record 't ccg_check =
  cc_active :: bool
  cc_daily_budget_defined :: bool
  cc_daily_budget :: int
  cc_today_open_time :: 't
  cc_mode :: campaign_mode

definition find_ccg_stats :: "'t stat \<Rightarrow> nat \<Rightarrow> nat \<Rightarrow> ccg_stat option" where
  "find_ccg_stats stat group_id ccg_id = do {
     s \<leftarrow> map_of (st_campaign_stats stat) group_id;
     map_of (cm_ccgs s) ccg_id }"

text \<open>The part that reads the statistics; it has no effect on a group without statistics.\<close>

definition check_ccg_budgets ::
    "number \<Rightarrow> ('t::linordered_ab_group_add) clock \<Rightarrow> 't \<Rightarrow> 't account_def \<Rightarrow> 't campaign_def \<Rightarrow> ccg_stat option \<Rightarrow> int \<Rightarrow> (bool \<times> bool \<times> int) option" where
  "check_ccg_budgets N C now account campaign ccg old =
     (let D = nb_dec N; limits = cf_ccg_limits campaign
      in case ccg of
           None \<Rightarrow> Some (True, False, old)
         | Some s \<Rightarrow> do {
             am \<leftarrow> with_comm D account (as_amount s) (as_comm_amount s);
             daily_am \<leftarrow> with_comm D account (as_daily_amount s) (as_daily_comm_amount s);
             (defined, budget) \<leftarrow> get_daily_budget N C old now limits (ad_time_offset account) am daily_am;
             Some (\<not> ((defined \<and> budget \<le> daily_am) \<or> (present (cdl_budget limits) \<and> opt_val (cdl_budget limits) \<le> am)),
               defined, budget) })"

definition ccg_is_active ::
    "number \<Rightarrow> number \<Rightarrow> ('t::linordered_ab_group_add) clock \<Rightarrow> (string \<Rightarrow> (nat \<times> nat) option) \<Rightarrow> 't \<Rightarrow> 't account_def \<Rightarrow> nat \<Rightarrow>
     't campaign_def \<Rightarrow> 't stat \<Rightarrow> 't ccg_check option" where
  "ccg_is_active N I C countries now account ccg_id campaign stat =
     (let s = find_ccg_stats stat (cf_group_id campaign) ccg_id;
          imp_count = (case s of None \<Rightarrow> 0 | Some s \<Rightarrow> ccg_ctr_reset_imps campaign s)
      in do {
        (ok, defined, budget) \<leftarrow> check_ccg_budgets N C now account campaign s (dec_default (nb_dec N));
        if \<not> ok
        then Some \<lparr>cc_active = False, cc_daily_budget_defined = defined, cc_daily_budget = budget,
                   cc_today_open_time = 0, cc_mode = cf_mode campaign\<rparr>
        else (case countries (cf_country campaign) of
                None \<Rightarrow> Some \<lparr>cc_active = False, cc_daily_budget_defined = defined, cc_daily_budget = budget,
                              cc_today_open_time = today_open_time C campaign now, cc_mode = cf_mode campaign\<rparr>
              | Some country \<Rightarrow>
                  Some \<lparr>cc_active = True, cc_daily_budget_defined = defined, cc_daily_budget = budget,
                        cc_today_open_time = today_open_time C campaign now,
                        cc_mode = eval_campaign_mode I campaign imp_count country\<rparr>) })"

section \<open>Publishers and creatives\<close>

definition exceeds_share :: "decimal \<Rightarrow> int \<Rightarrow> int optional \<Rightarrow> int \<Rightarrow> bool option" where
  "exceeds_share D share limit am =
     (if present limit then map_option (\<lambda>m. m \<le> am) (dec_mul_floor D (opt_val limit) share) else Some False)"

fun fill_campaign_exclude_pub_accounts ::
    "decimal \<Rightarrow> 't campaign_def \<Rightarrow> (nat, publisher_stat) std_map \<Rightarrow> nat list option" where
  "fill_campaign_exclude_pub_accounts D campaign [] = Some []"
| "fill_campaign_exclude_pub_accounts D campaign ((pub, s) # pubs) = do {
     total_over \<leftarrow> exceeds_share D (cf_max_pub_share campaign) (cdl_budget (cf_ccg_limits campaign)) (ps_amount s);
     over \<leftarrow> (if total_over then Some True
              else exceeds_share D (cf_max_pub_share campaign) (cdl_daily_budget (cf_ccg_limits campaign)) (ps_daily_amount s));
     rest \<leftarrow> fill_campaign_exclude_pub_accounts D campaign pubs;
     Some (if over then pub # rest else rest) }"

definition creative_weight :: "number \<Rightarrow> creative_def \<Rightarrow> (nat, creative_stat) std_map option \<Rightarrow> nat option" where
  "creative_weight I c stats =
     (case stats of
        None \<Rightarrow> Some 10000
      | Some stats \<Rightarrow> do {
          w \<leftarrow> (case map_of stats (cd_ccid c) of
                 None \<Rightarrow> Some 10000
               | Some s \<Rightarrow>
                   if cst_impressions s < nb_of_int I 2000 then Some 10000
                   else if cst_clicks s < cst_impressions s
                   then do {
                     m \<leftarrow> dec_mul_floor (nb_dec I) (nb_of_int I 10000) (max (cst_clicks s) 0);
                     d \<leftarrow> dec_div (nb_dec I) m (cst_impressions s);
                     d \<leftarrow> nb_ceil I d;
                     Some (nb_to_ulong I d) }
                   else Some 10000);
          Some (max w 1) })"

fun fill_campaign_creative_weights ::
    "number \<Rightarrow> creative_def list \<Rightarrow> (nat, creative_stat) std_map option \<Rightarrow> (bool \<times> creative_def list) option" where
  "fill_campaign_creative_weights I [] stats = Some (False, [])"
| "fill_campaign_creative_weights I (c # cs) stats = do {
     w \<leftarrow> creative_weight I c stats;
     (changed, rest) \<leftarrow> fill_campaign_creative_weights I cs stats;
     Some (if w \<noteq> cd_weight c then (True, c\<lparr>cd_weight := w\<rparr> # rest) else (changed, c # rest)) }"

end
