(* ===== verification/DeliveryTags.thy ===== *)
theory DeliveryTags
  imports ConfigModifier
begin

text \<open>
  \<open>fill_ccg_delivery_tags_\<close> of \<open>CampaignConfigModifier.cpp\<close>: a group that spends faster than its daily
  budget allows keeps the tags with the best profit and is throttled on the others.

  A block is done, leaves with an exception of \<open>RevenueDecimal\<close>, which the function logs, or overflows
  in one of the \<open>noexcept\<close> functions that it calls.
\<close>

section \<open>Blocks\<close>

definition and_done :: "'a raised \<Rightarrow> ('a \<Rightarrow> 'b raised) \<Rightarrow> 'b raised" where
  "and_done r f = (case r of Done x \<Rightarrow> f x | Overflow \<Rightarrow> Overflow | Terminate \<Rightarrow> Terminate)"

definition may_overflow :: "'a option \<Rightarrow> 'a raised" where
  "may_overflow r = (case r of Some x \<Rightarrow> Done x | None \<Rightarrow> Overflow)"

definition must_return :: "'a option \<Rightarrow> 'a raised" where
  "must_return r = (case r of Some x \<Rightarrow> Done x | None \<Rightarrow> Terminate)"

section \<open>Priorities\<close>

text \<open>\<open>std::multimap::insert\<close>: behind the elements with the same key.\<close>

definition multimap_insert :: "'k::linorder \<Rightarrow> 'v \<Rightarrow> ('k \<times> 'v) list \<Rightarrow> ('k \<times> 'v) list" where
  "multimap_insert k v m = takeWhile (\<lambda>e. fst e \<le> k) m @ (k, v) # dropWhile (\<lambda>e. fst e \<le> k) m"

text \<open>A tag with its amount of the period, by the share of the amount that is profit.\<close>

type_synonym tag_priorities = "(int \<times> nat \<times> int) list"

definition tag_period_amount :: "decimal \<Rightarrow> 't account_def \<Rightarrow> int \<Rightarrow> int \<Rightarrow> tag_stat \<Rightarrow> int option" where
  "tag_period_amount D account prev_factor cur_factor s =
     (let p = ts_prev_hour_stat s; c = ts_current_hour_stat s
      in eval_period_amount D account (th_adv_amount p) (th_adv_amount c) (th_adv_comm_amount p) (th_adv_comm_amount c)
           prev_factor cur_factor)"

definition tag_priority :: "decimal \<Rightarrow> int \<Rightarrow> int \<Rightarrow> tag_stat \<Rightarrow> int \<Rightarrow> int option" where
  "tag_priority D prev_factor cur_factor s adv = do {
     p \<leftarrow> dec_mul_floor D (th_isp_pub_amount (ts_prev_hour_stat s)) prev_factor;
     c \<leftarrow> dec_mul_floor D (th_isp_pub_amount (ts_current_hour_stat s)) cur_factor;
     isp_pub \<leftarrow> dec_add D p c;
     profit \<leftarrow> dec_sub D adv isp_pub;
     dec_div D profit adv }"

text \<open>The tags with statistics, without those that are excluded completely.\<close>

fun stat_priorities ::
    "decimal \<Rightarrow> 't account_def \<Rightarrow> int \<Rightarrow> int \<Rightarrow> (nat, nat) std_map \<Rightarrow> (nat, tag_stat) std_map \<Rightarrow> tag_priorities \<Rightarrow> tag_priorities raised" where
  "stat_priorities D account pf cf exclude [] prios = Done prios"
| "stat_priorities D account pf cf exclude ((tag, s) # stats) prios =
     (if map_of exclude tag = Some 0 then stat_priorities D account pf cf exclude stats prios
      else and_done (must_return (tag_period_amount D account pf cf s)) (\<lambda>adv.
        if adv \<noteq> 0
        then and_done (may_overflow (tag_priority D pf cf s adv)) (\<lambda>p.
          stat_priorities D account pf cf exclude stats (multimap_insert p (tag, adv) prios))
        else stat_priorities D account pf cf exclude stats prios))"

text \<open>The tags that are excluded completely come from the state of the last update.\<close>

fun saved_priorities :: "(nat, nat) std_map \<Rightarrow> 't campaign_state \<Rightarrow> tag_priorities \<Rightarrow> tag_priorities" where
  "saved_priorities exclude [] prios = prios"
| "saved_priorities exclude ((tag, e) # saved) prios =
     saved_priorities exclude saved
       (if map_of exclude tag = Some 0 then multimap_insert (te_priority e) (tag, te_adv_amount e) prios else prios)"

section \<open>Throttling\<close>

text \<open>
  The walk from the best priority: the tag that exceeds the limit gets a part of its delivery, and the
  rest is returned. The result is the predicted amount, the tag with its part, and the rest.
\<close>

fun throttle :: "number \<Rightarrow> int \<Rightarrow> int \<Rightarrow> tag_priorities \<Rightarrow> (int \<times> (nat \<times> nat) list \<times> tag_priorities) option" where
  "throttle N limit spent [] = Some (0, [], [])"
| "throttle N limit spent ((p, tag, adv) # tags) =
     (let D = nb_dec N
      in do {
        spent' \<leftarrow> dec_add D spent adv;
        if limit < spent'
        then (if adv \<noteq> 0
              then do {
                before \<leftarrow> dec_sub D spent' adv;
                target \<leftarrow> dec_sub D limit before;
                q \<leftarrow> dec_div D target adv;
                coef \<leftarrow> dec_mul_floor D q (nb_of_int N (int TAG_DELIVERY_MAX));
                predicted \<leftarrow> dec_add D 0 target;
                Some (if nb_to_ulong N coef > 0 then (predicted, [(tag, nb_to_ulong N coef)], tags)
                      else (predicted, [], (p, tag, adv) # tags)) }
              else Some (0, [], (p, tag, adv) # tags))
        else throttle N limit spent' tags })"

fun exclude_rest :: "'t \<Rightarrow> tag_priorities \<Rightarrow> (nat, nat) std_map \<Rightarrow> 't campaign_state \<Rightarrow> (nat, nat) std_map \<times> 't campaign_state" where
  "exclude_rest now [] tags saved = (tags, saved)"
| "exclude_rest now ((p, tag, adv) # rest) tags saved =
     exclude_rest now rest (map_insert tag 0 tags) (map_put tag \<lparr>te_time = now, te_priority = p, te_adv_amount = adv\<rparr> saved)"

section \<open>The function\<close>

text \<open>Whether the group is over its budget, or under it while tags are excluded.\<close>

definition must_reeval :: "decimal \<Rightarrow> delivery_calc_params \<Rightarrow> int \<Rightarrow> int \<Rightarrow> (nat, nat) std_map \<Rightarrow> bool option" where
  "must_reeval D P spent limit exclude = do {
     over \<leftarrow> dec_mul_floor D limit (dp_over_coef P);
     if over \<le> spent then Some True
     else if exclude \<noteq> [] then do { under \<leftarrow> dec_mul_floor D limit (dp_under_coef P); Some (spent < under) }
     else Some False }"

definition reinit_tag_stats :: "(nat \<Rightarrow> 't::linorder option) \<Rightarrow> 't \<Rightarrow> (nat, tag_stat) std_map \<Rightarrow> (nat, tag_stat) std_map" where
  "reinit_tag_stats active_tags old stats =
     filter (\<lambda>e. case active_tags (fst e) of None \<Rightarrow> True | Some t \<Rightarrow> \<not> old < t) stats"

definition kept_tags :: "(nat \<Rightarrow> 't::linorder option) \<Rightarrow> 't \<Rightarrow> (nat, nat) std_map \<Rightarrow> (nat, nat) std_map" where
  "kept_tags active_tags old exclude = filter (\<lambda>e. case active_tags (fst e) of None \<Rightarrow> True | Some t \<Rightarrow> t < old) exclude"

record 't tag_delivery =
  td_predictable :: int
  td_tags :: "(nat, nat) std_map"
  td_state :: "'t modifier_state"
  td_tag_stats :: "(nat, tag_stat) std_map"

text \<open>
  The new statistics of the tags are those of the group; the results of a logged exception are the
  values that were not written yet.
\<close>

definition collect_priorities ::
    "decimal \<Rightarrow> 't account_def \<Rightarrow> int \<Rightarrow> int \<Rightarrow> (nat, nat) std_map \<Rightarrow> (nat, tag_stat) std_map \<Rightarrow> 't campaign_state option \<Rightarrow>
     tag_priorities raised" where
  "collect_priorities D account pf cf exclude stats saved =
     and_done (stat_priorities D account pf cf exclude stats []) (\<lambda>prios.
       Done (case saved of None \<Rightarrow> prios | Some saved \<Rightarrow> saved_priorities exclude saved prios))"

definition throttle_tags ::
    "number \<Rightarrow> 't account_def \<Rightarrow> int \<Rightarrow> int \<Rightarrow> 't \<Rightarrow> int \<Rightarrow> (nat, nat) std_map \<Rightarrow> (nat, tag_stat) std_map \<Rightarrow> 't campaign_state option \<Rightarrow>
     (int \<times> ((nat, nat) std_map \<times> 't campaign_state) option) option" where
  "throttle_tags N account pf cf now limit exclude stats saved =
     (case collect_priorities (nb_dec N) account pf cf exclude stats saved of
        Terminate \<Rightarrow> None
      | Overflow \<Rightarrow> Some (dec_default (nb_dec N), None)
      | Done prios \<Rightarrow>
          (case throttle N limit 0 (rev prios) of
             None \<Rightarrow> Some (0, None)
           | Some (predicted, tags, rest) \<Rightarrow> Some (predicted, Some (exclude_rest now rest tags []))))"

definition fill_ccg_delivery_tags ::
    "number \<Rightarrow> ('t::linordered_ab_group_add) clock \<Rightarrow> delivery_calc_params \<Rightarrow> (nat \<Rightarrow> 't option) \<Rightarrow> 't modifier_state \<Rightarrow> int \<Rightarrow> int \<Rightarrow>
     't modifier_state \<Rightarrow> ccg_stat \<Rightarrow> nat \<Rightarrow> 't campaign_def \<Rightarrow> 't account_def \<Rightarrow> int \<Rightarrow> 't \<Rightarrow> 't \<Rightarrow> 't tag_delivery option" where
  "fill_ccg_delivery_tags N C P active_tags old_state pf cf new_state s ccg_id campaign account daily_budget open_time now =
     (let D = nb_dec N
      in do {
        spent \<leftarrow> eval_period_amount D account (cg_prev_hour_amount s) (cg_cur_hour_amount s)
          (cg_prev_hour_comm_amount s) (cg_cur_hour_comm_amount s) pf cf;
        limit \<leftarrow> eval_period_budget_limit N C P daily_budget open_time;
        let saved = (case map_of (ms_campaigns old_state) ccg_id of Some c \<Rightarrow> c | None \<Rightarrow> None);
        let stats = reinit_tag_stats active_tags (ms_timestamp old_state) (cg_tag_stats s);
        let logged = (\<lambda>predicted. \<lparr>td_predictable = predicted, td_tags = [], td_state = new_state, td_tag_stats = stats\<rparr>);
        case must_reeval D P spent limit (cf_exclude_tags campaign) of
          None \<Rightarrow> Some (logged (dec_default D))
        | Some True \<Rightarrow> do {
            (predicted, result) \<leftarrow> throttle_tags N account pf cf now limit (cf_exclude_tags campaign) stats saved;
            Some (case result of
                    None \<Rightarrow> logged predicted
                  | Some (tags, exclusions) \<Rightarrow>
                      \<lparr>td_predictable = predicted, td_tags = tags,
                       td_state = new_state\<lparr>ms_campaigns := map_put ccg_id (Some exclusions) (ms_campaigns new_state)\<rparr>,
                       td_tag_stats = stats\<rparr>) }
        | Some False \<Rightarrow>
            Some \<lparr>td_predictable = spent, td_tags = kept_tags active_tags (ms_timestamp old_state) (cf_exclude_tags campaign),
                  td_state = new_state\<lparr>ms_campaigns := map_put ccg_id saved (ms_campaigns new_state)\<rparr>,
                  td_tag_stats = stats\<rparr> })"

end
