(* ===== verification/ConfigUpdate.thy ===== *)
theory ConfigUpdate
  imports DeliveryTags
begin

text \<open>
  \<open>update_config_\<close> of \<open>CampaignConfigModifier.cpp\<close>: one update of the whole configuration, accounts
  first, then the groups of each campaign, and \<open>adapt_stat_\<close>, which moves the statistics to a new hour or
  day.
\<close>

section \<open>Accounts\<close>

record 't campaign_config =
  cfg_accounts :: "(nat, 't account_def) std_map"
  cfg_campaigns :: "(nat, 't campaign_def) std_map"
  cfg_master_stamp :: 't

text \<open>The accounts whose amounts are checked: those that pay themselves.\<close>

definition budget_account :: "'t account_def \<Rightarrow> bool" where
  "budget_account a \<longleftrightarrow>
     (is_advertiser a \<and> (ad_use_self_budget a \<or> ad_agency_account_id a = 0)) \<or> (is_agency a \<and> \<not> ad_use_self_budget a)"

definition account_spent :: "decimal \<Rightarrow> 't stat \<Rightarrow> nat \<Rightarrow> int option" where
  "account_spent D stat n =
     (case map_of (st_account_amounts stat) n of None \<Rightarrow> Some 0 | Some s \<Rightarrow> dec_add D (aa_amount s) (aa_comm_amount s))"

definition update_account :: "decimal \<Rightarrow> 't stat \<Rightarrow> 't \<Rightarrow> nat \<Rightarrow> 't account_def \<Rightarrow> 't account_def option" where
  "update_account D stat sysdate n a =
     (if budget_account a
      then do {
        spent \<leftarrow> account_spent D stat n;
        let active = (case dec_add D (ad_budget a) (ad_paid_amount a) of None \<Rightarrow> True | Some limit \<Rightarrow> spent < limit);
        let status = (if active then CHR ''A'' else CHR ''I'');
        Some (if status \<noteq> ad_eval_status a then a\<lparr>ad_eval_status := status, ad_timestamp := sysdate\<rparr> else a) }
      else Some a)"

fun update_accounts :: "decimal \<Rightarrow> 't stat \<Rightarrow> 't \<Rightarrow> (nat, 't account_def) std_map \<Rightarrow> (nat, 't account_def) std_map option" where
  "update_accounts D stat sysdate [] = Some []"
| "update_accounts D stat sysdate ((n, a) # accounts) = do {
     a \<leftarrow> update_account D stat sysdate n a;
     accounts \<leftarrow> update_accounts D stat sysdate accounts;
     Some ((n, a) # accounts) }"

section \<open>One creative group\<close>

record 't update_env =
  ue_number :: number
  ue_imp_number :: number
  ue_clock :: "'t clock"
  ue_params :: delivery_calc_params
  ue_countries :: "string \<Rightarrow> (nat \<times> nat) option"
  ue_tags :: "nat \<Rightarrow> 't option"
  ue_thresholds :: bool
  ue_old_state :: "'t modifier_state"
  ue_now :: 't
  ue_prev_factor :: int
  ue_cur_factor :: int

text \<open>\<open>campaign_stat.tag_stats\<close> is a reference into the statistics.\<close>

definition set_tag_stats :: "nat \<Rightarrow> nat \<Rightarrow> (nat, tag_stat) std_map \<Rightarrow> 't stat \<Rightarrow> 't stat" where
  "set_tag_stats group_id ccg_id tags stat =
     (case map_of (st_campaign_stats stat) group_id of
        None \<Rightarrow> stat
      | Some c \<Rightarrow>
          (case map_of (cm_ccgs c) ccg_id of
             None \<Rightarrow> stat
           | Some s \<Rightarrow> stat\<lparr>st_campaign_stats :=
               map_put group_id (c\<lparr>cm_ccgs := map_put ccg_id (s\<lparr>cg_tag_stats := tags\<rparr>) (cm_ccgs c)\<rparr>) (st_campaign_stats stat)\<rparr>))"

text \<open>What an active group gets, and what it adds to the period of its campaign.\<close>

record 't ccg_result =
  cr_pubs :: "nat list"
  cr_tags :: "(nat, nat) std_map"
  cr_period :: int
  cr_state :: "'t modifier_state"
  cr_stat :: "'t stat"

definition daily_budget_limit :: "bool \<Rightarrow> int \<Rightarrow> bool \<Rightarrow> int \<Rightarrow> int" where
  "daily_budget_limit ccg_defined ccg_budget cmp_defined cmp_budget =
     (if ccg_defined \<and> cmp_defined then min ccg_budget cmp_budget
      else if ccg_defined then ccg_budget else cmp_budget)"

definition active_ccg ::
    "('t::linordered_ab_group_add) update_env \<Rightarrow> 't account_def \<Rightarrow> bool \<Rightarrow> int \<Rightarrow> 't ccg_check \<Rightarrow> nat \<Rightarrow> 't campaign_def \<Rightarrow>
     int \<Rightarrow> 't modifier_state \<Rightarrow> 't stat \<Rightarrow> 't ccg_result option" where
  "active_ccg E account cmp_defined cmp_budget check ccg_id campaign period state stat =
     (let D = nb_dec (ue_number E); pf = ue_prev_factor E; cf = ue_cur_factor E
      in case find_ccg_stats stat (cf_group_id campaign) ccg_id of
           None \<Rightarrow> Some \<lparr>cr_pubs = [], cr_tags = [], cr_period = period, cr_state = state, cr_stat = stat\<rparr>
         | Some s \<Rightarrow> do {
             pubs \<leftarrow> (if 0 < cf_max_pub_share campaign \<and> cf_max_pub_share campaign < nb_of_int (ue_number E) 1
                     then fill_campaign_exclude_pub_accounts D campaign (cg_publisher_amounts s) else Some []);
             if \<not> ue_thresholds E
             then Some \<lparr>cr_pubs = pubs, cr_tags = [], cr_period = period, cr_state = state, cr_stat = stat\<rparr>
             else if cc_daily_budget_defined check \<or> cmp_defined
             then do {
               d \<leftarrow> fill_ccg_delivery_tags (ue_number E) (ue_clock E) (ue_params E) (ue_tags E) (ue_old_state E) pf cf state s
                 ccg_id campaign account
                 (daily_budget_limit (cc_daily_budget_defined check) (cc_daily_budget check) cmp_defined cmp_budget)
                 (cc_today_open_time check) (ue_now E);
               period \<leftarrow> dec_add D period (td_predictable d);
               Some \<lparr>cr_pubs = pubs, cr_tags = td_tags d, cr_period = period, cr_state = td_state d,
                 cr_stat = set_tag_stats (cf_group_id campaign) ccg_id (td_tag_stats d) stat\<rparr> }
             else do {
               a \<leftarrow> eval_period_amount D account (cg_prev_hour_amount s) (cg_cur_hour_amount s)
                 (cg_prev_hour_comm_amount s) (cg_cur_hour_comm_amount s) pf cf;
               period \<leftarrow> dec_add D period a;
               Some \<lparr>cr_pubs = pubs, cr_tags = [], cr_period = period, cr_state = state, cr_stat = stat\<rparr> } })"

text \<open>The changed group, if something of it changed.\<close>

definition changed_ccg ::
    "'t \<Rightarrow> bool \<Rightarrow> campaign_mode \<Rightarrow> nat list \<Rightarrow> (nat, nat) std_map \<Rightarrow> bool \<times> creative_def list \<Rightarrow> 't campaign_def \<Rightarrow> 't campaign_def option" where
  "changed_ccg sysdate active mode pubs tags creatives campaign =
     (let status = (if active then CHR ''A'' else CHR ''I'')
      in if mode \<noteq> cf_mode campaign \<or> status \<noteq> cf_eval_status campaign \<or> fst creatives \<or>
            pubs \<noteq> cf_exclude_pub_accounts campaign \<or> tags \<noteq> cf_exclude_tags campaign
         then Some (campaign\<lparr>cf_mode := mode, cf_eval_status := status, cf_exclude_pub_accounts := pubs, cf_exclude_tags := tags,
                cf_creatives := (if fst creatives then snd creatives else cf_creatives campaign), cf_timestamp := sysdate\<rparr>)
         else None)"

type_synonym 't group_state = "(nat, 't campaign_def) std_map \<times> int \<times> 't modifier_state \<times> 't stat"

definition update_ccg ::
    "('t::linordered_ab_group_add) update_env \<Rightarrow> 't account_def option \<Rightarrow> bool \<Rightarrow> bool \<Rightarrow> int \<Rightarrow> nat \<times> 't campaign_def \<Rightarrow>
     't group_state \<Rightarrow> 't group_state option" where
  "update_ccg E account cmp_active cmp_defined cmp_budget ccg g =
     (let (ccg_id, campaign) = ccg; (modified, period, state, stat) = g;
          off = \<lparr>cc_active = False, cc_daily_budget_defined = False, cc_daily_budget = 0, cc_today_open_time = 0,
                 cc_mode = cf_mode campaign\<rparr>
      in do {
        check \<leftarrow> (if cmp_active
                then ccg_is_active (ue_number E) (ue_imp_number E) (ue_clock E) (ue_countries E) (ue_now E) (the account) ccg_id campaign stat
                else Some off);
        result \<leftarrow> (if cc_active check
                 then active_ccg E (the account) cmp_defined cmp_budget check ccg_id campaign period state stat
                 else Some \<lparr>cr_pubs = [], cr_tags = [], cr_period = period, cr_state = state, cr_stat = stat\<rparr>);
        creatives \<leftarrow> (if cc_active check \<and> cf_creative_optimization campaign
                    then fill_campaign_creative_weights (ue_imp_number E) (cf_creatives campaign)
                      (map_option cg_creatives (find_ccg_stats stat (cf_group_id campaign) ccg_id))
                    else Some (False, []));
        Some (case changed_ccg (ue_now E) (cc_active check) (cc_mode check) (cr_pubs result) (cr_tags result) creatives campaign of
                None \<Rightarrow> modified
              | Some c \<Rightarrow> map_insert ccg_id c modified,
              cr_period result, cr_state result, cr_stat result) })"

fun update_ccgs ::
    "('t::linordered_ab_group_add) update_env \<Rightarrow> 't account_def option \<Rightarrow> bool \<Rightarrow> bool \<Rightarrow> int \<Rightarrow> (nat \<times> 't campaign_def) list \<Rightarrow>
     't group_state \<Rightarrow> 't group_state option" where
  "update_ccgs E account cmp_active cmp_defined cmp_budget [] g = Some g"
| "update_ccgs E account cmp_active cmp_defined cmp_budget (ccg # ccgs) g = do {
     g \<leftarrow> update_ccg E account cmp_active cmp_defined cmp_budget ccg g;
     update_ccgs E account cmp_active cmp_defined cmp_budget ccgs g }"

section \<open>One campaign\<close>

definition campaign_delivery_coef ::
    "('t::linordered_ab_group_add) update_env \<Rightarrow> bool \<Rightarrow> int \<Rightarrow> 't campaign_def \<Rightarrow> int \<Rightarrow> nat option" where
  "campaign_delivery_coef E cmp_defined cmp_budget first period =
     (if ue_thresholds E \<and> cmp_defined
      then (let N = ue_number E; D = nb_dec N
            in do {
              limit \<leftarrow> eval_period_budget_limit N (ue_clock E) (ue_params E) cmp_budget (campaign_open_time (ue_clock E) first (ue_now E));
              if period = 0 then Some TAG_DELIVERY_MAX
              else do {
                over \<leftarrow> dec_mul_floor D limit (dp_over_coef (ue_params E));
                if over \<le> period
                then do {
                  q \<leftarrow> dec_div D limit period;
                  c \<leftarrow> dec_mul_floor D q (nb_of_int N (int TAG_DELIVERY_MAX));
                  Some (nb_to_ulong N c) }
                else Some TAG_DELIVERY_MAX } })
      else Some TAG_DELIVERY_MAX)"

fun apply_ccgs ::
    "'t \<Rightarrow> nat \<Rightarrow> (nat, 't campaign_def) std_map \<Rightarrow> (nat \<times> 't campaign_def) list \<Rightarrow> (nat, 't campaign_def) std_map \<Rightarrow> (nat, 't campaign_def) std_map" where
  "apply_ccgs sysdate coef modified [] campaigns = campaigns"
| "apply_ccgs sysdate coef modified ((ccg_id, campaign) # ccgs) campaigns =
     (let m = map_of modified ccg_id;
          orig = (case m of Some c \<Rightarrow> c | None \<Rightarrow> campaign)
      in apply_ccgs sysdate coef modified ccgs
           (if cf_delivery_coef orig \<noteq> coef
            then map_put ccg_id (orig\<lparr>cf_delivery_coef := coef, cf_timestamp := sysdate\<rparr>) campaigns
            else if m \<noteq> None then map_put ccg_id orig campaigns else campaigns))"

text \<open>The account of the first group, if both it and the advertiser are active.\<close>

definition accounts_active :: "(nat, 't account_def) std_map \<Rightarrow> 't campaign_def \<Rightarrow> bool" where
  "accounts_active accounts first \<longleftrightarrow>
     cf_advertiser_id first \<noteq> 0 \<and>
     (case map_of accounts (cf_advertiser_id first) of None \<Rightarrow> False | Some a \<Rightarrow> ad_eval_status a = CHR ''A'') \<and>
     (case map_of accounts (cf_account_id first) of None \<Rightarrow> False | Some a \<Rightarrow> ad_eval_status a = CHR ''A'')"

definition update_campaign ::
    "('t::linordered_ab_group_add) update_env \<Rightarrow> (nat, 't account_def) std_map \<Rightarrow> (nat \<times> 't campaign_def) list \<Rightarrow>
     (nat, 't campaign_def) std_map \<times> 't modifier_state \<times> 't stat \<Rightarrow> ((nat, 't campaign_def) std_map \<times> 't modifier_state \<times> 't stat) option" where
  "update_campaign E accounts ccgs st =
     (let (campaigns, state, stat) = st; first = snd (hd ccgs); account = map_of accounts (cf_account_id first)
      in do {
        (active, cmp_defined, cmp_budget) \<leftarrow>
          (if accounts_active accounts first
           then campaign_is_active (ue_number E) (ue_clock E) (dec_default (nb_dec (ue_number E))) (ue_now E) (the account) first stat
           else Some (False, False, dec_default (nb_dec (ue_number E))));
        (modified, period, state, stat) \<leftarrow> update_ccgs E account active cmp_defined cmp_budget ccgs ([], 0, state, stat);
        coef \<leftarrow> campaign_delivery_coef E cmp_defined cmp_budget first period;
        Some (apply_ccgs (ue_now E) coef modified ccgs campaigns, state, stat) })"

fun update_campaigns ::
    "('t::linordered_ab_group_add) update_env \<Rightarrow> (nat, 't account_def) std_map \<Rightarrow> (nat \<times> (nat \<times> 't campaign_def) list) list \<Rightarrow>
     (nat, 't campaign_def) std_map \<times> 't modifier_state \<times> 't stat \<Rightarrow> ((nat, 't campaign_def) std_map \<times> 't modifier_state \<times> 't stat) option" where
  "update_campaigns E accounts [] st = Some st"
| "update_campaigns E accounts ((g, ccgs) # groups) st = do {
     st \<leftarrow> update_campaign E accounts ccgs st;
     update_campaigns E accounts groups st }"

section \<open>The update\<close>

definition push_ccg :: "nat \<times> 't campaign_def \<Rightarrow> (nat, (nat \<times> 't campaign_def) list) std_map \<Rightarrow> (nat, (nat \<times> 't campaign_def) list) std_map" where
  "push_ccg c groups =
     map_put (cf_group_id (snd c)) ((case map_of groups (cf_group_id (snd c)) of None \<Rightarrow> [] | Some l \<Rightarrow> l) @ [c]) groups"

definition grouped_campaigns :: "(nat, 't campaign_def) std_map \<Rightarrow> (nat, (nat \<times> 't campaign_def) list) std_map" where
  "grouped_campaigns campaigns = fold push_ccg campaigns []"

definition update_config ::
    "('t::linordered_ab_group_add) update_env \<Rightarrow> 't campaign_config \<Rightarrow> 't modifier_state \<Rightarrow> 't stat \<Rightarrow>
     ('t campaign_config \<times> 't modifier_state \<times> 't stat) option" where
  "update_config E config new_state stat = do {
     accounts \<leftarrow> update_accounts (nb_dec (ue_number E)) stat (ue_now E) (cfg_accounts config);
     (pf, cf) \<leftarrow> fill_campaign_delivery_check_params (ue_number E) (ue_clock E) (ue_now E);
     (campaigns, state, stat) \<leftarrow> update_campaigns (E\<lparr>ue_prev_factor := pf, ue_cur_factor := cf\<rparr>) accounts
       (grouped_campaigns (cfg_campaigns config)) (cfg_campaigns config, new_state, stat);
     Some (config\<lparr>cfg_accounts := accounts, cfg_campaigns := campaigns, cfg_master_stamp := ue_now E\<rparr>, state, stat) }"

end
