(* ===== verification/DeliveryProps.thy ===== *)
theory DeliveryProps
  imports ConfigUpdate
begin

text \<open>
  Properties of the delivery control: what the throttled tags of a group may spend, and how a campaign
  is reduced.
\<close>

section \<open>The arithmetic\<close>

text \<open>
  Numbers of \<open>scale\<close> units; products and quotients of values that are not negative round down, and the
  conversion to \<open>unsigned long\<close> cuts off the fraction.
\<close>

definition number_laws :: "number \<Rightarrow> int \<Rightarrow> bool" where
  "number_laws N scale \<longleftrightarrow>
     0 < scale \<and> exact_decimal (nb_dec N) \<and> (\<forall>n. nb_of_int N n = n * scale) \<and>
     (\<forall>x y z. 0 \<le> x \<longrightarrow> 0 \<le> y \<longrightarrow> dec_mul_floor (nb_dec N) x y = Some z \<longrightarrow> z = x * y div scale) \<and>
     (\<forall>x y z. 0 \<le> x \<longrightarrow> 0 < y \<longrightarrow> dec_div (nb_dec N) x y = Some z \<longrightarrow> z = x * scale div y) \<and>
     (\<forall>x. 0 \<le> x \<longrightarrow> nb_to_ulong N x = nat (x div scale))"

lemma laws_exact: "number_laws N scale \<Longrightarrow> exact_decimal (nb_dec N)" and laws_scale: "number_laws N scale \<Longrightarrow> 0 < scale"
  and laws_of_int: "number_laws N scale \<Longrightarrow> nb_of_int N n = n * scale"
  and laws_mul: "number_laws N scale \<Longrightarrow> 0 \<le> x \<Longrightarrow> 0 \<le> y \<Longrightarrow> dec_mul_floor (nb_dec N) x y = Some z \<Longrightarrow> z = x * y div scale"
  and laws_div: "number_laws N scale \<Longrightarrow> 0 \<le> x \<Longrightarrow> 0 < y \<Longrightarrow> dec_div (nb_dec N) x y = Some z \<Longrightarrow> z = x * scale div y"
  and laws_ulong: "number_laws N scale \<Longrightarrow> 0 \<le> x \<Longrightarrow> nb_to_ulong N x = nat (x div scale)"
  unfolding number_laws_def by blast+

lemma laws_add: "number_laws N scale \<Longrightarrow> dec_add (nb_dec N) x y = Some z \<Longrightarrow> z = x + y"
  using exact_add laws_exact by blast

lemma laws_sub: "number_laws N scale \<Longrightarrow> dec_sub (nb_dec N) x y = Some z \<Longrightarrow> z = x - y"
  using laws_exact by (auto simp: exact_decimal_def)

lemma div_times_below: "0 < d \<Longrightarrow> (x :: int) div d * d \<le> x"
  by (simp add: minus_mod_eq_div_mult [symmetric])

text \<open>A share of \<open>max\<close> parts that is computed with two roundings never exceeds the exact one.\<close>

lemma share_bound:
  assumes N: "number_laws N scale" and xy: "0 \<le> x" "0 < y"
    and c: "dec_div (nb_dec N) x y = Some q" "dec_mul_floor (nb_dec N) q (nb_of_int N (int mx)) = Some c"
  shows "int (nb_to_ulong N c) * y \<le> x * int mx"
proof -
  note S = laws_scale [OF N]
  have q: "q = x * scale div y" "0 \<le> q" using laws_div [OF N xy c(1)] S xy by (simp_all add: pos_imp_zdiv_nonneg_iff)
  have c': "c = q * int mx" using laws_mul [OF N q(2) _ c(2)] S by (simp add: laws_of_int [OF N])
  have n: "int (nb_to_ulong N c) = q * int mx div scale"
    using laws_ulong [OF N, of c] q(2) S by (simp add: c' pos_imp_zdiv_nonneg_iff)
  have "q * int mx div scale * scale \<le> q * int mx"
    by (rule div_times_below [OF S])
  then have "(q * int mx div scale * scale) * y \<le> (q * y) * int mx"
    using xy(2) by (metis less_imp_le mult.assoc mult.commute mult_right_mono)
  also have "(q * y) * int mx \<le> (x * scale) * int mx"
    using div_times_below [OF xy(2), of "x * scale"] by (simp add: q(1) mult_right_mono)
  finally have "scale * (int (nb_to_ulong N c) * y) \<le> scale * (x * int mx)" by (simp add: n algebra_simps)
  then show ?thesis using S by simp
qed

section \<open>Throttling\<close>

abbreviation adv_sum :: "tag_priorities \<Rightarrow> int" where
  "adv_sum tags \<equiv> (\<Sum>e\<leftarrow>tags. snd (snd e))"

text \<open>
  The tags are split into those that are delivered completely, at most one with a part of its delivery,
  and the rest.
\<close>

lemma throttle_split:
  assumes N: "number_laws N scale" and "throttle N limit spent tags = Some (predicted, part, rest)"
    "spent \<le> limit" "\<forall>e\<in>set tags. 0 \<le> snd (snd e)"
  shows "\<exists>full. spent + adv_sum full \<le> limit \<and>
    ((tags = full @ rest \<and> part = [] \<and> predicted = (if rest = [] then 0 else limit - spent - adv_sum full)) \<or>
     (\<exists>b n. tags = full @ b # rest \<and> part = [(fst (snd b), n)] \<and> 0 < n \<and> limit < spent + adv_sum full + snd (snd b) \<and> predicted = limit - spent - adv_sum full \<and>
        snd (snd b) * int n \<le> (limit - spent - adv_sum full) * int TAG_DELIVERY_MAX))"
  using assms(2-)
proof (induction tags arbitrary: spent)
  case (Cons e tags)
  obtain p tag adv where e: "e = (p, tag, adv)" by (metis prod.exhaust)
  have adv: "0 \<le> adv" "\<forall>e\<in>set tags. 0 \<le> snd (snd e)" using Cons.prems(3) e by auto
  obtain spent' where s: "dec_add (nb_dec N) spent adv = Some spent'" using Cons.prems(1) e by (auto simp: Let_def split: bind_splits)
  then have s': "spent' = spent + adv" by (rule laws_add [OF N])
  show ?case
  proof (cases "limit < spent'")
    case False
    then have "throttle N limit spent' tags = Some (predicted, part, rest)" using Cons.prems(1) e s by (simp add: Let_def)
    from Cons.IH [OF this _ adv(2)] False obtain full where full: "spent' + adv_sum full \<le> limit"
      "(tags = full @ rest \<and> part = [] \<and> predicted = (if rest = [] then 0 else limit - spent' - adv_sum full)) \<or>
       (\<exists>b n. tags = full @ b # rest \<and> part = [(fst (snd b), n)] \<and> 0 < n \<and> limit < spent' + adv_sum full + snd (snd b) \<and> predicted = limit - spent' - adv_sum full \<and>
          snd (snd b) * int n \<le> (limit - spent' - adv_sum full) * int TAG_DELIVERY_MAX)"
      by auto
    show ?thesis
      by (rule exI [of _ "e # full"]) (use full e s' in \<open>auto simp: algebra_simps\<close>)
  next
    case True
    then have "0 < adv" using Cons.prems(2) s' adv(1) by simp
    then obtain before target q coef where c: "dec_sub (nb_dec N) spent' adv = Some before" "dec_sub (nb_dec N) limit before = Some target"
      "dec_div (nb_dec N) target adv = Some q" "dec_mul_floor (nb_dec N) q (nb_of_int N (int TAG_DELIVERY_MAX)) = Some coef"
      "dec_add (nb_dec N) 0 target = Some predicted"
      "(part, rest) = (if nb_to_ulong N coef > 0 then ([(tag, nb_to_ulong N coef)], tags) else ([], e # tags))"
      using Cons.prems(1) e s True by (auto simp: Let_def split: bind_splits if_splits)
    have target: "target = limit - spent" "predicted = limit - spent"
      using laws_sub [OF N c(1)] laws_sub [OF N c(2)] laws_add [OF N c(5)] s' by simp_all
    have "int (nb_to_ulong N coef) * adv \<le> (limit - spent) * int TAG_DELIVERY_MAX"
      using share_bound [OF N _ \<open>0 < adv\<close> c(3,4)] Cons.prems(2) by (simp add: target(1))
    then show ?thesis
      by (intro exI [of _ "[]"]) (use c(6) target(2) Cons.prems(2) e True s' in \<open>auto split: if_splits simp: mult.commute\<close>)
  qed
qed (auto intro!: exI [of _ "[]"])

section \<open>The priorities\<close>

lemma set_multimap_insert [simp]: "set (multimap_insert k v m) = insert (k, v) (set m)"
proof -
  have "set m = set (takeWhile (\<lambda>e. fst e \<le> k) m) \<union> set (dropWhile (\<lambda>e. fst e \<le> k) m)"
    by (metis set_append takeWhile_dropWhile_id)
  then show ?thesis unfolding multimap_insert_def by auto
qed

lemma sorted_multimap_insert: "sorted (map fst m) \<Longrightarrow> sorted (map fst (multimap_insert k v m))"
proof (induction m)
  case (Cons e m)
  then show ?case
    by (cases "fst e \<le> k") (auto simp: multimap_insert_def dest!: set_takeWhileD set_dropWhileD)
qed (simp add: multimap_insert_def)

lemma distinct_multimap_insert:
  "distinct (map (fst \<circ> snd) m) \<Longrightarrow> fst v \<notin> fst ` snd ` set m \<Longrightarrow> distinct (map (fst \<circ> snd) (multimap_insert k v m))"
proof -
  assume d: "distinct (map (fst \<circ> snd) m)" "fst v \<notin> fst ` snd ` set m"
  define a where "a = takeWhile (\<lambda>e. fst e \<le> k) m"
  define b where "b = dropWhile (\<lambda>e. fst e \<le> k) m"
  have "m = a @ b" by (simp add: a_def b_def)
  with d show ?thesis unfolding multimap_insert_def a_def [symmetric] b_def [symmetric] by (auto simp: image_image)
qed

definition tags_of :: "tag_priorities \<Rightarrow> nat set" where
  "tags_of prios = fst ` snd ` set prios"

lemma tags_of_simps [simp]: "tags_of [] = {}" "tags_of (multimap_insert p v prios) = insert (fst v) (tags_of prios)"
  by (auto simp: tags_of_def)

text \<open>Collected priorities: ordered, with different tags and amounts that are not negative.\<close>

definition priorities_ok :: "tag_priorities \<Rightarrow> bool" where
  "priorities_ok prios \<longleftrightarrow> sorted (map fst prios) \<and> distinct (map (fst \<circ> snd) prios) \<and> (\<forall>e\<in>set prios. 0 \<le> snd (snd e))"

lemma priorities_ok_insert:
  "priorities_ok prios \<Longrightarrow> tag \<notin> tags_of prios \<Longrightarrow> 0 \<le> adv \<Longrightarrow> priorities_ok (multimap_insert p (tag, adv) prios)"
  using sorted_multimap_insert distinct_multimap_insert [of prios "(tag, adv)"] by (auto simp: priorities_ok_def tags_of_def)

definition tag_amounts_ok :: "tag_stat \<Rightarrow> bool" where
  "tag_amounts_ok s \<longleftrightarrow> 0 \<le> th_adv_amount (ts_prev_hour_stat s) \<and> 0 \<le> th_adv_comm_amount (ts_prev_hour_stat s) \<and>
     0 \<le> th_adv_amount (ts_current_hour_stat s) \<and> 0 \<le> th_adv_comm_amount (ts_current_hour_stat s)"

lemma period_amount_nonneg:
  assumes N: "number_laws N scale" and "0 \<le> pf" "0 \<le> cf" "0 \<le> pa" "0 \<le> ca" "0 \<le> pc" "0 \<le> cc"
    "eval_period_amount (nb_dec N) account pa ca pc cc pf cf = Some a"
  shows "0 \<le> a"
proof -
  obtain p c x y where s: "with_comm (nb_dec N) account pa pc = Some p" "with_comm (nb_dec N) account ca cc = Some c"
    "dec_mul_floor (nb_dec N) p pf = Some x" "dec_mul_floor (nb_dec N) c cf = Some y" "dec_add (nb_dec N) x y = Some a"
    using assms(8) by (auto simp: eval_period_amount_def split: bind_splits)
  have "0 \<le> p" "0 \<le> c" using s(1,2) assms(4-7) by (auto simp: with_comm_def split: if_splits dest!: laws_add [OF N])
  then have "0 \<le> x" "0 \<le> y"
    using laws_mul [OF N _ assms(2) s(3)] laws_mul [OF N _ assms(3) s(4)] laws_scale [OF N] assms(2,3)
    by (simp_all add: pos_imp_zdiv_nonneg_iff)
  then show ?thesis using laws_add [OF N s(5)] by simp
qed

lemma stat_priorities_ok:
  assumes N: "number_laws N scale" and "0 \<le> pf" "0 \<le> cf"
    and "stat_priorities (nb_dec N) account pf cf exclude stats prios = Done prios'" "priorities_ok prios"
    "distinct (map fst stats)" "\<forall>e\<in>set stats. tag_amounts_ok (snd e)" "tags_of prios \<inter> fst ` set stats = {}"
  shows "priorities_ok prios' \<and> tags_of prios' \<subseteq> tags_of prios \<union> {t \<in> fst ` set stats. map_of exclude t \<noteq> Some 0}"
  using assms(4-)
proof (induction stats arbitrary: prios)
  case (Cons e stats)
  obtain tag s where e: "e = (tag, s)" by (rule prod.exhaust)
  have rest: "distinct (map fst stats)" "\<forall>e\<in>set stats. tag_amounts_ok (snd e)" "tags_of prios \<inter> fst ` set stats = {}"
    "tag \<notin> fst ` set stats" "tag \<notin> tags_of prios"
    using Cons.prems(3-5) e by auto
  show ?case
  proof (cases "map_of exclude tag = Some 0")
    case True
    then show ?thesis using Cons.IH [OF _ Cons.prems(2) rest(1-3)] Cons.prems(1) e by auto
  next
    case False
    obtain adv where adv: "tag_period_amount (nb_dec N) account pf cf s = Some adv"
      using Cons.prems(1) False e by (cases "tag_period_amount (nb_dec N) account pf cf s") (auto simp: and_done_def must_return_def)
    show ?thesis
    proof (cases "adv = 0")
      case True
      then show ?thesis using Cons.IH [OF _ Cons.prems(2) rest(1-3)] Cons.prems(1) e False adv by (auto simp: and_done_def must_return_def)
    next
      case nz: False
      obtain p where p: "tag_priority (nb_dec N) pf cf s adv = Some p"
        "stat_priorities (nb_dec N) account pf cf exclude stats (multimap_insert p (tag, adv) prios) = Done prios'"
        using Cons.prems(1) False e adv nz
        by (cases "tag_priority (nb_dec N) pf cf s adv") (auto simp: and_done_def must_return_def may_overflow_def)
      have "0 \<le> adv"
        using period_amount_nonneg [OF N assms(2,3) _ _ _ _ adv [unfolded tag_period_amount_def Let_def]] Cons.prems(4) e
        by (simp add: tag_amounts_ok_def)
      from Cons.IH [OF p(2) priorities_ok_insert [OF Cons.prems(2) rest(5) this] rest(1,2)] rest(3,4)
      show ?thesis using e False by auto
    qed
  qed
qed simp

lemma saved_priorities_ok:
  assumes "priorities_ok prios" "distinct (map fst saved)" "\<forall>e\<in>set saved. 0 \<le> te_adv_amount (snd e)"
    "\<forall>t\<in>fst ` set saved. map_of exclude t = Some 0 \<longrightarrow> t \<notin> tags_of prios"
  shows "priorities_ok (saved_priorities exclude saved prios)"
  using assms
proof (induction saved arbitrary: prios)
  case (Cons e saved)
  obtain tag x where e: "e = (tag, x)" by (rule prod.exhaust)
  show ?case
  proof (cases "map_of exclude tag = Some 0")
    case True
    then have "priorities_ok (multimap_insert (te_priority x) (tag, te_adv_amount x) prios)"
      using Cons.prems e by (intro priorities_ok_insert) auto
    from Cons.IH [OF this] show ?thesis using Cons.prems True e by auto
  next
    case False
    then show ?thesis using Cons.IH [OF Cons.prems(1)] Cons.prems(2-4) e by auto
  qed
qed simp

definition saved_ok :: "'t campaign_state option \<Rightarrow> bool" where
  "saved_ok saved \<longleftrightarrow> (case saved of None \<Rightarrow> True | Some s \<Rightarrow> map_ok s \<and> (\<forall>e\<in>set s. 0 \<le> te_adv_amount (snd e)))"

lemma collect_priorities_ok:
  assumes N: "number_laws N scale" and "0 \<le> pf" "0 \<le> cf"
    and "collect_priorities (nb_dec N) account pf cf exclude stats saved = Done prios"
    "map_ok stats" "\<forall>e\<in>set stats. tag_amounts_ok (snd e)" "saved_ok saved"
  shows "priorities_ok prios"
proof -
  obtain p where p: "stat_priorities (nb_dec N) account pf cf exclude stats [] = Done p"
    "prios = (case saved of None \<Rightarrow> p | Some s \<Rightarrow> saved_priorities exclude s p)"
    using assms(4) by (auto simp: collect_priorities_def and_done_def split: raised.splits)
  have "priorities_ok []" by (simp add: priorities_ok_def)
  then have ok: "priorities_ok p \<and> tags_of p \<subseteq> {t \<in> fst ` set stats. map_of exclude t \<noteq> Some 0}"
    using stat_priorities_ok [OF N assms(2,3) p(1)] key_sorted_distinct [OF assms(5)] assms(6) by simp
  show ?thesis
  proof (cases saved)
    case (Some s)
    then show ?thesis using ok assms(7) p(2) by (auto simp: saved_ok_def intro!: saved_priorities_ok key_sorted_distinct)
  qed (use ok p(2) in simp)
qed

section \<open>The plan\<close>

text \<open>The parts of ten thousand that a tag delivers: everything when it is not mentioned.\<close>

definition delivered :: "(nat, nat) std_map \<Rightarrow> nat \<Rightarrow> nat" where
  "delivered tags t = (case map_of tags t of None \<Rightarrow> TAG_DELIVERY_MAX | Some n \<Rightarrow> n)"

definition planned :: "(nat, nat) std_map \<Rightarrow> tag_priorities \<Rightarrow> int" where
  "planned tags prios = (\<Sum>e\<leftarrow>prios. snd (snd e) * int (delivered tags (fst (snd e))))"

lemma planned_append [simp]: "planned tags (xs @ ys) = planned tags xs + planned tags ys"
  and planned_Cons [simp]: "planned tags (e # xs) = snd (snd e) * int (delivered tags (fst (snd e))) + planned tags xs"
  and planned_Nil [simp]: "planned tags [] = 0"
  by (simp_all add: planned_def)

lemma planned_rev [simp]: "planned tags (rev xs) = planned tags xs"
  by (induction xs) simp_all

lemma planned_full: "\<forall>e\<in>set xs. map_of tags (fst (snd e)) = None \<Longrightarrow> planned tags xs = adv_sum xs * int TAG_DELIVERY_MAX"
  by (induction xs) (simp_all add: delivered_def algebra_simps)

lemma planned_none: "\<forall>e\<in>set xs. map_of tags (fst (snd e)) = Some 0 \<Longrightarrow> planned tags xs = 0"
  by (induction xs) (simp_all add: delivered_def)

lemma exclude_rest_lookup:
  assumes "exclude_rest now rest tags saved = (tags', saved')" "map_ok tags" "map_ok saved" "distinct (map (fst \<circ> snd) rest)"
    "tags_of rest \<inter> fst ` set tags = {}"
  shows "map_ok tags' \<and> map_of tags' = (\<lambda>t. if t \<in> tags_of rest then Some 0 else map_of tags t) \<and> map_ok saved' \<and>
    (\<forall>t. t \<notin> tags_of rest \<longrightarrow> map_of saved' t = map_of saved t) \<and>
    (\<forall>e\<in>set rest. map_of saved' (fst (snd e)) = Some \<lparr>te_time = now, te_priority = fst e, te_adv_amount = snd (snd e)\<rparr>)"
  using assms
proof (induction rest arbitrary: tags saved)
  case (Cons e rest)
  obtain p tag adv where e: "e = (p, tag, adv)" by (metis prod.exhaust)
  let ?saved = "map_put tag \<lparr>te_time = now, te_priority = p, te_adv_amount = adv\<rparr> saved"
  have new: "tag \<notin> tags_of rest" "map_of tags tag = None" "distinct (map (fst \<circ> snd) rest)" "tags_of rest \<inter> fst ` set tags = {}"
    using Cons.prems(4,5) e by (auto simp: tags_of_def map_of_eq_None_iff image_image o_def)
  have here: "exclude_rest now rest (map_insert tag 0 tags) ?saved = (tags', saved')" using Cons.prems(1) e by simp
  have "tags_of rest \<inter> fst ` set (map_insert tag 0 tags) = {}" using new by simp
  from Cons.IH [OF here _ _ new(3) this] Cons.prems(2,3)
  have IH: "map_ok tags'" "map_of tags' = (\<lambda>t. if t \<in> tags_of rest then Some 0 else map_of (map_insert tag 0 tags) t)" "map_ok saved'"
    "\<forall>t. t \<notin> tags_of rest \<longrightarrow> map_of saved' t = map_of ?saved t"
    "\<forall>e\<in>set rest. map_of saved' (fst (snd e)) = Some \<lparr>te_time = now, te_priority = fst e, te_adv_amount = snd (snd e)\<rparr>"
    by simp_all
  have "tags_of (e # rest) = insert tag (tags_of rest)" by (simp add: tags_of_def e)
  then show ?case
    using IH new Cons.prems(2,3) by (auto simp: fun_eq_iff map_of_map_insert map_of_map_put e)
qed (simp add: tags_of_def)

lemma rest_is_below:
  assumes "priorities_ok prios" "rev prios = xs @ ys" "x \<in> set ys" "y \<in> set xs"
  shows "fst x \<le> fst y"
proof -
  have "prios = rev ys @ rev xs" using assms(2) by (metis rev_append rev_rev_ident)
  then show ?thesis using assms(1,3,4) by (auto simp: priorities_ok_def sorted_append)
qed

text \<open>The tags by what they deliver: everything, at most one a part, and nothing.\<close>

lemma throttle_levels:
  assumes N: "number_laws N scale" and "0 \<le> pf" "0 \<le> cf" "0 \<le> limit"
    "map_ok stats" "\<forall>e\<in>set stats. tag_amounts_ok (snd e)" "saved_ok saved"
    "collect_priorities (nb_dec N) account pf cf exclude stats saved = Done prios"
    "throttle_tags N account pf cf now limit exclude stats saved = Some (predicted, Some (tags, exclusions))"
  obtains full mid rest where "priorities_ok prios" "rev prios = full @ mid @ rest" "length mid \<le> 1" "adv_sum full \<le> limit"
    "\<forall>e\<in>set full. map_of tags (fst (snd e)) = None \<and> map_of exclusions (fst (snd e)) = None"
    "\<forall>e\<in>set mid. 0 < delivered tags (fst (snd e)) \<and> delivered tags (fst (snd e)) < TAG_DELIVERY_MAX \<and>
      snd (snd e) * int (delivered tags (fst (snd e))) \<le> (limit - adv_sum full) * int TAG_DELIVERY_MAX \<and>
      map_of exclusions (fst (snd e)) = None"
    "\<forall>e\<in>set rest. map_of tags (fst (snd e)) = Some 0 \<and>
      map_of exclusions (fst (snd e)) = Some \<lparr>te_time = now, te_priority = fst e, te_adv_amount = snd (snd e)\<rparr>"
    "predicted = (if mid @ rest = [] then 0 else limit - adv_sum full)"
proof -
  have ok: "priorities_ok prios" by (rule collect_priorities_ok [OF N assms(2,3,8,5-7)])
  obtain part rest where t: "throttle N limit 0 (rev prios) = Some (predicted, part, rest)"
    "exclude_rest now rest part [] = (tags, exclusions)"
    using assms(8,9) by (auto simp: throttle_tags_def split: option.splits)
  from throttle_split [OF N t(1) assms(4)] ok obtain full where full: "adv_sum full \<le> limit"
    "(rev prios = full @ rest \<and> part = [] \<and> predicted = (if rest = [] then 0 else limit - adv_sum full)) \<or>
     (\<exists>b n. rev prios = full @ b # rest \<and> part = [(fst (snd b), n)] \<and> 0 < n \<and> limit < adv_sum full + snd (snd b) \<and> predicted = limit - adv_sum full \<and>
        snd (snd b) * int n \<le> (limit - adv_sum full) * int TAG_DELIVERY_MAX)"
    by (auto simp: priorities_ok_def)
  have mx: "0 < TAG_DELIVERY_MAX" by (simp add: TAG_DELIVERY_MAX_def)
  have dist: "distinct (map (fst \<circ> snd) (rev prios))" using ok by (simp add: priorities_ok_def rev_map [symmetric])
  from full(2) obtain mid where mid: "predicted = (if mid @ rest = [] then 0 else limit - adv_sum full)" "rev prios = full @ mid @ rest" "length mid \<le> 1" "map_ok part"
    "\<forall>e\<in>set full. fst (snd e) \<notin> fst ` set part" "tags_of rest \<inter> fst ` set part = {}"
    "\<forall>e\<in>set mid. 0 < snd (snd e) \<and> (\<exists>n. map_of part (fst (snd e)) = Some n \<and> 0 < n \<and> n < TAG_DELIVERY_MAX \<and>
       snd (snd e) * int n \<le> (limit - adv_sum full) * int TAG_DELIVERY_MAX)"
  proof (elim disjE exE conjE)
    fix b n
    assume b: "rev prios = full @ b # rest" "part = [(fst (snd b), n)]" "0 < n" "limit < adv_sum full + snd (snd b)" "predicted = limit - adv_sum full"
      "snd (snd b) * int n \<le> (limit - adv_sum full) * int TAG_DELIVERY_MAX"
    have pos: "0 < snd (snd b)" using b(4) full(1) by linarith
    have "(limit - adv_sum full) * int TAG_DELIVERY_MAX < snd (snd b) * int TAG_DELIVERY_MAX"
      using b(4) mx by (intro mult_strict_right_mono) auto
    then have "snd (snd b) * int n < snd (snd b) * int TAG_DELIVERY_MAX" using b(6) by linarith
    then have "n < TAG_DELIVERY_MAX" using pos by simp
    moreover have "fst (snd b) \<notin> (\<lambda>x. fst (snd x)) ` set full" using dist unfolding b(1) by auto
    then have "\<forall>e\<in>set full. fst (snd e) \<noteq> fst (snd b)" by (metis image_eqI)
    ultimately show thesis
      using that [of "[b]"] b pos dist unfolding b(1) by (auto simp: tags_of_def image_image)
  qed (use that [of "[]"] in \<open>auto simp: tags_of_def\<close>)
  have dist': "distinct (map (fst \<circ> snd) rest)" "\<forall>e\<in>set full. fst (snd e) \<notin> tags_of rest" "\<forall>e\<in>set mid. fst (snd e) \<notin> tags_of rest"
    using dist unfolding mid(2) by (auto simp: tags_of_def image_image o_def)
  have "map_of part t = None" if "t \<notin> fst ` set part" for t using that by (simp add: map_of_eq_None_iff)
  note look = exclude_rest_lookup [OF t(2) mid(4) _ dist'(1) mid(6)]
  have top: "\<forall>e\<in>set full. map_of tags (fst (snd e)) = None \<and> map_of exclusions (fst (snd e)) = None"
    and rest: "\<forall>e\<in>set rest. map_of tags (fst (snd e)) = Some 0 \<and>
      map_of exclusions (fst (snd e)) = Some \<lparr>te_time = now, te_priority = fst e, te_adv_amount = snd (snd e)\<rparr>"
    using look mid(5) dist'(2) by (auto simp: tags_of_def map_of_eq_None_iff)
  have middle: "\<forall>e\<in>set mid. 0 < delivered tags (fst (snd e)) \<and> delivered tags (fst (snd e)) < TAG_DELIVERY_MAX \<and>
      snd (snd e) * int (delivered tags (fst (snd e))) \<le> (limit - adv_sum full) * int TAG_DELIVERY_MAX \<and>
      map_of exclusions (fst (snd e)) = None"
    using look mid(7) dist'(3) by (auto simp: delivered_def)
  from that [OF ok mid(2,3) full(1) top middle rest mid(1)] show thesis .
qed

text \<open>
  C10. A throttled group plans to spend at most its limit of the period: the amounts of its tags, each
  taken with the part that it delivers, are together within the limit. The tags that deliver less never
  have a better priority than those that deliver more, no tag delivers more than everything, and the
  tags that deliver nothing are exactly those that are remembered, with their priority and amount.
\<close>

theorem delivery_within_limit:
  assumes N: "number_laws N scale" and "0 \<le> pf" "0 \<le> cf" "0 \<le> limit"
    "map_ok stats" "\<forall>e\<in>set stats. tag_amounts_ok (snd e)" "saved_ok saved"
    "collect_priorities (nb_dec N) account pf cf exclude stats saved = Done prios"
    "throttle_tags N account pf cf now limit exclude stats saved = Some (predicted, Some (tags, exclusions))"
  shows "planned tags prios \<le> limit * int TAG_DELIVERY_MAX \<and>
    (\<forall>x\<in>set prios. \<forall>y\<in>set prios. delivered tags (fst (snd x)) < delivered tags (fst (snd y)) \<longrightarrow> fst x \<le> fst y) \<and>
    (\<forall>x\<in>set prios. delivered tags (fst (snd x)) \<le> TAG_DELIVERY_MAX) \<and>
    (\<forall>x\<in>set prios. map_of exclusions (fst (snd x)) =
       (if delivered tags (fst (snd x)) = 0 then Some \<lparr>te_time = now, te_priority = fst x, te_adv_amount = snd (snd x)\<rparr> else None))"
proof -
  have mx: "0 < TAG_DELIVERY_MAX" by (simp add: TAG_DELIVERY_MAX_def)
  obtain full mid rest where ok: "priorities_ok prios" and mid: "rev prios = full @ mid @ rest" "length mid \<le> 1"
    and full: "adv_sum full \<le> limit"
    and top: "\<forall>e\<in>set full. map_of tags (fst (snd e)) = None \<and> map_of exclusions (fst (snd e)) = None"
    and middle: "\<forall>e\<in>set mid. 0 < delivered tags (fst (snd e)) \<and> delivered tags (fst (snd e)) < TAG_DELIVERY_MAX \<and>
      snd (snd e) * int (delivered tags (fst (snd e))) \<le> (limit - adv_sum full) * int TAG_DELIVERY_MAX \<and>
      map_of exclusions (fst (snd e)) = None"
    and rest: "\<forall>e\<in>set rest. map_of tags (fst (snd e)) = Some 0 \<and>
      map_of exclusions (fst (snd e)) = Some \<lparr>te_time = now, te_priority = fst e, te_adv_amount = snd (snd e)\<rparr>"
    and pred: "predicted = (if mid @ rest = [] then 0 else limit - adv_sum full)"
    by (rule throttle_levels [OF assms])
  have all: "set prios = set full \<union> set mid \<union> set rest" using arg_cong [OF mid(1), of set] by auto
  have "planned tags prios = planned tags full + planned tags mid + planned tags rest"
    using arg_cong [OF mid(1), of "planned tags"] by simp
  moreover have "planned tags full = adv_sum full * int TAG_DELIVERY_MAX" using top by (simp add: planned_full)
  moreover have "planned tags rest = 0" using rest by (simp add: planned_none)
  moreover have "planned tags mid \<le> (limit - adv_sum full) * int TAG_DELIVERY_MAX"
    using middle mid(2) full by (cases mid) auto
  ultimately have "planned tags prios \<le> limit * int TAG_DELIVERY_MAX" by (simp add: algebra_simps)
  moreover have "fst x \<le> fst y"
    if xy: "x \<in> set prios" "y \<in> set prios" "delivered tags (fst (snd x)) < delivered tags (fst (snd y))" for x y
  proof -
    have d: "\<forall>e\<in>set full. delivered tags (fst (snd e)) = TAG_DELIVERY_MAX" "\<forall>e\<in>set rest. delivered tags (fst (snd e)) = 0"
      using top rest by (simp_all add: delivered_def)
    have "x \<notin> set full" using xy(2,3) d middle mx unfolding all by fastforce
    moreover have "y \<notin> set rest" using xy(3) d(2) by auto
    moreover have "x = y" if "x \<in> set mid" "y \<in> set mid"
      using that mid(2) by (cases mid) auto
    ultimately consider "x \<in> set mid" "y \<in> set full" | "x \<in> set rest" "y \<in> set (full @ mid)"
      using xy unfolding all by auto
    then show ?thesis
    proof cases
      case 1
      then show ?thesis using rest_is_below [OF ok, of full "mid @ rest" x y] mid(1) by simp
    next
      case 2
      then show ?thesis using rest_is_below [OF ok, of "full @ mid" rest x y] mid(1) by simp
    qed
  qed
  moreover have "delivered tags (fst (snd x)) \<le> TAG_DELIVERY_MAX \<and> map_of exclusions (fst (snd x)) =
       (if delivered tags (fst (snd x)) = 0 then Some \<lparr>te_time = now, te_priority = fst x, te_adv_amount = snd (snd x)\<rparr> else None)"
    if "x \<in> set prios" for x
    using that top middle rest mx unfolding all by (auto simp: delivered_def)
  ultimately show ?thesis by blast
qed

text \<open>
  C36. The amount that the function predicts for a throttled group leaves out the tags that it delivers
  completely: together with their amounts it is the limit, and it is zero when every tag is delivered
  completely. The delivery of the whole campaign is computed from these predictions.
\<close>

theorem prediction_is_partial:
  assumes "number_laws N scale" "0 \<le> pf" "0 \<le> cf" "0 \<le> limit"
    "map_ok stats" "\<forall>e\<in>set stats. tag_amounts_ok (snd e)" "saved_ok saved"
    "collect_priorities (nb_dec N) account pf cf exclude stats saved = Done prios"
    "throttle_tags N account pf cf now limit exclude stats saved = Some (predicted, Some (tags, exclusions))"
  shows "predicted =
    (if \<forall>e\<in>set prios. delivered tags (fst (snd e)) = TAG_DELIVERY_MAX then 0
     else limit - adv_sum (filter (\<lambda>e. delivered tags (fst (snd e)) = TAG_DELIVERY_MAX) prios))"
proof -
  have mx: "0 < TAG_DELIVERY_MAX" by (simp add: TAG_DELIVERY_MAX_def)
  obtain full mid rest where ok: "priorities_ok prios" and rev: "rev prios = full @ mid @ rest" "length mid \<le> 1"
    and full: "adv_sum full \<le> limit"
    and top: "\<forall>e\<in>set full. map_of tags (fst (snd e)) = None \<and> map_of exclusions (fst (snd e)) = None"
    and middle: "\<forall>e\<in>set mid. 0 < delivered tags (fst (snd e)) \<and> delivered tags (fst (snd e)) < TAG_DELIVERY_MAX \<and>
      snd (snd e) * int (delivered tags (fst (snd e))) \<le> (limit - adv_sum full) * int TAG_DELIVERY_MAX \<and>
      map_of exclusions (fst (snd e)) = None"
    and rest: "\<forall>e\<in>set rest. map_of tags (fst (snd e)) = Some 0 \<and>
      map_of exclusions (fst (snd e)) = Some \<lparr>te_time = now, te_priority = fst e, te_adv_amount = snd (snd e)\<rparr>"
    and pred: "predicted = (if mid @ rest = [] then 0 else limit - adv_sum full)"
    by (rule throttle_levels [OF assms])
  have low: "\<forall>e\<in>set mid \<union> set rest. delivered tags (fst (snd e)) < TAG_DELIVERY_MAX"
    using middle rest mx by (auto simp: delivered_def)
  let ?P = "\<lambda>e. delivered tags (fst (snd e)) = TAG_DELIVERY_MAX"
  have "filter ?P (rev prios) = full"
  proof -
    have "filter ?P full = full" using top by (intro filter_True) (simp add: delivered_def)
    moreover have "filter ?P mid = []" "filter ?P rest = []" using low by (metis (mono_tags, lifting) UnCI filter_False less_irrefl)+
    ultimately show ?thesis unfolding rev(1) by simp
  qed
  then have "filter ?P prios = rev full" by (metis rev_filter rev_rev_ident)
  then have "adv_sum (filter ?P prios) = adv_sum full" by (simp add: rev_map [symmetric])
  moreover have "(\<forall>e\<in>set prios. ?P e) \<longleftrightarrow> mid @ rest = []"
  proof -
    have "set prios = set full \<union> (set mid \<union> set rest)" using arg_cong [OF rev(1), of set] by auto
    moreover have "\<forall>e\<in>set full. ?P e" using top by (simp add: delivered_def)
    ultimately show ?thesis using low by (cases mid; cases rest) auto
  qed
  ultimately show ?thesis using pred by simp
qed

section \<open>Examples\<close>

definition sample_number :: number where
  "sample_number =
     \<lparr>nb_dec = floor_decimal 100, nb_of_int = (\<lambda>n. n * 100), nb_to_ulong = (\<lambda>x. nat (x div 100)),
      nb_ceil = (\<lambda>x. Some (- ((- x) div 100) * 100))\<rparr>"

lemma sample_number_laws: "number_laws sample_number 100"
  by (simp add: number_laws_def sample_number_def floor_decimal_def exact_decimal_def)

definition sample_account :: "int account_def" where
  "sample_account =
     \<lparr>ad_role_id = 1, ad_agency_account_id = 0, ad_gross = False, ad_use_self_budget = True, ad_time_offset = 0,
      ad_budget = 1000, ad_paid_amount = 0, ad_eval_status = CHR ''A'', ad_timestamp = 0\<rparr>"

definition sample_tag_stat :: "int \<Rightarrow> int \<Rightarrow> tag_stat" where
  "sample_tag_stat adv isp_pub =
     \<lparr>ts_prev_hour_stat = ZERO_TAG_HOUR_STAT,
      ts_current_hour_stat = \<lparr>th_isp_pub_amount = isp_pub, th_adv_amount = adv, th_adv_comm_amount = 0\<rparr>\<rparr>"

definition sample_tag_stats :: "(nat, tag_stat) std_map" where
  "sample_tag_stats = [(1, sample_tag_stat 300 30), (2, sample_tag_stat 200 100), (3, sample_tag_stat 100 90)]"

lemma sample_tags:
  "collect_priorities (nb_dec sample_number) sample_account 0 100 [] sample_tag_stats None = Done [(10, 3, 100), (50, 2, 200), (90, 1, 300)]"
  "throttle_tags sample_number sample_account 0 100 (9 :: int) 400 [] sample_tag_stats None =
     Some (100, Some ([(2, 5000), (3, 0)], [(3, \<lparr>te_time = 9, te_priority = 10, te_adv_amount = 100\<rparr>)]))"
  by code_simp+

lemma sample_tags_ok: "map_ok sample_tag_stats" "\<forall>e\<in>set sample_tag_stats. tag_amounts_ok (snd e)" "saved_ok None"
  by (simp_all add: sample_tag_stats_def sample_tag_stat_def tag_amounts_ok_def saved_ok_def ZERO_TAG_HOUR_STAT_def)

theorem delivery_within_limit_witness:
  "planned [(2, 5000), (3, 0)] [(10, 3, 100), (50, 2, 200), (90, 1, 300)] \<le> 400 * int TAG_DELIVERY_MAX \<and>
   delivered [(2, 5000), (3, 0)] 2 = 5000"
  using delivery_within_limit [OF sample_number_laws _ _ _ sample_tags_ok sample_tags] by (simp add: delivered_def)

theorem prediction_is_partial_witness:
  "(100 :: int) = 400 - adv_sum (filter (\<lambda>e. delivered [(2, 5000), (3, 0)] (fst (snd e)) = TAG_DELIVERY_MAX)
     [(10, 3, 100), (50, 2, 200), (90, 1, 300)])"
  using prediction_is_partial [OF sample_number_laws _ _ _ sample_tags_ok sample_tags]
  by (simp add: delivered_def TAG_DELIVERY_MAX_def)

section \<open>The campaign\<close>


end
