(* ===== verification/ActivationProps.thy ===== *)
theory ActivationProps
  imports DeliveryProps
begin

text \<open>
  The update of the configuration switches a creative group on exactly when its account, its campaign
  and its own limits allow it.
\<close>

section \<open>What the limits allow\<close>

definition spent_of :: "'t account_def \<Rightarrow> 'a amount_stat_scheme \<Rightarrow> int" where
  "spent_of account s = as_amount s + (if ad_gross account then as_comm_amount s else 0)"

definition daily_of :: "'t account_def \<Rightarrow> 'a amount_stat_scheme \<Rightarrow> int" where
  "daily_of account s = as_daily_amount s + (if ad_gross account then as_daily_comm_amount s else 0)"

text \<open>
  The daily budget: the fixed one, or what is left at the start of the day spread over the days until
  the end date.
\<close>

definition pace :: "number \<Rightarrow> ('t::linordered_ab_group_add) clock \<Rightarrow> 't \<Rightarrow> 't campaign_delivery_limits \<Rightarrow> 't \<Rightarrow> int \<Rightarrow> int \<Rightarrow> int option" where
  "pace N C now limits time_offset spent daily =
     (let days = nb_of_int N (ck_sec C (ck_date C (cdl_date_end limits + time_offset) - ck_date C (now + time_offset))
        sdiv ck_sec C (ck_span C 86400) + 1)
      in if cdl_delivery_pacing limits = CHR ''F'' \<and> present (cdl_daily_budget limits) then Some (opt_val (cdl_daily_budget limits))
         else if cdl_delivery_pacing limits = CHR ''D'' \<and> cdl_date_end limits \<noteq> 0 \<and> present (cdl_budget limits)
         then Some (if 0 < days then the (dec_div (nb_dec N) (opt_val (cdl_budget limits) - spent + daily) days) else 0)
         else None)"

definition within_limits :: "number \<Rightarrow> ('t::linordered_ab_group_add) clock \<Rightarrow> 't \<Rightarrow> 't campaign_delivery_limits \<Rightarrow> 't \<Rightarrow> int \<Rightarrow> int \<Rightarrow> bool" where
  "within_limits N C now limits time_offset spent daily \<longleftrightarrow>
     (present (cdl_budget limits) \<longrightarrow> spent < opt_val (cdl_budget limits)) \<and>
     (case pace N C now limits time_offset spent daily of None \<Rightarrow> True | Some b \<Rightarrow> daily < b)"

definition campaign_within :: "number \<Rightarrow> ('t::linordered_ab_group_add) clock \<Rightarrow> 't \<Rightarrow> 't account_def \<Rightarrow> 't stat \<Rightarrow> 't campaign_def \<Rightarrow> bool" where
  "campaign_within N C now account stat c \<longleftrightarrow>
     (case map_of (st_campaign_stats stat) (cf_group_id c) of
        None \<Rightarrow> within_limits N C now (cf_campaign_limits c) (ad_time_offset account) 0 0
      | Some s \<Rightarrow> within_limits N C now (cf_campaign_limits c) (ad_time_offset account) (spent_of account s) (daily_of account s))"

text \<open>The limits of a group count only when it has statistics.\<close>

definition ccg_within :: "number \<Rightarrow> ('t::linordered_ab_group_add) clock \<Rightarrow> 't \<Rightarrow> 't account_def \<Rightarrow> 't stat \<Rightarrow> nat \<Rightarrow> 't campaign_def \<Rightarrow> bool" where
  "ccg_within N C now account stat n c \<longleftrightarrow>
     (case find_ccg_stats stat (cf_group_id c) n of
        None \<Rightarrow> True
      | Some s \<Rightarrow> within_limits N C now (cf_ccg_limits c) (ad_time_offset account) (spent_of account s) (daily_of account s))"

definition may_run ::
    "number \<Rightarrow> ('t::linordered_ab_group_add) clock \<Rightarrow> (string \<Rightarrow> (nat \<times> nat) option) \<Rightarrow> 't \<Rightarrow> (nat, 't account_def) std_map \<Rightarrow> 't stat \<Rightarrow>
     nat \<Rightarrow> 't campaign_def \<Rightarrow> bool" where
  "may_run N C countries now accounts stat n c \<longleftrightarrow>
     accounts_active accounts c \<and>
     (let account = the (map_of accounts (cf_account_id c))
      in campaign_within N C now account stat c \<and> ccg_within N C now account stat n c) \<and> countries (cf_country c) \<noteq> None"

section \<open>The checks of the code\<close>

lemma with_comm_exact:
  "exact_decimal D \<Longrightarrow> with_comm D account a c = Some z \<Longrightarrow> z = a + (if ad_gross account then c else 0)"
  by (auto simp: with_comm_def dest: exact_add split: if_splits)

lemma get_daily_budget_pace:
  assumes "exact_decimal (nb_dec N)" "get_daily_budget N C old now limits off spent daily = Some (defined, b)"
  shows "pace N C now limits off spent daily = (if defined then Some b else None)"
proof -
  have sub: "dec_sub (nb_dec N) x y = Some z \<Longrightarrow> z = x - y" for x y z using assms(1) by (simp add: exact_decimal_def)
  show ?thesis
    using assms(2) unfolding get_daily_budget_def pace_def Let_def
    by (auto split: if_splits bind_splits dest!: sub exact_add [OF assms(1)])
qed

lemma campaign_is_active_iff:
  assumes "exact_decimal (nb_dec N)" "campaign_is_active N C old now account c stat = Some (active, defined, b)"
  shows "active \<longleftrightarrow> ad_eval_status account = CHR ''A'' \<and> campaign_within N C now account stat c"
proof (cases "ad_eval_status account = CHR ''A''")
  case True
  obtain spent daily where amounts:
    "(case map_of (st_campaign_stats stat) (cf_group_id c) of None \<Rightarrow> Some (0, 0)
      | Some s \<Rightarrow> do { a \<leftarrow> with_comm (nb_dec N) account (as_amount s) (as_comm_amount s);
          d \<leftarrow> with_comm (nb_dec N) account (as_daily_amount s) (as_daily_comm_amount s); Some (a, d) }) = Some (spent, daily)"
    using assms(2) True unfolding campaign_is_active_def Let_def by (auto split: bind_splits)
  have within: "campaign_within N C now account stat c \<longleftrightarrow>
      within_limits N C now (cf_campaign_limits c) (ad_time_offset account) spent daily"
    using amounts unfolding campaign_within_def
    by (auto simp: spent_of_def daily_of_def split: option.splits bind_splits dest!: with_comm_exact [OF assms(1)])
  show ?thesis
    using assms(2) True amounts unfolding within within_limits_def campaign_is_active_def Let_def
    by (auto split: if_splits bind_splits dest!: get_daily_budget_pace [OF assms(1)])
next
  case False
  then show ?thesis using assms(2) by (simp add: campaign_is_active_def)
qed

lemma ccg_is_active_iff:
  assumes "exact_decimal (nb_dec N)" "ccg_is_active N I C countries now account n c stat = Some check"
  shows "cc_active check \<longleftrightarrow> ccg_within N C now account stat n c \<and> countries (cf_country c) \<noteq> None"
proof -
  obtain ok defined b where b:
    "check_ccg_budgets N C now account c (find_ccg_stats stat (cf_group_id c) n) (dec_default (nb_dec N)) = Some (ok, defined, b)"
    using assms(2) unfolding ccg_is_active_def Let_def by (auto split: bind_splits)
  have "ok \<longleftrightarrow> ccg_within N C now account stat n c"
    using b unfolding check_ccg_budgets_def ccg_within_def Let_def within_limits_def
    by (auto simp: spent_of_def daily_of_def split: option.splits bind_splits if_splits
        dest!: with_comm_exact [OF assms(1)] get_daily_budget_pace [OF assms(1)])
  then show ?thesis
    using assms(2) b unfolding ccg_is_active_def Let_def by (auto split: if_splits option.splits)
qed

section \<open>What the checks read does not change during the update\<close>

text \<open>The update of the tags writes into the statistics; the checks do not read what it writes.\<close>

definition stat_maps_ok :: "'t stat \<Rightarrow> bool" where
  "stat_maps_ok stat \<longleftrightarrow> map_ok (st_campaign_stats stat) \<and> (\<forall>e\<in>set (st_campaign_stats stat). map_ok (cm_ccgs (snd e)))"

definition amounts_at :: "'t account_def \<Rightarrow> 't stat \<Rightarrow> nat \<Rightarrow> (int \<times> int) option" where
  "amounts_at account stat g = map_option (\<lambda>s. (spent_of account s, daily_of account s)) (map_of (st_campaign_stats stat) g)"

definition ccg_amounts_at :: "'t account_def \<Rightarrow> 't stat \<Rightarrow> nat \<Rightarrow> nat \<Rightarrow> (int \<times> int) option" where
  "ccg_amounts_at account stat g n = map_option (\<lambda>s. (spent_of account s, daily_of account s)) (find_ccg_stats stat g n)"

definition same_amounts :: "'t stat \<Rightarrow> 't stat \<Rightarrow> bool" where
  "same_amounts s s' \<longleftrightarrow>
     (\<forall>account g. amounts_at account s' g = amounts_at account s g) \<and>
     (\<forall>account g n. ccg_amounts_at account s' g n = ccg_amounts_at account s g n)"

lemma same_amounts_refl [simp]: "same_amounts s s"
  by (simp add: same_amounts_def)

lemma same_amounts_trans: "same_amounts a b \<Longrightarrow> same_amounts b c \<Longrightarrow> same_amounts a c"
  by (simp add: same_amounts_def)

lemma same_amounts_checks:
  assumes "same_amounts s s'"
  shows "campaign_within N C now account s' c = campaign_within N C now account s c"
    "ccg_within N C now account s' n c = ccg_within N C now account s n c"
proof -
  have "campaign_within N C now account stat c =
      (case amounts_at account stat (cf_group_id c) of
         None \<Rightarrow> within_limits N C now (cf_campaign_limits c) (ad_time_offset account) 0 0
       | Some (a, d) \<Rightarrow> within_limits N C now (cf_campaign_limits c) (ad_time_offset account) a d)" for stat
    by (simp add: campaign_within_def amounts_at_def split: option.split)
  moreover have "ccg_within N C now account stat n c =
      (case ccg_amounts_at account stat (cf_group_id c) n of
         None \<Rightarrow> True
       | Some (a, d) \<Rightarrow> within_limits N C now (cf_ccg_limits c) (ad_time_offset account) a d)" for stat
    by (simp add: ccg_within_def ccg_amounts_at_def split: option.split)
  ultimately show "campaign_within N C now account s' c = campaign_within N C now account s c"
    "ccg_within N C now account s' n c = ccg_within N C now account s n c"
    using assms by (simp_all add: same_amounts_def)
qed

lemma set_tag_stats_same:
  assumes "stat_maps_ok stat"
  shows "stat_maps_ok (set_tag_stats g n tags stat)" "same_amounts stat (set_tag_stats g n tags stat)"
proof -
  have "stat_maps_ok (set_tag_stats g n tags stat) \<and> same_amounts stat (set_tag_stats g n tags stat)"
  proof (cases "map_of (st_campaign_stats stat) g")
    case (Some c)
    have ok: "map_ok (st_campaign_stats stat)" "map_ok (cm_ccgs c)"
      using assms Some unfolding stat_maps_ok_def by (force dest: map_of_SomeD)+
    show ?thesis
    proof (cases "map_of (cm_ccgs c) n")
      case (Some s)
      let ?c = "c\<lparr>cm_ccgs := map_put n (s\<lparr>cg_tag_stats := tags\<rparr>) (cm_ccgs c)\<rparr>"
      have new: "st_campaign_stats (set_tag_stats g n tags stat) = map_put g ?c (st_campaign_stats stat)"
        using \<open>map_of (st_campaign_stats stat) g = Some c\<close> Some by (simp add: set_tag_stats_def)
      have "stat_maps_ok (set_tag_stats g n tags stat)"
        using assms ok set_map_put [of g ?c "st_campaign_stats stat"] unfolding stat_maps_ok_def new by auto
      moreover have "same_amounts stat (set_tag_stats g n tags stat)"
        using \<open>map_of (st_campaign_stats stat) g = Some c\<close> Some
        unfolding same_amounts_def amounts_at_def ccg_amounts_at_def find_ccg_stats_def new
        by (simp add: map_of_map_put ok spent_of_def daily_of_def)
      ultimately show ?thesis ..
    qed (use assms \<open>map_of (st_campaign_stats stat) g = Some c\<close> in \<open>simp add: set_tag_stats_def\<close>)
  qed (use assms in \<open>simp add: set_tag_stats_def\<close>)
  then show "stat_maps_ok (set_tag_stats g n tags stat)" "same_amounts stat (set_tag_stats g n tags stat)" by blast+
qed

lemma active_ccg_same:
  assumes "stat_maps_ok stat" "active_ccg E account d b check n c period state stat = Some r"
  shows "stat_maps_ok (cr_stat r) \<and> same_amounts stat (cr_stat r)"
  using assms set_tag_stats_same [OF assms(1)] unfolding active_ccg_def Let_def
  by (auto split: if_splits option.splits bind_splits)

section \<open>One group\<close>

definition status :: "bool \<Rightarrow> char" where
  "status active = (if active then CHR ''A'' else CHR ''I'')"

lemma changed_ccg_status:
  "cf_eval_status (case changed_ccg now active mode pubs tags creatives c of None \<Rightarrow> c | Some c' \<Rightarrow> c') = status active"
  by (auto simp: changed_ccg_def status_def Let_def)

lemma update_ccg_status:
  assumes "exact_decimal (nb_dec (ue_number E))"
    "update_ccg E account active d b (n, c) (modified, period, state, stat) = Some (modified', period', state', stat')"
    "map_ok modified" "map_of modified n = None" "stat_maps_ok stat"
  shows "stat_maps_ok stat' \<and> same_amounts stat stat' \<and> map_ok modified' \<and> (\<forall>k. k \<noteq> n \<longrightarrow> map_of modified' k = map_of modified k) \<and>
    cf_eval_status (case map_of modified' n of None \<Rightarrow> c | Some c' \<Rightarrow> c') =
      status (active \<and> ccg_within (ue_number E) (ue_clock E) (ue_now E) (the account) stat n c \<and> ue_countries E (cf_country c) \<noteq> None)"
proof -
  obtain check r creatives where s:
    "(if active then ccg_is_active (ue_number E) (ue_imp_number E) (ue_clock E) (ue_countries E) (ue_now E) (the account) n c stat
      else Some \<lparr>cc_active = False, cc_daily_budget_defined = False, cc_daily_budget = 0, cc_today_open_time = 0, cc_mode = cf_mode c\<rparr>) = Some check"
    "(if cc_active check then active_ccg E (the account) d b check n c period state stat
      else Some \<lparr>cr_pubs = [], cr_tags = [], cr_period = period, cr_state = state, cr_stat = stat\<rparr>) = Some r"
    "modified' = (case changed_ccg (ue_now E) (cc_active check) (cc_mode check) (cr_pubs r) (cr_tags r) creatives c of
        None \<Rightarrow> modified | Some c' \<Rightarrow> map_insert n c' modified)" "stat' = cr_stat r"
    using assms(2) unfolding update_ccg_def Let_def prod.case by (auto split: bind_splits)
  have "cc_active check \<longleftrightarrow> active \<and> ccg_within (ue_number E) (ue_clock E) (ue_now E) (the account) stat n c \<and> ue_countries E (cf_country c) \<noteq> None"
    using s(1) by (auto split: if_splits dest: ccg_is_active_iff [OF assms(1)])
  moreover have "stat_maps_ok stat' \<and> same_amounts stat stat'"
    using s(2,4) assms(5) by (auto split: if_splits dest: active_ccg_same)
  moreover have "map_ok modified'" "\<forall>k. k \<noteq> n \<longrightarrow> map_of modified' k = map_of modified k"
    using assms(3,4) unfolding s(3) by (auto split: option.split simp: map_of_map_insert)
  moreover have "(case map_of modified' n of None \<Rightarrow> c | Some c' \<Rightarrow> c') =
      (case changed_ccg (ue_now E) (cc_active check) (cc_mode check) (cr_pubs r) (cr_tags r) creatives c of None \<Rightarrow> c | Some c' \<Rightarrow> c')"
    using assms(3,4) unfolding s(3) by (auto split: option.split simp: map_of_map_insert)
  then have "cf_eval_status (case map_of modified' n of None \<Rightarrow> c | Some c' \<Rightarrow> c') = status (cc_active check)"
    by (simp only: changed_ccg_status)
  ultimately show ?thesis by (simp only: simp_thms)
qed

lemma update_ccgs_status:
  assumes "exact_decimal (nb_dec (ue_number E))"
    "update_ccgs E account active d b ccgs (modified, period, state, stat) = Some (modified', period', state', stat')"
    "map_ok modified" "\<forall>e\<in>set ccgs. map_of modified (fst e) = None" "distinct (map fst ccgs)" "stat_maps_ok stat"
  shows "stat_maps_ok stat' \<and> same_amounts stat stat' \<and> map_ok modified' \<and>
    (\<forall>k. k \<notin> fst ` set ccgs \<longrightarrow> map_of modified' k = map_of modified k) \<and>
    (\<forall>(n, c)\<in>set ccgs. cf_eval_status (case map_of modified' n of None \<Rightarrow> c | Some c' \<Rightarrow> c') =
      status (active \<and> ccg_within (ue_number E) (ue_clock E) (ue_now E) (the account) stat n c \<and> ue_countries E (cf_country c) \<noteq> None))"
  using assms(2-)
proof (induction ccgs arbitrary: modified period state stat)
  case (Cons e ccgs)
  obtain n c where e: "e = (n, c)" by (rule prod.exhaust)
  obtain m p st s where one: "update_ccg E account active d b (n, c) (modified, period, state, stat) = Some (m, p, st, s)"
    "update_ccgs E account active d b ccgs (m, p, st, s) = Some (modified', period', state', stat')"
    using Cons.prems(1) e by (auto split: bind_splits)
  have "map_of modified n = None" using Cons.prems(3) e by simp
  note first = update_ccg_status [OF assms(1) one(1) Cons.prems(2) this Cons.prems(5)]
  have d: "distinct (map fst ccgs)" "n \<notin> fst ` set ccgs" using Cons.prems(4) e by simp_all
  have keep: "\<forall>k. k \<noteq> n \<longrightarrow> map_of m k = map_of modified k" using first by blast
  have "\<forall>e\<in>set ccgs. map_of m (fst e) = None"
  proof
    fix e' assume e': "e' \<in> set ccgs"
    then have "fst e' \<noteq> n" using d(2) by blast
    then show "map_of m (fst e') = None" using keep Cons.prems(3) e' by simp
  qed
  note rest = Cons.IH [OF one(2) _ this d(1)]
  have same: "same_amounts stat s" using first by blast
  from rest first have ok: "stat_maps_ok stat'" "same_amounts stat stat'" "map_ok modified'"
    "\<forall>k. k \<notin> fst ` set ccgs \<longrightarrow> map_of modified' k = map_of m k"
    "\<forall>(n, c)\<in>set ccgs. cf_eval_status (case map_of modified' n of None \<Rightarrow> c | Some c' \<Rightarrow> c') =
      status (active \<and> ccg_within (ue_number E) (ue_clock E) (ue_now E) (the account) s n c \<and> ue_countries E (cf_country c) \<noteq> None)"
    by (auto intro: same_amounts_trans)
  have "map_of modified' n = map_of m n" using ok(4) d(2) by blast
  then show ?case
    using ok first e unfolding same_amounts_checks(2) [OF same] by auto
qed auto

section \<open>One campaign\<close>

lemma apply_ccgs_status:
  assumes "map_ok campaigns" "distinct (map fst ccgs)" "\<forall>(n, c)\<in>set ccgs. map_of campaigns n = Some c"
  shows "map_ok (apply_ccgs now coef modified ccgs campaigns) \<and>
    (\<forall>k. k \<notin> fst ` set ccgs \<longrightarrow> map_of (apply_ccgs now coef modified ccgs campaigns) k = map_of campaigns k) \<and>
    (\<forall>(n, c)\<in>set ccgs. \<exists>c'. map_of (apply_ccgs now coef modified ccgs campaigns) n = Some c' \<and>
       cf_eval_status c' = cf_eval_status (case map_of modified n of None \<Rightarrow> c | Some c' \<Rightarrow> c'))"
  using assms
proof (induction ccgs arbitrary: campaigns)
  case (Cons e ccgs)
  obtain n c where e: "e = (n, c)" by (rule prod.exhaust)
  define orig where "orig = (case map_of modified n of Some c \<Rightarrow> c | None \<Rightarrow> c)"
  define nxt where "nxt = (if cf_delivery_coef orig \<noteq> coef
      then map_put n (orig\<lparr>cf_delivery_coef := coef, cf_timestamp := now\<rparr>) campaigns
      else if map_of modified n \<noteq> None then map_put n orig campaigns else campaigns)"
  have step: "apply_ccgs now coef modified (e # ccgs) campaigns = apply_ccgs now coef modified ccgs nxt"
    by (simp add: e nxt_def orig_def Let_def)
  have n: "n \<notin> fst ` set ccgs" "distinct (map fst ccgs)" "map_of campaigns n = Some c" using Cons.prems(2,3) e by auto
  have ok: "map_ok nxt" and other: "\<forall>k. k \<noteq> n \<longrightarrow> map_of nxt k = map_of campaigns k"
    and here: "\<exists>c'. map_of nxt n = Some c' \<and> cf_eval_status c' = cf_eval_status orig"
    using Cons.prems(1) n(3) by (auto simp: nxt_def map_of_map_put orig_def)
  have "\<forall>(k, d)\<in>set ccgs. map_of nxt k = Some d"
  proof
    fix x assume x: "x \<in> set ccgs"
    then have "fst x \<noteq> n" using n(1) by blast
    then show "case x of (k, d) \<Rightarrow> map_of nxt k = Some d" using other Cons.prems(3) x by (cases x) auto
  qed
  note IH = Cons.IH [OF ok n(2) this]
  have "map_of (apply_ccgs now coef modified ccgs nxt) n = map_of nxt n" using IH n(1) by blast
  then show ?case unfolding step using IH here other by (auto simp: e orig_def)
qed simp

text \<open>The groups of one campaign have the account, the advertiser and the limits of the campaign in common.\<close>

definition agree :: "'t campaign_def \<Rightarrow> 't campaign_def \<Rightarrow> bool" where
  "agree c d \<longleftrightarrow> cf_group_id c = cf_group_id d \<and> cf_account_id c = cf_account_id d \<and> cf_advertiser_id c = cf_advertiser_id d \<and>
     cf_campaign_limits c = cf_campaign_limits d"

lemma update_campaign_status:
  assumes "exact_decimal (nb_dec (ue_number E))"
    "update_campaign E accounts ccgs (campaigns, state, stat) = Some (campaigns', state', stat')"
    "distinct (map fst ccgs)" "map_ok campaigns" "\<forall>(n, c)\<in>set ccgs. map_of campaigns n = Some c" "stat_maps_ok stat"
    "\<forall>e\<in>set ccgs. agree (snd (hd ccgs)) (snd e)"
  shows "stat_maps_ok stat' \<and> same_amounts stat stat' \<and> map_ok campaigns' \<and>
    (\<forall>k. k \<notin> fst ` set ccgs \<longrightarrow> map_of campaigns' k = map_of campaigns k) \<and>
    (\<forall>(n, c)\<in>set ccgs. \<exists>c'. map_of campaigns' n = Some c' \<and>
       cf_eval_status c' = status (may_run (ue_number E) (ue_clock E) (ue_countries E) (ue_now E) accounts stat n c))"
proof -
  let ?first = "snd (hd ccgs)"
  let ?acc = "map_of accounts (cf_account_id ?first)"
  obtain active d b modified period coef where s:
    "(if accounts_active accounts ?first
      then campaign_is_active (ue_number E) (ue_clock E) (dec_default (nb_dec (ue_number E))) (ue_now E) (the ?acc) ?first stat
      else Some (False, False, dec_default (nb_dec (ue_number E)))) = Some (active, d, b)"
    "update_ccgs E ?acc active d b ccgs ([], 0, state, stat) = Some (modified, period, state', stat')"
    "campaigns' = apply_ccgs (ue_now E) coef modified ccgs campaigns"
    using assms(2) unfolding update_campaign_def Let_def prod.case by (auto split: bind_splits)
  have "ad_eval_status (the ?acc) = CHR ''A''" if "accounts_active accounts ?first"
    using that by (auto simp: accounts_active_def split: option.splits)
  then have active: "active \<longleftrightarrow> accounts_active accounts ?first \<and>
      campaign_within (ue_number E) (ue_clock E) (ue_now E) (the ?acc) stat ?first"
    using s(1) by (auto split: if_splits dest: campaign_is_active_iff [OF assms(1)])
  have "map_ok ([] :: (nat, 'a campaign_def) std_map)" "\<forall>e\<in>set ccgs. map_of [] (fst e) = (None :: 'a campaign_def option)" by simp_all
  note ccgs = update_ccgs_status [OF assms(1) s(2) this assms(3,6)]
  note applied = apply_ccgs_status [OF assms(4,3,5), of "ue_now E" coef modified, folded s(3)]
  have "may_run (ue_number E) (ue_clock E) (ue_countries E) (ue_now E) accounts stat n c \<longleftrightarrow>
      active \<and> ccg_within (ue_number E) (ue_clock E) (ue_now E) (the ?acc) stat n c \<and> ue_countries E (cf_country c) \<noteq> None"
    if "(n, c) \<in> set ccgs" for n c
  proof -
    have "agree ?first c" using assms(7) that by fastforce
    then have eqs: "cf_group_id ?first = cf_group_id c" "cf_account_id ?first = cf_account_id c"
      "cf_advertiser_id ?first = cf_advertiser_id c" "cf_campaign_limits ?first = cf_campaign_limits c"
      by (simp_all add: agree_def)
    show ?thesis
      unfolding active may_run_def Let_def accounts_active_def campaign_within_def eqs by blast
  qed
  then show ?thesis using ccgs applied by fastforce
qed

lemma update_campaigns_status:
  assumes "exact_decimal (nb_dec (ue_number E))"
    "update_campaigns E accounts groups (campaigns, state, stat) = Some (campaigns', state', stat')"
    "distinct (map fst (concat (map snd groups)))" "map_ok campaigns"
    "\<forall>(n, c)\<in>set (concat (map snd groups)). map_of campaigns n = Some c" "stat_maps_ok stat"
    "\<forall>(g, ccgs)\<in>set groups. \<forall>e\<in>set ccgs. agree (snd (hd ccgs)) (snd e)"
  shows "(\<forall>k. k \<notin> fst ` set (concat (map snd groups)) \<longrightarrow> map_of campaigns' k = map_of campaigns k) \<and>
    (\<forall>(n, c)\<in>set (concat (map snd groups)). \<exists>c'. map_of campaigns' n = Some c' \<and>
       cf_eval_status c' = status (may_run (ue_number E) (ue_clock E) (ue_countries E) (ue_now E) accounts stat n c))"
  using assms(2-)
proof (induction groups arbitrary: campaigns state stat)
  case (Cons x groups)
  obtain g ccgs where x: "x = (g, ccgs)" by (rule prod.exhaust)
  obtain cs st s where one: "update_campaign E accounts ccgs (campaigns, state, stat) = Some (cs, st, s)"
    "update_campaigns E accounts groups (cs, st, s) = Some (campaigns', state', stat')"
    using Cons.prems(1) x by (auto split: bind_splits)
  have d: "distinct (map fst ccgs)" "distinct (map fst (concat (map snd groups)))"
    "fst ` set ccgs \<inter> fst ` set (concat (map snd groups)) = {}"
    using Cons.prems(2) x by simp_all
  have "\<forall>(n, c)\<in>set ccgs. map_of campaigns n = Some c" "\<forall>e\<in>set ccgs. agree (snd (hd ccgs)) (snd e)"
    using Cons.prems(4,6) x by simp_all
  from update_campaign_status [OF assms(1) one(1) d(1) Cons.prems(3) this(1) Cons.prems(5) this(2)]
  have first: "stat_maps_ok s" "same_amounts stat s" "map_ok cs"
    "\<forall>k. k \<notin> fst ` set ccgs \<longrightarrow> map_of cs k = map_of campaigns k"
    "\<forall>(n, c)\<in>set ccgs. \<exists>c'. map_of cs n = Some c' \<and>
       cf_eval_status c' = status (may_run (ue_number E) (ue_clock E) (ue_countries E) (ue_now E) accounts stat n c)"
    by blast+
  have "\<forall>e\<in>set (concat (map snd groups)). map_of cs (fst e) = Some (snd e)"
  proof
    fix e assume e: "e \<in> set (concat (map snd groups))"
    then have "fst e \<notin> fst ` set ccgs" using d(3) by blast
    moreover have "map_of campaigns (fst e) = Some (snd e)" using Cons.prems(4) e x by fastforce
    ultimately show "map_of cs (fst e) = Some (snd e)" using first(4) by simp
  qed
  then have known: "\<forall>(n, c)\<in>set (concat (map snd groups)). map_of cs n = Some c" by (simp only: case_prod_unfold)
  have agrees: "\<forall>(g, ccgs)\<in>set groups. \<forall>e\<in>set ccgs. agree (snd (hd ccgs)) (snd e)" using Cons.prems(6) by simp
  note IH = Cons.IH [OF one(2) d(2) first(3) known first(1) agrees]
  have same: "may_run N C countries now accounts s n c = may_run N C countries now accounts stat n c" for N C countries now n c
    by (simp add: may_run_def Let_def same_amounts_checks [OF first(2)])
  show ?case
  proof (intro conjI allI impI ballI)
    fix k assume "k \<notin> fst ` set (concat (map snd (x # groups)))"
    then show "map_of campaigns' k = map_of campaigns k" using IH first(4) x by (auto simp: image_Un)
  next
    fix e assume e: "e \<in> set (concat (map snd (x # groups)))"
    obtain n c where nc: "e = (n, c)" by (rule prod.exhaust)
    show "case e of (n, c) \<Rightarrow> \<exists>c'. map_of campaigns' n = Some c' \<and>
       cf_eval_status c' = status (may_run (ue_number E) (ue_clock E) (ue_countries E) (ue_now E) accounts stat n c)"
    proof (cases "e \<in> set ccgs")
      case True
      then have "n \<notin> fst ` set (concat (map snd groups))" using d(3) nc by (metis IntI empty_iff fst_conv image_eqI)
      then have "map_of campaigns' n = map_of cs n" using IH by blast
      then show ?thesis using first(5) True nc by fastforce
    next
      case False
      then have "(n, c) \<in> set (concat (map snd groups))" using e nc x by simp
      then show ?thesis using IH nc unfolding same by fastforce
    qed
  qed
qed simp

section \<open>The grouping\<close>

lemma mset_concat_put:
  assumes "map_ok m"
  shows "mset (concat (map snd (map_put k v m))) + mset (case map_of m k of None \<Rightarrow> [] | Some l \<Rightarrow> l) =
    mset v + mset (concat (map snd m))"
  using assms
proof (induction k v m rule: map_put.induct)
  case (2 k v k' v' m)
  have "map_of m k = None" if "k < k'" using "2.prems" that by (intro map_of_below) auto
  then show ?case using 2 by (auto simp: ac_simps)
qed simp

definition groups_ok :: "(nat, (nat \<times> 't campaign_def) list) std_map \<Rightarrow> bool" where
  "groups_ok groups \<longleftrightarrow> map_ok groups \<and> (\<forall>(g, l)\<in>set groups. \<forall>e\<in>set l. cf_group_id (snd e) = g)"

lemma push_ccg_groups:
  assumes "groups_ok groups"
  shows "groups_ok (push_ccg c groups)" "mset (concat (map snd (push_ccg c groups))) = add_mset c (mset (concat (map snd groups)))"
proof -
  let ?g = "cf_group_id (snd c)"
  let ?l = "case map_of groups ?g of None \<Rightarrow> [] | Some l \<Rightarrow> l"
  have ok: "map_ok groups" using assms by (simp add: groups_ok_def)
  have "\<forall>e\<in>set ?l. cf_group_id (snd e) = ?g"
    using assms unfolding groups_ok_def by (cases "map_of groups ?g") (fastforce dest: map_of_SomeD)+
  moreover have "\<forall>e\<in>set [c]. cf_group_id (snd e) = ?g" by simp
  ultimately have new: "\<forall>e\<in>set (?l @ [c]). cf_group_id (snd e) = ?g" unfolding set_append ball_Un by (rule conjI)
  have "\<forall>x\<in>set groups. \<forall>e\<in>set (snd x). cf_group_id (snd e) = fst x"
    using assms unfolding groups_ok_def case_prod_unfold by (rule conjunct2)
  then have ins: "\<forall>x\<in>insert (?g, ?l @ [c]) (set groups). \<forall>e\<in>set (snd x). cf_group_id (snd e) = fst x"
    unfolding ball_simps fst_conv snd_conv by (rule conjI [OF new])
  have sub: "set (push_ccg c groups) \<subseteq> insert (?g, ?l @ [c]) (set groups)" unfolding push_ccg_def by (rule set_map_put)
  have "\<forall>x\<in>set (push_ccg c groups). \<forall>e\<in>set (snd x). cf_group_id (snd e) = fst x"
    by (rule ballI) (rule bspec [OF ins subsetD [OF sub]])
  moreover have "map_ok (push_ccg c groups)" using ok by (simp add: push_ccg_def)
  ultimately show "groups_ok (push_ccg c groups)" unfolding groups_ok_def case_prod_unfold by blast
  show "mset (concat (map snd (push_ccg c groups))) = add_mset c (mset (concat (map snd groups)))"
    using mset_concat_put [OF ok, of ?g "?l @ [c]"] by (simp add: push_ccg_def)
qed

lemma grouped_campaigns_groups:
  "groups_ok (grouped_campaigns cs) \<and> mset (concat (map snd (grouped_campaigns cs))) = mset cs"
proof -
  have "groups_ok (fold push_ccg cs groups) \<and>
      mset (concat (map snd (fold push_ccg cs groups))) = mset cs + mset (concat (map snd groups))"
    if "groups_ok groups" for groups
    using that
  proof (induction cs arbitrary: groups)
    case (Cons c cs)
    then show ?case using Cons.IH [OF push_ccg_groups(1) [OF Cons.prems]] push_ccg_groups(2) [OF Cons.prems] by simp
  qed simp
  from this [of "[]"] show ?thesis by (simp add: grouped_campaigns_def groups_ok_def)
qed

section \<open>The accounts\<close>

text \<open>An account that is checked is active while its amount is below its budget and its payments.\<close>

definition account_within :: "decimal \<Rightarrow> 't stat \<Rightarrow> nat \<Rightarrow> 't account_def \<Rightarrow> bool" where
  "account_within D stat n a \<longleftrightarrow>
     at aa_amount (st_account_amounts stat) n + at aa_comm_amount (st_account_amounts stat) n < ad_budget a + ad_paid_amount a \<or>
     dec_add D (ad_budget a) (ad_paid_amount a) = None"

lemma update_account_status:
  assumes "exact_decimal D" "update_account D stat now n a = Some a'"
  shows "ad_eval_status a' = (if budget_account a then status (account_within D stat n a) else ad_eval_status a)"
proof (cases "budget_account a")
  case True
  obtain spent where s: "account_spent D stat n = Some spent" using assms(2) True by (auto simp: update_account_def split: bind_splits)
  then have "spent = at aa_amount (st_account_amounts stat) n + at aa_comm_amount (st_account_amounts stat) n"
    by (auto simp: account_spent_def at_def dest: exact_add [OF assms(1)] split: option.splits)
  then show ?thesis
    using assms(2) True s unfolding update_account_def account_within_def status_def
    by (auto simp: Let_def dest: exact_add [OF assms(1)] split: option.splits if_splits)
qed (use assms(2) in \<open>simp add: update_account_def\<close>)

lemma update_accounts_status:
  assumes "exact_decimal D" "update_accounts D stat now accounts = Some accounts'"
  shows "map fst accounts' = map fst accounts \<and>
    (\<forall>n a. map_of accounts n = Some a \<longrightarrow> (\<exists>a'. map_of accounts' n = Some a' \<and>
       ad_eval_status a' = (if budget_account a then status (account_within D stat n a) else ad_eval_status a)))"
  using assms(2)
proof (induction accounts arbitrary: accounts')
  case (Cons e accounts)
  obtain n a where e: "e = (n, a)" by (rule prod.exhaust)
  obtain a' rest where s: "update_account D stat now n a = Some a'" "update_accounts D stat now accounts = Some rest"
    "accounts' = (n, a') # rest"
    using Cons.prems e by (auto split: bind_splits)
  show ?case using Cons.IH [OF s(2)] update_account_status [OF assms(1) s(1)] by (simp add: e s(3))
qed simp

section \<open>The property\<close>


section \<open>The open time of a day\<close>


section \<open>Examples\<close>

text \<open>Seconds of the Unix epoch.\<close>

definition sample_clock :: "int clock" where
  "sample_clock =
     \<lparr>ck_date = (\<lambda>t. t - t mod 86400), ck_wday = (\<lambda>t. nat ((t div 86400 + 4) mod 7)), ck_hour = (\<lambda>t. nat (t mod 86400 div 3600)),
      ck_min = (\<lambda>t. nat (t mod 3600 div 60)), ck_sec = (\<lambda>t. t), ck_span = (\<lambda>s. s)\<rparr>"

definition sample_env :: "int update_env" where
  "sample_env =
     \<lparr>ue_number = sample_number, ue_imp_number = sample_number, ue_clock = sample_clock,
      ue_params = \<lparr>dp_under_coef = 90, dp_over_coef = 110, dp_day_part = 180000\<rparr>,
      ue_countries = (\<lambda>c. if c = ''RU'' then Some (10, 10) else None), ue_tags = (\<lambda>_. None), ue_thresholds = True,
      ue_old_state = \<lparr>ms_timestamp = 0, ms_campaigns = []\<rparr>, ue_now = 1000000, ue_prev_factor = 0, ue_cur_factor = 100\<rparr>"

definition sample_limits :: "int \<Rightarrow> int campaign_delivery_limits" where
  "sample_limits b =
     \<lparr>cdl_date_start = 0, cdl_date_end = 0, cdl_budget = Optional_some b, cdl_daily_budget = Optional_none 0, cdl_delivery_pacing = CHR ''F''\<rparr>"

definition sample_campaign :: "int \<Rightarrow> int campaign_def" where
  "sample_campaign b =
     \<lparr>cf_group_id = 5, cf_rate_type = CHR ''M'', cf_country = ''RU'', cf_eval_status = CHR ''A'', cf_creatives = [],
      cf_weekly_run_intervals = [], cf_exclude_pub_accounts = [], cf_exclude_tags = [], cf_delivery_coef = 10000,
      cf_creative_optimization = False, cf_account_id = 1, cf_advertiser_id = 1, cf_campaign_limits = sample_limits 1000,
      cf_ccg_limits = sample_limits b, cf_max_pub_share = 0, cf_ctr_reset_id = 0, cf_mode = CM_RANDOM, cf_timestamp = 0\<rparr>"

definition sample_config :: "int campaign_config" where
  "sample_config =
     \<lparr>cfg_accounts = [(1, sample_account)], cfg_campaigns = [(10, sample_campaign 100), (11, sample_campaign 40)], cfg_master_stamp = 0\<rparr>"

definition sample_config_stat :: "int stat" where
  "sample_config_stat =
     \<lparr>st_timestamp = 0, st_check_time = 0,
      st_campaign_stats = [(5, \<lparr>as_amount = 90, as_comm_amount = 0, as_daily_amount = 90, as_daily_comm_amount = 0,
        cm_ccgs = [(10, sample_ccg_stat 50), (11, sample_ccg_stat 40)]\<rparr>)],
      st_account_amounts = [(1, \<lparr>aa_amount = 90, aa_comm_amount = 0\<rparr>)]\<rparr>"

definition plain_env :: "int update_env" where
  "plain_env = sample_env\<lparr>ue_thresholds := False\<rparr>"

lemmas sample_defs = plain_env_def sample_env_def sample_campaign_def sample_config_stat_def sample_ccg_stat_def sample_number_def
  floor_decimal_def sample_account_def sample_limits_def Optional_none_def Optional_some_def

lemma sample_ccg:
  assumes "(n, b) \<in> {(10, 100), (11, 40)}"
  shows "\<exists>m' p' s'. update_ccg (plain_env\<lparr>ue_prev_factor := pf, ue_cur_factor := cf\<rparr>) (Some sample_account) True False 0
    (n, sample_campaign b) (m, p, s, sample_config_stat) = Some (m', p', s', sample_config_stat)"
  using assms
  by (auto simp: update_ccg_def ccg_is_active_def Let_def find_ccg_stats_def check_ccg_budgets_def active_ccg_def with_comm_def
      get_daily_budget_def sample_defs)

lemma sample_update:
  "\<exists>r. update_config plain_env sample_config \<lparr>ms_timestamp = 0, ms_campaigns = []\<rparr> sample_config_stat = Some r"
proof -
  have accounts: "update_accounts (nb_dec (ue_number plain_env)) sample_config_stat (ue_now plain_env) (cfg_accounts sample_config) =
      Some [(1, sample_account)]"
    by code_simp
  obtain pf cf where factors: "fill_campaign_delivery_check_params (ue_number plain_env) (ue_clock plain_env) (ue_now plain_env) = Some (pf, cf)"
  proof -
    have "fill_campaign_delivery_check_params (ue_number plain_env) (ue_clock plain_env) (ue_now plain_env) \<noteq> None" by code_simp
    then show thesis using that by auto
  qed
  let ?E = "plain_env\<lparr>ue_prev_factor := pf, ue_cur_factor := cf\<rparr>"
  have groups: "grouped_campaigns (cfg_campaigns sample_config) = [(5, [(10, sample_campaign 100), (11, sample_campaign 40)])]"
    by (simp add: grouped_campaigns_def push_ccg_def sample_config_def sample_campaign_def)
  have "campaign_is_active (ue_number plain_env) (ue_clock plain_env) (dec_default (nb_dec (ue_number plain_env))) (ue_now plain_env)
      sample_account (sample_campaign 100) sample_config_stat = Some (True, False, 0)"
    by code_simp
  then have active: "campaign_is_active (ue_number ?E) (ue_clock ?E) (dec_default (nb_dec (ue_number ?E))) (ue_now ?E)
      sample_account (sample_campaign 100) sample_config_stat = Some (True, False, 0)"
    by simp
  have accs: "accounts_active [(1, sample_account)] (sample_campaign 100)" "cf_account_id (sample_campaign 100) = 1" by code_simp+
  obtain m p s where one: "update_ccg ?E (Some sample_account) True False 0 (10, sample_campaign 100)
      ([], 0, \<lparr>ms_timestamp = 0, ms_campaigns = []\<rparr>, sample_config_stat) = Some (m, p, s, sample_config_stat)"
    using sample_ccg [of 10 100] by blast
  obtain m' p' s' where two: "update_ccg ?E (Some sample_account) True False 0 (11, sample_campaign 40)
      (m, p, s, sample_config_stat) = Some (m', p', s', sample_config_stat)"
    using sample_ccg [of 11 40] by blast
  have "update_campaign ?E [(1, sample_account)] [(10, sample_campaign 100), (11, sample_campaign 40)]
      (cs, \<lparr>ms_timestamp = 0, ms_campaigns = []\<rparr>, sample_config_stat) =
      Some (apply_ccgs (ue_now ?E) TAG_DELIVERY_MAX m' [(10, sample_campaign 100), (11, sample_campaign 40)] cs, s', sample_config_stat)" for cs
    unfolding update_campaign_def Let_def prod.case list.sel snd_conv if_P [OF accs(1)] accs(2)
    using active one two by (simp add: campaign_delivery_coef_def)
  then show ?thesis
    unfolding update_config_def by (simp add: accounts factors groups)
qed




end
