(* ===== verification/StatHours.thy ===== *)
theory StatHours
  imports ActivationProps
begin

text \<open>
  \<open>adapt_stat_\<close> of \<open>CampaignConfigModifier.cpp\<close>: before new statistics are added, the stored ones are
  moved to the current hour and day of the time zone of each account.
\<close>

section \<open>Hours and days\<close>

definition shift_tag :: "bool \<Rightarrow> tag_stat \<Rightarrow> tag_stat" where
  "shift_tag next_hour t =
     \<lparr>ts_prev_hour_stat = (if next_hour then ts_current_hour_stat t else ZERO_TAG_HOUR_STAT), ts_current_hour_stat = ZERO_TAG_HOUR_STAT\<rparr>"

text \<open>The hours are starts of hours in the time zone of the account.\<close>

definition roll_ccg :: "('t::minus) clock \<Rightarrow> 't \<Rightarrow> 't \<Rightarrow> ccg_stat \<Rightarrow> ccg_stat" where
  "roll_ccg C acc_hour check_hour s =
     (let s = (if ck_date C acc_hour \<noteq> ck_date C check_hour
               then s\<lparr>as_daily_amount := 0, as_daily_comm_amount := 0,
                      cg_publisher_amounts := map (\<lambda>(k, p). (k, p\<lparr>ps_daily_amount := 0\<rparr>)) (cg_publisher_amounts s)\<rparr>
               else s);
          next_hour = (acc_hour - check_hour = ck_span C 3600)
      in if acc_hour \<noteq> check_hour
         then s\<lparr>cg_prev_hour_amount := (if next_hour then cg_cur_hour_amount s else 0), cg_cur_hour_amount := 0,
                cg_prev_hour_comm_amount := (if next_hour then cg_cur_hour_comm_amount s else 0), cg_cur_hour_comm_amount := 0,
                cg_tag_stats := map (\<lambda>(k, t). (k, shift_tag next_hour t)) (cg_tag_stats s)\<rparr>
         else s)"

definition roll_campaign :: "('t::minus) clock \<Rightarrow> 't \<Rightarrow> 't \<Rightarrow> nat \<Rightarrow> campaign_stat \<Rightarrow> campaign_stat" where
  "roll_campaign C acc_hour check_hour ccg_id c =
     (let c = (if ck_date C acc_hour \<noteq> ck_date C check_hour then c\<lparr>as_daily_amount := 0, as_daily_comm_amount := 0\<rparr> else c)
      in case map_of (cm_ccgs c) ccg_id of
           None \<Rightarrow> c
         | Some s \<Rightarrow> c\<lparr>cm_ccgs := map_put ccg_id (roll_ccg C acc_hour check_hour s) (cm_ccgs c)\<rparr>)"

definition adapt_ccg ::
    "('t::linordered_ab_group_add) clock \<Rightarrow> (nat, 't account_def) std_map \<Rightarrow> 't \<Rightarrow> nat \<times> 't campaign_def \<Rightarrow> 't stat \<Rightarrow> 't stat" where
  "adapt_ccg C accounts now ccg stat =
     (case map_of accounts (cf_account_id (snd ccg)) of
        None \<Rightarrow> stat
      | Some a \<Rightarrow>
          (case map_of (st_campaign_stats stat) (cf_group_id (snd ccg)) of
             None \<Rightarrow> stat
           | Some c \<Rightarrow> stat\<lparr>st_campaign_stats :=
               map_put (cf_group_id (snd ccg))
                 (roll_campaign C (hour_start C (now + ad_time_offset a)) (hour_start C (st_check_time stat + ad_time_offset a)) (fst ccg) c)
                 (st_campaign_stats stat)\<rparr>))"

definition adapt_stat :: "('t::linordered_ab_group_add) clock \<Rightarrow> 't campaign_config \<Rightarrow> 't \<Rightarrow> 't stat \<Rightarrow> 't stat" where
  "adapt_stat C config now stat =
     (fold (adapt_ccg C (cfg_accounts config) now) (cfg_campaigns config) stat)\<lparr>st_check_time := now\<rparr>"

section \<open>What the move does\<close>

lemma find_ccg_put:
  assumes "map_ok (st_campaign_stats stat)"
  shows "find_ccg_stats (stat\<lparr>st_campaign_stats := map_put g c (st_campaign_stats stat)\<rparr>) g' n =
    (if g' = g then map_of (cm_ccgs c) n else find_ccg_stats stat g' n)"
  by (simp add: find_ccg_stats_def map_of_map_put [OF assms])

lemma roll_campaign_lookup:
  assumes "map_ok (cm_ccgs c)"
  shows "map_of (cm_ccgs (roll_campaign C h h' n c)) k =
    (if k = n then map_option (roll_ccg C h h') (map_of (cm_ccgs c) n) else map_of (cm_ccgs c) k)"
    "map_ok (cm_ccgs (roll_campaign C h h' n c))"
  using assms by (auto simp: roll_campaign_def Let_def map_of_map_put split: option.split)

lemma adapt_ccg_keeps:
  assumes "stat_maps_ok stat"
  shows "stat_maps_ok (adapt_ccg C accounts now ccg stat)" "st_check_time (adapt_ccg C accounts now ccg stat) = st_check_time stat"
proof -
  show "st_check_time (adapt_ccg C accounts now ccg stat) = st_check_time stat"
    by (simp add: adapt_ccg_def split: option.split)
  have "stat_maps_ok (stat\<lparr>st_campaign_stats := map_put g (roll_campaign C h h' n c) (st_campaign_stats stat)\<rparr>)"
    if "map_of (st_campaign_stats stat) g = Some c" for g c h h' n
  proof -
    have "map_ok (cm_ccgs c)" using assms that unfolding stat_maps_ok_def by (force dest: map_of_SomeD)
    then have "map_ok (cm_ccgs (roll_campaign C h h' n c))" by (rule roll_campaign_lookup(2))
    then show ?thesis
      using assms set_map_put [of g "roll_campaign C h h' n c" "st_campaign_stats stat"] unfolding stat_maps_ok_def by auto
  qed
  then show "stat_maps_ok (adapt_ccg C accounts now ccg stat)" using assms by (auto simp: adapt_ccg_def split: option.split)
qed

text \<open>One group: its own statistics move, those of the other groups stay.\<close>

lemma adapt_ccg_lookup:
  assumes "stat_maps_ok stat"
  shows "find_ccg_stats (adapt_ccg C accounts now (n, c) stat) g k =
    (case map_of accounts (cf_account_id c) of
       None \<Rightarrow> find_ccg_stats stat g k
     | Some a \<Rightarrow> if g = cf_group_id c \<and> k = n
         then map_option (roll_ccg C (hour_start C (now + ad_time_offset a)) (hour_start C (st_check_time stat + ad_time_offset a)))
           (find_ccg_stats stat g k)
         else find_ccg_stats stat g k)"
proof (cases "map_of accounts (cf_account_id c)")
  case acc: (Some a)
  show ?thesis
  proof (cases "map_of (st_campaign_stats stat) (cf_group_id c)")
    case (Some m)
    have ok: "map_ok (st_campaign_stats stat)" "map_ok (cm_ccgs m)"
      using assms Some unfolding stat_maps_ok_def by (force dest: map_of_SomeD)+
    have old: "find_ccg_stats stat (cf_group_id c) j = map_of (cm_ccgs m) j" for j by (simp add: find_ccg_stats_def Some)
    show ?thesis
      using acc Some old by (simp add: adapt_ccg_def find_ccg_put [OF ok(1)] roll_campaign_lookup [OF ok(2)])
  qed (use acc in \<open>simp add: adapt_ccg_def find_ccg_stats_def\<close>)
qed (simp add: adapt_ccg_def)

lemma fold_adapt_keeps:
  "stat_maps_ok stat \<Longrightarrow> stat_maps_ok (fold (adapt_ccg C accounts now) ccgs stat) \<and>
     st_check_time (fold (adapt_ccg C accounts now) ccgs stat) = st_check_time stat"
  by (induction ccgs arbitrary: stat) (simp_all add: adapt_ccg_keeps)

lemma fold_adapt_other:
  assumes "stat_maps_ok stat" "k \<notin> fst ` set ccgs"
  shows "find_ccg_stats (fold (adapt_ccg C accounts now) ccgs stat) g k = find_ccg_stats stat g k"
  using assms
proof (induction ccgs arbitrary: stat)
  case (Cons e ccgs)
  obtain n c where e: "e = (n, c)" by (rule prod.exhaust)
  have "find_ccg_stats (adapt_ccg C accounts now (n, c) stat) g k = find_ccg_stats stat g k"
    using adapt_ccg_lookup [OF Cons.prems(1)] Cons.prems(2) e by (simp split: option.split)
  then show ?case using Cons.IH [OF adapt_ccg_keeps(1) [OF Cons.prems(1)]] Cons.prems(2) e by simp
qed simp

lemma fold_adapt_lookup:
  assumes "stat_maps_ok stat" "distinct (map fst ccgs)" "(n, c) \<in> set ccgs" "map_of accounts (cf_account_id c) = Some a"
  shows "find_ccg_stats (fold (adapt_ccg C accounts now) ccgs stat) (cf_group_id c) n =
    map_option (roll_ccg C (hour_start C (now + ad_time_offset a)) (hour_start C (st_check_time stat + ad_time_offset a)))
      (find_ccg_stats stat (cf_group_id c) n)"
  using assms(1-3)
proof (induction ccgs arbitrary: stat)
  case (Cons e ccgs)
  note ok = adapt_ccg_keeps [OF Cons.prems(1)]
  show ?case
  proof (cases "e = (n, c)")
    case True
    then have "n \<notin> fst ` set ccgs" using Cons.prems(2) by auto
    then show ?thesis
      using True fold_adapt_other [OF ok(1)] adapt_ccg_lookup [OF Cons.prems(1)] assms(4) by simp
  next
    case False
    then have "(n, c) \<in> set ccgs" "fst e \<noteq> n" using Cons.prems(2,3) by (auto simp: image_iff)
    then show ?thesis
      using Cons.IH [OF ok(1)] Cons.prems(2) adapt_ccg_lookup [OF Cons.prems(1), of C accounts now "fst e" "snd e"] ok(2)
      by (simp split: option.splits)
  qed
qed simp

lemma map_put_same: "map_of m k = Some v \<Longrightarrow> map_ok m \<Longrightarrow> map_put k v m = m"
  by (rule map_ok_ext) (simp_all add: map_of_map_put fun_upd_idem)

lemma roll_same: "roll_ccg C h h s = s"
  by (simp add: roll_ccg_def)

lemma roll_campaign_same: "map_ok (cm_ccgs c) \<Longrightarrow> roll_campaign C h h n c = c"
  by (auto simp: roll_campaign_def roll_same map_put_same split: option.split)

lemma fold_adapt_same:
  assumes "stat_maps_ok stat" "st_check_time stat = now"
  shows "fold (adapt_ccg C accounts now) ccgs stat = stat"
proof -
  have "adapt_ccg C accounts now ccg stat = stat" for ccg
  proof -
    have "map_ok (cm_ccgs c)" if "map_of (st_campaign_stats stat) g = Some c" for g c
      using assms(1) that unfolding stat_maps_ok_def by (force dest: map_of_SomeD)
    then show ?thesis
      using assms by (auto simp: adapt_ccg_def roll_campaign_same map_put_same stat_maps_ok_def split: option.split)
  qed
  then show ?thesis by (induction ccgs) simp_all
qed

section \<open>The property\<close>



end
