(* ===== verification/StatIncrements.thy ===== *)
theory StatIncrements
  imports StatHours "HOL-Library.Product_Lexorder"
begin

text \<open>
  What the log generalizer collects for the campaign servers: \<open>LogGeneralizerStatDef.hpp\<close> and the functions
  \<open>update_creative_log_gen_stat\<close> and \<open>update_cmp_log_gen_stat\<close> of \<open>LogDbSaverImpl.cpp\<close>, both in
  \<open>src/LogProcessing/LogGeneralizer\<close>.

  \<open>D\<close> is \<open>FixedNumber\<close>. \<open>None\<close> is an exception of the decimals or an overflow of a signed counter,
  which C++ leaves undefined. The hash tables are ordered lists here; their order is not used.
\<close>

section \<open>Adding to the value of a key\<close>

text \<open>\<open>m[k] += v\<close>, which starts with a new value when there is none.\<close>

definition add_at :: "('v \<Rightarrow> 'v \<Rightarrow> 'v option) \<Rightarrow> 'v \<Rightarrow> 'k::linorder \<Rightarrow> 'v \<Rightarrow> ('k, 'v) std_map \<Rightarrow> ('k, 'v) std_map option" where
  "add_at add zero k v m = do { x \<leftarrow> add (map_at zero k m) v; Some (map_put k x m) }"

fun add_all :: "('v \<Rightarrow> 'v \<Rightarrow> 'v option) \<Rightarrow> 'v \<Rightarrow> ('k::linorder, 'v) std_map \<Rightarrow> ('k \<times> 'v) list \<Rightarrow> ('k, 'v) std_map option" where
  "add_all add zero m [] = Some m"
| "add_all add zero m ((k, v) # source) = do { m \<leftarrow> add_at add zero k v m; add_all add zero m source }"

context summed
begin

lemma add_at_sums:
  assumes exact "map_fine m" "ok v" "ok zero" "\<forall>f\<in>fields. f zero = 0" "add_at add zero k v m = Some r"
  shows "map_fine r" "f \<in> fields \<Longrightarrow> at f r j = at f m j + (if j = k then f v else 0)"
proof -
  obtain x where x: "add (map_at zero k m) v = Some x" "r = map_put k x m"
    using assms(6) by (auto simp: add_at_def split: bind_splits)
  have old: "ok (map_at zero k m)" using fine_lookup [OF assms(2)] assms(4) by (auto simp: map_at_def split: option.split)
  note new = add_ok [OF assms(1) old assms(3) x(1)] add_adds [OF assms(1) old assms(3) x(1)]
  show "map_fine r" unfolding x(2) using assms(2) new(1) by (rule fine_put)
  have "f (map_at zero k m) = at f m k" if "f \<in> fields" for f
    using that assms(5) by (simp add: map_at_def at_def split: option.split)
  moreover have "map_ok m" using assms(2) by (simp add: map_fine_def)
  ultimately show "at f r j = at f m j + (if j = k then f v else 0)" if "f \<in> fields"
    using new(2) [OF that] that by (simp add: x(2) at_def map_of_map_put)
qed

lemma add_all_sums:
  assumes exact "map_fine m" "\<forall>e\<in>set source. ok (snd e)" "ok zero" "\<forall>f\<in>fields. f zero = 0" "add_all add zero m source = Some r"
  shows "map_fine r \<and> (\<forall>f\<in>fields. \<forall>j. at f r j = at f m j + (\<Sum>e\<leftarrow>source. if j = fst e then f (snd e) else 0))"
  using assms(2,3,6)
proof (induction source arbitrary: m)
  case (Cons e source)
  obtain k v where e: "e = (k, v)" by (rule prod.exhaust)
  obtain m' where m': "add_at add zero k v m = Some m'" "add_all add zero m' source = Some r"
    using Cons.prems(3) by (auto simp: e split: bind_splits)
  have "ok v" using Cons.prems(2) by (simp add: e)
  note s = add_at_sums [OF assms(1) Cons.prems(1) this assms(4,5) m'(1)]
  have src: "\<forall>e\<in>set source. ok (snd e)" using Cons.prems(2) by simp
  show ?case using Cons.IH [OF s(1) src m'(2)] s(2) by (simp add: e)
qed simp

end

text \<open>The entries of an ordered map have different keys.\<close>

lemma sum_list_at: "map_ok m \<Longrightarrow> (\<Sum>e\<leftarrow>m. if j = fst e then f (snd e) else 0) = at f m j"
proof (induction m)
  case (Cons e m)
  have "map_of m (fst e) = None" using Cons.prems by (auto simp: map_of_eq_None_iff)
  then show ?case using Cons by (cases e) (auto simp: at_def)
qed (simp add: at_def)

section \<open>Values of a campaign\<close>

record creative_counts =
  cn_requests :: int
  cn_imps :: int
  cn_clicks :: int
  cn_actions :: int

record tag_amount =
  ta_pub_isp_amount :: int
  ta_adv_amount :: int
  ta_adv_comm_amount :: int

record campaign_value =
  cv_adv_account_amount :: int
  cv_adv_amount :: int
  cv_adv_comm_amount :: int
  cv_adv_payable_comm_amount :: int
  cv_creative_stats :: "(nat, creative_counts) std_map"
  cv_publisher_amounts :: "(nat, int) std_map"
  cv_tag_amounts :: "(nat, tag_amount) std_map"
  cv_ctr_reset_stats :: "(nat, u64) std_map"

text \<open>\<open>sdate\<close>, \<open>adv_sdate\<close>, the account, the campaign and the creative group.\<close>

type_synonym 't stat_key = "'t \<times> 't \<times> nat \<times> nat \<times> nat"

definition long_plus :: "int \<Rightarrow> int \<Rightarrow> int option" where
  "long_plus x y = (if - (2 ^ 63) \<le> x + y \<and> x + y < 2 ^ 63 then Some (x + y) else None)"

definition counts_plus :: "creative_counts \<Rightarrow> creative_counts \<Rightarrow> creative_counts option" where
  "counts_plus x y = do {
     r \<leftarrow> long_plus (cn_requests x) (cn_requests y);
     i \<leftarrow> long_plus (cn_imps x) (cn_imps y);
     c \<leftarrow> long_plus (cn_clicks x) (cn_clicks y);
     a \<leftarrow> long_plus (cn_actions x) (cn_actions y);
     Some \<lparr>cn_requests = r, cn_imps = i, cn_clicks = c, cn_actions = a\<rparr> }"

definition tag_amount_plus :: "decimal \<Rightarrow> tag_amount \<Rightarrow> tag_amount \<Rightarrow> tag_amount option" where
  "tag_amount_plus D x y = do {
     p \<leftarrow> dec_add D (ta_pub_isp_amount x) (ta_pub_isp_amount y);
     a \<leftarrow> dec_add D (ta_adv_amount x) (ta_adv_amount y);
     c \<leftarrow> dec_add D (ta_adv_comm_amount x) (ta_adv_comm_amount y);
     Some \<lparr>ta_pub_isp_amount = p, ta_adv_amount = a, ta_adv_comm_amount = c\<rparr> }"

definition zero_counts :: creative_counts where
  "zero_counts = \<lparr>cn_requests = 0, cn_imps = 0, cn_clicks = 0, cn_actions = 0\<rparr>"

definition zero_tag_amount :: tag_amount where
  "zero_tag_amount = \<lparr>ta_pub_isp_amount = 0, ta_adv_amount = 0, ta_adv_comm_amount = 0\<rparr>"

definition zero_value :: campaign_value where
  "zero_value = \<lparr>cv_adv_account_amount = 0, cv_adv_amount = 0, cv_adv_comm_amount = 0, cv_adv_payable_comm_amount = 0,
     cv_creative_stats = [], cv_publisher_amounts = [], cv_tag_amounts = [], cv_ctr_reset_stats = []\<rparr>"

definition value_plus :: "decimal \<Rightarrow> campaign_value \<Rightarrow> campaign_value \<Rightarrow> campaign_value option" where
  "value_plus D x y = do {
     ac \<leftarrow> dec_add D (cv_adv_account_amount x) (cv_adv_account_amount y);
     am \<leftarrow> dec_add D (cv_adv_amount x) (cv_adv_amount y);
     co \<leftarrow> dec_add D (cv_adv_comm_amount x) (cv_adv_comm_amount y);
     pa \<leftarrow> dec_add D (cv_adv_payable_comm_amount x) (cv_adv_payable_comm_amount y);
     cr \<leftarrow> add_all counts_plus zero_counts (cv_creative_stats x) (cv_creative_stats y);
     pub \<leftarrow> add_all (dec_add D) 0 (cv_publisher_amounts x) (cv_publisher_amounts y);
     t \<leftarrow> add_all (tag_amount_plus D) zero_tag_amount (cv_tag_amounts x) (cv_tag_amounts y);
     r \<leftarrow> add_all (\<lambda>a b. Some (a + b)) 0 (cv_ctr_reset_stats x) (cv_ctr_reset_stats y);
     Some \<lparr>cv_adv_account_amount = ac, cv_adv_amount = am, cv_adv_comm_amount = co, cv_adv_payable_comm_amount = pa,
       cv_creative_stats = cr, cv_publisher_amounts = pub, cv_tag_amounts = t, cv_ctr_reset_stats = r\<rparr> }"

section \<open>Rows of the logs\<close>

record creative_row =
  cw_test :: bool
  cw_walled_garden :: bool
  cw_adv_account_id :: nat
  cw_campaign_id :: nat
  cw_ccg_id :: nat
  cw_cc_id :: nat
  cw_publisher_account_id :: nat
  cw_tag_id :: nat
  cw_ctr_reset_id :: nat
  cw_delivery_threshold :: int
  cw_unverified_imps :: int
  cw_imps :: int
  cw_clicks :: int
  cw_actions :: int
  cw_adv_amount :: int
  cw_adv_comm_amount :: int
  cw_adv_payable_comm_amount :: int
  cw_pub_advcurrency_amount :: int
  cw_isp_advcurrency_amount :: int

record cmp_row =
  pw_adv_account_id :: nat
  pw_campaign_id :: nat
  pw_ccg_id :: nat
  pw_tag_id :: nat
  pw_delivery_threshold :: int
  pw_adv_amount_cmp :: int

text \<open>The increment of one row: its key and value, or nothing for a row that is not counted.\<close>

definition creative_increment :: "decimal \<Rightarrow> 't \<Rightarrow> 't \<Rightarrow> creative_row \<Rightarrow> ('t stat_key \<times> campaign_value) option option" where
  "creative_increment D sdate adv_sdate r =
     (if cw_test r \<or> cw_adv_account_id r = 0 \<or> cw_campaign_id r = 0 \<or> cw_ccg_id r = 0 then Some None
      else do {
        ac \<leftarrow> (if cw_walled_garden r then dec_sub D (cw_adv_amount r) (cw_pub_advcurrency_amount r) else Some (cw_adv_amount r));
        let cr = \<lparr>cn_requests = cw_unverified_imps r, cn_imps = cw_imps r, cn_clicks = cw_clicks r, cn_actions = cw_actions r\<rparr>;
        creatives \<leftarrow> (if cw_cc_id r \<noteq> 0 then add_at counts_plus zero_counts (cw_cc_id r) cr [] else Some []);
        pubs \<leftarrow> (if cw_publisher_account_id r \<noteq> 0 then add_at (dec_add D) 0 (cw_publisher_account_id r) (cw_adv_amount r) [] else Some []);
        pub_isp \<leftarrow> dec_add D (cw_pub_advcurrency_amount r) (cw_isp_advcurrency_amount r);
        tp \<leftarrow> dec_div D pub_isp (cw_delivery_threshold r);
        ta \<leftarrow> dec_div D (cw_adv_amount r) (cw_delivery_threshold r);
        tc \<leftarrow> dec_div D (cw_adv_comm_amount r) (cw_delivery_threshold r);
        tags \<leftarrow> (if cw_tag_id r \<noteq> 0
                then add_at (tag_amount_plus D) zero_tag_amount (cw_tag_id r)
                  \<lparr>ta_pub_isp_amount = tp, ta_adv_amount = ta, ta_adv_comm_amount = tc\<rparr> []
                else Some []);
        resets \<leftarrow> (if cw_ctr_reset_id r \<noteq> 0 then add_at (\<lambda>a b. Some (a + b)) 0 (cw_ctr_reset_id r) (word_of_int (cw_imps r)) [] else Some []);
        Some (Some ((sdate, adv_sdate, cw_adv_account_id r, cw_campaign_id r, cw_ccg_id r),
          \<lparr>cv_adv_account_amount = ac, cv_adv_amount = cw_adv_amount r, cv_adv_comm_amount = cw_adv_comm_amount r,
           cv_adv_payable_comm_amount = cw_adv_payable_comm_amount r, cv_creative_stats = creatives, cv_publisher_amounts = pubs,
           cv_tag_amounts = tags, cv_ctr_reset_stats = resets\<rparr>)) })"

definition cmp_increment :: "decimal \<Rightarrow> 't \<Rightarrow> 't \<Rightarrow> cmp_row \<Rightarrow> ('t stat_key \<times> campaign_value) option option" where
  "cmp_increment D sdate adv_sdate r =
     (if pw_adv_account_id r = 0 \<or> pw_campaign_id r = 0 \<or> pw_ccg_id r = 0 then Some None
      else do {
        ta \<leftarrow> dec_div D (pw_adv_amount_cmp r) (pw_delivery_threshold r);
        tags \<leftarrow> (if pw_tag_id r \<noteq> 0
                then add_at (tag_amount_plus D) zero_tag_amount (pw_tag_id r)
                  \<lparr>ta_pub_isp_amount = 0, ta_adv_amount = ta, ta_adv_comm_amount = 0\<rparr> []
                else Some []);
        Some (Some ((sdate, adv_sdate, pw_adv_account_id r, pw_campaign_id r, pw_ccg_id r),
          zero_value\<lparr>cv_adv_account_amount := pw_adv_amount_cmp r, cv_adv_amount := pw_adv_amount_cmp r, cv_tag_amounts := tags\<rparr>)) })"

section \<open>Sums of values\<close>

definition counts_fields :: "(creative_counts \<Rightarrow> int) set" where
  "counts_fields = {cn_requests, cn_imps, cn_clicks, cn_actions}"

definition tag_amount_fields :: "(tag_amount \<Rightarrow> int) set" where
  "tag_amount_fields = {ta_pub_isp_amount, ta_adv_amount, ta_adv_comm_amount}"

text \<open>Every amount and counter of a value, without the counters of resets, which wrap around.\<close>

definition value_fields :: "(campaign_value \<Rightarrow> int) set" where
  "value_fields = {cv_adv_account_amount, cv_adv_amount, cv_adv_comm_amount, cv_adv_payable_comm_amount} \<union>
     {\<lambda>x. at f (cv_creative_stats x) k | f k. f \<in> counts_fields} \<union>
     {\<lambda>x. at id (cv_publisher_amounts x) k | k. True} \<union>
     {\<lambda>x. at f (cv_tag_amounts x) k | f k. f \<in> tag_amount_fields}"

definition value_ok :: "campaign_value \<Rightarrow> bool" where
  "value_ok x \<longleftrightarrow> map_ok (cv_creative_stats x) \<and> map_ok (cv_publisher_amounts x) \<and> map_ok (cv_tag_amounts x)"

interpretation counts_sum: summed True "\<lambda>_. True" counts_plus counts_fields
  by unfold_locales (auto simp: counts_plus_def long_plus_def counts_fields_def split: bind_splits if_splits)

interpretation tag_amount_sum: summed "exact_decimal D" "\<lambda>_. True" "tag_amount_plus D" tag_amount_fields for D
  by unfold_locales (auto simp: tag_amount_plus_def tag_amount_fields_def exact_decimal_def split: bind_splits)

lemma zero_fields:
  "f \<in> counts_fields \<Longrightarrow> f zero_counts = 0" "g \<in> tag_amount_fields \<Longrightarrow> g zero_tag_amount = 0"
  by (auto simp: counts_fields_def zero_counts_def tag_amount_fields_def zero_tag_amount_def)

lemma add_counts:
  assumes "map_ok m" "map_ok m'" "add_all counts_plus zero_counts m m' = Some r"
  shows "map_ok r" "f \<in> counts_fields \<Longrightarrow> at f r k = at f m k + at f m' k"
  using counts_sum.add_all_sums [of m m' zero_counts r] assms sum_list_at [OF assms(2)] zero_fields
  by (simp_all add: counts_sum.map_fine_def)

lemma add_tag_amounts:
  assumes "exact_decimal D" "map_ok m" "map_ok m'" "add_all (tag_amount_plus D) zero_tag_amount m m' = Some r"
  shows "map_ok r" "f \<in> tag_amount_fields \<Longrightarrow> at f r k = at f m k + at f m' k"
  using tag_amount_sum.add_all_sums [OF assms(1), of m m' zero_tag_amount r] assms sum_list_at [OF assms(3)] zero_fields
  by (simp_all add: tag_amount_sum.map_fine_def)

lemma add_publishers:
  assumes "exact_decimal D" "map_ok m" "map_ok m'" "add_all (dec_add D) 0 m m' = Some r"
  shows "map_ok r" "at id r k = at id m k + at id m' k"
  using reset_sum.add_all_sums [OF assms(1), of m m' 0 r] assms sum_list_at [OF assms(3), where f = id]
  by (simp_all add: reset_sum.map_fine_def)

interpretation value_sum: summed "exact_decimal D" value_ok "value_plus D" value_fields for D
proof -
  have "value_ok z \<and> (\<forall>f\<in>value_fields. f z = f x + f y)"
    if D: "exact_decimal D" and ok: "value_ok x" "value_ok y" and z: "value_plus D x y = Some z" for x y z
  proof -
    note oks = ok [unfolded value_ok_def]
    obtain cr where cr: "add_all counts_plus zero_counts (cv_creative_stats x) (cv_creative_stats y) = Some cr" "cv_creative_stats z = cr"
      using z by (auto simp: value_plus_def split: bind_splits)
    obtain pub where pub: "add_all (dec_add D) 0 (cv_publisher_amounts x) (cv_publisher_amounts y) = Some pub" "cv_publisher_amounts z = pub"
      using z by (auto simp: value_plus_def split: bind_splits)
    obtain t where t: "add_all (tag_amount_plus D) zero_tag_amount (cv_tag_amounts x) (cv_tag_amounts y) = Some t" "cv_tag_amounts z = t"
      using z by (auto simp: value_plus_def split: bind_splits)
    have am: "cv_adv_account_amount z = cv_adv_account_amount x + cv_adv_account_amount y" "cv_adv_amount z = cv_adv_amount x + cv_adv_amount y"
      "cv_adv_comm_amount z = cv_adv_comm_amount x + cv_adv_comm_amount y"
      "cv_adv_payable_comm_amount z = cv_adv_payable_comm_amount x + cv_adv_payable_comm_amount y"
      using z exact_add [OF D] by (auto simp: value_plus_def split: bind_splits)
    note cs = add_counts [OF _ _ cr(1)] and ps = add_publishers [OF D _ _ pub(1)] and ts = add_tag_amounts [OF D _ _ t(1)]
    have "value_ok z" using cs(1) ps(1) ts(1) oks by (simp add: value_ok_def cr(2) pub(2) t(2))
    moreover have "f z = f x + f y" if "f \<in> value_fields" for f
      using that am cs(2) ps(2) ts(2) oks unfolding value_fields_def by (auto simp: cr(2) pub(2) t(2))
    ultimately show ?thesis by blast
  qed
  then show "summed (exact_decimal D) value_ok (value_plus D) value_fields" by unfold_locales blast+
qed

lemma zero_value_fields: "value_ok zero_value" "f \<in> value_fields \<Longrightarrow> f zero_value = 0"
  by (auto simp: value_ok_def zero_value_def value_fields_def at_def)

text \<open>The increment of a row is well formed.\<close>

lemma map_ok_add_at: "map_ok m \<Longrightarrow> add_at add zero k v m = Some r \<Longrightarrow> map_ok r"
  by (auto simp: add_at_def split: bind_splits)

lemma creative_increment_ok: "creative_increment D s a r = Some (Some (k, v)) \<Longrightarrow> value_ok v"
  by (auto simp: creative_increment_def value_ok_def Let_def dest: map_ok_add_at [rotated] split: if_splits bind_splits)

lemma cmp_increment_ok: "cmp_increment D s a r = Some (Some (k, v)) \<Longrightarrow> value_ok v"
  by (auto simp: cmp_increment_def value_ok_def zero_value_def dest: map_ok_add_at [rotated] split: if_splits bind_splits)

end
