(* ===== verification/StatUpload.thy ===== *)
theory StatUpload
  imports StatIncrements
begin

text \<open>
  How the log generalizer and the campaign servers keep the statistics together: \<open>stop_stat_upload\<close>,
  \<open>start_stat_upload\<close> and \<open>get_stat_info\<close> of \<open>LogGeneralizerImpl.cpp\<close>, the savers of \<open>LogDbSaverImpl.cpp\<close>,
  what \<open>LogSaveProcessor.hpp\<close> does with their failures, and the loading of deferred files of
  \<open>CustomLogProcImpl.hpp\<close>; all as one step relation over the interleavings with the campaign servers.

  A collector merges the rows of its files that have the same key; here they stay separate rows. The
  tasks and the waiting for them are the list of the running dumps. An increment that overflows has no
  step.
\<close>

section \<open>Collecting\<close>

datatype log_row = Creative creative_row | Cmp cmp_row

definition row_increment :: "decimal \<Rightarrow> 't \<Rightarrow> 't \<Rightarrow> log_row \<Rightarrow> ('t stat_key \<times> campaign_value) option option" where
  "row_increment D sdate adv_sdate r =
     (case r of Creative r \<Rightarrow> creative_increment D sdate adv_sdate r | Cmp r \<Rightarrow> cmp_increment D sdate adv_sdate r)"

text \<open>The rows by \<open>sdate\<close> and \<open>adv_sdate\<close>.\<close>

type_synonym 't collector = "(('t \<times> 't) \<times> log_row list) list"

record 't lg_client =
  lc_map :: "('t stat_key, campaign_value) std_map"
  lc_start_clear :: 't
  lc_stopped :: bool

text \<open>Deferred rows come with the time of their file.\<close>

definition skips :: "('t::linorder) option \<Rightarrow> 't lg_client \<Rightarrow> bool" where
  "skips intime c \<longleftrightarrow> (case intime of None \<Rightarrow> False | Some t \<Rightarrow> lc_start_clear c \<le> t)"

fun add_to_clients ::
    "decimal \<Rightarrow> ('t::linorder) option \<Rightarrow> 't stat_key \<times> campaign_value \<Rightarrow> (nat, 't lg_client) std_map \<Rightarrow> (nat, 't lg_client) std_map option" where
  "add_to_clients D intime kv [] = Some []"
| "add_to_clients D intime kv ((n, c) # clients) = do {
     m \<leftarrow> (if skips intime c then Some (lc_map c) else add_at (value_plus D) zero_value (fst kv) (snd kv) (lc_map c));
     rest \<leftarrow> add_to_clients D intime kv clients;
     Some ((n, c\<lparr>lc_map := m\<rparr>) # rest) }"

fun add_rows ::
    "decimal \<Rightarrow> ('t::linorder) option \<Rightarrow> 't \<times> 't \<Rightarrow> log_row list \<Rightarrow> (nat, 't lg_client) std_map \<Rightarrow> (nat, 't lg_client) std_map option" where
  "add_rows D intime day [] clients = Some clients"
| "add_rows D intime day (r # rows) clients = do {
     i \<leftarrow> row_increment D (fst day) (snd day) r;
     clients \<leftarrow> (case i of None \<Rightarrow> Some clients | Some kv \<Rightarrow> add_to_clients D intime kv clients);
     add_rows D intime day rows clients }"

fun update_log_gen_stat ::
    "decimal \<Rightarrow> ('t::linorder) option \<Rightarrow> 't collector \<Rightarrow> (nat, 't lg_client) std_map \<Rightarrow> (nat, 't lg_client) std_map option" where
  "update_log_gen_stat D intime [] clients = Some clients"
| "update_log_gen_stat D intime ((day, rows) # collector) clients = do {
     clients \<leftarrow> add_rows D intime day rows clients;
     update_log_gen_stat D intime collector clients }"

definition update_creative_log_gen_stat ::
    "decimal \<Rightarrow> ('t::linorder) option \<Rightarrow> (('t \<times> 't) \<times> creative_row list) list \<Rightarrow> (nat, 't lg_client) std_map \<Rightarrow> (nat, 't lg_client) std_map option" where
  "update_creative_log_gen_stat D intime collector = update_log_gen_stat D intime (map (\<lambda>(day, rows). (day, map Creative rows)) collector)"

definition update_cmp_log_gen_stat ::
    "decimal \<Rightarrow> ('t::linorder) option \<Rightarrow> (('t \<times> 't) \<times> cmp_row list) list \<Rightarrow> (nat, 't lg_client) std_map \<Rightarrow> (nat, 't lg_client) std_map option" where
  "update_cmp_log_gen_stat D intime collector = update_log_gen_stat D intime (map (\<lambda>(day, rows). (day, map Cmp rows)) collector)"

section \<open>Requests of the campaign servers\<close>

definition stop_stat_upload :: "nat \<Rightarrow> (nat, ('t::zero) lg_client) std_map \<Rightarrow> (nat, 't lg_client) std_map" where
  "stop_stat_upload n clients =
     map_put n ((map_at \<lparr>lc_map = [], lc_start_clear = 0, lc_stopped = True\<rparr> n clients)\<lparr>lc_stopped := True\<rparr>) clients"

text \<open>With the clients comes whether the uploads are enabled again; \<open>None\<close> is \<open>CollectionNotStarted\<close>.\<close>

definition start_stat_upload :: "'t \<Rightarrow> nat \<Rightarrow> bool \<Rightarrow> (nat, 't lg_client) std_map \<Rightarrow> ((nat, 't lg_client) std_map \<times> bool) option" where
  "start_stat_upload now n clear clients = do {
     c \<leftarrow> map_of clients n;
     let c = c\<lparr>lc_stopped := False\<rparr>;
     let c = (if clear then c\<lparr>lc_map := [], lc_start_clear := now\<rparr> else c);
     let clients = map_put n c clients;
     Some (clients, \<forall>e\<in>set clients. \<not> lc_stopped (snd e)) }"

record creative_stat_info =
  ci_cc_id :: nat
  ci_requests :: int
  ci_impressions :: int
  ci_clicks :: int
  ci_actions :: int

record 't campaign_stat_info =
  si_sdate :: 't
  si_adv_sdate :: 't
  si_adv_account_id :: nat
  si_campaign_id :: nat
  si_ccg_id :: nat
  si_adv_account_amount :: int
  si_adv_amount :: int
  si_adv_comm_amount :: int
  si_adv_payable_comm_amount :: int
  si_creative_stats :: "creative_stat_info list"
  si_publisher_amounts :: "(nat \<times> int) list"
  si_tag_amounts :: "(nat \<times> tag_amount) list"
  si_ctr_reset_stats :: "(nat \<times> nat) list"

text \<open>The counters travel as \<open>long\<close> and \<open>unsigned long\<close> of CORBA, which have 32 bits.\<close>

definition creative_info :: "nat \<times> creative_counts \<Rightarrow> creative_stat_info" where
  "creative_info e =
     \<lparr>ci_cc_id = fst e, ci_requests = signed_take_bit 31 (cn_requests (snd e)), ci_impressions = signed_take_bit 31 (cn_imps (snd e)),
      ci_clicks = signed_take_bit 31 (cn_clicks (snd e)), ci_actions = signed_take_bit 31 (cn_actions (snd e))\<rparr>"

definition stat_info :: "'t stat_key \<times> campaign_value \<Rightarrow> 't campaign_stat_info" where
  "stat_info e =
     (case e of ((sdate, adv_sdate, account, campaign, ccg), v) \<Rightarrow>
        \<lparr>si_sdate = sdate, si_adv_sdate = adv_sdate, si_adv_account_id = account, si_campaign_id = campaign, si_ccg_id = ccg,
         si_adv_account_amount = cv_adv_account_amount v, si_adv_amount = cv_adv_amount v, si_adv_comm_amount = cv_adv_comm_amount v,
         si_adv_payable_comm_amount = cv_adv_payable_comm_amount v,
         si_creative_stats = map creative_info (cv_creative_stats v), si_publisher_amounts = cv_publisher_amounts v,
         si_tag_amounts = cv_tag_amounts v, si_ctr_reset_stats = map (\<lambda>(n, imps). (n, take_bit 32 (unat imps))) (cv_ctr_reset_stats v)\<rparr>)"

definition get_stat_info ::
    "nat \<Rightarrow> bool \<Rightarrow> (nat, 't lg_client) std_map \<Rightarrow> ('t campaign_stat_info list \<times> (nat, 't lg_client) std_map) option" where
  "get_stat_info n clear clients = do {
     c \<leftarrow> map_of clients n;
     Some (map stat_info (lc_map c), if clear then map_put n (c\<lparr>lc_map := []\<rparr>) clients else clients) }"

section \<open>Saving\<close>

text \<open>The database is not active, or it takes every day of the collector, or only the first ones.\<close>

datatype db_result = Db_saved | Db_not_active | Db_failed nat

datatype save_result = Save_done | Not_active | Operation_deferred | Save_exception string

definition CreativeStatDbSaver_save :: "db_result \<Rightarrow> save_result" where
  "CreativeStatDbSaver_save db = (case db of Db_saved \<Rightarrow> Save_done | Db_not_active \<Rightarrow> Operation_deferred | Db_failed _ \<Rightarrow> Save_exception ''Exception'')"

definition DeferredCreativeStatDbSaver_save :: "db_result \<Rightarrow> save_result" where
  "DeferredCreativeStatDbSaver_save db = (case db of Db_saved \<Rightarrow> Save_done | Db_not_active \<Rightarrow> Not_active | Db_failed _ \<Rightarrow> Save_exception ''Exception'')"

definition CreativeStatPgCsvSaver_save :: "db_result \<Rightarrow> save_result" where
  "CreativeStatPgCsvSaver_save db = (case db of Db_saved \<Rightarrow> Save_done | Db_not_active \<Rightarrow> Operation_deferred | Db_failed _ \<Rightarrow> Save_exception ''PgException'')"

definition DeferredCreativeStatPgCsvSaver_save :: "db_result \<Rightarrow> save_result" where
  "DeferredCreativeStatPgCsvSaver_save db = (case db of Db_saved \<Rightarrow> Save_done | Db_not_active \<Rightarrow> Not_active | Db_failed _ \<Rightarrow> Save_exception ''PgException'')"

text \<open>Where the files of a dump go.\<close>

datatype folder = Unlinked | Kept | Deferred_folder | Error_folder string

definition dump_files :: "save_result \<Rightarrow> folder" where
  "dump_files r =
     (case r of
        Save_done \<Rightarrow> Unlinked
      | Not_active \<Rightarrow> Kept
      | Operation_deferred \<Rightarrow> Deferred_folder
      | Save_exception e \<Rightarrow> Error_folder (if e = ''PgException'' then ''Error/PG'' else ''Error''))"

definition saved_days :: "db_result \<Rightarrow> 't collector \<Rightarrow> 't collector" where
  "saved_days db rows = (case db of Db_saved \<Rightarrow> rows | Db_not_active \<Rightarrow> [] | Db_failed n \<Rightarrow> take n rows)"

definition failed_days :: "db_result \<Rightarrow> 't collector \<Rightarrow> 't collector" where
  "failed_days db rows = (case db of Db_failed n \<Rightarrow> drop n rows | _ \<Rightarrow> [])"

section \<open>Deferred files\<close>

text \<open>
  \<open>check_and_load\<close>: the eldest file first, until the start of a campaign server lies between a file and
  the one loaded before it.
\<close>

fun load_files :: "('t::linorder) list \<Rightarrow> 't \<Rightarrow> ('a \<times> 't) list \<Rightarrow> ('a \<times> 't) list \<Rightarrow> ('a \<times> 't) list \<times> ('a \<times> 't) list" where
  "load_files ts last_time loaded [] = (loaded, [])"
| "load_files ts last_time loaded ((rows, t) # files) =
     (if loaded \<noteq> [] \<and> (\<exists>s\<in>set ts. (s > t \<and> s < last_time) \<or> (s < t \<and> s > last_time))
      then (loaded, (rows, t) # files)
      else load_files ts t (loaded @ [(rows, t)]) files)"

definition min_time :: "('a \<times> ('t::{linorder, zero})) list \<Rightarrow> 't" where
  "min_time files = (case files of [] \<Rightarrow> 0 | (_, t) # rest \<Rightarrow> fold min (map snd rest) t)"

definition check_and_load ::
    "('t::{linorder, zero}) list \<Rightarrow> ('a \<times> 't) list \<Rightarrow> ('a \<times> 't) list \<Rightarrow> ('a \<times> 't) list \<times> ('a \<times> 't) list" where
  "check_and_load ts loaded files = load_files ts (min_time loaded) loaded (sort_key snd files)"

section \<open>The system\<close>

text \<open>
  A campaign server stops the uploads, reads the database and starts them again (\<open>StatDBSource::update\<close>),
  and takes the increments in between. What it has is what it read, with the increments after that.
\<close>

datatype 't phase = Idle | Stopped | Read "'t collector option"

record 't server =
  sv_phase :: "'t phase"
  sv_base :: "'t collector option"
  sv_taken :: "('t stat_key, campaign_value) std_map list"

record 't dump =
  dp_rows :: "'t collector"
  dp_time :: 't
  dp_deferred :: bool

record 't upload =
  up_now :: 't
  up_clients :: "(nat, 't lg_client) std_map"
  up_enabled :: bool
  up_running :: "'t dump list"
  up_saved :: "'t collector"
  up_deferred :: "('t collector \<times> 't) list"
  up_loaded :: "('t collector \<times> 't) list"
  up_rejected :: "('t collector \<times> 't) list"
  up_servers :: "nat \<Rightarrow> 't server"

definition upload_start :: "('t::zero) upload" where
  "upload_start =
     \<lparr>up_now = 0, up_clients = [], up_enabled = True, up_running = [], up_saved = [], up_deferred = [], up_loaded = [], up_rejected = [],
      up_servers = (\<lambda>_. \<lparr>sv_phase = Idle, sv_base = None, sv_taken = []\<rparr>)\<rparr>"

definition end_dump :: "db_result \<Rightarrow> 't dump \<Rightarrow> 't upload \<Rightarrow> 't upload" where
  "end_dump db d st =
     (let result = (if dp_deferred d then DeferredCreativeStatDbSaver_save db else CreativeStatDbSaver_save db);
          st = st\<lparr>up_running := remove1 d (up_running st), up_saved := up_saved st @ saved_days db (dp_rows d)\<rparr>
      in case dump_files result of
           Unlinked \<Rightarrow> st
         | Kept \<Rightarrow> st
         | Deferred_folder \<Rightarrow> st\<lparr>up_deferred := up_deferred st @ [(dp_rows d, dp_time d)]\<rparr>
         | Error_folder _ \<Rightarrow> st\<lparr>up_rejected := up_rejected st @ [(failed_days db (dp_rows d), dp_time d)]\<rparr>)"

inductive upload_step :: "decimal \<Rightarrow> ('t::{linorder, zero}) upload \<Rightarrow> 't upload \<Rightarrow> bool" for D where
  new_dump:
    "up_enabled st \<Longrightarrow> up_now st < now \<Longrightarrow> update_log_gen_stat D None rows (up_clients st) = Some clients \<Longrightarrow>
     upload_step D st (st\<lparr>up_now := now, up_clients := clients,
       up_running := \<lparr>dp_rows = rows, dp_time = now, dp_deferred = False\<rparr> # up_running st\<rparr>)"
| load:
    "check_and_load (map (lc_start_clear \<circ> snd) (up_clients st)) (up_loaded st) (up_deferred st) = (loaded, files) \<Longrightarrow>
     upload_step D st (st\<lparr>up_loaded := loaded, up_deferred := files\<rparr>)"
| deferred_dump:
    "up_enabled st \<Longrightarrow> up_now st < now \<Longrightarrow> up_loaded st \<noteq> [] \<Longrightarrow> rows = concat (map fst (up_loaded st)) \<Longrightarrow>
     update_log_gen_stat D (Some (min_time (up_loaded st))) rows (up_clients st) = Some clients \<Longrightarrow>
     upload_step D st (st\<lparr>up_now := now, up_clients := clients, up_loaded := [],
       up_running := \<lparr>dp_rows = rows, dp_time = now, dp_deferred = True\<rparr> # up_running st\<rparr>)"
| dump_ends:
    "d \<in> set (up_running st) \<Longrightarrow> \<not> (dp_deferred d \<and> db = Db_not_active) \<Longrightarrow> upload_step D st (end_dump db d st)"
| stop:
    "up_running st = [] \<Longrightarrow> sv_phase (up_servers st n) = Idle \<Longrightarrow>
     upload_step D st (st\<lparr>up_clients := stop_stat_upload n (up_clients st), up_enabled := False,
       up_servers := (up_servers st)(n := (up_servers st n)\<lparr>sv_phase := Stopped\<rparr>)\<rparr>)"
| query:
    "sv_phase (up_servers st n) = Stopped \<Longrightarrow> result \<in> {None, Some (up_saved st)} \<Longrightarrow>
     upload_step D st (st\<lparr>up_servers := (up_servers st)(n := (up_servers st n)\<lparr>sv_phase := Read result\<rparr>)\<rparr>)"
| start:
    "sv_phase (up_servers st n) = Read result \<Longrightarrow> up_now st < now \<Longrightarrow>
     start_stat_upload now n (result \<noteq> None) (up_clients st) = Some (clients, started) \<Longrightarrow>
     server = (if result = None then (up_servers st n)\<lparr>sv_phase := Idle\<rparr> else \<lparr>sv_phase = Idle, sv_base = result, sv_taken = []\<rparr>) \<Longrightarrow>
     upload_step D st (st\<lparr>up_now := now, up_clients := clients, up_enabled := started \<or> up_enabled st,
       up_servers := (up_servers st)(n := server)\<rparr>)"
| take:
    "sv_phase (up_servers st n) = Idle \<Longrightarrow> sv_base (up_servers st n) \<noteq> None \<Longrightarrow> map_of (up_clients st) n = Some c \<Longrightarrow>
     get_stat_info n True (up_clients st) = Some (infos, clients) \<Longrightarrow>
     upload_step D st (st\<lparr>up_clients := clients,
       up_servers := (up_servers st)(n := (up_servers st n)\<lparr>sv_taken := sv_taken (up_servers st n) @ [lc_map c]\<rparr>)\<rparr>)"

inductive reachable_upload :: "decimal \<Rightarrow> ('t::{linorder, zero}) upload \<Rightarrow> bool" for D where
  start: "reachable_upload D upload_start"
| step: "reachable_upload D st \<Longrightarrow> upload_step D st st' \<Longrightarrow> reachable_upload D st'"

inductive_cases upload_stepE: "upload_step D st st'"

end
