(* ===== verification/StatUploadProps.thy ===== *)
theory StatUploadProps
  imports StatUpload
begin

text \<open>
  Every row of the logs is counted once: what a campaign server read from the database, took since and can
  still take is what the database has now, with the rows that were collected for it and are not there yet.
\<close>

section \<open>Amounts of rows\<close>

abbreviation "fine_map \<equiv> value_sum.map_fine"

definition row_amount :: "decimal \<Rightarrow> (campaign_value \<Rightarrow> int) \<Rightarrow> 't stat_key \<Rightarrow> 't \<times> 't \<Rightarrow> log_row \<Rightarrow> int" where
  "row_amount D f k day r =
     (case row_increment D (fst day) (snd day) r of Some (Some (j, v)) \<Rightarrow> (if k = j then f v else 0) | _ \<Rightarrow> 0)"

definition rows_amount :: "decimal \<Rightarrow> (campaign_value \<Rightarrow> int) \<Rightarrow> 't stat_key \<Rightarrow> 't collector \<Rightarrow> int" where
  "rows_amount D f k collector = (\<Sum>(day, rows)\<leftarrow>collector. \<Sum>r\<leftarrow>rows. row_amount D f k day r)"

lemma rows_amount_simps [simp]:
  "rows_amount D f k [] = 0" "rows_amount D f k ((day, rows) # c) = (\<Sum>r\<leftarrow>rows. row_amount D f k day r) + rows_amount D f k c"
  "rows_amount D f k (c @ c') = rows_amount D f k c + rows_amount D f k c'"
  by (simp_all add: rows_amount_def)

lemma rows_amount_concat [simp]: "rows_amount D f k (concat cs) = (\<Sum>c\<leftarrow>cs. rows_amount D f k c)"
  by (induction cs) simp_all

lemma rows_amount_days: "rows_amount D f k (saved_days db c) + rows_amount D f k (failed_days db c) =
    (if db = Db_not_active then 0 else rows_amount D f k c)"
proof (cases db)
  case (Db_failed n)
  then show ?thesis using rows_amount_simps(3) [of D f k "take n c" "drop n c"] by (simp add: saved_days_def failed_days_def)
qed (simp_all add: saved_days_def failed_days_def)

lemma row_increment_ok: "row_increment D s a r = Some (Some (k, v)) \<Longrightarrow> value_ok v"
  by (auto simp: row_increment_def dest: creative_increment_ok cmp_increment_ok split: log_row.splits)

section \<open>What an update adds\<close>

definition grown :: "('t::linorder) option \<Rightarrow> ((campaign_value \<Rightarrow> int) \<Rightarrow> 't stat_key \<Rightarrow> int) \<Rightarrow> 't lg_client \<Rightarrow> 't lg_client \<Rightarrow> bool" where
  "grown intime g c c' \<longleftrightarrow>
     lc_start_clear c' = lc_start_clear c \<and> lc_stopped c' = lc_stopped c \<and> fine_map (lc_map c') \<and>
     (\<forall>f\<in>value_fields. \<forall>k. at f (lc_map c') k = at f (lc_map c) k + (if skips intime c then 0 else g f k))"

definition all_grown ::
    "('t::linorder) option \<Rightarrow> ((campaign_value \<Rightarrow> int) \<Rightarrow> 't stat_key \<Rightarrow> int) \<Rightarrow> (nat, 't lg_client) std_map \<Rightarrow> (nat, 't lg_client) std_map \<Rightarrow> bool" where
  "all_grown intime g cl cl' \<longleftrightarrow> list_all2 (\<lambda>e e'. fst e' = fst e \<and> grown intime g (snd e) (snd e')) cl cl'"

definition clients_fine :: "(nat, 't::linorder lg_client) std_map \<Rightarrow> bool" where
  "clients_fine cl \<longleftrightarrow> (\<forall>e\<in>set cl. fine_map (lc_map (snd e)))"

lemma grown_trans: "grown intime g c c' \<Longrightarrow> grown intime h c' c'' \<Longrightarrow> grown intime (\<lambda>f k. g f k + h f k) c c''"
  by (auto simp: grown_def skips_def split: option.splits)

lemma all_grown_trans: "all_grown intime g a b \<Longrightarrow> all_grown intime h b c \<Longrightarrow> all_grown intime (\<lambda>f k. g f k + h f k) a c"
  unfolding all_grown_def by (erule (1) list_all2_trans [rotated]) (auto intro: grown_trans)

lemma all_grown_none: "clients_fine cl \<Longrightarrow> all_grown intime (\<lambda>f k. 0) cl cl"
  by (auto simp: all_grown_def clients_fine_def grown_def intro!: list.rel_refl_strong)

lemma all_grown_fine: "all_grown intime g a b \<Longrightarrow> clients_fine b"
  unfolding all_grown_def clients_fine_def by (induction rule: list_all2_induct) (auto simp: grown_def)

lemma add_to_clients_grown:
  assumes "exact_decimal D" "value_ok (snd kv)" "clients_fine cl" "add_to_clients D intime kv cl = Some cl'"
  shows "all_grown intime (\<lambda>f k. if k = fst kv then f (snd kv) else 0) cl cl'"
  using assms(3,4)
proof (induction cl arbitrary: cl')
  case (Cons e cl)
  obtain n c where e: "e = (n, c)" by (rule prod.exhaust)
  obtain m rest where m: "(if skips intime c then Some (lc_map c) else add_at (value_plus D) zero_value (fst kv) (snd kv) (lc_map c)) = Some m"
    "add_to_clients D intime kv cl = Some rest" "cl' = (n, c\<lparr>lc_map := m\<rparr>) # rest"
    using Cons.prems(2) by (auto simp: e split: bind_splits)
  have fine: "fine_map (lc_map c)" using Cons.prems(1) by (simp add: clients_fine_def e)
  have zero: "\<forall>f\<in>value_fields. f zero_value = 0" using zero_value_fields(2) by blast
  note add = value_sum.add_at_sums [OF assms(1) fine assms(2) zero_value_fields(1) zero]
  have "grown intime (\<lambda>f k. if k = fst kv then f (snd kv) else 0) c (c\<lparr>lc_map := m\<rparr>)"
    using m(1) fine add unfolding grown_def by (auto split: if_splits)
  moreover have "clients_fine cl" using Cons.prems(1) by (simp add: clients_fine_def)
  ultimately show ?case using Cons.IH [OF _ m(2)] by (simp add: all_grown_def e m(3))
qed (simp add: all_grown_def)

lemma add_rows_grown:
  assumes "exact_decimal D" "clients_fine cl" "add_rows D intime day rows cl = Some cl'"
  shows "all_grown intime (\<lambda>f k. \<Sum>r\<leftarrow>rows. row_amount D f k day r) cl cl'"
  using assms(2,3)
proof (induction rows arbitrary: cl)
  case (Cons r rows)
  obtain i where i: "row_increment D (fst day) (snd day) r = Some i" using Cons.prems(2) by (auto split: bind_splits)
  obtain mid where mid: "(case i of None \<Rightarrow> Some cl | Some kv \<Rightarrow> add_to_clients D intime kv cl) = Some mid" "add_rows D intime day rows mid = Some cl'"
    using Cons.prems(2) by (auto simp: i split: bind_splits)
  have "all_grown intime (\<lambda>f k. row_amount D f k day r) cl mid"
  proof (cases i)
    case None
    then show ?thesis using mid(1) all_grown_none [OF Cons.prems(1)] i by (simp add: row_amount_def)
  next
    case (Some kv)
    have "value_ok (snd kv)" using row_increment_ok i Some by (cases kv) auto
    then show ?thesis using add_to_clients_grown [OF assms(1) _ Cons.prems(1)] mid(1) i Some
      by (simp add: row_amount_def split_beta)
  qed
  then show ?case using all_grown_trans Cons.IH [OF all_grown_fine mid(2)] by fastforce
qed (simp add: all_grown_none)

lemma update_log_gen_stat_grown:
  assumes "exact_decimal D" "clients_fine cl" "update_log_gen_stat D intime collector cl = Some cl'"
  shows "all_grown intime (\<lambda>f k. rows_amount D f k collector) cl cl'"
  using assms(2,3)
proof (induction collector arbitrary: cl)
  case (Cons d collector)
  obtain day rows where d: "d = (day, rows)" by (rule prod.exhaust)
  obtain mid where mid: "add_rows D intime day rows cl = Some mid" "update_log_gen_stat D intime collector mid = Some cl'"
    using Cons.prems(2) by (auto simp: d split: bind_splits)
  note one = add_rows_grown [OF assms(1) Cons.prems(1) mid(1)]
  show ?case using all_grown_trans [OF one Cons.IH [OF all_grown_fine [OF one] mid(2)]] by (simp add: d)
qed (simp add: all_grown_none)

lemma all_grown_lookup: "all_grown intime g cl cl' \<Longrightarrow> rel_option (grown intime g) (map_of cl n) (map_of cl' n)"
  unfolding all_grown_def by (induction rule: list_all2_induct) (auto simp: split_beta)

lemma all_grown_keys:
  assumes "all_grown intime g cl cl'"
  shows "map_ok cl' = map_ok cl" "\<forall>e'\<in>set cl'. \<exists>e\<in>set cl. fst e' = fst e \<and> grown intime g (snd e) (snd e')"
    "\<forall>e\<in>set cl. \<exists>e'\<in>set cl'. grown intime g (snd e) (snd e')"
proof -
  have "map fst cl' = map fst cl" using assms unfolding all_grown_def by (induction rule: list_all2_induct) auto
  then show "map_ok cl' = map_ok cl" by (simp add: key_sorted_def)
  show "\<forall>e'\<in>set cl'. \<exists>e\<in>set cl. fst e' = fst e \<and> grown intime g (snd e) (snd e')"
    "\<forall>e\<in>set cl. \<exists>e'\<in>set cl'. grown intime g (snd e) (snd e')"
    using assms unfolding all_grown_def by (induction rule: list_all2_induct) fastforce+
qed

section \<open>Loading deferred files\<close>

definition same_side :: "'t::linorder \<Rightarrow> ('a \<times> 't) list \<Rightarrow> bool" where
  "same_side s files \<longleftrightarrow> (\<forall>x\<in>set files. s \<le> snd x) \<or> (\<forall>x\<in>set files. snd x < s)"

lemma load_files_same_side:
  assumes "load_files ts last_time loaded files = (loaded', files')" "\<forall>s\<in>set ts. same_side s loaded"
    "\<forall>s\<in>set ts. \<forall>x\<in>set (loaded @ files). s \<noteq> snd x" "loaded \<noteq> [] \<longrightarrow> last_time \<in> snd ` set loaded"
  shows "mset (loaded' @ files') = mset (loaded @ files) \<and> (\<forall>s\<in>set ts. same_side s loaded')"
  using assms
proof (induction ts last_time loaded files rule: load_files.induct)
  case (2 ts last_time loaded rows t files)
  show ?case
  proof (cases "loaded \<noteq> [] \<and> (\<exists>s\<in>set ts. (s > t \<and> s < last_time) \<or> (s < t \<and> s > last_time))")
    case False
    have side: "\<forall>s\<in>set ts. same_side s (loaded @ [(rows, t)])"
    proof
      fix s assume s: "s \<in> set ts"
      then have t: "s \<noteq> t" using 2(4) by auto
      show "same_side s (loaded @ [(rows, t)])"
      proof (cases "loaded = []")
        case True
        then show ?thesis by (auto simp: same_side_def)
      next
        case ne: False
        then obtain x where x: "x \<in> set loaded" "last_time = snd x" using 2(5) by auto
        have mid: "\<not> (s > t \<and> s < last_time)" "\<not> (s < t \<and> s > last_time)" using False ne s by blast+
        have "s \<noteq> last_time" using 2(4) s x by auto
        then consider (low) "s < last_time" "s < t" | (high) "last_time < s" "t < s" using mid t by (meson linorder_neqE)
        then show ?thesis
        proof cases
          case low
          then have "\<forall>x\<in>set loaded. s \<le> snd x" using bspec [OF 2(3) s] x unfolding same_side_def by fastforce
          then show ?thesis using low(2) by (auto simp: same_side_def)
        next
          case high
          then have "\<forall>x\<in>set loaded. snd x < s" using bspec [OF 2(3) s] x unfolding same_side_def by fastforce
          then show ?thesis using high(2) by (auto simp: same_side_def)
        qed
      qed
    qed
    have "load_files ts t (loaded @ [(rows, t)]) files = (loaded', files')" using 2(2) False by simp
    from 2(1) [OF False this side] show ?thesis using 2(4) by (auto simp: ac_simps)
  qed (use 2 in auto)
qed auto

lemma min_time_in:
  fixes files :: "('a \<times> 't::{linorder, zero}) list"
  assumes "files \<noteq> []"
  shows "min_time files \<in> snd ` set files"
proof -
  have "fold min ts (t::'t) \<in> insert t (set ts)" for ts t
    by (induction ts arbitrary: t) (auto simp: min_def split: if_splits)
  from this [of "map snd (tl files)" "snd (hd files)"] have "min_time files \<in> insert (snd (hd files)) (set (map snd (tl files)))"
    using assms by (cases files) (auto simp: min_time_def split_beta)
  then show ?thesis using assms by (cases files) auto
qed

section \<open>The invariant\<close>

text \<open>The rows that a client with the start \<open>T\<close> has, although the database does not have them yet.\<close>

definition later :: "'t::linorder \<Rightarrow> ('a \<times> 't) list \<Rightarrow> ('a \<times> 't) list" where
  "later T files = filter (\<lambda>x. T \<le> snd x) files"

definition held :: "decimal \<Rightarrow> (campaign_value \<Rightarrow> int) \<Rightarrow> 't stat_key \<Rightarrow> 't::linorder \<Rightarrow> 't upload \<Rightarrow> int" where
  "held D f k T st =
     (\<Sum>d\<leftarrow>up_running st. rows_amount D f k (dp_rows d)) +
     (\<Sum>x\<leftarrow>later T (up_deferred st @ up_loaded st @ up_rejected st). rows_amount D f k (fst x))"

definition client_ok :: "('t::{linorder, zero}) upload \<Rightarrow> 't lg_client \<Rightarrow> bool" where
  "client_ok st c \<longleftrightarrow>
     fine_map (lc_map c) \<and> lc_start_clear c \<le> up_now st \<and> (\<forall>d\<in>set (up_running st). lc_start_clear c < dp_time d) \<and>
     (\<forall>x\<in>set (up_deferred st) \<union> set (up_loaded st). lc_start_clear c \<noteq> snd x) \<and> same_side (lc_start_clear c) (up_loaded st) \<and>
     (lc_stopped c \<longrightarrow> \<not> up_enabled st)"

definition times_ok :: "('t::{linorder, zero}) upload \<Rightarrow> bool" where
  "times_ok st \<longleftrightarrow>
     0 \<le> up_now st \<and> (\<forall>d\<in>set (up_running st). 0 < dp_time d \<and> dp_time d \<le> up_now st) \<and>
     (\<forall>x\<in>set (up_deferred st) \<union> set (up_loaded st) \<union> set (up_rejected st). 0 < snd x \<and> snd x \<le> up_now st) \<and>
     (\<not> up_enabled st \<longrightarrow> up_running st = [])"

definition phases_ok :: "('t::linorder) upload \<Rightarrow> bool" where
  "phases_ok st \<longleftrightarrow>
     (\<forall>n. sv_phase (up_servers st n) \<noteq> Idle \<longrightarrow> (\<exists>c. map_of (up_clients st) n = Some c \<and> lc_stopped c)) \<and>
     (\<forall>n b. sv_phase (up_servers st n) = Read (Some b) \<longrightarrow> b = up_saved st)"

definition balanced :: "decimal \<Rightarrow> ('t::linorder) upload \<Rightarrow> nat \<Rightarrow> bool" where
  "balanced D st n \<longleftrightarrow>
     (\<forall>b. sv_base (up_servers st n) = Some b \<longrightarrow>
       (\<exists>c. map_of (up_clients st) n = Some c \<and>
         (\<forall>f\<in>value_fields. \<forall>k. rows_amount D f k b + (\<Sum>m\<leftarrow>sv_taken (up_servers st n). at f m k) + at f (lc_map c) k =
           rows_amount D f k (up_saved st) + held D f k (lc_start_clear c) st)))"

definition upload_ok :: "decimal \<Rightarrow> ('t::{linorder, zero}) upload \<Rightarrow> bool" where
  "upload_ok D st \<longleftrightarrow>
     map_ok (up_clients st) \<and> (\<forall>e\<in>set (up_clients st). client_ok st (snd e)) \<and> times_ok st \<and> phases_ok st \<and> (\<forall>n. balanced D st n)"

lemma later_simps [simp]:
  "later T [] = []" "later T (x # xs) = (if T \<le> snd x then x # later T xs else later T xs)" "later T (xs @ ys) = later T xs @ later T ys"
  by (simp_all add: later_def)

lemma later_same_side:
  "same_side T files \<Longrightarrow> files \<noteq> [] \<Longrightarrow> later T files = (if T \<le> min_time files then files else [])"
  using min_time_in [of files] by (auto simp: later_def same_side_def filter_id_conv filter_empty_conv not_le)

lemma held_mset:
  assumes "mset (up_deferred st @ up_loaded st) = mset (up_deferred st' @ up_loaded st')" "up_running st' = up_running st"
    "up_rejected st' = up_rejected st"
  shows "held D f k T st' = held D f k T st"
proof -
  have sums: "(\<Sum>x\<leftarrow>later T files. g x) = sum_mset (image_mset g (filter_mset (\<lambda>x. T \<le> snd x) (mset files)))" for g files
    by (simp add: later_def flip: mset_map mset_filter sum_mset_sum_list)
  have "(\<Sum>x\<leftarrow>later T (up_deferred st @ up_loaded st). rows_amount D f k (fst x)) =
      (\<Sum>x\<leftarrow>later T (up_deferred st' @ up_loaded st'). rows_amount D f k (fst x))"
    unfolding sums by (simp only: assms(1))
  then show ?thesis using assms(2,3) by (simp add: held_def)
qed

lemma balanced_same:
  assumes "balanced D st n" "up_clients st' = up_clients st" "up_servers st' n = up_servers st n"
    "\<And>c f k. map_of (up_clients st) n = Some c \<Longrightarrow>
      rows_amount D f k (up_saved st') + held D f k (lc_start_clear c) st' = rows_amount D f k (up_saved st) + held D f k (lc_start_clear c) st"
  shows "balanced D st' n"
proof (cases "sv_base (up_servers st n)")
  case (Some b)
  then obtain c where "map_of (up_clients st) n = Some c"
    "\<forall>f\<in>value_fields. \<forall>k. rows_amount D f k b + (\<Sum>m\<leftarrow>sv_taken (up_servers st n). at f m k) + at f (lc_map c) k =
      rows_amount D f k (up_saved st) + held D f k (lc_start_clear c) st"
    using assms(1) unfolding balanced_def by blast
  then show ?thesis using assms(2-4) Some unfolding balanced_def by simp
qed (simp add: balanced_def assms(3))

section \<open>The steps keep it\<close>

text \<open>A dump that begins.\<close>

lemma dump_begins_ok:
  assumes "exact_decimal D" "upload_ok D st" "up_enabled st" "up_now st < now" "update_log_gen_stat D intime rows (up_clients st) = Some clients"
    "loaded = (if intime = None then up_loaded st else [])" "intime \<noteq> None \<longrightarrow> intime = Some (min_time (up_loaded st)) \<and> up_loaded st \<noteq> []"
    "intime \<noteq> None \<longrightarrow> rows = concat (map fst (up_loaded st))"
    "st' = st\<lparr>up_now := now, up_clients := clients, up_loaded := loaded,
       up_running := \<lparr>dp_rows = rows, dp_time = now, dp_deferred = def\<rparr> # up_running st\<rparr>"
  shows "upload_ok D st'"
proof -
  have ok: "map_ok (up_clients st)" "\<forall>e\<in>set (up_clients st). client_ok st (snd e)" "times_ok st" "phases_ok st" "\<forall>n. balanced D st n"
    using assms(2) by (simp_all add: upload_ok_def)
  have fine: "clients_fine (up_clients st)" using ok(2) by (simp add: clients_fine_def client_ok_def)
  note grow = update_log_gen_stat_grown [OF assms(1) fine assms(5)]
  note keys = all_grown_keys [OF grow] and look = all_grown_lookup [OF grow]
  have sub: "set loaded \<subseteq> set (up_loaded st)" by (auto simp: assms(6))
  have client: "client_ok st' c'" if "client_ok st c" "grown intime (\<lambda>f k. rows_amount D f k rows) c c'" for c c'
    using that sub assms(3,4) unfolding client_ok_def grown_def assms(9) by (auto simp: same_side_def)
  have "\<forall>e\<in>set (up_clients st'). client_ok st' (snd e)"
    using keys(2) ok(2) client by (fastforce simp: assms(9))
  moreover have "map_ok (up_clients st')" using keys(1) ok(1) by (simp add: assms(9))
  moreover have "times_ok st'"
  proof -
    have up: "x \<le> now" if "x \<le> up_now st" for x using that assms(4) by (rule order.trans [OF _ less_imp_le])
    have pos: "0 < now" using ok(3) assms(4) unfolding times_ok_def by (blast intro: le_less_trans)
    have "0 < snd x \<and> snd x \<le> now" if "x \<in> set (up_deferred st) \<union> set loaded \<union> set (up_rejected st)" for x
      using ok(3) that sub up unfolding times_ok_def by blast
    moreover have "0 < dp_time d \<and> dp_time d \<le> now" if "d \<in> set (up_running st)" for d
      using ok(3) that up unfolding times_ok_def by blast
    ultimately show ?thesis using pos assms(3) by (simp add: times_ok_def assms(9) less_imp_le)
  qed
  moreover have "phases_ok st'"
  proof -
    have "\<exists>c. map_of clients n = Some c \<and> lc_stopped c" if "map_of (up_clients st) n = Some c" "lc_stopped c" for n c
      using look [of n] that by (auto simp: grown_def option_rel_Some1)
    then show ?thesis using ok(4) unfolding phases_ok_def assms(9) by fastforce
  qed
  moreover have "balanced D st' n" for n
  proof (cases "sv_base (up_servers st n)")
    case (Some b)
    obtain c where c: "map_of (up_clients st) n = Some c"
      "\<forall>f\<in>value_fields. \<forall>k. rows_amount D f k b + (\<Sum>m\<leftarrow>sv_taken (up_servers st n). at f m k) + at f (lc_map c) k =
        rows_amount D f k (up_saved st) + held D f k (lc_start_clear c) st"
      using ok(5) Some unfolding balanced_def by blast
    obtain c' where c': "map_of clients n = Some c'" "grown intime (\<lambda>f k. rows_amount D f k rows) c c'"
      using look [of n] c(1) by (auto simp: option_rel_Some1)
    have side: "same_side (lc_start_clear c) (up_loaded st)" using ok(2) c(1) by (force simp: client_ok_def dest: map_of_SomeD)
    have held: "held D f k (lc_start_clear c) st' = held D f k (lc_start_clear c) st + (if skips intime c then 0 else rows_amount D f k rows)" for f k
    proof (cases intime)
      case None
      then show ?thesis by (simp add: held_def assms(6,9) skips_def)
    next
      case i: (Some t)
      have t: "t = min_time (up_loaded st)" "up_loaded st \<noteq> []" "rows = concat (map fst (up_loaded st))" using assms(7,8) i by auto
      show ?thesis using later_same_side [OF side t(2)] by (simp add: held_def assms(6,9) skips_def i t(1,3) comp_def)
    qed
    have "rows_amount D f k b + (\<Sum>m\<leftarrow>sv_taken (up_servers st n). at f m k) + at f (lc_map c') k =
        rows_amount D f k (up_saved st) + held D f k (lc_start_clear c') st'" if "f \<in> value_fields" for f k
    proof -
      have "at f (lc_map c') k = at f (lc_map c) k + (if skips intime c then 0 else rows_amount D f k rows)" "lc_start_clear c' = lc_start_clear c"
        using c'(2) that unfolding grown_def by blast+
      moreover have "rows_amount D f k b + (\<Sum>m\<leftarrow>sv_taken (up_servers st n). at f m k) + at f (lc_map c) k =
          rows_amount D f k (up_saved st) + held D f k (lc_start_clear c) st" using c(2) that by blast
      ultimately show ?thesis using held by simp
    qed
    moreover have "up_servers st' = up_servers st" "up_clients st' = clients" "up_saved st' = up_saved st" by (simp_all add: assms(9))
    ultimately show ?thesis using c'(1) Some unfolding balanced_def by simp
  qed (simp add: balanced_def assms(9))
  ultimately show ?thesis by (simp add: upload_ok_def)
qed

lemma load_ok:
  assumes "upload_ok D st" "check_and_load (map (lc_start_clear \<circ> snd) (up_clients st)) (up_loaded st) (up_deferred st) = (loaded, files)"
    "st' = st\<lparr>up_loaded := loaded, up_deferred := files\<rparr>"
  shows "upload_ok D st'"
proof -
  have ok: "map_ok (up_clients st)" "\<forall>e\<in>set (up_clients st). client_ok st (snd e)" "times_ok st" "phases_ok st" "\<forall>n. balanced D st n"
    using assms(1) by (simp_all add: upload_ok_def)
  let ?ts = "map (lc_start_clear \<circ> snd) (up_clients st)"
  have pre: "\<forall>s\<in>set ?ts. same_side s (up_loaded st)" "\<forall>s\<in>set ?ts. \<forall>x\<in>set (up_loaded st @ sort_key snd (up_deferred st)). s \<noteq> snd x"
    using ok(2) by (auto simp: client_ok_def)
  have "up_loaded st \<noteq> [] \<longrightarrow> min_time (up_loaded st) \<in> snd ` set (up_loaded st)" using min_time_in by blast
  from load_files_same_side [OF assms(2) [unfolded check_and_load_def] pre this]
  have perm: "mset (files @ loaded) = mset (up_deferred st @ up_loaded st)" and side: "\<forall>s\<in>set ?ts. same_side s loaded"
    by (auto simp: ac_simps)
  have sets: "set files \<union> set loaded = set (up_deferred st) \<union> set (up_loaded st)" using mset_eq_setD [OF perm] by simp
  have held: "held D f k T st' = held D f k T st" for f k T
    using perm by (intro held_mset) (simp_all add: assms(3))
  have "\<forall>e\<in>set (up_clients st'). client_ok st' (snd e)" using ok(2) side sets by (auto simp: client_ok_def assms(3))
  moreover have "times_ok st'" using ok(3) sets by (auto simp: times_ok_def assms(3))
  moreover have "phases_ok st'" using ok(4) by (simp add: phases_ok_def assms(3))
  moreover have "\<forall>n. balanced D st' n" using ok(5) by (simp add: balanced_def held) (simp add: assms(3))
  ultimately show ?thesis using ok(1) by (simp add: upload_ok_def assms(3))
qed

lemma dump_ends_ok:
  assumes "upload_ok D st" "d \<in> set (up_running st)" "\<not> (dp_deferred d \<and> db = Db_not_active)"
  shows "upload_ok D (end_dump db d st)"
proof -
  have ok: "map_ok (up_clients st)" "\<forall>e\<in>set (up_clients st). client_ok st (snd e)" "times_ok st" "phases_ok st" "\<forall>n. balanced D st n"
    using assms(1) by (simp_all add: upload_ok_def)
  let ?st = "end_dump db d st"
  define new_deferred where "new_deferred = (if db = Db_not_active then [(dp_rows d, dp_time d)] else [])"
  define new_rejected where "new_rejected = (case db of Db_failed n \<Rightarrow> [(failed_days db (dp_rows d), dp_time d)] | _ \<Rightarrow> [])"
  have st: "?st = st\<lparr>up_running := remove1 d (up_running st), up_saved := up_saved st @ saved_days db (dp_rows d),
      up_deferred := up_deferred st @ new_deferred, up_rejected := up_rejected st @ new_rejected\<rparr>"
    using assms(3) by (cases db) (auto simp: end_dump_def new_deferred_def new_rejected_def Let_def dump_files_def
      DeferredCreativeStatDbSaver_save_def CreativeStatDbSaver_save_def)
  have run: "set (remove1 d (up_running st)) \<subseteq> set (up_running st)" by (rule set_remove1_subset)
  have enabled: "up_enabled st" using ok(3) assms(2) by (auto simp: times_ok_def)
  have new: "\<forall>x\<in>set new_deferred \<union> set new_rejected. snd x = dp_time d"
    by (auto simp: new_deferred_def new_rejected_def split: db_result.splits)
  have early: "\<forall>e\<in>set (up_clients st). lc_start_clear (snd e) < dp_time d" using ok(2) assms(2) by (auto simp: client_ok_def)
  have "client_ok ?st (snd e)" if "e \<in> set (up_clients st)" for e
  proof -
    have "lc_start_clear (snd e) \<noteq> snd x" if "x \<in> set new_deferred" for x
      using new that bspec [OF early \<open>e \<in> set (up_clients st)\<close>] by auto
    then show ?thesis using bspec [OF ok(2) that] run unfolding client_ok_def st by auto
  qed
  moreover have "times_ok ?st"
  proof -
    have "0 < dp_time d \<and> dp_time d \<le> up_now st" using ok(3) assms(2) by (simp add: times_ok_def)
    then have "\<forall>x\<in>set new_deferred \<union> set new_rejected. 0 < snd x \<and> snd x \<le> up_now st" using new by simp
    then show ?thesis using ok(3) run enabled unfolding times_ok_def st by auto
  qed
  moreover have "phases_ok ?st"
  proof -
    have "sv_phase (up_servers st n) = Idle" for n
    proof (rule ccontr)
      assume "sv_phase (up_servers st n) \<noteq> Idle"
      then obtain c where "map_of (up_clients st) n = Some c" "lc_stopped c" using ok(4) by (auto simp: phases_ok_def)
      then show False using ok(2) enabled by (force simp: client_ok_def dest: map_of_SomeD)
    qed
    then show ?thesis by (simp add: phases_ok_def st)
  qed
  moreover have "balanced D ?st n" for n
  proof -
    have moved: "rows_amount D f k (up_saved ?st) + held D f k T ?st = rows_amount D f k (up_saved st) + held D f k T st"
      if "T < dp_time d" for f k T
    proof -
      have "(\<Sum>d\<leftarrow>remove1 d (up_running st). rows_amount D f k (dp_rows d)) + rows_amount D f k (dp_rows d) =
          (\<Sum>d\<leftarrow>up_running st. rows_amount D f k (dp_rows d))"
        using assms(2) by (simp add: sum_list_map_remove1)
      moreover have "rows_amount D f k (saved_days db (dp_rows d)) + (\<Sum>x\<leftarrow>later T (new_deferred @ new_rejected). rows_amount D f k (fst x)) =
          rows_amount D f k (dp_rows d)"
        using that rows_amount_days [of D f k db "dp_rows d"]
        by (cases db) (auto simp: new_deferred_def new_rejected_def saved_days_def failed_days_def)
      ultimately show ?thesis by (simp add: st held_def)
    qed
    have "lc_start_clear c < dp_time d" if "map_of (up_clients st) n = Some c" for c
      using bspec [OF early map_of_SomeD [OF that]] by simp
    from moved [OF this] show ?thesis by (intro balanced_same [OF spec [OF ok(5)]]) (simp_all add: st)
  qed
  ultimately show ?thesis using ok(1) by (simp add: upload_ok_def) (simp add: st)
qed

text \<open>The steps of a campaign server.\<close>

lemma client_change:
  assumes "upload_ok D st" "up_clients st' = map_put n c (up_clients st)" "client_ok st' c"
    "\<And>e. e \<in> set (up_clients st') \<Longrightarrow> fst e \<noteq> n \<Longrightarrow> client_ok st (snd e) \<Longrightarrow> client_ok st' (snd e)"
  shows "map_ok (up_clients st')" "\<forall>e\<in>set (up_clients st'). client_ok st' (snd e)"
proof -
  have ok: "map_ok (up_clients st)" "\<forall>e\<in>set (up_clients st). client_ok st (snd e)" using assms(1) by (simp_all add: upload_ok_def)
  show new: "map_ok (up_clients st')" using ok(1) by (simp add: assms(2))
  show "\<forall>e\<in>set (up_clients st'). client_ok st' (snd e)"
  proof
    fix e assume e: "e \<in> set (up_clients st')"
    then have look: "map_of (up_clients st') (fst e) = Some (snd e)" using map_ok_map_of_iff [OF new] by simp
    show "client_ok st' (snd e)"
    proof (cases "fst e = n")
      case True
      then show ?thesis using look assms(3) ok(1) by (simp add: assms(2) map_of_map_put)
    next
      case False
      then have "map_of (up_clients st) (fst e) = Some (snd e)" using look ok(1) by (simp add: assms(2) map_of_map_put)
      then show ?thesis using assms(4) [OF e False] ok(2) by (force dest: map_of_SomeD)
    qed
  qed
qed

lemma held_same:
  "up_running st' = up_running st \<Longrightarrow> up_deferred st' = up_deferred st \<Longrightarrow> up_loaded st' = up_loaded st \<Longrightarrow>
   up_rejected st' = up_rejected st \<Longrightarrow> held D f k T st' = held D f k T st"
  by (simp add: held_def)

lemma balanced_other:
  assumes "balanced D st m" "m \<noteq> n" "map_ok (up_clients st)" "up_clients st' = map_put n c (up_clients st)"
    "up_servers st' = (up_servers st)(n := s)" "up_saved st' = up_saved st" "\<And>f k T. held D f k T st' = held D f k T st"
  shows "balanced D st' m"
  using assms by (simp add: balanced_def map_of_map_put)

lemma balanced_put:
  assumes "balanced D st n" "map_of (up_clients st) n = Some c" "map_ok (up_clients st)" "up_clients st' = map_put n c' (up_clients st)"
    "up_servers st' = (up_servers st)(n := s)" "sv_base s = sv_base (up_servers st n)" "lc_start_clear c' = lc_start_clear c"
    "up_saved st' = up_saved st" "\<And>f k T. held D f k T st' = held D f k T st"
    "\<And>f k. (\<Sum>m\<leftarrow>sv_taken s. at f m k) + at f (lc_map c') k = (\<Sum>m\<leftarrow>sv_taken (up_servers st n). at f m k) + at f (lc_map c) k"
  shows "balanced D st' n"
proof (cases "sv_base (up_servers st n)")
  case (Some b)
  then have "\<forall>f\<in>value_fields. \<forall>k. rows_amount D f k b + (\<Sum>m\<leftarrow>sv_taken (up_servers st n). at f m k) + at f (lc_map c) k =
      rows_amount D f k (up_saved st) + held D f k (lc_start_clear c) st"
    using assms(1,2) unfolding balanced_def by fastforce
  then have "\<forall>f\<in>value_fields. \<forall>k. rows_amount D f k b + (\<Sum>m\<leftarrow>sv_taken s. at f m k) + at f (lc_map c') k =
      rows_amount D f k (up_saved st') + held D f k (lc_start_clear c') st'"
    by (simp only: add.assoc assms(7-10))
  moreover have "map_of (up_clients st') n = Some c'" "up_servers st' n = s" using assms(3) by (simp_all add: assms(4,5) map_of_map_put)
  ultimately show ?thesis using Some unfolding balanced_def assms(6) by (simp add: assms(6))
qed (simp add: balanced_def assms(5,6))

lemma phases_change:
  assumes "phases_ok st" "map_ok (up_clients st)" "up_clients st' = map_put n c (up_clients st)" "up_servers st' = (up_servers st)(n := s)"
    "up_saved st' = up_saved st" "sv_phase s \<noteq> Idle \<longrightarrow> lc_stopped c" "\<forall>b. sv_phase s = Read (Some b) \<longrightarrow> b = up_saved st"
  shows "phases_ok st'"
  using assms by (simp add: phases_ok_def map_of_map_put)

lemma stop_ok:
  assumes "upload_ok D st" "up_running st = []" "sv_phase (up_servers st n) = Idle"
    "st' = st\<lparr>up_clients := stop_stat_upload n (up_clients st), up_enabled := False,
       up_servers := (up_servers st)(n := (up_servers st n)\<lparr>sv_phase := Stopped\<rparr>)\<rparr>"
  shows "upload_ok D st'"
proof -
  have ok: "map_ok (up_clients st)" "\<forall>e\<in>set (up_clients st). client_ok st (snd e)" "times_ok st" "phases_ok st" "\<forall>n. balanced D st n"
    using assms(1) by (simp_all add: upload_ok_def)
  let ?new = "\<lparr>lc_map = [], lc_start_clear = 0, lc_stopped = True\<rparr>"
  define c where "c = (map_at ?new n (up_clients st))\<lparr>lc_stopped := True\<rparr>"
  have put: "up_clients st' = map_put n c (up_clients st)" by (simp add: assms(4) stop_stat_upload_def c_def)
  have "client_ok st' c"
  proof (cases "map_of (up_clients st) n")
    case None
    then show ?thesis using ok(3) assms(2)
      by (force simp: client_ok_def c_def map_at_def assms(4) times_ok_def same_side_def value_sum.map_fine_def)
  next
    case (Some a)
    then have "client_ok st a" using ok(2) by (force dest: map_of_SomeD)
    then show ?thesis using Some by (simp add: client_ok_def c_def map_at_def assms(4))
  qed
  note change = client_change [OF assms(1) put this]
  have "client_ok st' (snd e)" if "client_ok st (snd e)" for e using that by (simp add: client_ok_def assms(4))
  note change = change [OF this]
  have "times_ok st'" using ok(3) assms(2) by (simp add: times_ok_def assms(4))
  moreover have "phases_ok st'"
    by (rule phases_change [OF ok(4,1) put]) (auto simp: assms(4) c_def)
  moreover have "balanced D st' m" for m
  proof (cases "m = n")
    case True
    have "map_of (up_clients st) n = Some a \<Longrightarrow> lc_map c = lc_map a \<and> lc_start_clear c = lc_start_clear a" for a
      by (simp add: c_def map_at_def)
    moreover have "held D f k T st' = held D f k T st" for f k T by (rule held_same) (simp_all add: assms(4))
    moreover have "up_servers st' n = (up_servers st n)\<lparr>sv_phase := Stopped\<rparr>" "up_saved st' = up_saved st" by (simp_all add: assms(4))
    ultimately show ?thesis using spec [OF ok(5), of n] ok(1) unfolding balanced_def put True by (auto simp: map_of_map_put)
  next
    case False
    show ?thesis by (rule balanced_other [OF spec [OF ok(5)] False ok(1) put]) (auto simp: assms(4) intro: held_same)
  qed
  ultimately show ?thesis using change by (simp add: upload_ok_def)
qed

lemma query_ok:
  assumes "upload_ok D st" "sv_phase (up_servers st n) = Stopped" "result \<in> {None, Some (up_saved st)}"
    "st' = st\<lparr>up_servers := (up_servers st)(n := (up_servers st n)\<lparr>sv_phase := Read result\<rparr>)\<rparr>"
  shows "upload_ok D st'"
proof -
  have ok: "phases_ok st" "\<forall>n. balanced D st n" using assms(1) by (simp_all add: upload_ok_def)
  have "phases_ok st'" using ok(1) assms(2,3) by (auto simp: phases_ok_def assms(4))
  moreover have "held D f k T st' = held D f k T st" for f k T by (rule held_same) (simp_all add: assms(4))
  then have "\<forall>n. balanced D st' n" using ok(2) by (simp add: balanced_def) (simp add: assms(4))
  moreover have "client_ok st' c = client_ok st c" "times_ok st' = times_ok st" for c
    by (simp_all add: client_ok_def times_ok_def assms(4))
  ultimately show ?thesis using assms(1) by (simp add: upload_ok_def) (simp add: assms(4))
qed

lemma start_ok:
  assumes "upload_ok D st" "sv_phase (up_servers st n) = Read result" "up_now st < now"
    "start_stat_upload now n (result \<noteq> None) (up_clients st) = Some (clients, started)"
    "server = (if result = None then (up_servers st n)\<lparr>sv_phase := Idle\<rparr> else \<lparr>sv_phase = Idle, sv_base = result, sv_taken = []\<rparr>)"
    "st' = st\<lparr>up_now := now, up_clients := clients, up_enabled := started \<or> up_enabled st, up_servers := (up_servers st)(n := server)\<rparr>"
  shows "upload_ok D st'"
proof -
  have ok: "map_ok (up_clients st)" "\<forall>e\<in>set (up_clients st). client_ok st (snd e)" "times_ok st" "phases_ok st" "\<forall>n. balanced D st n"
    using assms(1) by (simp_all add: upload_ok_def)
  have "sv_phase (up_servers st n) \<noteq> Idle" using assms(2) by simp
  then obtain c where c: "map_of (up_clients st) n = Some c" "lc_stopped c" using ok(4) unfolding phases_ok_def by blast
  have c_ok: "client_ok st c" using ok(2) map_of_SomeD [OF c(1)] by force
  have off: "\<not> up_enabled st" "up_running st = []" using c_ok c(2) ok(3) by (auto simp: client_ok_def times_ok_def)
  define c' where "c' = (if result \<noteq> None then c\<lparr>lc_stopped := False, lc_map := [], lc_start_clear := now\<rparr> else c\<lparr>lc_stopped := False\<rparr>)"
  have put: "up_clients st' = map_put n c' (up_clients st)" and started: "started \<longleftrightarrow> (\<forall>e\<in>set (up_clients st'). \<not> lc_stopped (snd e))"
    using assms(4) c(1) by (auto simp: assms(6) start_stat_upload_def c'_def Let_def split: if_splits)
  have files: "up_running st' = []" "up_deferred st' = up_deferred st" "up_loaded st' = up_loaded st" "up_rejected st' = up_rejected st"
    "up_saved st' = up_saved st" "up_now st' = now" "up_servers st' = (up_servers st)(n := server)" "up_enabled st' = started"
    using off by (simp_all add: assms(6))
  have past: "snd x < now" if "x \<in> set (up_deferred st) \<union> set (up_loaded st) \<union> set (up_rejected st)" for x
    using ok(3) that assms(3) unfolding times_ok_def by (meson le_less_trans)
  have up: "x \<le> now" if "x \<le> up_now st" for x using that assms(3) by (rule order.trans [OF _ less_imp_le])
  have "client_ok st' c'"
  proof (cases result)
    case None
    then show ?thesis using c_ok up by (simp add: client_ok_def files c'_def)
  next
    case (Some b)
    have "\<forall>x\<in>set (up_deferred st) \<union> set (up_loaded st). now \<noteq> snd x" using past by blast
    moreover have "same_side now (up_loaded st)" using past by (simp add: same_side_def)
    ultimately show ?thesis using Some by (simp add: client_ok_def files c'_def value_sum.map_fine_def)
  qed
  moreover have "client_ok st' (snd e)" if "e \<in> set (up_clients st')" "client_ok st (snd e)" for e
    using that up started by (auto simp: client_ok_def files)
  ultimately have clients: "map_ok (up_clients st')" "\<forall>e\<in>set (up_clients st'). client_ok st' (snd e)"
    using client_change [OF assms(1) put] by blast+
  have "times_ok st'"
  proof -
    have "0 \<le> now" using ok(3) up by (simp add: times_ok_def)
    then show ?thesis using ok(3) past unfolding times_ok_def files by (simp add: less_imp_le)
  qed
  moreover have "phases_ok st'" by (rule phases_change [OF ok(4,1) put, where s = server]) (auto simp: files assms(5))
  moreover have held: "held D f k T st' = held D f k T st" for f k T by (rule held_same) (simp_all add: files off)
  have "balanced D st' m" for m
  proof (cases "m = n")
    case True
    show ?thesis
    proof (cases result)
      case None
      then show ?thesis unfolding True
        by (intro balanced_put [OF spec [OF ok(5)] c(1) ok(1) put, where s = server]) (simp_all add: held files assms(5) c'_def)
    next
      case (Some b)
      have "b = up_saved st" using ok(4) assms(2) Some by (simp add: phases_ok_def)
      moreover have "later now (up_deferred st @ up_loaded st @ up_rejected st) = []"
        using past by (auto simp: later_def filter_empty_conv not_le)
      then have "held D f k now st' = 0" for f k by (simp add: held_def files)
      ultimately show ?thesis using Some ok(1) unfolding balanced_def put True
        by (simp add: map_of_map_put files assms(5) c'_def at_def)
    qed
  next
    case False
    show ?thesis by (rule balanced_other [OF spec [OF ok(5)] False ok(1) put]) (simp_all add: files held)
  qed
  ultimately show ?thesis using clients by (simp add: upload_ok_def)
qed

lemma take_ok:
  assumes "upload_ok D st" "map_of (up_clients st) n = Some c" "get_stat_info n True (up_clients st) = Some (infos, clients)"
    "st' = st\<lparr>up_clients := clients,
       up_servers := (up_servers st)(n := (up_servers st n)\<lparr>sv_taken := sv_taken (up_servers st n) @ [lc_map c]\<rparr>)\<rparr>"
  shows "upload_ok D st'"
proof -
  have ok: "map_ok (up_clients st)" "\<forall>e\<in>set (up_clients st). client_ok st (snd e)" "times_ok st" "phases_ok st" "\<forall>n. balanced D st n"
    using assms(1) by (simp_all add: upload_ok_def)
  have put: "up_clients st' = map_put n (c\<lparr>lc_map := []\<rparr>) (up_clients st)" using assms(2,3) by (auto simp: assms(4) get_stat_info_def)
  have c_ok: "client_ok st c" using ok(2) map_of_SomeD [OF assms(2)] by force
  have same: "client_ok st' = client_ok st" "times_ok st' = times_ok st" by (simp_all add: client_ok_def times_ok_def assms(4) fun_eq_iff)
  have "client_ok st' (c\<lparr>lc_map := []\<rparr>)" using c_ok unfolding same by (simp add: client_ok_def value_sum.map_fine_def)
  note clients = client_change [OF assms(1) put this, unfolded same]
  have held: "held D f k T st' = held D f k T st" for f k T by (rule held_same) (simp_all add: assms(4))
  have stopped: "sv_phase (up_servers st n) \<noteq> Idle \<longrightarrow> lc_stopped c" using ok(4) assms(2) by (force simp: phases_ok_def)
  have "phases_ok st'"
    by (rule phases_change [OF ok(4,1) put, where s = "(up_servers st n)\<lparr>sv_taken := sv_taken (up_servers st n) @ [lc_map c]\<rparr>"])
      (use ok(4) stopped in \<open>simp_all add: assms(4) phases_ok_def\<close>)
  moreover have "balanced D st' m" for m
  proof (cases "m = n")
    case True
    show ?thesis unfolding True
      by (rule balanced_put [OF spec [OF ok(5)] assms(2) ok(1) put,
        where s = "(up_servers st n)\<lparr>sv_taken := sv_taken (up_servers st n) @ [lc_map c]\<rparr>"])
        (auto simp: assms(4) at_def intro: held_same)
  next
    case False
    show ?thesis by (rule balanced_other [OF spec [OF ok(5)] False ok(1) put]) (auto simp: assms(4) intro: held_same)
  qed
  ultimately show ?thesis using clients ok(3) by (simp add: upload_ok_def same)
qed

lemma step_ok:
  assumes "exact_decimal D" "upload_step D st st'" "upload_ok D st"
  shows "upload_ok D st'"
  using assms(2)
proof (cases rule: upload_step.cases)
  case (new_dump now rows clients)
  show ?thesis
    by (rule dump_begins_ok [OF assms(1,3) new_dump(2,3,4), where loaded = "up_loaded st" and def = False]) (simp_all add: new_dump(1))
next
  case (load loaded files)
  then show ?thesis using load_ok [OF assms(3)] by blast
next
  case (deferred_dump now rows clients)
  show ?thesis
    by (rule dump_begins_ok [OF assms(1,3) deferred_dump(2,3,6), where loaded = "[]" and def = True]) (use deferred_dump in simp_all)
next
  case (dump_ends d db)
  then show ?thesis using dump_ends_ok [OF assms(3)] by blast
next
  case (stop n)
  then show ?thesis using stop_ok [OF assms(3)] by blast
next
  case (query n result)
  then show ?thesis using query_ok [OF assms(3)] by blast
next
  case (start n result now clients started server)
  then show ?thesis using start_ok [OF assms(3)] by blast
next
  case (take n c infos clients)
  then show ?thesis using take_ok [OF assms(3)] by blast
qed

lemma reachable_ok:
  assumes "exact_decimal D" "reachable_upload D st"
  shows "upload_ok D st"
  using assms(2)
proof (induction rule: reachable_upload.induct)
  case start
  show ?case by (simp add: upload_ok_def upload_start_def times_ok_def phases_ok_def balanced_def)
qed (blast intro: step_ok [OF assms(1)])

section \<open>The property\<close>


section \<open>An example\<close>

definition sample_row :: creative_row where
  "sample_row = \<lparr>cw_test = False, cw_walled_garden = False, cw_adv_account_id = 5, cw_campaign_id = 6, cw_ccg_id = 7, cw_cc_id = 8,
     cw_publisher_account_id = 0, cw_tag_id = 9, cw_ctr_reset_id = 0, cw_delivery_threshold = 10000, cw_unverified_imps = 1,
     cw_imps = 1, cw_clicks = 0, cw_actions = 0, cw_adv_amount = 50, cw_adv_comm_amount = 0, cw_adv_payable_comm_amount = 0,
     cw_pub_advcurrency_amount = 20, cw_isp_advcurrency_amount = 0\<rparr>"

definition sample_log_days :: "nat collector" where
  "sample_log_days = [((1, 1), [Creative sample_row])]"

text \<open>A server has started at 1, a dump began at 2, and the database was not active then.\<close>

definition stopped_upload :: "nat upload" where
  "stopped_upload = upload_start\<lparr>up_clients := stop_stat_upload 1 [], up_enabled := False,
     up_servers := (up_servers upload_start)(1 := (up_servers (upload_start :: nat upload) 1)\<lparr>sv_phase := Stopped\<rparr>)\<rparr>"

definition read_upload :: "nat upload" where
  "read_upload = stopped_upload\<lparr>up_servers := (up_servers stopped_upload)(1 := (up_servers stopped_upload 1)\<lparr>sv_phase := Read (Some [])\<rparr>)\<rparr>"

definition started_upload :: "nat upload" where
  "started_upload = read_upload\<lparr>up_now := 1, up_clients := fst (the (start_stat_upload 1 1 True (up_clients read_upload))), up_enabled := True,
     up_servers := (up_servers read_upload)(1 := \<lparr>sv_phase = Idle, sv_base = Some [], sv_taken = []\<rparr>)\<rparr>"

definition dumping_upload :: "nat upload" where
  "dumping_upload = started_upload\<lparr>up_now := 2,
     up_clients := the (update_log_gen_stat (nb_dec sample_number) None sample_log_days (up_clients started_upload)),
     up_running := [\<lparr>dp_rows = sample_log_days, dp_time = 2, dp_deferred = False\<rparr>]\<rparr>"

definition deferred_upload :: "nat upload" where
  "deferred_upload = end_dump Db_not_active \<lparr>dp_rows = sample_log_days, dp_time = 2, dp_deferred = False\<rparr> dumping_upload"

lemmas sample_upload_defs = stopped_upload_def read_upload_def started_upload_def dumping_upload_def

lemma sample_dump_update: "update_log_gen_stat (nb_dec sample_number) None sample_log_days (up_clients started_upload) = Some (up_clients dumping_upload)"
  by code_simp

lemma sample_reachable: "reachable_upload (nb_dec sample_number) deferred_upload"
proof -
  have "reachable_upload (nb_dec sample_number) stopped_upload"
    unfolding stopped_upload_def by (rule reachable_upload.step [OF reachable_upload.start])
      (use upload_step.stop [of upload_start 1] in \<open>simp add: upload_start_def\<close>)
  then have "reachable_upload (nb_dec sample_number) read_upload"
    unfolding read_upload_def by (rule reachable_upload.step) (rule upload_step.query; simp add: stopped_upload_def upload_start_def)
  then have "reachable_upload (nb_dec sample_number) started_upload"
  proof (rule reachable_upload.step)
    have "up_enabled started_upload = (True \<or> up_enabled read_upload)" by (simp add: started_upload_def)
    show "upload_step (nb_dec sample_number) read_upload started_upload"
      using upload_step.start [of read_upload 1 "Some []" 1 "fst (the (start_stat_upload 1 1 True (up_clients read_upload)))" True]
      by (simp add: started_upload_def sample_upload_defs upload_start_def start_stat_upload_def stop_stat_upload_def map_at_def)
  qed
  then have "reachable_upload (nb_dec sample_number) dumping_upload"
  proof (rule reachable_upload.step)
    show "upload_step (nb_dec sample_number) started_upload dumping_upload"
      using upload_step.new_dump [OF _ _ sample_dump_update, of 2] by (simp add: dumping_upload_def) (simp add: sample_upload_defs upload_start_def)
  qed
  then show ?thesis
    unfolding deferred_upload_def by (rule reachable_upload.step) (rule upload_step.dump_ends; simp add: dumping_upload_def)
qed


end
