(* ===== verification/StatSources.thy ===== *)
theory StatSources
  imports StatUploadProps
begin

text \<open>
  \<open>StatLogGeneralizerSource.cpp\<close> of \<open>src/CampaignSvcs/CampaignServer\<close>: the portions of the log generalizers
  become statistics of campaigns and accounts, which are added to what the server has.

  \<open>sc_of_ulong\<close> is the constructor \<open>ImpRevenueDecimal(false, n, 0)\<close>, whose argument is an unsigned
  \<open>long\<close>. \<open>None\<close> is an exception of the decimals or an overflow in a \<open>noexcept\<close> operator. The answers
  of the remote services are parameters.
\<close>

record stat_numbers =
  sc_dec :: decimal
  sc_imp :: decimal
  sc_of_ulong :: "nat \<Rightarrow> int option"

definition zero_creative :: creative_stat where
  "zero_creative = \<lparr>cst_impressions = 0, cst_clicks = 0, cst_actions = 0\<rparr>"

definition zero_publisher :: publisher_stat where
  "zero_publisher = \<lparr>ps_amount = 0, ps_daily_amount = 0\<rparr>"

definition zero_tag :: tag_stat where
  "zero_tag = \<lparr>ts_prev_hour_stat = ZERO_TAG_HOUR_STAT, ts_current_hour_stat = ZERO_TAG_HOUR_STAT\<rparr>"

definition zero_ccg :: ccg_stat where
  "zero_ccg = \<lparr>as_amount = 0, as_comm_amount = 0, as_daily_amount = 0, as_daily_comm_amount = 0, cg_impressions = 0, cg_clicks = 0,
     cg_actions = 0, cg_creatives = [], cg_publisher_amounts = [], cg_prev_hour_amount = 0, cg_prev_hour_comm_amount = 0,
     cg_cur_hour_amount = 0, cg_cur_hour_comm_amount = 0, cg_tag_stats = [], cg_ctr_reset_stats = []\<rparr>"

definition zero_campaign :: campaign_stat where
  "zero_campaign = \<lparr>as_amount = 0, as_comm_amount = 0, as_daily_amount = 0, as_daily_comm_amount = 0, cm_ccgs = []\<rparr>"

section \<open>Portions of the log generalizer\<close>

definition imp_of_long :: "stat_numbers \<Rightarrow> int \<Rightarrow> int option" where
  "imp_of_long S n = sc_of_ulong S (nat (n mod 2 ^ 64))"

text \<open>Whether a portion is of the current day, the current hour and the hour before, for its account.\<close>

definition stat_period :: "('t::ab_group_add) clock \<Rightarrow> 't \<Rightarrow> 't campaign_stat_info \<Rightarrow> bool \<times> bool \<times> bool" where
  "stat_period C now i =
     (let tz_offset = si_adv_sdate i - si_sdate i;
          acc_now = now + tz_offset;
          current_day = (ck_date C acc_now = ck_date C (si_adv_sdate i))
      in (current_day,
          current_day \<and> ck_hour C acc_now = ck_hour C (si_adv_sdate i),
          current_day \<and> ck_hour C acc_now = ck_hour C (si_adv_sdate i) + 1))"

fun add_creative_infos :: "stat_numbers \<Rightarrow> creative_stat_info list \<Rightarrow> ccg_stat \<Rightarrow> ccg_stat option" where
  "add_creative_infos S [] x = Some x"
| "add_creative_infos S (c # cs) x = do {
     i \<leftarrow> imp_of_long S (ci_impressions c);
     k \<leftarrow> imp_of_long S (ci_clicks c);
     a \<leftarrow> imp_of_long S (ci_actions c);
     imps \<leftarrow> dec_add (sc_imp S) (cg_impressions x) i;
     clicks \<leftarrow> dec_add (sc_imp S) (cg_clicks x) k;
     actions \<leftarrow> dec_add (sc_imp S) (cg_actions x) a;
     creatives \<leftarrow> add_at (creative_plus (sc_imp S)) zero_creative (ci_cc_id c)
       \<lparr>cst_impressions = i, cst_clicks = k, cst_actions = a\<rparr> (cg_creatives x);
     add_creative_infos S cs (x\<lparr>cg_impressions := imps, cg_clicks := clicks, cg_actions := actions, cg_creatives := creatives\<rparr>) }"

fun add_publisher_infos :: "decimal \<Rightarrow> bool \<Rightarrow> (nat \<times> int) list \<Rightarrow> (nat, publisher_stat) std_map \<Rightarrow> (nat, publisher_stat) std_map option" where
  "add_publisher_infos D current_day [] m = Some m"
| "add_publisher_infos D current_day ((pub, am) # ps) m = do {
     daily \<leftarrow> (if current_day then dec_add D 0 am else Some 0);
     am \<leftarrow> dec_add D 0 am;
     m \<leftarrow> add_at (publisher_plus D) zero_publisher pub \<lparr>ps_amount = am, ps_daily_amount = daily\<rparr> m;
     add_publisher_infos D current_day ps m }"

definition tag_hour :: "tag_amount \<Rightarrow> tag_hour_stat" where
  "tag_hour t = \<lparr>th_isp_pub_amount = ta_pub_isp_amount t, th_adv_amount = ta_adv_amount t, th_adv_comm_amount = ta_adv_comm_amount t\<rparr>"

fun add_tag_infos :: "decimal \<Rightarrow> bool \<Rightarrow> (nat \<times> tag_amount) list \<Rightarrow> (nat, tag_stat) std_map \<Rightarrow> (nat, tag_stat) std_map option" where
  "add_tag_infos D current_hour [] m = Some m"
| "add_tag_infos D current_hour ((tag, t) # ts) m = do {
     m \<leftarrow> add_at (tag_plus D) zero_tag tag
       (if current_hour then zero_tag\<lparr>ts_current_hour_stat := tag_hour t\<rparr> else zero_tag\<lparr>ts_prev_hour_stat := tag_hour t\<rparr>) m;
     add_tag_infos D current_hour ts m }"

fun add_reset_infos :: "stat_numbers \<Rightarrow> (nat \<times> nat) list \<Rightarrow> (nat, int) std_map \<Rightarrow> (nat, int) std_map option" where
  "add_reset_infos S [] m = Some m"
| "add_reset_infos S ((r, n) # rs) m = do {
     i \<leftarrow> sc_of_ulong S n;
     m \<leftarrow> add_at (dec_add (sc_imp S)) 0 r i m;
     add_reset_infos S rs m }"

text \<open>\<open>ccg_stat\<close> of one portion.\<close>

definition hour_part :: "stat_numbers \<Rightarrow> bool \<Rightarrow> 't campaign_stat_info \<Rightarrow> ccg_stat \<Rightarrow> ccg_stat option" where
  "hour_part S current_hour i x = (let D = sc_dec S in do {
     am \<leftarrow> dec_add D 0 (si_adv_amount i);
     co \<leftarrow> dec_add D 0 (si_adv_comm_amount i);
     let x = (if current_hour then x\<lparr>cg_cur_hour_amount := am, cg_cur_hour_comm_amount := co\<rparr>
              else x\<lparr>cg_prev_hour_amount := am, cg_prev_hour_comm_amount := co\<rparr>);
     tags \<leftarrow> add_tag_infos D current_hour (si_tag_amounts i) [];
     resets \<leftarrow> add_reset_infos S (si_ctr_reset_stats i) [];
     Some (x\<lparr>cg_tag_stats := tags, cg_ctr_reset_stats := resets\<rparr>) })"

definition info_ccg :: "stat_numbers \<Rightarrow> ('t::ab_group_add) clock \<Rightarrow> 't \<Rightarrow> 't campaign_stat_info \<Rightarrow> ccg_stat option" where
  "info_ccg S C now i =
     (let (current_day, current_hour, prev_hour) = stat_period C now i
      in do {
        let x = zero_ccg\<lparr>as_amount := si_adv_amount i, as_comm_amount := si_adv_comm_amount i,
          as_daily_amount := (if current_day then si_adv_amount i else 0), as_daily_comm_amount := (if current_day then si_adv_comm_amount i else 0)\<rparr>;
        x \<leftarrow> add_creative_infos S (si_creative_stats i) x;
        pubs \<leftarrow> add_publisher_infos (sc_dec S) current_day (si_publisher_amounts i) [];
        let x = x\<lparr>cg_publisher_amounts := pubs\<rparr>;
        if current_hour \<or> prev_hour then hour_part S current_hour i x else Some x })"

definition add_info :: "stat_numbers \<Rightarrow> ('t::ab_group_add) clock \<Rightarrow> 't \<Rightarrow> 't campaign_stat_info \<Rightarrow> 't stat \<Rightarrow> 't stat option" where
  "add_info S C now i stat =
     (let D = sc_dec S; current_day = fst (stat_period C now i)
      in do {
        x \<leftarrow> info_ccg S C now i;
        let c = map_at zero_campaign (si_campaign_id i) (st_campaign_stats stat);
        ccgs \<leftarrow> add_at (ccg_plus D (sc_imp S)) zero_ccg (si_ccg_id i) x (cm_ccgs c);
        am \<leftarrow> dec_add D (as_amount c) (si_adv_amount i);
        co \<leftarrow> dec_add D (as_comm_amount c) (si_adv_comm_amount i);
        dam \<leftarrow> (if current_day then dec_add D (as_daily_amount c) (si_adv_amount i) else Some (as_daily_amount c));
        dco \<leftarrow> (if current_day then dec_add D (as_daily_comm_amount c) (si_adv_comm_amount i) else Some (as_daily_comm_amount c));
        let a = \<lparr>aa_amount = si_adv_account_amount i, aa_comm_amount = si_adv_payable_comm_amount i\<rparr>;
        accounts \<leftarrow> (case map_of (st_account_amounts stat) (si_adv_account_id i) of
                     None \<Rightarrow> Some (map_insert (si_adv_account_id i) a (st_account_amounts stat))
                   | Some b \<Rightarrow> map_option (\<lambda>s. map_put (si_adv_account_id i) s (st_account_amounts stat)) (account_plus D b a));
        Some (stat\<lparr>st_campaign_stats := map_put (si_campaign_id i)
            (c\<lparr>cm_ccgs := ccgs, as_amount := am, as_comm_amount := co, as_daily_amount := dam, as_daily_comm_amount := dco\<rparr>)
            (st_campaign_stats stat),
          st_account_amounts := accounts\<rparr>) })"

fun add_infos :: "stat_numbers \<Rightarrow> ('t::ab_group_add) clock \<Rightarrow> 't \<Rightarrow> 't campaign_stat_info list \<Rightarrow> 't stat \<Rightarrow> 't stat option" where
  "add_infos S C now [] stat = Some stat"
| "add_infos S C now (i # is) stat = do { stat \<leftarrow> add_info S C now i stat; add_infos S C now is stat }"

definition empty_stat :: "('t::zero) \<Rightarrow> 't stat" where
  "empty_stat now = \<lparr>st_timestamp = 0, st_check_time = now, st_campaign_stats = [], st_account_amounts = []\<rparr>"

definition convert_stats_update :: "stat_numbers \<Rightarrow> ('t::ab_group_add) clock \<Rightarrow> 't \<Rightarrow> 't campaign_stat_info list \<Rightarrow> 't stat option" where
  "convert_stats_update S C now infos = add_infos S C now infos (empty_stat now)"

text \<open>The answers of the log generalizers to \<open>get_stat_info\<close>; the first exception ends the loop.\<close>

datatype 't lg_answer = Portion "'t campaign_stat_info list" | Collection_not_started | Not_available

fun sum_portions :: "stat_numbers \<Rightarrow> ('t::ab_group_add) clock \<Rightarrow> 't \<Rightarrow> 't lg_answer list \<Rightarrow> 't stat \<Rightarrow> ('t stat \<times> bool) option" where
  "sum_portions S C now [] total_stat = Some (total_stat, False)"
| "sum_portions S C now (a # as) total_stat =
     (case a of
        Collection_not_started \<Rightarrow> Some (total_stat, True)
      | Not_available \<Rightarrow> Some (total_stat, False)
      | Portion infos \<Rightarrow> do {
          p \<leftarrow> convert_stats_update S C now infos;
          total_stat \<leftarrow> stat_add (sc_dec S) (sc_imp S) total_stat p;
          sum_portions S C now as total_stat })"

text \<open>With the statistics comes whether the database has to be read again.\<close>

definition lg_update :: "stat_numbers \<Rightarrow> ('t::ab_group_add) clock \<Rightarrow> 't \<Rightarrow> 't lg_answer list \<Rightarrow> 't stat option \<Rightarrow> ('t stat \<times> bool) option" where
  "lg_update S C now answers stat = do {
     (total_stat, full_synch_required) \<leftarrow> sum_portions S C now answers (empty_stat now);
     case stat of
       None \<Rightarrow> Some (total_stat, full_synch_required)
     | Some s \<Rightarrow> do { s \<leftarrow> stat_add (sc_dec S) (sc_imp S) s total_stat; Some (s, full_synch_required) } }"

end
