(* ===== verification/StatSourcesProps.thy ===== *)
theory StatSourcesProps
  imports StatSources
begin

text \<open>
  The increments of the log generalizers arrive in the statistics of the campaign server, each in its
  group, its account, its day and its hour.
\<close>

section \<open>The statistics of one portion\<close>

lemma zero_ok: "ccg_ok zero_ccg" "f \<in> ccg_fields \<Longrightarrow> f zero_ccg = 0" "campaign_ok zero_campaign"
  by (auto simp: ccg_ok_def zero_ccg_def ccg_fields_def amount_fields_def at_def campaign_ok_def zero_campaign_def)

lemma add_creative_infos_adds:
  assumes "exact_decimal (sc_imp S)" "add_creative_infos S cs x = Some r" "map_ok (cg_creatives x)"
  shows "map_ok (cg_creatives r) \<and> cg_impressions r = cg_impressions x + (\<Sum>c\<leftarrow>cs. the (imp_of_long S (ci_impressions c))) \<and>
    (\<exists>i k a m. r = x\<lparr>cg_impressions := i, cg_clicks := k, cg_actions := a, cg_creatives := m\<rparr>)"
  using assms(2,3)
proof (induction cs arbitrary: x)
  case Nil
  then have "r = x" by simp
  moreover have "x = x\<lparr>cg_impressions := cg_impressions x, cg_clicks := cg_clicks x, cg_actions := cg_actions x, cg_creatives := cg_creatives x\<rparr>"
    by simp
  ultimately show ?case using Nil.prems(2) by (metis add.right_neutral list.simps(8) sum_list.Nil)
next
  case (Cons c cs)
  obtain i k a imps clicks actions m where new: "imp_of_long S (ci_impressions c) = Some i" "dec_add (sc_imp S) (cg_impressions x) i = Some imps"
    "add_at (creative_plus (sc_imp S)) zero_creative (ci_cc_id c) \<lparr>cst_impressions = i, cst_clicks = k, cst_actions = a\<rparr> (cg_creatives x) = Some m"
    "add_creative_infos S cs (x\<lparr>cg_impressions := imps, cg_clicks := clicks, cg_actions := actions, cg_creatives := m\<rparr>) = Some r"
    using Cons.prems(1) by (auto split: bind_splits)
  have "map_ok m" using Cons.prems(2) new(3) by (rule map_ok_add_at)
  then have ok: "map_ok (cg_creatives (x\<lparr>cg_impressions := imps, cg_clicks := clicks, cg_actions := actions, cg_creatives := m\<rparr>))" by simp
  have "imps = cg_impressions x + i" by (rule exact_add [OF assms(1) new(2)])
  then show ?case using Cons.IH [OF new(4) ok] new(1) by auto
qed

lemma add_publisher_infos_ok: "map_ok m \<Longrightarrow> add_publisher_infos D day ps m = Some r \<Longrightarrow> map_ok r"
  by (induction D day ps m rule: add_publisher_infos.induct) (auto dest: map_ok_add_at split: bind_splits)

lemma add_tag_infos_ok: "map_ok m \<Longrightarrow> add_tag_infos D hour ts m = Some r \<Longrightarrow> map_ok r"
  by (induction D hour ts m rule: add_tag_infos.induct) (auto dest: map_ok_add_at split: bind_splits)

lemma add_reset_infos_adds:
  assumes "exact_decimal (sc_imp S)" "map_ok m" "add_reset_infos S rs m = Some r"
  shows "map_ok r \<and> (\<forall>k. at id r k = at id m k + (\<Sum>e\<leftarrow>rs. if fst e = k then the (sc_of_ulong S (snd e)) else 0))"
  using assms(2,3)
proof (induction rs arbitrary: m)
  case (Cons e rs)
  obtain i m' where new: "sc_of_ulong S (snd e) = Some i" "add_at (dec_add (sc_imp S)) 0 (fst e) i m = Some m'" "add_reset_infos S rs m' = Some r"
    using Cons.prems(2) by (cases e) (auto split: bind_splits)
  have fine: "reset_sum.map_fine m" using Cons.prems(1) by (simp add: reset_sum.map_fine_def)
  have "at id m' k = at id m k + (if fst e = k then i else 0)" for k
    using reset_sum.add_at_sums(2) [OF assms(1) fine TrueI TrueI _ new(2), of id k] by auto
  moreover have "map_ok m'" using Cons.prems(1) new(2) by (rule map_ok_add_at)
  ultimately show ?case using Cons.IH [OF _ new(3)] new(1) unfolding id_def by auto
qed simp

text \<open>What the statistics of one portion hold.\<close>

lemma info_ccg_holds:
  assumes "exact_decimal (sc_dec S)" "exact_decimal (sc_imp S)" "info_ccg S C now i = Some x" "stat_period C now i = (day, hour, before)"
  shows "ccg_ok x \<and> as_amount x = si_adv_amount i \<and> as_daily_amount x = (if day then si_adv_amount i else 0) \<and>
    cg_cur_hour_amount x = (if hour then si_adv_amount i else 0) \<and>
    cg_prev_hour_amount x = (if before \<and> \<not> hour then si_adv_amount i else 0) \<and>
    cg_impressions x = (\<Sum>c\<leftarrow>si_creative_stats i. the (imp_of_long S (ci_impressions c))) \<and>
    (\<forall>k. at id (cg_ctr_reset_stats x) k =
      (if hour \<or> before then \<Sum>e\<leftarrow>si_ctr_reset_stats i. if fst e = k then the (sc_of_ulong S (snd e)) else 0 else 0))"
proof -
  define z where "z = zero_ccg\<lparr>as_amount := si_adv_amount i, as_comm_amount := si_adv_comm_amount i,
    as_daily_amount := (if day then si_adv_amount i else 0), as_daily_comm_amount := (if day then si_adv_comm_amount i else 0)\<rparr>"
  obtain y pubs where y: "add_creative_infos S (si_creative_stats i) z = Some y" "add_publisher_infos (sc_dec S) day (si_publisher_amounts i) [] = Some pubs"
    "(if hour \<or> before then hour_part S hour i (y\<lparr>cg_publisher_amounts := pubs\<rparr>) else Some (y\<lparr>cg_publisher_amounts := pubs\<rparr>)) = Some x"
    using assms(3) unfolding info_ccg_def assms(4) z_def by (auto simp: Let_def split: bind_splits)
  have "map_ok (cg_creatives z)" by (simp add: z_def zero_ccg_def)
  from add_creative_infos_adds [OF assms(2) y(1) this] obtain im cl ac m where
    c: "map_ok (cg_creatives y)" "cg_impressions y = (\<Sum>c\<leftarrow>si_creative_stats i. the (imp_of_long S (ci_impressions c)))"
      "y = z\<lparr>cg_impressions := im, cg_clicks := cl, cg_actions := ac, cg_creatives := m\<rparr>"
    by (auto simp: z_def zero_ccg_def)
  have p: "map_ok pubs" by (rule add_publisher_infos_ok [OF _ y(2)]) simp
  have zs: "as_amount y = si_adv_amount i" "as_daily_amount y = (if day then si_adv_amount i else 0)" "cg_cur_hour_amount y = 0"
    "cg_prev_hour_amount y = 0" "cg_tag_stats y = []" "cg_ctr_reset_stats y = []"
    by (simp_all add: c(3) z_def zero_ccg_def)
  show ?thesis
  proof (cases "hour \<or> before")
    case True
    obtain am co tags resets where h: "dec_add (sc_dec S) 0 (si_adv_amount i) = Some am" "dec_add (sc_dec S) 0 (si_adv_comm_amount i) = Some co"
      "add_tag_infos (sc_dec S) hour (si_tag_amounts i) [] = Some tags" "add_reset_infos S (si_ctr_reset_stats i) [] = Some resets"
      "x = (let w = y\<lparr>cg_publisher_amounts := pubs\<rparr> in
         (if hour then w\<lparr>cg_cur_hour_amount := am, cg_cur_hour_comm_amount := co\<rparr>
          else w\<lparr>cg_prev_hour_amount := am, cg_prev_hour_comm_amount := co\<rparr>)\<lparr>cg_tag_stats := tags, cg_ctr_reset_stats := resets\<rparr>)"
      using y(3) True by (auto simp: hour_part_def Let_def split: bind_splits)
    have t: "map_ok tags" by (rule add_tag_infos_ok [OF _ h(3)]) simp
    have r: "map_ok resets" "\<forall>k. at id resets k = (\<Sum>e\<leftarrow>si_ctr_reset_stats i. if fst e = k then the (sc_of_ulong S (snd e)) else 0)"
      using add_reset_infos_adds [OF assms(2) _ h(4)] by (simp_all add: at_def)
    have "am = si_adv_amount i" using exact_add [OF assms(1) h(1)] by simp
    then show ?thesis using c(1,2) p t r True by (cases hour) (simp_all add: h(5) Let_def ccg_ok_def zs)
  next
    case False
    then show ?thesis using y(3) c(1,2) p by (auto simp: ccg_ok_def zs at_def)
  qed
qed

section \<open>Portions\<close>

definition group_amount :: "(ccg_stat \<Rightarrow> int) \<Rightarrow> 't stat \<Rightarrow> nat \<Rightarrow> nat \<Rightarrow> int" where
  "group_amount f stat g n = at (\<lambda>c. at f (cm_ccgs c) n) (st_campaign_stats stat) g"

definition account_amount :: "'t stat \<Rightarrow> nat \<Rightarrow> int" where
  "account_amount stat k = at aa_amount (st_account_amounts stat) k"

lemma add_info_adds:
  assumes "exact_decimal (sc_dec S)" "exact_decimal (sc_imp S)" "stat_ok stat" "add_info S C now i stat = Some stat'"
  shows "stat_ok stat' \<and> info_ccg S C now i \<noteq> None \<and>
    (\<forall>f\<in>ccg_fields. \<forall>g n. group_amount f stat' g n = group_amount f stat g n +
      (if g = si_campaign_id i \<and> n = si_ccg_id i then f (the (info_ccg S C now i)) else 0)) \<and>
    (\<forall>k. account_amount stat' k = account_amount stat k + (if k = si_adv_account_id i then si_adv_account_amount i else 0))"
proof -
  let ?c = "map_at zero_campaign (si_campaign_id i) (st_campaign_stats stat)"
  let ?a = "\<lparr>aa_amount = si_adv_account_amount i, aa_comm_amount = si_adv_payable_comm_amount i\<rparr>"
  obtain x ccgs am co dam dco accounts where new: "info_ccg S C now i = Some x"
    "add_at (ccg_plus (sc_dec S) (sc_imp S)) zero_ccg (si_ccg_id i) x (cm_ccgs ?c) = Some ccgs"
    "(case map_of (st_account_amounts stat) (si_adv_account_id i) of
       None \<Rightarrow> Some (map_insert (si_adv_account_id i) ?a (st_account_amounts stat))
     | Some b \<Rightarrow> map_option (\<lambda>s. map_put (si_adv_account_id i) s (st_account_amounts stat)) (account_plus (sc_dec S) b ?a)) = Some accounts"
    "stat' = stat\<lparr>st_campaign_stats := map_put (si_campaign_id i)
        (?c\<lparr>cm_ccgs := ccgs, as_amount := am, as_comm_amount := co, as_daily_amount := dam, as_daily_comm_amount := dco\<rparr>) (st_campaign_stats stat),
      st_account_amounts := accounts\<rparr>"
    using assms(4) unfolding add_info_def Let_def by (auto split: bind_splits)
  obtain day hour before where "stat_period C now i = (day, hour, before)" by (rule prod_cases3)
  from info_ccg_holds [OF assms(1,2) new(1) this] have x: "ccg_ok x" by blast
  have ok: "map_ok (st_account_amounts stat)" "map_ok (st_campaign_stats stat)" "\<forall>e\<in>set (st_campaign_stats stat). campaign_ok (snd e)"
    using assms(3) by (simp_all add: stat_ok_def)
  have c_ok: "campaign_ok ?c" using ok(3) zero_ok(3) by (auto simp: map_at_def dest!: map_of_SomeD split: option.split)
  have fine: "ccg_sum.map_fine (cm_ccgs ?c)" using c_ok by (simp add: campaign_ok_def ccg_sum.map_fine_def)
  have zero: "\<forall>f\<in>ccg_fields. f zero_ccg = 0" using zero_ok(2) by blast
  note sums = ccg_sum.add_at_sums [OF conjI [OF assms(1,2)] fine x zero_ok(1) zero new(2)]
  have "at f (cm_ccgs ?c) n = group_amount f stat (si_campaign_id i) n" for f n
    by (auto simp: group_amount_def map_at_def at_def zero_campaign_def split: option.split)
  then have groups: "group_amount f stat' g n = group_amount f stat g n +
      (if g = si_campaign_id i \<and> n = si_ccg_id i then f x else 0)" if "f \<in> ccg_fields" for f g n
    using sums(2) [OF that, of n] ok(2) by (auto simp: group_amount_def new(4) map_of_map_put at_def [of "\<lambda>c. at f (cm_ccgs c) n"])
  have accounts: "map_ok accounts \<and> (\<forall>k. at aa_amount accounts k = at aa_amount (st_account_amounts stat) k +
      (if k = si_adv_account_id i then si_adv_account_amount i else 0))"
  proof (cases "map_of (st_account_amounts stat) (si_adv_account_id i)")
    case None
    then have a: "accounts = map_insert (si_adv_account_id i) ?a (st_account_amounts stat)" using new(3) by simp
    show ?thesis using None ok(1) by (simp add: a at_def map_of_map_insert)
  next
    case (Some b)
    then obtain s where s: "account_plus (sc_dec S) b ?a = Some s" "accounts = map_put (si_adv_account_id i) s (st_account_amounts stat)"
      using new(3) by auto
    have "aa_amount s = aa_amount b + si_adv_account_amount i"
      using s(1) exact_add [OF assms(1)] by (auto simp: account_plus_def split: bind_splits)
    then show ?thesis using Some ok(1) by (simp add: s(2) at_def map_of_map_put)
  qed
  have "stat_ok stat'"
  proof -
    have "campaign_ok (?c\<lparr>cm_ccgs := ccgs, as_amount := am, as_comm_amount := co, as_daily_amount := dam, as_daily_comm_amount := dco\<rparr>)"
      using sums(1) by (simp add: campaign_ok_def ccg_sum.map_fine_def)
    then show ?thesis using ok accounts set_map_put [of "si_campaign_id i" _ "st_campaign_stats stat"] unfolding stat_ok_def new(4) by fastforce
  qed
  then show ?thesis using groups accounts new(1) by (simp add: account_amount_def new(4))
qed

lemma add_infos_adds:
  assumes "exact_decimal (sc_dec S)" "exact_decimal (sc_imp S)" "stat_ok stat" "add_infos S C now is stat = Some stat'"
  shows "stat_ok stat' \<and> (\<forall>i\<in>set is. info_ccg S C now i \<noteq> None) \<and>
    (\<forall>f\<in>ccg_fields. \<forall>g n. group_amount f stat' g n = group_amount f stat g n +
      (\<Sum>i\<leftarrow>is. if g = si_campaign_id i \<and> n = si_ccg_id i then f (the (info_ccg S C now i)) else 0)) \<and>
    (\<forall>k. account_amount stat' k = account_amount stat k + (\<Sum>i\<leftarrow>is. if k = si_adv_account_id i then si_adv_account_amount i else 0))"
  using assms(3,4)
proof (induction "is" arbitrary: stat)
  case (Cons i "is")
  obtain mid where mid: "add_info S C now i stat = Some mid" "add_infos S C now is mid = Some stat'"
    using Cons.prems(2) by (auto split: bind_splits)
  note one = add_info_adds [OF assms(1,2) Cons.prems(1) mid(1)]
  show ?case using one Cons.IH [OF _ mid(2)] by simp
qed simp

lemma empty_stat_ok: "stat_ok (empty_stat now)" "group_amount f (empty_stat now) g n = 0" "account_amount (empty_stat now) k = 0"
  by (simp_all add: stat_ok_def empty_stat_def group_amount_def account_amount_def at_def)

lemma stat_add_groups:
  assumes "exact_decimal D" "exact_decimal I" "stat_ok x" "stat_ok y" "stat_add D I x y = Some z"
  shows "stat_ok z \<and> (\<forall>f\<in>ccg_fields. \<forall>g n. group_amount f z g n = group_amount f x g n + group_amount f y g n) \<and>
    (\<forall>k. account_amount z k = account_amount x k + account_amount y k)"
proof -
  obtain a c where z: "sum_collections (account_plus D) (st_account_amounts x) (st_account_amounts y) = Some a"
    "sum_collections (campaign_plus D I) (st_campaign_stats x) (st_campaign_stats y) = Some c"
    "z = x\<lparr>st_timestamp := st_timestamp y, st_account_amounts := a, st_campaign_stats := c\<rparr>"
    using assms(5) by (auto simp: stat_add_def split: bind_splits)
  have fine: "campaign_sum.map_fine (st_campaign_stats x)" "campaign_sum.map_fine (st_campaign_stats y)"
    "account_sum.map_fine (st_account_amounts x)" "account_sum.map_fine (st_account_amounts y)"
    using assms(3,4) by (simp_all add: stat_ok_def campaign_sum.map_fine_def account_sum.map_fine_def)
  note cs = campaign_sum.sum_collections_sums [OF conjI [OF assms(1,2)] fine(1,2) z(2)]
  note as = account_sum.sum_collections_sums [OF assms(1) fine(3,4) z(1)]
  have "stat_ok z" using cs as by (simp add: stat_ok_def z(3) campaign_sum.map_fine_def account_sum.map_fine_def)
  moreover have "(\<lambda>c. at f (cm_ccgs c) n) \<in> campaign_fields" if "f \<in> ccg_fields" for f n using that unfolding campaign_fields_def by blast
  then have "\<forall>f\<in>ccg_fields. \<forall>g n. group_amount f z g n = group_amount f x g n + group_amount f y g n"
    using cs by (simp add: group_amount_def z(3))
  moreover have "\<forall>k. account_amount z k = account_amount x k + account_amount y k"
    using as by (simp add: account_amount_def z(3) account_fields_def)
  ultimately show ?thesis by blast
qed

lemma sum_portions_adds:
  assumes "exact_decimal (sc_dec S)" "exact_decimal (sc_imp S)" "stat_ok stat" "sum_portions S C now (map Portion ps) stat = Some (stat', full)"
  shows "\<not> full \<and> stat_ok stat' \<and> (\<forall>i\<in>set (concat ps). info_ccg S C now i \<noteq> None) \<and>
    (\<forall>f\<in>ccg_fields. \<forall>g n. group_amount f stat' g n = group_amount f stat g n +
      (\<Sum>i\<leftarrow>concat ps. if g = si_campaign_id i \<and> n = si_ccg_id i then f (the (info_ccg S C now i)) else 0)) \<and>
    (\<forall>k. account_amount stat' k = account_amount stat k + (\<Sum>i\<leftarrow>concat ps. if k = si_adv_account_id i then si_adv_account_amount i else 0))"
  using assms(3,4)
proof (induction ps arbitrary: stat)
  case (Cons infos ps)
  obtain p mid where mid: "add_infos S C now infos (empty_stat now) = Some p" "stat_add (sc_dec S) (sc_imp S) stat p = Some mid"
    "sum_portions S C now (map Portion ps) mid = Some (stat', full)"
    using Cons.prems(2) by (auto simp: convert_stats_update_def split: bind_splits)
  note p = add_infos_adds [OF assms(1,2) empty_stat_ok(1) mid(1)]
  have "stat_ok p" using p by blast
  note m = stat_add_groups [OF assms(1,2) Cons.prems(1) this mid(2)]
  have "stat_ok mid" using m by blast
  from Cons.IH [OF this mid(3)] show ?case using m p by (auto simp: empty_stat_ok)
qed simp

section \<open>The properties\<close>


text \<open>
  C37. A counter of a creative can be negative, when more impressions are taken back in a portion than are made.
  On its way it becomes an unsigned number of 64 bits, so the impressions of the group grow by almost 2 to the
  64 instead of going down.
\<close>

theorem negative_counter_wraps:
  assumes "exact_decimal (sc_dec S)" "exact_decimal (sc_imp S)" "stat_ok stat" "cv_creative_stats v = [(cc, counts)]"
    "cn_imps counts = - m" "0 < m" "m \<le> 2 ^ 31" "\<And>k. sc_of_ulong S k = Some (int k * scale)"
    "lg_update S C now [Portion [stat_info ((sdate, adv_sdate, account, g, n), v)]] (Some stat) = Some (stat', full)"
  shows "group_amount cg_impressions stat' g n = group_amount cg_impressions stat g n + (2 ^ 64 - m) * scale"
proof -
  let ?i = "stat_info ((sdate, adv_sdate, account, g, n), v)"
  obtain all where all: "sum_portions S C now (map Portion [[?i]]) (empty_stat now) = Some (all, full)"
    "stat_add (sc_dec S) (sc_imp S) stat all = Some stat'"
    using assms(9) by (auto simp: lg_update_def split: bind_splits)
  note sum = sum_portions_adds [OF assms(1,2) empty_stat_ok(1) all(1)]
  have "stat_ok all" using sum by blast
  note new = stat_add_groups [OF assms(1,2,3) this all(2)]
  obtain x where x: "info_ccg S C now ?i = Some x" using sum by auto
  obtain day hour before where "stat_period C now ?i = (day, hour, before)" by (rule prod_cases3)
  from info_ccg_holds [OF assms(1,2) x this]
  have "cg_impressions x = (\<Sum>c\<leftarrow>si_creative_stats ?i. the (imp_of_long S (ci_impressions c)))" by blast
  moreover have "si_creative_stats ?i = [creative_info (cc, counts)]" "si_campaign_id ?i = g" "si_ccg_id ?i = n"
    by (simp_all add: stat_info_def assms(4))
  moreover have "signed_take_bit 31 (- m) = - m" using assms(6,7) by (simp add: signed_take_bit_int_eq_self_iff)
  then have "ci_impressions (creative_info (cc, counts)) = - m" by (simp add: creative_info_def assms(5))
  moreover have "(- m) mod 2 ^ 64 = 2 ^ 64 - m"
  proof -
    have "(- m) mod 2 ^ 64 = (2 ^ 64 - m) mod 2 ^ 64" using mod_add_self1 [of "2 ^ 64" "- m"] by simp
    also have "\<dots> = 2 ^ 64 - m" using assms(6,7) by (intro mod_pos_pos_trivial) simp_all
    finally show ?thesis .
  qed
  ultimately have "cg_impressions x = (2 ^ 64 - m) * scale" using assms(6,7,8) by (simp add: imp_of_long_def)
  moreover have "cg_impressions \<in> ccg_fields" unfolding ccg_fields_def by blast
  ultimately show ?thesis using sum new x by (simp add: empty_stat_ok stat_info_def)
qed

section \<open>Examples\<close>

definition sample_stat_numbers :: stat_numbers where
  "sample_stat_numbers = \<lparr>sc_dec = floor_decimal 100, sc_imp = floor_decimal 100, sc_of_ulong = (\<lambda>n. Some (int n * 100))\<rparr>"

lemma sample_exact: "exact_decimal (sc_dec sample_stat_numbers)" "exact_decimal (sc_imp sample_stat_numbers)"
  by (simp_all add: sample_stat_numbers_def exact_decimal_def floor_decimal_def)

definition sample_info :: "int \<Rightarrow> int campaign_stat_info" where
  "sample_info time =
     \<lparr>si_sdate = time, si_adv_sdate = time, si_adv_account_id = 3, si_campaign_id = 5, si_ccg_id = 10, si_adv_account_amount = 70,
      si_adv_amount = 70, si_adv_comm_amount = 0, si_adv_payable_comm_amount = 0,
      si_creative_stats = [\<lparr>ci_cc_id = 8, ci_requests = 2, ci_impressions = 2, ci_clicks = 0, ci_actions = 0\<rparr>],
      si_publisher_amounts = [], si_tag_amounts = [], si_ctr_reset_stats = [(4, 2)]\<rparr>"

text \<open>Portions of the current hour, and of the hour before on the day before.\<close>

definition sample_portions_sum :: "(int stat \<times> bool) option" where
  "sample_portions_sum = lg_update sample_stat_numbers sample_clock 86400 (map Portion [[sample_info 86000], [sample_info 86400]])
     (Some (empty_stat 86400))"

lemma sample_portions_sum_done: "sample_portions_sum = Some (the sample_portions_sum)" by code_simp


definition sample_value :: campaign_value where
  "sample_value = zero_value\<lparr>cv_creative_stats := [(8, \<lparr>cn_requests = 0, cn_imps = - 1, cn_clicks = 0, cn_actions = 0\<rparr>)]\<rparr>"

definition sample_taken_back :: "(int stat \<times> bool) option" where
  "sample_taken_back = lg_update sample_stat_numbers sample_clock 90000 [Portion [stat_info ((90000, 90000, 3, 5, 10), sample_value)]]
     (Some (empty_stat 90000))"

lemma sample_info_taken_back:
  "stat_info ((90000, 90000, 3, 5, 10), sample_value) =
     \<lparr>si_sdate = 90000, si_adv_sdate = 90000, si_adv_account_id = 3, si_campaign_id = 5, si_ccg_id = 10, si_adv_account_amount = 0,
      si_adv_amount = 0, si_adv_comm_amount = 0, si_adv_payable_comm_amount = 0,
      si_creative_stats = [\<lparr>ci_cc_id = 8, ci_requests = 0, ci_impressions = - 1, ci_clicks = 0, ci_actions = 0\<rparr>],
      si_publisher_amounts = [], si_tag_amounts = [], si_ctr_reset_stats = []\<rparr>"
  by (simp add: stat_info_def sample_value_def zero_value_def creative_info_def)

lemma sample_taken_back_done: "sample_taken_back = Some (the sample_taken_back)"
proof -
  have "nat (- 1 mod 2 ^ 64) = 18446744073709551615" by simp
  then have "sample_taken_back \<noteq> None"
    unfolding sample_taken_back_def sample_info_taken_back
    by (simp add: lg_update_def convert_stats_update_def add_info_def info_ccg_def stat_period_def Let_def imp_of_long_def sample_stat_numbers_def
      floor_decimal_def hour_part_def stat_add_def creative_plus_def ccg_plus_def amount_plus_def add_at_def map_at_def empty_stat_def zero_ccg_def
      zero_campaign_def zero_creative_def account_plus_def campaign_plus_def)
  then show ?thesis by auto
qed

theorem negative_counter_wraps_witness:
  "group_amount cg_impressions (fst (the sample_taken_back)) 5 10 = 1844674407370955161500"
proof -
  have ready: "sample_taken_back = Some (fst (the sample_taken_back), snd (the sample_taken_back))"
    using sample_taken_back_done by (simp add: prod_eq_iff)
  have v: "cv_creative_stats sample_value = [(8, \<lparr>cn_requests = 0, cn_imps = - 1, cn_clicks = 0, cn_actions = 0\<rparr>)]"
    by (simp add: sample_value_def)
  have number: "\<And>k. sc_of_ulong sample_stat_numbers k = Some (int k * 100)" by (simp add: sample_stat_numbers_def)
  show ?thesis
    using negative_counter_wraps [OF sample_exact empty_stat_ok(1) v _ _ _ number ready [unfolded sample_taken_back_def], of 1]
    by (simp add: empty_stat_ok flip: sample_taken_back_def)
qed

end
