(* ===== verification/Spec2Isabelle.thy ===== *)
theory Spec2Isabelle
  imports FreqCapRequests ChannelProps ChannelHistoryProps ExprIndexProps LogLoader ExprParserProps
    BillingConservation StatSourcesProps
begin

text \<open>
  Verification library of the real-time bidding server.

  \<^bold>\<open>The program.\<close> Front ends receive bid requests, ask the user info service for the profile of
  the user and the channel service for the triggers of the page, and let the campaign manager choose
  creatives; the campaign server compiles the configuration and the statistics that the managers work
  with, the billing servers confirm amounts against budgets, and the request info services turn the logs
  into statistics. The library models the parts of these services that decide: who may still be shown an
  advertisement, which channels a user has, which expression channels match, when a campaign runs and
  what may be spent. Sockets, databases, files and the object adapters around them are left out.

  \<^bold>\<open>Ground.\<close> \<open>Prelude\<close> holds the machine types, the standard algorithms \<open>lower_bound\<close> and \<open>merge\<close> and
  the facts on lists sorted by a key; \<open>StdMap\<close> is \<open>std::map\<close> as an ordered list of nodes, with the locale
  of its operations. \<open>Algs\<close> is \<open>src/Commons/Algs.hpp\<close> and \<open>Intervals\<close> is \<open>src/Commons/Interval.hpp\<close>.

  \<^bold>\<open>Frequency caps.\<close> \<open>FreqCap\<close>, \<open>FreqCapCells\<close> and \<open>FreqCapProfile\<close> translate
  \<open>src/Commons/FreqCap.hpp\<close> and \<open>UserFreqCapProfile.cpp\<close> of \<open>src/UserInfoSvcs/UserInfoCommons\<close>: the
  profile is a record of ordered lists, each operation takes the profile and returns the new one.
  \<open>FreqCapInvariant\<close> shows that every operation keeps the profile ordered, \<open>FreqCapProps\<close> and
  \<open>FreqCapRequests\<close> that impressions are counted, merged and forgotten without changing what the caps
  answer, and how a request is confirmed or taken back. Times and counters are words of their width;
  the properties name the bounds that exclude a wrap-around.

  \<^bold>\<open>Channels of a user.\<close> \<open>ChannelDictionary\<close>, \<open>ChannelMatcher\<close>, \<open>ChannelMatch\<close> and \<open>ChannelHistory\<close>
  translate \<open>ChannelDictionary.hpp\<close> and \<open>ChannelMatcher.cpp\<close>: visits of a session, of today and of the
  history days. \<open>ChannelProps\<close> and \<open>ChannelHistoryProps\<close> show what they count, that shortening the stored
  timestamps does not change the decisions, and when the matching fails.

  \<^bold>\<open>Expression channels.\<close> \<open>ExprChannel\<close>, \<open>ExprChannelOps\<close>, \<open>ExprReduce\<close>, \<open>ExprOptimize\<close> and \<open>ExprFast\<close>
  translate \<open>ExpressionChannel.cpp\<close> of \<open>src/CampaignSvcs/CampaignCommons\<close>; \<open>ExprIndex\<close>, \<open>ExprIndexTables\<close>,
  \<open>ExprIndexCells\<close>, \<open>ExprIndexLoops\<close> and \<open>ExprIndexLevels\<close> translate \<open>ExpressionChannelIndex.cpp\<close>.
  \<open>ExprIndexProps\<close> shows that optimised, compiled and indexed channels decide like the expression that
  was configured. \<open>ExprParser\<close> is the parser of \<open>src/CampaignSvcs/CampaignServer/ExpressionChannelParser.hpp\<close>;
  its fuel is the length of the text plus one, and \<open>ExprParserProps\<close> proves that this is enough for
  every printed expression.

  \<^bold>\<open>Logs.\<close> \<open>TaskWindow\<close> is \<open>src/Commons/OrderedAsyncTaskWindow.cpp\<close> as a step relation over all
  interleavings of the caller and the completions; \<open>LogLoader\<close> is the record loop of
  \<open>RequestLogLoader.cpp\<close> on top of it. They show that the committed records are always a prefix of
  the completed ones, that no record is lost after an interruption, and that the loop can always end.

  \<^bold>\<open>Billing.\<close> \<open>BillingAmounts\<close> (\<open>BillingContainerState.cpp\<close>), \<open>BillingReplace\<close>, \<open>BillingLimits\<close> and
  \<open>BillingConfirm\<close> (\<open>BillingContainer.cpp\<close> of \<open>src/CampaignSvcs/BillingServer\<close>) model the amounts by day,
  their replacement by the confirmed statistics, the delivery limits and the confirmation of bids with
  its reverts. The other \<open>Billing\<close> theories show that amounts are conserved, budgets are kept, and that
  the replacement in portions is the replacement of each object.

  \<^bold>\<open>Campaign server.\<close> \<open>WeeklyRuns\<close> models the weekly schedules from the rows of the database
  (\<open>CampaignConfigDBSource.cpp\<close>) to the check of a request (\<open>CampaignIndex.cpp\<close>) and shows what the stored
  intervals answer. \<open>StatAmounts\<close> models the statistics of \<open>StatSource.hpp\<close> and shows that their sum adds
  every amount. \<open>ConfigModifier\<close>, \<open>DeliveryTags\<close>, \<open>ConfigUpdate\<close> and \<open>StatHours\<close> translate
  \<open>CampaignConfigModifier.cpp\<close>: the checks of budgets and dates, the delivery of the tags of a throttled
  group, \<open>update_config_\<close> over all accounts, campaigns and groups, and the change of the hour and the day.
  \<open>ActivationProps\<close> shows when accounts and groups are active and what the open time of a day counts,
  \<open>DeliveryProps\<close> that the throttled delivery stays within the limit of the period.

  \<^bold>\<open>Statistics between the services.\<close> \<open>StatIncrements\<close> translates \<open>LogGeneralizerStatDef.hpp\<close> and the
  increments of rows in \<open>LogDbSaverImpl.cpp\<close> (\<open>src/LogProcessing/LogGeneralizer\<close>); \<open>StatUpload\<close> the clients,
  \<open>stop_stat_upload\<close>, \<open>start_stat_upload\<close> and \<open>get_stat_info\<close> of \<open>LogGeneralizerImpl.cpp\<close>, the outcome of
  saving, and the deferred files of \<open>CustomLogProcImpl.hpp\<close>. Its step relation \<open>upload_step\<close> is one log
  generalizer with any number of campaign servers, each of which stops the uploads, reads the database and
  starts them again as \<open>StatDBSource.cpp\<close> does; \<open>StatUploadProps\<close> shows that no row is counted twice or
  lost for a server in any interleaving. \<open>StatSources\<close> is \<open>StatLogGeneralizerSource.cpp\<close>, where the portions
  become statistics, and \<open>StatSourcesProps\<close> shows what is added to which period, and what becomes of a
  negative counter.

  \<^bold>\<open>Conventions.\<close> Decimals come from a library outside the repository: they are a parameter, a record
  of operations with \<open>None\<close> for an overflow, and the properties name the laws of the arithmetic that they
  need (\<open>exact_decimal\<close> and the like), which the witnesses satisfy with concrete numbers. The calendar
  functions of times are parameters too. A loop that the code does not bound is a \<open>partial_function\<close>
  over \<open>option\<close>, and the properties show that it returns. An exception is a value of \<open>option\<close> or of a
  sum, and \<open>noexcept\<close> functions that overflow have no result. Interfaces between levels are locales
  that are interpreted on the definitions of the model.

  \<^bold>\<open>Not modelled.\<close> The front ends and the protocols (CORBA, gRPC, HTTP, JSON, protobuf), the reading
  of the databases and files except for the parts above, the storage of profiles, the search and the
  servers of channels, the log records and their generalisation except for the statistics above, the
  predictor, the tools of the deployment, and the drawing of creatives: they move or format data, or
  rest on libraries outside the repository. Of the modelled services, the selection of campaigns in the
  campaign manager, the optimisation of the minimal rate goal in the billing server, and the change
  detection and the database queries of the campaign server except for the weekly runs are left out.
\<close>

end
